(* ===== verification/Prelude.thy ===== *)
theory Prelude
  imports Main
begin

text \<open>
  Shared vocabulary of the development.

  \<^item> \<open>('e, 'a) result\<close> is the \<open>Result\<close> of \<open>packages/core-domain/src/result.ts\<close> and
    \<open>packages/auth/src/result.ts\<close>, and also what a function that may throw returns: \<open>Inl\<close>
    the error, \<open>Inr\<close> the value.
  \<^item> \<open>('k, 'v) jsmap\<close> is a JavaScript \<open>Map\<close>: an association list in insertion order.
    \<open>map_set\<close> overwrites in place and appends a new key, as \<open>Map.prototype.set\<close> does.
  \<^item> \<open>uniq\<close> is the contents of \<open>new Set(xs)\<close> in insertion order.
  \<^item> \<open>safe_machine\<close> is the interface a lifecycle machine offers its callers: a partial step
    function whose successes are edges of a declared graph. Two components interpret it.
\<close>

named_theorems result_simps \<open>unfolding of the result combinators\<close>

type_synonym ('e, 'a) result = "'e + 'a"
type_synonym ('k, 'v) jsmap = "('k \<times> 'v) list"

subsection \<open>Results\<close>

text \<open>\<open>isOk\<close>, \<open>isErr\<close>, \<open>unwrapOr\<close> and \<open>mapResult\<close> of \<open>result.ts\<close>.\<close>

definition isOk :: "('e, 'a) result \<Rightarrow> bool" where
  [result_simps]: "isOk r = (case r of Inl _ \<Rightarrow> False | Inr _ \<Rightarrow> True)"

definition isErr :: "('e, 'a) result \<Rightarrow> bool" where
  [result_simps]: "isErr r = (\<not> isOk r)"

definition unwrapOr :: "('e, 'a) result \<Rightarrow> 'a \<Rightarrow> 'a" where
  [result_simps]: "unwrapOr r fallback = (case r of Inl _ \<Rightarrow> fallback | Inr v \<Rightarrow> v)"

definition mapResult :: "('e, 'a) result \<Rightarrow> ('a \<Rightarrow> 'b) \<Rightarrow> ('e, 'b) result" where
  [result_simps]: "mapResult r f = (case r of Inl e \<Rightarrow> Inl e | Inr v \<Rightarrow> Inr (f v))"

text \<open>Sequencing of calls that may throw.\<close>

definition bindResult :: "('e, 'a) result \<Rightarrow> ('a \<Rightarrow> ('e, 'b) result) \<Rightarrow> ('e, 'b) result" where
  "bindResult r f = (case r of Inl e \<Rightarrow> Inl e | Inr v \<Rightarrow> f v)"

lemma bindResult_simps [simp]: "bindResult (Inl e) f = Inl e" "bindResult (Inr v) f = f v"
  by (simp_all add: bindResult_def)

lemma bindResult_Inr_iff: "bindResult r f = Inr w \<longleftrightarrow> (\<exists>v. r = Inr v \<and> f v = Inr w)"
  by (cases r) simp_all

lemma isOk_Inr [simp]: "isOk (Inr v)" and isOk_Inl [simp]: "\<not> isOk (Inl e)"
  by (simp_all add: result_simps)

lemma isOk_iff: "isOk r \<longleftrightarrow> (\<exists>v. r = Inr v)"
  by (cases r) simp_all

lemma unwrapOr_mapResult:
  "isOk r \<Longrightarrow> unwrapOr (mapResult r f) d = f (unwrapOr r e)"
  by (cases r) (simp_all add: result_simps)

subsection \<open>JavaScript maps and sets\<close>

definition map_get :: "('k, 'v) jsmap \<Rightarrow> 'k \<Rightarrow> 'v option" where
  "map_get m k = map_of m k"

fun map_set :: "('k, 'v) jsmap \<Rightarrow> 'k \<Rightarrow> 'v \<Rightarrow> ('k, 'v) jsmap" where
  "map_set [] k v = [(k, v)]"
| "map_set ((k', v') # m) k v = (if k' = k then (k, v) # m else (k', v') # map_set m k v)"

definition map_delete :: "('k, 'v) jsmap \<Rightarrow> 'k \<Rightarrow> ('k, 'v) jsmap" where
  "map_delete m k = filter (\<lambda>e. fst e \<noteq> k) m"

definition map_wf :: "('k, 'v) jsmap \<Rightarrow> bool" where
  "map_wf m \<longleftrightarrow> distinct (map fst m)"

lemma map_get_Nil [simp]: "map_get [] k = None"
  by (simp add: map_get_def)

lemma map_get_set [simp]: "map_get (map_set m k v) = (map_get m)(k \<mapsto> v)"
  unfolding map_get_def by (induction m k v rule: map_set.induct) (auto simp: fun_eq_iff)

lemma keys_map_set: "fst ` set (map_set m k v) = insert k (fst ` set m)"
  by (induction m k v rule: map_set.induct) auto

lemma map_wf_set [simp]: "map_wf (map_set m k v) \<longleftrightarrow> map_wf m"
  unfolding map_wf_def by (induction m k v rule: map_set.induct) (auto simp: keys_map_set)

lemma map_get_delete [simp]: "map_get (map_delete m k) = (map_get m)(k := None)"
  unfolding map_get_def map_delete_def
  by (rule ext, induction m) auto

lemma map_wf_delete [simp]: "map_wf m \<Longrightarrow> map_wf (map_delete m k)"
  unfolding map_wf_def map_delete_def by (induction m) auto

lemma map_wf_filter [simp]: "map_wf m \<Longrightarrow> map_wf (filter P m)"
  unfolding map_wf_def by (induction m) auto

lemma map_wf_Nil [simp]: "map_wf []"
  by (simp add: map_wf_def)

lemma map_get_in_set: "map_get m k = Some v \<Longrightarrow> (k, v) \<in> set m"
  unfolding map_get_def by (rule map_of_SomeD)

lemma map_get_eq_Some_iff: "map_wf m \<Longrightarrow> map_get m k = Some v \<longleftrightarrow> (k, v) \<in> set m"
  unfolding map_wf_def map_get_def by (rule map_of_eq_Some_iff)

lemma map_get_None_iff: "map_get m k = None \<longleftrightarrow> k \<notin> fst ` set m"
  unfolding map_get_def by (rule map_of_eq_None_iff)

text \<open>Deleting every entry that fails \<open>P\<close>, as a \<open>for\<close> over the map with \<open>delete\<close> does.\<close>

lemma map_get_filter:
  "map_wf m \<Longrightarrow> map_get (filter (\<lambda>(k, v). P k v) m) k =
     (case map_get m k of None \<Rightarrow> None | Some v \<Rightarrow> if P k v then Some v else None)"
  unfolding map_wf_def map_get_def
  by (induction m) (auto split: option.splits simp: map_of_eq_None_iff image_iff)

fun uniq :: "'a list \<Rightarrow> 'a list" where
  "uniq [] = []"
| "uniq (x # xs) = x # filter (\<lambda>y. y \<noteq> x) (uniq xs)"

lemma set_uniq [simp]: "set (uniq xs) = set xs"
  by (induction xs) auto

lemma distinct_uniq [simp]: "distinct (uniq xs)"
  by (induction xs) auto

lemma length_uniq: "length (uniq xs) = card (set xs)"
  using distinct_card [OF distinct_uniq, of xs] by simp

subsection \<open>Lifecycle machines\<close>

text \<open>
  A machine applies an event to a state and either refuses or moves. \<open>edge\<close> is the graph the
  code declares beside the step function; the law says the two cannot drift apart.
\<close>

locale safe_machine =
  fixes step :: "'s \<Rightarrow> 'e \<Rightarrow> ('err, 's) result"
    and edge :: "'s \<Rightarrow> 's \<Rightarrow> bool"
  assumes step_edge: "step s e = Inr t \<Longrightarrow> edge s t"
begin

fun run :: "'s \<Rightarrow> 'e list \<Rightarrow> 's" where
  "run s [] = s"
| "run s (e # es) = run (case step s e of Inl _ \<Rightarrow> s | Inr t \<Rightarrow> t) es"

lemma run_append: "run s (es @ fs) = run (run s es) fs"
  by (induction es arbitrary: s) simp_all

lemma run_in_closure: "edge\<^sup>*\<^sup>* s (run s es)"
proof (induction es arbitrary: s)
  case Nil
  show ?case by simp
next
  case (Cons e es)
  show ?case
  proof (cases "step s e")
    case (Inl err)
    then show ?thesis using Cons.IH [of s] by simp
  next
    case (Inr t)
    then have "edge s t" by (rule step_edge)
    then show ?thesis using Inr Cons.IH [of t] by (simp add: converse_rtranclp_into_rtranclp)
  qed
qed

lemma run_invariant:
  assumes "P s" and "\<And>a b. edge a b \<Longrightarrow> P a \<Longrightarrow> P b"
  shows "P (run s es)"
  using run_in_closure [of s es] assms(1) by (induction rule: rtranclp_induct) (auto intro: assms(2))

lemma stuck_run:
  assumes "\<And>t. \<not> edge s t"
  shows "run s es = s"
proof (induction es)
  case (Cons e es)
  have "\<exists>err. step s e = Inl err"
    using assms step_edge by (cases "step s e") auto
  then show ?case using Cons by auto
qed simp

text \<open>Any function that strictly drops along the edges bounds how often the state can change.\<close>

fun changes :: "'s \<Rightarrow> 'e list \<Rightarrow> nat" where
  "changes s [] = 0"
| "changes s (e # es) =
     (case step s e of Inl _ \<Rightarrow> changes s es | Inr t \<Rightarrow> Suc (changes t es))"

lemma changes_bounded:
  assumes drop: "\<And>a b. edge a b \<Longrightarrow> rank b < (rank a :: nat)"
  shows "changes s es + rank (run s es) \<le> rank s"
proof (induction es arbitrary: s)
  case Nil
  show ?case by simp
next
  case (Cons e es)
  show ?case
  proof (cases "step s e")
    case (Inl err)
    then show ?thesis using Cons.IH [of s] by simp
  next
    case (Inr t)
    then have "rank t < rank s" by (intro drop step_edge)
    then show ?thesis using Inr Cons.IH [of t] by simp
  qed
qed

end

end
