(* ===== verification/Js_Number.thy ===== *)
theory Js_Number
  imports Prelude "HOL-Library.Log_Nat" "HOL-Library.Multiset" Complex_Main
begin

text \<open>
  JavaScript numbers. A \<open>number\<close> of the source is an IEEE 754 double; the scores, weights,
  percentages and times of the program are doubles, so their model is too.

  A finite double is kept as the rational it denotes (\<open>Fin\<close>), next to \<open>NaN\<close> and the two
  infinities; \<open>-0\<close> and \<open>0\<close> are the same value, which no expression of the modelled code tells
  apart (it never divides by zero and never calls \<open>Object.is\<close>). \<open>round_double\<close> is
  round-to-nearest, ties-to-even, on 53-bit significands with the subnormal spacing
  \<open>2^-1074\<close>, and \<open>dbl\<close> adds the overflow to an infinity. Every arithmetic operation is the
  exact rational operation followed by \<open>dbl\<close>, as the standard prescribes.

  What the clients rely on is the interface \<open>rounding\<close>: rounding is monotone, odd, exact on
  zero and exact on integers up to \<open>2^53\<close>. It is interpreted on \<open>round_double\<close> below.
\<close>

named_theorems js_simps \<open>evaluation of the operations on JavaScript numbers\<close>

subsection \<open>Rounding to an integer, ties to even\<close>

definition round_even :: "rat \<Rightarrow> int" where
  "round_even y =
     (let f = \<lfloor>y\<rfloor>; d = y - of_int f
      in if d < 1/2 then f else if 1/2 < d then f + 1 else if even f then f else f + 1)"

lemma round_even_of_int [simp]: "round_even (of_int k) = k"
  by (simp add: round_even_def)

lemma round_even_bounds: "\<lfloor>y\<rfloor> \<le> round_even y" "round_even y \<le> \<lfloor>y\<rfloor> + 1"
  by (auto simp: round_even_def Let_def)

lemma round_even_near: "\<bar>of_int (round_even y) - y\<bar> \<le> 1/2"
proof -
  have "of_int \<lfloor>y\<rfloor> \<le> y" "y < of_int \<lfloor>y\<rfloor> + 1" by linarith+
  then show ?thesis unfolding round_even_def Let_def by (simp add: abs_if) linarith
qed

lemma round_even_mono:
  assumes "x \<le> y"
  shows "round_even x \<le> round_even y"
proof (cases "\<lfloor>x\<rfloor> = \<lfloor>y\<rfloor>")
  case True
  with assms show ?thesis by (auto simp: round_even_def Let_def)
next
  case False
  with floor_mono [OF assms] have "\<lfloor>x\<rfloor> + 1 \<le> \<lfloor>y\<rfloor>" by linarith
  then show ?thesis using round_even_bounds [of x] round_even_bounds [of y] by linarith
qed

lemma round_even_minus: "round_even (- y) = - round_even y"
proof (cases "y = of_int \<lfloor>y\<rfloor>")
  case True
  then have "round_even y = \<lfloor>y\<rfloor>" by (metis round_even_of_int)
  moreover have "round_even (- y) = - \<lfloor>y\<rfloor>"
    by (metis True of_int_minus round_even_of_int)
  ultimately show ?thesis by simp
next
  case False
  have fl: "\<lfloor>- y\<rfloor> = - \<lfloor>y\<rfloor> - 1"
  proof -
    have "of_int \<lfloor>y\<rfloor> \<le> y" "y < of_int \<lfloor>y\<rfloor> + 1" by linarith+
    with False have "of_int \<lfloor>y\<rfloor> < y" by linarith
    then show ?thesis using \<open>y < of_int \<lfloor>y\<rfloor> + 1\<close> by (intro floor_unique) auto
  qed
  have "even (- \<lfloor>y\<rfloor> - 1) \<longleftrightarrow> odd \<lfloor>y\<rfloor>" by presburger
  then show ?thesis unfolding round_even_def Let_def fl by auto
qed

lemma round_even_le_iff_int: "x \<le> of_int k \<Longrightarrow> round_even x \<le> k"
  using round_even_mono [of x "of_int k"] by simp

lemma round_even_ge_int: "of_int k \<le> x \<Longrightarrow> k \<le> round_even x"
  using round_even_mono [of "of_int k" x] by simp

subsection \<open>The binary exponent\<close>

text \<open>\<open>exponent x\<close> is the \<open>e\<close> with \<open>2^e \<le> \<bar>x\<bar> < 2^(e+1)\<close>, for \<open>x \<noteq> 0\<close>.\<close>

definition exponent :: "rat \<Rightarrow> int" where
  "exponent x =
     (if 1 \<le> \<bar>x\<bar> then int (floorlog 2 (nat \<lfloor>\<bar>x\<bar>\<rfloor>)) - 1
      else - int (floorlog 2 (nat (\<lceil>1 / \<bar>x\<bar>\<rceil> - 1))))"

lemma floorlog2_bounds:
  assumes "0 < n"
  shows "2 ^ (floorlog 2 n - 1) \<le> n" "n < 2 ^ floorlog 2 n" "0 < floorlog 2 n"
  using floorlog_bounds [of n 2] assms by (auto simp: floorlog_def)

lemma pow2_le_rat: "2 ^ k \<le> n \<Longrightarrow> (2::rat) ^ k \<le> of_nat n"
  by (metis of_nat_le_iff of_nat_numeral of_nat_power)

lemma rat_less_pow2: "n < 2 ^ k \<Longrightarrow> of_nat n + 1 \<le> (2::rat) ^ k"
  by (metis Suc_leI add.commute of_nat_Suc of_nat_le_iff of_nat_numeral of_nat_power)

lemma exponent_big:
  assumes "1 \<le> \<bar>x\<bar>"
  shows "2 powi exponent x \<le> \<bar>x\<bar> \<and> \<bar>x\<bar> < 2 powi (exponent x + 1)"
proof -
  define n where "n = nat \<lfloor>\<bar>x\<bar>\<rfloor>"
  have n: "0 < n" using assms by (simp add: n_def)
  have nx: "of_nat n \<le> \<bar>x\<bar>" "\<bar>x\<bar> < of_nat n + 1"
    using assms by (simp_all add: n_def of_nat_nat) linarith+
  have e: "exponent x = int (floorlog 2 n - 1)"
    using assms floorlog2_bounds(3) [OF n] by (simp add: exponent_def n_def)
  have e1: "exponent x + 1 = int (floorlog 2 n)"
    using e floorlog2_bounds(3) [OF n] by simp
  have "2 powi exponent x \<le> \<bar>x\<bar>"
    unfolding e power_int_of_nat
    using pow2_le_rat [OF floorlog2_bounds(1) [OF n]] nx by linarith
  moreover have "\<bar>x\<bar> < 2 powi (exponent x + 1)"
    unfolding e1 power_int_of_nat
    using rat_less_pow2 [OF floorlog2_bounds(2) [OF n]] nx by linarith
  ultimately show ?thesis ..
qed

lemma exponent_small:
  assumes "\<bar>x\<bar> < 1" "x \<noteq> 0"
  shows "2 powi exponent x \<le> \<bar>x\<bar> \<and> \<bar>x\<bar> < 2 powi (exponent x + 1)"
proof -
  define r where "r = 1 / \<bar>x\<bar>"
  have r: "1 < r" using assms by (simp add: r_def)
  define n where "n = nat (\<lceil>r\<rceil> - 1)"
  have c: "1 < \<lceil>r\<rceil>" using r by (simp add: less_ceiling_iff)
  then have n: "0 < n" by (simp add: n_def)
  have nr: "of_nat n < r" "r \<le> of_nat n + 1"
    using c by (simp_all add: n_def of_nat_nat) linarith+
  define k where "k = floorlog 2 n"
  have k: "0 < k" "2 ^ (k - 1) \<le> n" "n < 2 ^ k"
    using floorlog2_bounds [OF n] by (simp_all add: k_def)
  have e: "exponent x = - int k"
    using assms by (simp add: exponent_def k_def n_def r_def)
  have lo: "2 ^ (k - 1) < r" using pow2_le_rat [OF k(2)] nr by linarith
  have hi: "r \<le> 2 ^ k" using rat_less_pow2 [OF k(3)] nr by linarith
  have x: "\<bar>x\<bar> = inverse r" by (simp add: r_def)
  have "inverse (2 ^ k) \<le> inverse r" using hi r by (intro le_imp_inverse_le) auto
  moreover have "inverse r < inverse (2 ^ (k - 1))" using lo r by (intro less_imp_inverse_less) auto
  moreover have "(2::rat) powi (- int k) = inverse (2 ^ k)" by (simp add: power_int_minus)
  moreover have "(2::rat) powi (- int k + 1) = inverse (2 ^ (k - 1))"
  proof -
    have "- int k + 1 = - int (k - 1)" using k(1) by simp
    then show ?thesis by (simp only: power_int_minus power_int_of_nat)
  qed
  ultimately show ?thesis by (simp add: e x)
qed

lemma exponent_bounds:
  assumes "x \<noteq> 0"
  shows "2 powi exponent x \<le> \<bar>x\<bar>" "\<bar>x\<bar> < 2 powi (exponent x + 1)"
  using assms exponent_big [of x] exponent_small [of x] by (cases "1 \<le> \<bar>x\<bar>"; simp)+

lemma exponent_mono:
  assumes "x \<noteq> 0" "\<bar>x\<bar> \<le> \<bar>y\<bar>"
  shows "exponent x \<le> exponent y"
proof (rule ccontr)
  assume "\<not> exponent x \<le> exponent y"
  then have "exponent y + 1 \<le> exponent x" by simp
  then have "(2::rat) powi (exponent y + 1) \<le> 2 powi exponent x"
    by (simp add: power_int_increasing)
  moreover have "y \<noteq> 0" using assms by auto
  ultimately show False
    using exponent_bounds [OF assms(1)] exponent_bounds [OF \<open>y \<noteq> 0\<close>] assms(2) by linarith
qed

lemma exponent_minus [simp]: "exponent (- x) = exponent x"
  by (simp add: exponent_def)

subsection \<open>Rounding to a double\<close>

text \<open>\<open>quantum x\<close> is the spacing of the doubles around \<open>x\<close>.\<close>

definition quantum :: "rat \<Rightarrow> rat" where
  "quantum x = 2 powi max (exponent x - 52) (- 1074)"

definition round_double :: "rat \<Rightarrow> rat" where
  "round_double x = (if x = 0 then 0 else of_int (round_even (x / quantum x)) * quantum x)"

lemma quantum_pos [simp]: "0 < quantum x"
  by (simp add: quantum_def)

lemma quantum_minus [simp]: "quantum (- x) = quantum x"
  by (simp add: quantum_def)

lemma round_double_0 [simp]: "round_double 0 = 0"
  by (simp add: round_double_def)

lemma round_double_minus: "round_double (- x) = - round_double x"
  by (simp add: round_double_def round_even_minus)

lemma powi2_nat: "0 \<le> k \<Longrightarrow> (2::rat) powi k = of_int (2 ^ nat k)"
  by (simp add: power_int_def)

lemma round_double_fixed:
  assumes "x / quantum x = of_int k"
  shows "round_double x = x"
proof -
  have "of_int k * quantum x = x" using assms quantum_pos [of x] by (simp add: field_simps)
  then show ?thesis by (simp add: round_double_def assms)
qed

text \<open>A multiple of \<open>2^k\<close> with at most 53 significant bits is a double.\<close>

lemma round_double_dyadic:
  assumes "\<bar>m\<bar> \<le> 2 ^ 53" "- 1074 \<le> k"
  shows "round_double (of_int m * 2 powi k) = of_int m * 2 powi k"
proof (cases "m = 0")
  case False
  define x where "x = (of_int m * 2 powi k :: rat)"
  have x0: "x \<noteq> 0" using False by (simp add: x_def)
  define q where "q = max (exponent x - 52) (- 1074)"
  have ax: "\<bar>x\<bar> = of_int \<bar>m\<bar> * 2 powi k" by (simp add: x_def abs_mult)
  have le: "of_int \<bar>m\<bar> \<le> (2::rat) ^ 53"
  proof -
    have "(of_int \<bar>m\<bar> :: rat) \<le> of_int (2 ^ 53)" using assms(1) by (simp only: of_int_le_iff)
    then show ?thesis by simp
  qed
  have "2 powi exponent x \<le> (2::rat) ^ 53 * 2 powi k"
  proof -
    have "of_int \<bar>m\<bar> * 2 powi k \<le> (2::rat) ^ 53 * 2 powi k"
      by (rule mult_right_mono [OF le]) simp
    then show ?thesis using exponent_bounds(1) [OF x0] unfolding ax by linarith
  qed
  also have "\<dots> = 2 powi (53 + k)" by (simp add: power_int_add)
  finally have ek: "exponent x \<le> k + 53"
    using power_int_strict_increasing [of "53 + k" "exponent x" "2::rat"] by force
  have quot: "x / quantum x = of_int m * 2 powi (k - q)"
  proof -
    have "quantum x = 2 powi q" by (simp add: quantum_def q_def)
    then show ?thesis by (simp add: x_def power_int_diff)
  qed
  show ?thesis
  proof (cases "q \<le> k")
    case True
    then have "x / quantum x = of_int (m * 2 ^ nat (k - q))" by (simp add: quot powi2_nat)
    then show ?thesis using round_double_fixed x_def by metis
  next
    case False
    then have qk: "q = k + 1" "exponent x = k + 53" using ek assms(2) by (auto simp: q_def)
    have "(2::rat) powi (53 + k) \<le> of_int \<bar>m\<bar> * 2 powi k"
      using exponent_bounds(1) [OF x0] by (simp add: ax qk add.commute)
    then have "(2::rat) ^ 53 \<le> of_int \<bar>m\<bar>" by (simp add: power_int_add)
    then have "(of_int (2 ^ 53) :: rat) \<le> of_int \<bar>m\<bar>" by simp
    then have "2 ^ 53 \<le> \<bar>m\<bar>" by (simp only: of_int_le_iff)
    with assms(1) have m: "\<bar>m\<bar> = 2 ^ 53" by simp
    then have "m = sgn m * 2 ^ 53" by (metis abs_mult_sgn mult.commute)
    then have "(of_int m :: rat) = of_int (sgn m) * 2 ^ 53" by (metis of_int_mult of_int_numeral of_int_power)
    then have "x / quantum x = of_int (sgn m * 2 ^ 52)"
      unfolding quot qk(1) by (simp add: power_int_minus)
    then show ?thesis using round_double_fixed x_def by metis
  qed
qed simp

lemma round_double_int: "\<bar>k\<bar> \<le> 2 ^ 53 \<Longrightarrow> round_double (of_int k) = of_int k"
  using round_double_dyadic [of k 0] by simp

lemma round_double_mono_pos:
  assumes "0 < x" "x \<le> y"
  shows "round_double x \<le> round_double y"
proof -
  have nz: "x \<noteq> 0" "y \<noteq> 0" using assms by auto
  have e: "exponent x \<le> exponent y" using exponent_mono [of x y] assms by simp
  show ?thesis
  proof (cases "quantum x = quantum y")
    case True
    have "x / quantum y \<le> y / quantum y" using assms by (simp add: divide_right_mono less_imp_le)
    then show ?thesis
      using nz True round_even_mono by (simp add: round_double_def mult_right_mono less_imp_le)
  next
    case False
    define q where "q = max (exponent x - 52) (- 1074)"
    have ex: "exponent x < exponent y"
      using e False unfolding quantum_def by (cases "exponent x = exponent y") auto
    have q: "q < exponent y - 52" "quantum y = 2 powi (exponent y - 52)"
      using ex False unfolding quantum_def q_def by (auto simp: max_def split: if_splits)
    have qx: "quantum x = 2 powi q" by (simp add: quantum_def q_def)
    have "x < 2 powi (exponent x + 1)" using exponent_bounds(2) [OF nz(1)] assms by simp
    also have "\<dots> \<le> 2 powi exponent y" using ex by (simp add: power_int_increasing)
    finally have "x / quantum x \<le> 2 powi exponent y / quantum x"
      by (simp add: divide_right_mono less_imp_le)
    also have "\<dots> = of_int (2 ^ nat (exponent y - q))"
      unfolding qx using q(1) by (simp add: powi2_nat flip: power_int_diff)
    finally have "round_even (x / quantum x) \<le> 2 ^ nat (exponent y - q)"
      by (rule round_even_le_iff_int)
    then have "(of_int (round_even (x / quantum x)) :: rat) \<le> of_int (2 ^ nat (exponent y - q))"
      by (simp only: of_int_le_iff)
    also have "\<dots> = 2 powi (exponent y - q)" using q(1) by (simp add: powi2_nat)
    finally have "round_double x \<le> 2 powi (exponent y - q) * 2 powi q"
      using nz by (simp add: round_double_def qx mult_right_mono)
    also have "\<dots> = 2 powi exponent y" by (simp flip: power_int_add)
    finally have lo: "round_double x \<le> 2 powi exponent y" .
    have "2 powi exponent y \<le> y" using exponent_bounds(1) [OF nz(2)] assms by simp
    then have "2 powi exponent y / quantum y \<le> y / quantum y"
      by (simp add: divide_right_mono less_imp_le)
    then have "of_int (2 ^ 52) \<le> y / quantum y"
      unfolding q(2) by (simp flip: power_int_diff)
    then have "2 ^ 52 \<le> round_even (y / quantum y)" by (rule round_even_ge_int)
    then have "(of_int (2 ^ 52) :: rat) \<le> of_int (round_even (y / quantum y))"
      by (simp only: of_int_le_iff)
    then have "2 ^ 52 * quantum y \<le> round_double y"
      using nz by (simp add: round_double_def mult_right_mono)
    moreover have "2 ^ 52 * quantum y = 2 powi exponent y"
      unfolding q(2) by (simp add: power_int_diff)
    ultimately show ?thesis using lo by linarith
  qed
qed

lemma round_double_nonneg: "0 \<le> x \<Longrightarrow> 0 \<le> round_double x"
  using round_even_ge_int [of 0 "x / quantum x"]
  by (simp add: round_double_def less_imp_le)

lemma round_double_mono:
  assumes "x \<le> y"
  shows "round_double x \<le> round_double y"
proof (cases "0 < x")
  case True
  then show ?thesis using assms by (rule round_double_mono_pos)
next
  case False
  show ?thesis
  proof (cases "0 \<le> y")
    case True
    then show ?thesis
      using False round_double_nonneg [of y] round_double_nonneg [of "- x"]
      by (simp add: round_double_minus)
  next
    case neg: False
    then show ?thesis
      using round_double_mono_pos [of "- y" "- x"] assms by (simp add: round_double_minus)
  qed
qed

lemma round_double_idem: "round_double (round_double x) = round_double x"
proof (cases "x = 0")
  case False
  define q where "q = max (exponent x - 52) (- 1074)"
  define m where "m = round_even (x / quantum x)"
  have qx: "quantum x = 2 powi q" by (simp add: quantum_def q_def)
  have "\<bar>x\<bar> \<le> 2 powi (exponent x + 1)" using exponent_bounds(2) [OF False] by simp
  also have "\<dots> \<le> 2 powi (53 + q)" by (rule power_int_increasing) (auto simp: q_def)
  finally have "\<bar>x / quantum x\<bar> \<le> 2 powi (53 + q) / 2 powi q"
    by (simp add: qx abs_divide divide_right_mono)
  then have "\<bar>x / quantum x\<bar> \<le> of_int (2 ^ 53)" by (simp flip: power_int_diff)
  then have "\<bar>m\<bar> \<le> 2 ^ 53"
    using round_even_le_iff_int [of "x / quantum x" "2 ^ 53"]
      round_even_ge_int [of "- (2 ^ 53)" "x / quantum x"]
    unfolding m_def abs_le_iff by simp
  then have "round_double (of_int m * 2 powi q) = of_int m * 2 powi q"
    by (rule round_double_dyadic) (simp add: q_def)
  then show ?thesis using False by (simp add: round_double_def m_def qx)
qed simp

subsection \<open>The rounding interface\<close>

locale rounding =
  fixes rnd :: "rat \<Rightarrow> rat"
  assumes rnd_mono: "x \<le> y \<Longrightarrow> rnd x \<le> rnd y"
    and rnd_minus: "rnd (- x) = - rnd x"
    and rnd_int: "\<bar>k\<bar> \<le> 2 ^ 53 \<Longrightarrow> rnd (of_int k) = of_int k"
    and rnd_idem: "rnd (rnd x) = rnd x"
begin

lemma rnd_0: "rnd 0 = 0"
  using rnd_int [of 0] by simp

lemma rnd_nonneg: "0 \<le> x \<Longrightarrow> 0 \<le> rnd x"
  using rnd_mono [of 0 x] by (simp add: rnd_0)

lemma rnd_ge_int: "\<bar>k\<bar> \<le> 2 ^ 53 \<Longrightarrow> of_int k \<le> x \<Longrightarrow> of_int k \<le> rnd x"
  using rnd_mono [of "of_int k" x] by (simp add: rnd_int)

lemma rnd_le_int: "\<bar>k\<bar> \<le> 2 ^ 53 \<Longrightarrow> x \<le> of_int k \<Longrightarrow> rnd x \<le> of_int k"
  using rnd_mono [of x "of_int k"] by (simp add: rnd_int)

lemma rnd_floor_ge: "\<bar>\<lfloor>x\<rfloor>\<bar> \<le> 2 ^ 53 \<Longrightarrow> \<lfloor>x\<rfloor> \<le> \<lfloor>rnd x\<rfloor>"
  using rnd_ge_int [of "\<lfloor>x\<rfloor>" x] by (simp add: le_floor_iff)

lemma rnd_ceiling_le: "\<bar>\<lceil>x\<rceil>\<bar> \<le> 2 ^ 53 \<Longrightarrow> \<lceil>rnd x\<rceil> \<le> \<lceil>x\<rceil>"
  using rnd_le_int [of "\<lceil>x\<rceil>" x] by (simp add: ceiling_le_iff)

lemma rnd_divide_unit:
  assumes "0 \<le> a" "a \<le> b" "0 < b"
  shows "0 \<le> rnd (a / b)" "rnd (a / b) \<le> 1"
  using rnd_nonneg [of "a / b"] rnd_le_int [of 1 "a / b"] assms by simp_all

end

interpretation double: rounding round_double
  by unfold_locales (auto intro: round_double_mono round_double_minus round_double_int round_double_idem)

subsection \<open>The number type and its operations\<close>

datatype jsnum = NaN | NInf | PInf | Fin (fin_val: rat)

definition dbl :: "rat \<Rightarrow> jsnum" where
  "dbl x =
     (let y = round_double x
      in if 2 ^ 1024 \<le> y then PInf else if y \<le> - (2 ^ 1024) then NInf else Fin y)"

fun isFinite :: "jsnum \<Rightarrow> bool" where
  "isFinite (Fin _) = True"
| "isFinite _ = False"

fun isInteger :: "jsnum \<Rightarrow> bool" where
  "isInteger (Fin r) = (of_int \<lfloor>r\<rfloor> = r)"
| "isInteger _ = False"

fun js_lt :: "jsnum \<Rightarrow> jsnum \<Rightarrow> bool" where
  "js_lt NaN _ = False"
| "js_lt _ NaN = False"
| "js_lt PInf _ = False"
| "js_lt _ NInf = False"
| "js_lt (Fin a) (Fin b) = (a < b)"
| "js_lt _ _ = True"

fun js_le :: "jsnum \<Rightarrow> jsnum \<Rightarrow> bool" where
  "js_le NaN _ = False"
| "js_le _ NaN = False"
| "js_le NInf _ = True"
| "js_le _ PInf = True"
| "js_le (Fin a) (Fin b) = (a \<le> b)"
| "js_le _ _ = False"

text \<open>\<open>===\<close> on numbers: \<open>NaN\<close> equals nothing.\<close>

definition js_eq :: "jsnum \<Rightarrow> jsnum \<Rightarrow> bool" where
  "js_eq a b \<longleftrightarrow> a \<noteq> NaN \<and> a = b"

fun js_neg :: "jsnum \<Rightarrow> jsnum" where
  "js_neg (Fin a) = Fin (- a)"
| "js_neg PInf = NInf"
| "js_neg NInf = PInf"
| "js_neg NaN = NaN"

fun js_abs :: "jsnum \<Rightarrow> jsnum" where
  "js_abs (Fin a) = Fin \<bar>a\<bar>"
| "js_abs NaN = NaN"
| "js_abs _ = PInf"

fun js_add :: "jsnum \<Rightarrow> jsnum \<Rightarrow> jsnum" where
  "js_add (Fin a) (Fin b) = dbl (a + b)"
| "js_add NaN _ = NaN"
| "js_add _ NaN = NaN"
| "js_add PInf NInf = NaN"
| "js_add NInf PInf = NaN"
| "js_add PInf _ = PInf"
| "js_add _ PInf = PInf"
| "js_add NInf _ = NInf"
| "js_add _ NInf = NInf"

definition js_sub :: "jsnum \<Rightarrow> jsnum \<Rightarrow> jsnum" where
  "js_sub a b = js_add a (js_neg b)"

fun js_sgn :: "jsnum \<Rightarrow> int" where
  "js_sgn (Fin a) = (if 0 < a then 1 else if a < 0 then - 1 else 0)"
| "js_sgn PInf = 1"
| "js_sgn NInf = - 1"
| "js_sgn NaN = 0"

definition signed_inf :: "int \<Rightarrow> jsnum" where
  "signed_inf s = (if s = 0 then NaN else if 0 < s then PInf else NInf)"

fun js_mul :: "jsnum \<Rightarrow> jsnum \<Rightarrow> jsnum" where
  "js_mul (Fin a) (Fin b) = dbl (a * b)"
| "js_mul NaN _ = NaN"
| "js_mul _ NaN = NaN"
| "js_mul a b = signed_inf (js_sgn a * js_sgn b)"

fun js_div :: "jsnum \<Rightarrow> jsnum \<Rightarrow> jsnum" where
  "js_div (Fin a) (Fin b) = (if b = 0 then signed_inf (js_sgn (Fin a)) else dbl (a / b))"
| "js_div NaN _ = NaN"
| "js_div _ NaN = NaN"
| "js_div (Fin _) _ = Fin 0"
| "js_div a (Fin b) = signed_inf (js_sgn a * (if b < 0 then - 1 else 1))"
| "js_div _ _ = NaN"

text \<open>\<open>Math.min\<close> and \<open>Math.max\<close> answer \<open>NaN\<close> as soon as one argument is.\<close>

definition js_min :: "jsnum \<Rightarrow> jsnum \<Rightarrow> jsnum" where
  "js_min a b = (if a = NaN \<or> b = NaN then NaN else if js_le a b then a else b)"

definition js_max :: "jsnum \<Rightarrow> jsnum \<Rightarrow> jsnum" where
  "js_max a b = (if a = NaN \<or> b = NaN then NaN else if js_le a b then b else a)"

fun js_floor :: "jsnum \<Rightarrow> jsnum" where
  "js_floor (Fin a) = Fin (of_int \<lfloor>a\<rfloor>)"
| "js_floor x = x"

fun js_ceil :: "jsnum \<Rightarrow> jsnum" where
  "js_ceil (Fin a) = Fin (of_int \<lceil>a\<rceil>)"
| "js_ceil x = x"

text \<open>An integer value of the source.\<close>

definition js_int :: "int \<Rightarrow> jsnum" where
  "js_int k = Fin (of_int k)"

text \<open>
  \<open>Number(x.toFixed(6))\<close> for a finite \<open>x\<close>: the decimal with six fractional digits nearest to
  the exact value of \<open>x\<close> (the larger one on a tie, of magnitudes), read back as a double. From
  \<open>1e21\<close> on, \<open>toFixed\<close> prints the number itself.
\<close>

definition dec6 :: "rat \<Rightarrow> rat" where
  "dec6 x = sgn x * of_int \<lfloor>\<bar>x\<bar> * 10 ^ 6 + 1/2\<rfloor> / 10 ^ 6"

definition toFixed6 :: "rat \<Rightarrow> jsnum" where
  "toFixed6 x = (if 10 ^ 21 \<le> \<bar>x\<bar> then Fin x else dbl (dec6 x))"

subsection \<open>Order\<close>

lemma js_le_refl [simp]: "js_le a a \<longleftrightarrow> a \<noteq> NaN"
  by (cases a) auto

lemma js_le_trans: "js_le a b \<Longrightarrow> js_le b c \<Longrightarrow> js_le a c"
  by (cases a; cases b; cases c) auto

lemma js_le_not_NaN: "js_le a b \<Longrightarrow> a \<noteq> NaN \<and> b \<noteq> NaN"
  by (cases a; cases b) auto

lemma js_le_linear: "a \<noteq> NaN \<Longrightarrow> b \<noteq> NaN \<Longrightarrow> js_le a b \<or> js_le b a"
  by (cases a; cases b) auto

lemma js_le_antisym: "js_le a b \<Longrightarrow> js_le b a \<Longrightarrow> a = b"
  by (cases a; cases b) auto

lemma js_lt_iff_not_le: "a \<noteq> NaN \<Longrightarrow> b \<noteq> NaN \<Longrightarrow> js_lt a b \<longleftrightarrow> \<not> js_le b a"
  by (cases a; cases b) auto

lemma js_le_Fin_between:
  "js_le (Fin a) x \<Longrightarrow> js_le x (Fin b) \<Longrightarrow> \<exists>r. x = Fin r \<and> a \<le> r \<and> r \<le> b"
  by (cases x) auto

lemma js_le_PInf [simp]: "js_le a PInf \<longleftrightarrow> a \<noteq> NaN"
  by (cases a) auto

lemma js_le_NInf [simp]: "js_le NInf a \<longleftrightarrow> a \<noteq> NaN"
  by (cases a) auto

lemma dbl_not_NaN [simp]: "dbl x \<noteq> NaN"
  by (simp add: dbl_def Let_def)

lemma dbl_mono: "x \<le> y \<Longrightarrow> js_le (dbl x) (dbl y)"
  using double.rnd_mono [of x y] by (auto simp: dbl_def Let_def)

lemma dbl_bounded:
  assumes "\<bar>x\<bar> \<le> 2 ^ 1000"
  shows "dbl x = Fin (round_double x)"
proof -
  have "round_double (2 ^ 1000) = 2 ^ 1000"
    using round_double_dyadic [of 1 1000] by (simp add: power_int_def)
  then have "round_double x \<le> 2 ^ 1000" "- (2 ^ 1000) \<le> round_double x"
    using assms double.rnd_mono [of x "2 ^ 1000"] double.rnd_mono [of "- (2 ^ 1000)" x]
    by (auto simp: double.rnd_minus abs_le_iff)
  moreover have "(2::rat) ^ 1000 < 2 ^ 1024" by (rule power_strict_increasing) simp_all
  ultimately show ?thesis unfolding dbl_def Let_def by auto
qed

lemma dbl_int:
  assumes "\<bar>k\<bar> \<le> 2 ^ 53"
  shows "dbl (of_int k) = Fin (of_int k)"
proof -
  have "\<bar>of_int k :: rat\<bar> \<le> of_int (2 ^ 53)" using assms by (simp only: of_int_abs [symmetric] of_int_le_iff)
  also have "\<dots> \<le> 2 ^ 1000" by simp
  finally show ?thesis using assms by (simp add: dbl_bounded double.rnd_int)
qed

lemma dbl_0 [simp]: "dbl 0 = Fin 0"
  using dbl_int [of 0] by simp

lemma dbl_1 [simp]: "dbl 1 = Fin 1"
  using dbl_int [of 1] by simp

lemma dbl_numeral [js_simps]: "numeral k \<le> (2 ^ 53 :: int) \<Longrightarrow> dbl (numeral k) = Fin (numeral k)"
  using dbl_int [of "numeral k"] by simp

lemma dbl_nonneg: "0 \<le> x \<Longrightarrow> js_le (Fin 0) (dbl x)"
  using dbl_mono [of 0 x] by simp

lemma dbl_Fin_eq: "dbl x = Fin y \<Longrightarrow> y = round_double x"
  by (simp add: dbl_def Let_def split: if_splits)

subsection \<open>Monotone arithmetic\<close>

abbreviation js_nonneg :: "jsnum \<Rightarrow> bool" where
  "js_nonneg x \<equiv> js_le (Fin 0) x"

lemma js_add_mono:
  assumes "js_le a b" "js_le c d" "js_nonneg a" "js_nonneg c"
  shows "js_le (js_add a c) (js_add b d)"
  using assms by (cases a; cases b; cases c; cases d) (auto intro: dbl_mono)

lemma js_add_nonneg: "js_nonneg a \<Longrightarrow> js_nonneg b \<Longrightarrow> js_nonneg (js_add a b)"
  using js_add_mono [of "Fin 0" a "Fin 0" b] by simp

lemma js_mul_nonneg:
  assumes "js_nonneg (Fin a)" "js_nonneg (Fin b)"
  shows "js_nonneg (js_mul (Fin a) (Fin b))"
  using assms by (simp add: dbl_nonneg)

lemma js_mul_mono_right:
  assumes "0 \<le> w" "a \<le> b"
  shows "js_le (js_mul (Fin w) (Fin a)) (js_mul (Fin w) (Fin b))"
  using assms by (simp add: dbl_mono mult_left_mono)

lemma js_div_unit:
  assumes "js_nonneg a" "js_le a b" "js_lt (Fin 0) b" "js_div a b \<noteq> NaN"
  shows "\<exists>r. js_div a b = Fin r \<and> 0 \<le> r \<and> r \<le> 1"
proof (cases b)
  case (Fin y)
  with assms obtain x where x: "a = Fin x" "0 \<le> x" "x \<le> y" "0 < y" by (cases a) auto
  then have "js_nonneg (dbl (x / y))" "js_le (dbl (x / y)) (Fin 1)"
    using dbl_nonneg [of "x / y"] dbl_mono [of "x / y" 1] by simp_all
  then have "\<exists>r. dbl (x / y) = Fin r \<and> 0 \<le> r \<and> r \<le> 1" by (rule js_le_Fin_between)
  then show ?thesis using x Fin by simp
qed (use assms in \<open>cases a; auto\<close>)+

lemma dec6_minus: "dec6 (- x) = - dec6 x"
  by (simp add: dec6_def)

lemma dec6_int: "dec6 (of_int k) = of_int k"
proof -
  have f: "\<lfloor>\<bar>of_int k :: rat\<bar> * 10 ^ 6 + 1/2\<rfloor> = \<bar>k\<bar> * 10 ^ 6"
    by (intro floor_unique) auto
  show ?thesis unfolding dec6_def f by (simp add: sgn_if abs_if)
qed

lemma dec6_nonneg: "0 \<le> x \<Longrightarrow> 0 \<le> dec6 x"
  by (simp add: dec6_def sgn_if)

lemma dec6_mono_nonneg: "0 \<le> x \<Longrightarrow> x \<le> y \<Longrightarrow> dec6 x \<le> dec6 y"
  by (auto simp: dec6_def sgn_if divide_right_mono floor_mono)

lemma dec6_mono:
  assumes "x \<le> y"
  shows "dec6 x \<le> dec6 y"
proof (cases "0 \<le> x")
  case True
  then show ?thesis using assms by (rule dec6_mono_nonneg)
next
  case False
  then show ?thesis
    using assms dec6_mono_nonneg [of "- y" "- x"] dec6_nonneg [of y] dec6_nonneg [of "- x"]
    by (cases "0 \<le> y") (simp_all add: dec6_minus)
qed

lemma double_1e21: "round_double (10 ^ 21) = 10 ^ 21"
  using round_double_dyadic [of "5 ^ 21" 21] by (simp add: power_int_def)

lemma dec6_bound: "\<bar>x\<bar> \<le> 10 ^ 21 \<Longrightarrow> \<bar>dec6 x\<bar> \<le> 10 ^ 21"
  using dec6_mono [of x "10 ^ 21"] dec6_mono [of "- (10 ^ 21)" x] dec6_int [of "10 ^ 21"]
  by (simp add: dec6_minus abs_le_iff)

lemma toFixed6_finite:
  assumes "\<bar>x\<bar> < 10 ^ 21"
  shows "toFixed6 x = Fin (round_double (dec6 x))"
proof -
  have "(10::rat) ^ 21 \<le> 2 ^ 1000" by simp
  with dec6_bound [of x] assms have "\<bar>dec6 x\<bar> \<le> 2 ^ 1000" by linarith
  then show ?thesis using assms by (simp add: toFixed6_def dbl_bounded)
qed

lemma toFixed6_is_Fin: "\<exists>r. toFixed6 x = Fin r"
  using toFixed6_finite [of x] by (cases "\<bar>x\<bar> < 10 ^ 21") (auto simp: toFixed6_def)

lemma toFixed6_mono:
  assumes "x \<le> y"
  shows "js_le (toFixed6 x) (toFixed6 y)"
proof -
  have lim: "\<bar>round_double (dec6 z)\<bar> \<le> 10 ^ 21" if "\<bar>z\<bar> < 10 ^ 21" for z
  proof -
    have d: "dec6 z \<le> 10 ^ 21" "- (10 ^ 21) \<le> dec6 z"
      using dec6_bound [of z] that by linarith+
    show ?thesis
      using double.rnd_mono [OF d(1)] double.rnd_mono [OF d(2)]
      unfolding double.rnd_minus double_1e21 by (simp only: abs_le_iff minus_le_iff)
  qed
  have m: "round_double (dec6 x) \<le> round_double (dec6 y)"
    by (intro double.rnd_mono dec6_mono assms)
  define g where "g z = (if \<bar>z\<bar> < 10 ^ 21 then round_double (dec6 z) else z)" for z
  have "toFixed6 z = Fin (g z)" for z
    using toFixed6_finite [of z] by (simp add: g_def toFixed6_def)
  moreover have "g x \<le> g y"
  proof (cases "\<bar>x\<bar> < 10 ^ 21")
    case x: True
    show ?thesis
    proof (cases "\<bar>y\<bar> < 10 ^ 21")
      case True
      with x m show ?thesis by (simp add: g_def)
    next
      case False
      with x lim [OF x] assms have "round_double (dec6 x) \<le> y" by linarith
      with x False show ?thesis unfolding g_def by (simp only: if_True if_False)
    qed
  next
    case x: False
    show ?thesis
    proof (cases "\<bar>y\<bar> < 10 ^ 21")
      case True
      with x lim [OF True] assms have "x \<le> round_double (dec6 y)" by linarith
      with x True show ?thesis unfolding g_def by (simp only: if_True if_False)
    next
      case False
      with x assms show ?thesis by (simp add: g_def)
    qed
  qed
  ultimately show ?thesis by simp
qed

lemma toFixed6_int: "\<bar>k\<bar> \<le> 2 ^ 53 \<Longrightarrow> toFixed6 (of_int k) = Fin (of_int k)"
  by (simp add: toFixed6_def dec6_int dbl_int)

lemma toFixed6_0 [simp]: "toFixed6 0 = Fin 0" and toFixed6_1 [simp]: "toFixed6 1 = Fin 1"
  using toFixed6_int [of 0] toFixed6_int [of 1] by simp_all

lemma toFixed6_numeral [js_simps]:
  "numeral k \<le> (2 ^ 53 :: int) \<Longrightarrow> toFixed6 (numeral k) = Fin (numeral k)"
  using toFixed6_int [of "numeral k"] by simp

lemma toFixed6_unit:
  assumes "0 \<le> x" "x \<le> 1"
  shows "\<exists>r. toFixed6 x = Fin r \<and> 0 \<le> r \<and> r \<le> 1"
  using toFixed6_mono [OF assms(1)] toFixed6_mono [OF assms(2)] js_le_Fin_between by simp

text \<open>
  Dividing an integer by a small integer and rounding up is exact: the double nearest to a
  quotient that is not an integer lies strictly above the integer below it.
\<close>

lemma round_double_above:
  assumes "\<bar>k\<bar> \<le> 2 ^ 42" "of_int k + 1/1024 \<le> x"
  shows "of_int k < round_double x"
proof -
  have "\<bar>k * 1024 + 1\<bar> \<le> 2 ^ 53" using assms(1) by (simp add: abs_if split: if_splits)
  then have "round_double (of_int (k * 1024 + 1) * 2 powi (- 10)) = of_int (k * 1024 + 1) * 2 powi (- 10)"
    by (rule round_double_dyadic) simp
  moreover have "of_int (k * 1024 + 1) * 2 powi (- 10) = (of_int k + 1/1024 :: rat)"
    by (simp add: power_int_minus field_simps)
  ultimately have "of_int k + 1/1024 \<le> round_double x"
    using double.rnd_mono [OF assms(2)] by metis
  then show ?thesis by linarith
qed

lemma quotient_above_floor:
  assumes "0 < m" "m \<le> 1024" "n mod m \<noteq> 0"
  shows "of_int (n div m) + 1/1024 \<le> (of_int n / of_int m :: rat)"
proof -
  have "1 \<le> n mod m" using assms pos_mod_sign [OF assms(1), of n] by linarith
  then have "n div m * m + 1 \<le> n" using div_mult_mod_eq [of n m] by linarith
  then have "(of_int (n div m * m + 1) :: rat) \<le> of_int n" by (simp only: of_int_le_iff)
  then have "(of_int (n div m) * of_int m + 1) / of_int m \<le> (of_int n / of_int m :: rat)"
    using assms(1) by (intro divide_right_mono) auto
  then have "of_int (n div m) + 1 / of_int m \<le> (of_int n / of_int m :: rat)"
    using assms(1) by (simp add: add_divide_distrib)
  moreover have "(1/1024 :: rat) \<le> 1 / of_int m"
    using assms(1,2) by (intro divide_left_mono) auto
  ultimately show ?thesis by linarith
qed

lemma round_double_quotient_ceiling:
  assumes "0 < m" "m \<le> 1024" "\<bar>n div m\<bar> \<le> 2 ^ 42"
  shows "\<lceil>round_double (of_int n / of_int m)\<rceil> = \<lceil>of_int n / of_int m :: rat\<rceil>"
proof (cases "n mod m = 0")
  case True
  then have "(of_int n / of_int m :: rat) = of_int (n div m)"
    using assms(1) by (simp add: of_int_div dvd_eq_mod_eq_0)
  moreover have "\<bar>n div m\<bar> \<le> 2 ^ 53" using assms(3) by simp
  ultimately show ?thesis by (simp add: double.rnd_int)
next
  case False
  note lo = quotient_above_floor [OF assms(1,2) False]
  have up: "(of_int n / of_int m :: rat) \<le> of_int (n div m + 1)"
  proof -
    have "n \<le> (n div m + 1) * m"
      using div_mult_mod_eq [of n m] pos_mod_bound [OF assms(1), of n]
      unfolding distrib_right by linarith
    then have "(of_int n :: rat) \<le> of_int ((n div m + 1) * m)" by (simp only: of_int_le_iff)
    then show ?thesis using assms(1) by (simp add: field_simps)
  qed
  have "\<bar>n div m + 1\<bar> \<le> 2 ^ 53" using assms(3) by simp
  then have "round_double (of_int n / of_int m) \<le> of_int (n div m + 1)"
    using double.rnd_le_int up by blast
  moreover have "of_int (n div m) < round_double (of_int n / of_int m)"
    using round_double_above [OF assms(3) lo] .
  ultimately have "\<lceil>round_double (of_int n / of_int m)\<rceil> = n div m + 1"
    by (intro ceiling_unique) auto
  moreover have "\<lceil>of_int n / of_int m :: rat\<rceil> = n div m + 1"
    using lo up by (intro ceiling_unique) auto
  ultimately show ?thesis by simp
qed

lemmas js_order = js_le_trans js_le_not_NaN js_le_antisym

subsection \<open>Relative error\<close>

text \<open>Away from the subnormals rounding moves a number by at most one part in \<open>2^53\<close>.\<close>

definition unit_roundoff :: rat where
  "unit_roundoff = 1 / 2 ^ 53"

lemma round_double_near: "x \<noteq> 0 \<Longrightarrow> \<bar>round_double x - x\<bar> \<le> quantum x / 2"
proof -
  assume x: "x \<noteq> 0"
  define y where "y = x / quantum x"
  have "round_double x - x = (of_int (round_even y) - y) * quantum x"
    using x by (simp add: round_double_def y_def left_diff_distrib quantum_def)
  then have "\<bar>round_double x - x\<bar> = \<bar>of_int (round_even y) - y\<bar> * quantum x"
    by (simp only: abs_mult abs_of_pos [OF quantum_pos])
  also have "\<dots> \<le> 1/2 * quantum x"
    by (rule mult_right_mono [OF round_even_near]) (simp add: less_imp_le)
  finally show ?thesis by simp
qed

lemma round_double_relative:
  assumes "1 / 2 ^ 100 \<le> \<bar>x\<bar>"
  shows "\<bar>round_double x - x\<bar> \<le> unit_roundoff * \<bar>x\<bar>"
proof -
  have x0: "x \<noteq> 0" using assms by auto
  have "(1 / 2 ^ 100 :: rat) = 2 powi (- 100)" by (simp add: power_int_def field_simps)
  then have "(2::rat) powi (- 100) < 2 powi (exponent x + 1)"
    using assms exponent_bounds(2) [OF x0] by linarith
  then have "- 100 < exponent x + 1"
    using power_int_increasing [of "exponent x + 1" "- 100" "2::rat"] by force
  then have "max (exponent x - 52) (- 1074) = exponent x - 52" by simp
  then have "quantum x = 2 powi (exponent x - 52)" by (simp only: quantum_def)
  then have "quantum x / 2 = unit_roundoff * 2 powi exponent x"
    by (simp add: power_int_diff unit_roundoff_def)
  also have "\<dots> \<le> unit_roundoff * \<bar>x\<bar>"
    by (rule mult_left_mono [OF exponent_bounds(1) [OF x0]]) (simp add: unit_roundoff_def)
  finally show ?thesis using round_double_near [OF x0] by linarith
qed

lemma round_double_factor:
  assumes "1 / 2 ^ 100 \<le> x"
  shows "(1 - unit_roundoff) * x \<le> round_double x" "round_double x \<le> (1 + unit_roundoff) * x"
proof -
  have "0 < x" by (rule less_le_trans [OF _ assms]) simp
  then show "(1 - unit_roundoff) * x \<le> round_double x" "round_double x \<le> (1 + unit_roundoff) * x"
    using round_double_relative [of x] assms by (simp_all add: algebra_simps abs_le_iff)
qed

lemma roundoff_pos: "0 < unit_roundoff" "unit_roundoff < 1"
  by (simp_all add: unit_roundoff_def)

subsection \<open>Values that are doubles\<close>

text \<open>Every value the program computes is a double; adding zero to one changes nothing.\<close>

definition is_double :: "jsnum \<Rightarrow> bool" where
  "is_double v \<longleftrightarrow> (\<forall>r. v = Fin r \<longrightarrow> dbl r = Fin r)"

lemma is_double_dbl [simp]: "is_double (dbl x)"
proof -
  have "dbl (round_double x) = Fin (round_double x)" if "dbl x = Fin (round_double x)"
    using that unfolding dbl_def Let_def double.rnd_idem by auto
  then show ?thesis unfolding is_double_def using dbl_Fin_eq by blast
qed

lemma is_double_0 [simp]: "is_double (Fin 0)" and is_double_1 [simp]: "is_double (Fin 1)"
  by (simp_all add: is_double_def)

lemma is_double_nonfinite [simp]: "is_double NaN" "is_double PInf" "is_double NInf"
  by (simp_all add: is_double_def)

lemma is_double_add [simp]: "is_double (js_add a b)"
  by (cases a; cases b) simp_all

lemma is_double_signed_inf [simp]: "is_double (signed_inf k)"
  by (simp add: signed_inf_def)

lemma is_double_mul [simp]: "is_double (js_mul a b)"
  by (cases a; cases b) simp_all

lemma is_double_js_int: "\<bar>k\<bar> \<le> 2 ^ 53 \<Longrightarrow> is_double (js_int k)"
  by (simp add: is_double_def js_int_def dbl_int)

lemma js_add_0: "is_double a \<Longrightarrow> js_add a (Fin 0) = a"
  by (cases a) (simp_all add: is_double_def)

lemma js_le_add:
  assumes "is_double a" "js_nonneg a" "js_le a b" "js_nonneg c"
  shows "js_le a (js_add b c)"
  using js_add_mono [of a b "Fin 0" c] assms by (simp add: js_add_0)

lemma round_double_pow2:
  assumes "\<bar>x\<bar> \<le> 2 ^ k"
  shows "\<bar>round_double x\<bar> \<le> 2 ^ k"
proof -
  have "round_double (2 ^ k) = 2 ^ k" using round_double_dyadic [of 1 "int k"] by simp
  then show ?thesis
    using double.rnd_mono [of x "2 ^ k"] double.rnd_mono [of "- (2 ^ k)" x] assms
    by (simp add: double.rnd_minus abs_le_iff)
qed

lemma dbl_pow2: "\<bar>x\<bar> \<le> 2 ^ k \<Longrightarrow> k \<le> 1000 \<Longrightarrow> dbl x = Fin (round_double x)"
  by (rule dbl_bounded, erule order_trans) (rule power_increasing, simp_all)

subsection \<open>Sorting with a comparator\<close>

text \<open>
  \<open>Array.prototype.sort\<close> with a comparator is a stable sort; a comparator answer that is not
  a positive number (\<open>NaN\<close> included, which the language reads as zero) keeps the order.
\<close>

fun insert_by :: "('a \<Rightarrow> 'a \<Rightarrow> jsnum) \<Rightarrow> 'a \<Rightarrow> 'a list \<Rightarrow> 'a list" where
  "insert_by cmp x [] = [x]"
| "insert_by cmp x (y # ys) = (if js_lt (Fin 0) (cmp x y) then y # insert_by cmp x ys else x # y # ys)"

definition js_sort :: "('a \<Rightarrow> 'a \<Rightarrow> jsnum) \<Rightarrow> 'a list \<Rightarrow> 'a list" where
  "js_sort cmp xs = foldr (insert_by cmp) xs []"

lemma mset_insert_by [simp]: "mset (insert_by cmp x ys) = add_mset x (mset ys)"
  by (induction ys) auto

lemma mset_js_sort [simp]: "mset (js_sort cmp xs) = mset xs"
  unfolding js_sort_def by (induction xs) auto

lemma set_js_sort [simp]: "set (js_sort cmp xs) = set xs"
  by (metis mset_js_sort set_mset_mset)

lemma length_js_sort [simp]: "length (js_sort cmp xs) = length xs"
  by (metis mset_js_sort size_mset)

lemma distinct_js_sort [simp]: "distinct (js_sort cmp xs) \<longleftrightarrow> distinct xs"
  by (metis mset_js_sort mset_eq_imp_distinct_iff)

end
