(* ===== verification/Js_String.thy ===== *)
theory Js_String
  imports Prelude "HOL-Library.Sublist"
begin

text \<open>
  JavaScript strings as lists of code units. The model's strings are \<open>string\<close>s, so a code unit
  is one of the 256 Latin-1 characters: every string operation below is exact on such strings
  (\<open>length\<close> counts code units, \<open>trim\<close> and \<open>\s\<close> know the Latin-1 white space, including the
  no-break space), and a string with a code unit above \<open>0xFF\<close> is outside the model.
\<close>

named_theorems string_simps \<open>evaluation of the string operations\<close>

subsection \<open>White space, case, digits\<close>

definition is_ws :: "char \<Rightarrow> bool" where
  [string_simps]: "is_ws c \<longleftrightarrow> (of_char c :: nat) \<in> {9, 10, 11, 12, 13, 32, 160}"

text \<open>The bytes of a text.\<close>

definition utf8_unit :: "char \<Rightarrow> nat list" where
  "utf8_unit c = (let n = of_char c in if n < 128 then [n] else [192 + n div 64, 128 + n mod 64])"

definition utf8 :: "string \<Rightarrow> nat list" where
  "utf8 s = concat (map utf8_unit s)"

definition is_digit :: "char \<Rightarrow> bool" where
  [string_simps]: "is_digit c \<longleftrightarrow> 48 \<le> (of_char c :: nat) \<and> (of_char c :: nat) \<le> 57"

definition is_upper :: "char \<Rightarrow> bool" where
  [string_simps]: "is_upper c \<longleftrightarrow> 65 \<le> (of_char c :: nat) \<and> (of_char c :: nat) \<le> 90"

definition is_lower :: "char \<Rightarrow> bool" where
  [string_simps]: "is_lower c \<longleftrightarrow> 97 \<le> (of_char c :: nat) \<and> (of_char c :: nat) \<le> 122"

definition is_alpha :: "char \<Rightarrow> bool" where
  [string_simps]: "is_alpha c \<longleftrightarrow> is_upper c \<or> is_lower c"

text \<open>\<open>toLowerCase\<close> on a Latin-1 code unit: \<open>A-Z\<close> and the capitals \<open>C0-DE\<close> except \<open>D7\<close>.\<close>

definition lower_char :: "char \<Rightarrow> char" where
  [string_simps]: "lower_char c =
     (let n = of_char c :: nat
      in if (65 \<le> n \<and> n \<le> 90) \<or> (192 \<le> n \<and> n \<le> 222 \<and> n \<noteq> 215) then char_of (n + 32) else c)"

definition toLowerCase :: "string \<Rightarrow> string" where
  [string_simps]: "toLowerCase s = map lower_char s"

subsection \<open>Trimming\<close>

definition trimStart :: "string \<Rightarrow> string" where
  [string_simps]: "trimStart s = dropWhile is_ws s"

definition trimEnd :: "string \<Rightarrow> string" where
  [string_simps]: "trimEnd s = rev (dropWhile is_ws (rev s))"

definition trim :: "string \<Rightarrow> string" where
  [string_simps]: "trim s = trimEnd (trimStart s)"

lemma trim_empty_iff: "trim s = [] \<longleftrightarrow> (\<forall>c \<in> set s. is_ws c)"
proof
  assume "trim s = []"
  then have end_ws: "\<forall>c \<in> set (dropWhile is_ws s). is_ws c"
    by (simp add: trim_def trimEnd_def trimStart_def dropWhile_eq_Nil_conv)
  show "\<forall>c \<in> set s. is_ws c"
  proof (rule ccontr)
    assume "\<not> (\<forall>c \<in> set s. is_ws c)"
    then have "dropWhile is_ws s \<noteq> []" by (simp add: dropWhile_eq_Nil_conv)
    then have "\<not> is_ws (hd (dropWhile is_ws s))" by (rule hd_dropWhile)
    with end_ws \<open>dropWhile is_ws s \<noteq> []\<close> show False by (simp add: list.set_sel(1))
  qed
next
  assume "\<forall>c \<in> set s. is_ws c"
  then show "trim s = []"
    by (auto simp: trim_def trimEnd_def trimStart_def dropWhile_eq_Nil_conv dest: set_dropWhileD)
qed

lemma trimEnd_append_ws:
  assumes "\<forall>c \<in> set w. is_ws c"
  shows "trimEnd (s @ w) = trimEnd s"
proof -
  have "dropWhile is_ws (rev w @ rev s) = dropWhile is_ws (rev s)"
    by (rule dropWhile_append2) (use assms in simp)
  then show ?thesis by (simp add: trimEnd_def)
qed

lemma trim_prepend_ws: "\<forall>c \<in> set w. is_ws c \<Longrightarrow> trim (w @ s) = trim s"
  by (simp add: trim_def trimStart_def dropWhile_append2)

lemma trimStart_id: "(s \<noteq> [] \<Longrightarrow> \<not> is_ws (hd s)) \<Longrightarrow> trimStart s = s"
  by (cases s) (simp_all add: trimStart_def)

lemma trimEnd_id: "(s \<noteq> [] \<Longrightarrow> \<not> is_ws (last s)) \<Longrightarrow> trimEnd s = s"
  by (cases s rule: rev_cases) (simp_all add: trimEnd_def)

lemma trimEnd_last: "trimEnd s \<noteq> [] \<Longrightarrow> \<not> is_ws (last (trimEnd s))"
  using hd_dropWhile [of is_ws "rev s"] by (simp add: trimEnd_def last_rev)

lemma trimEnd_prefix: "prefix (trimEnd s) s"
proof -
  have "rev s = takeWhile is_ws (rev s) @ dropWhile is_ws (rev s)" by simp
  then have "s = rev (dropWhile is_ws (rev s)) @ rev (takeWhile is_ws (rev s))"
    by (metis rev_append rev_rev_ident)
  then show ?thesis unfolding trimEnd_def prefix_def by blast
qed

lemma trim_last: "trim s \<noteq> [] \<Longrightarrow> \<not> is_ws (last (trim s))"
  unfolding trim_def by (rule trimEnd_last)

lemma trim_hd: "trim s \<noteq> [] \<Longrightarrow> \<not> is_ws (hd (trim s))"
proof -
  assume ne: "trim s \<noteq> []"
  obtain r where r: "trimStart s = trim s @ r"
    using trimEnd_prefix [of "trimStart s"] by (auto simp: trim_def prefix_def)
  with ne have "trimStart s \<noteq> []" "hd (trimStart s) = hd (trim s)" by auto
  then show ?thesis using hd_dropWhile [of is_ws s] by (simp add: trimStart_def)
qed

lemma trim_idem [simp]: "trim (trim s) = trim s"
  using trim_hd [of s] trim_last [of s]
  by (simp add: trim_def [of "trim s"] trimStart_id trimEnd_id)

lemma set_trim: "set (trim s) \<subseteq> set s"
  using set_mono_prefix [OF trimEnd_prefix [of "trimStart s"]]
  by (auto simp: trim_def trimStart_def dest: set_dropWhileD)

subsection \<open>Splitting and joining on a character\<close>

fun splitOn :: "char \<Rightarrow> string \<Rightarrow> string list" where
  "splitOn c [] = [[]]"
| "splitOn c (x # xs) =
     (if x = c then [] # splitOn c xs
      else (case splitOn c xs of [] \<Rightarrow> [[x]] | y # ys \<Rightarrow> (x # y) # ys))"

fun joinWith :: "char \<Rightarrow> string list \<Rightarrow> string" where
  "joinWith c [] = []"
| "joinWith c [x] = x"
| "joinWith c (x # y # ys) = x @ c # joinWith c (y # ys)"

lemma splitOn_ne [simp]: "splitOn c s \<noteq> []"
  by (induction s) (auto split: list.splits)

lemma joinWith_Cons: "ys \<noteq> [] \<Longrightarrow> joinWith c (x # ys) = x @ c # joinWith c ys"
  by (cases ys) simp_all

lemma joinWith_splitOn [simp]: "joinWith c (splitOn c s) = s"
proof (induction s)
  case (Cons x xs)
  obtain y ys where y: "splitOn c xs = y # ys" using splitOn_ne by (cases "splitOn c xs") auto
  with Cons show ?case by (cases ys) (auto simp: joinWith_Cons)
qed simp

lemma splitOn_no_sep: "x \<in> set (splitOn c s) \<Longrightarrow> c \<notin> set x"
proof (induction s arbitrary: x)
  case (Cons a s)
  obtain y ys where "splitOn c s = y # ys" using splitOn_ne by (cases "splitOn c s") auto
  with Cons show ?case by (auto split: if_splits)
qed simp

lemma splitOn_subset: "x \<in> set (splitOn c s) \<Longrightarrow> set x \<subseteq> set s"
proof (induction s arbitrary: x)
  case (Cons a s)
  obtain y ys where y: "splitOn c s = y # ys" using splitOn_ne by (cases "splitOn c s") auto
  show ?case using Cons.prems Cons.IH [of y] Cons.IH [of x] y by (auto split: if_splits)
qed simp

lemma splitOn_single: "c \<notin> set s \<Longrightarrow> splitOn c s = [s]"
  by (induction s) auto

lemma splitOn_append: "c \<notin> set s \<Longrightarrow> splitOn c (s @ c # t) = s # splitOn c t"
  by (induction s) auto

lemma splitOn_joinWith:
  assumes "xs \<noteq> []" "\<forall>x \<in> set xs. c \<notin> set x"
  shows "splitOn c (joinWith c xs) = xs"
  using assms
  by (induction c xs rule: joinWith.induct) (auto simp: splitOn_single splitOn_append)

subsection \<open>Searching\<close>

fun indexOf :: "string \<Rightarrow> char \<Rightarrow> nat option" where
  "indexOf [] c = None"
| "indexOf (x # xs) c = (if x = c then Some 0 else map_option Suc (indexOf xs c))"

lemma indexOf_Some:
  "indexOf s c = Some i \<Longrightarrow> i < length s \<and> s ! i = c \<and> c \<notin> set (take i s)"
  by (induction s arbitrary: i) (auto split: if_splits)

lemma indexOf_None_iff: "indexOf s c = None \<longleftrightarrow> c \<notin> set s"
  by (induction s) auto

definition startsWith :: "string \<Rightarrow> string \<Rightarrow> bool" where
  [string_simps]: "startsWith s p \<longleftrightarrow> take (length p) s = p"

definition endsWith :: "string \<Rightarrow> string \<Rightarrow> bool" where
  [string_simps]: "endsWith s p \<longleftrightarrow> length p \<le> length s \<and> drop (length s - length p) s = p"

text \<open>\<open>replaceAll\<close> of a one-character pattern.\<close>

definition replaceChar :: "char \<Rightarrow> string \<Rightarrow> string \<Rightarrow> string" where
  "replaceChar c r s = concat (map (\<lambda>x. if x = c then r else [x]) s)"

text \<open>The decimal numeral of a number, \<open>String(n)\<close>.\<close>

fun decimal :: "nat \<Rightarrow> string" where
  "decimal n = (if n < 10 then [char_of (48 + n)] else decimal (n div 10) @ [char_of (48 + n mod 10)])"

declare decimal.simps [simp del]

end
