(* ===== verification/Domain_Error.thy ===== *)
theory Domain_Error
  imports Js_Number Js_String
begin

text \<open>
  Domain failures of \<open>packages/core-domain/src/errors.ts\<close>. The code and the structured details are
  kept; the human-readable \<open>message\<close>, which callers never branch on, is left out. A thrown
  \<open>RangeError\<close> (programmer error) is the one-constructor type \<open>thrown\<close>.
\<close>

datatype domainErrorCode =
    Illegal_transition
  | Void_reason_required
  | Already_voided
  | Invalid_rule
  | Draw_infeasible

datatype detail = D_string string | D_number jsnum | D_count nat

record domain_error =
  err_code :: domainErrorCode
  err_details :: "(string \<times> detail) list option"

text \<open>\<open>domainError\<close>: the details are absent rather than undefined when the caller gives none.\<close>

definition domainError :: "domainErrorCode \<Rightarrow> (string \<times> detail) list option \<Rightarrow> domain_error" where
  "domainError c d = \<lparr>err_code = c, err_details = d\<rparr>"

datatype thrown = RangeError

lemma err_code_domainError [simp]: "err_code (domainError c d) = c"
  by (simp add: domainError_def)

end
