(* ===== verification/Attempt_State.thy ===== *)
theory Attempt_State
  imports Domain_Error
begin

text \<open>
  The attempt lifecycle of \<open>packages/core-domain/src/attempt-state.ts\<close>: the eight statuses, the
  events, the declared edge table (\<open>EDGES\<close>) and the step function (\<open>transition\<close>). The theorems
  relate the two (the table is exactly what the step function can do) and say what any sequence
  of events can lead to.
\<close>

datatype attemptStatus =
    Created | In_progress | Submitted | Expired | Auto_graded | Under_review | Finalised | Voided

definition ATTEMPT_STATUSES :: "attemptStatus list" where
  "ATTEMPT_STATUSES =
     [Created, In_progress, Submitted, Expired, Auto_graded, Under_review, Finalised, Voided]"

datatype attemptEvent =
    Start | Submit | Expire | Grade_complete (needsHumanReview: bool) | Review_complete
  | Void (reason: string)

fun statusName :: "attemptStatus \<Rightarrow> string" where
  "statusName Created = ''created''"
| "statusName In_progress = ''in_progress''"
| "statusName Submitted = ''submitted''"
| "statusName Expired = ''expired''"
| "statusName Auto_graded = ''auto_graded''"
| "statusName Under_review = ''under_review''"
| "statusName Finalised = ''finalised''"
| "statusName Voided = ''voided''"

fun eventName :: "attemptEvent \<Rightarrow> string" where
  "eventName Start = ''start''"
| "eventName Submit = ''submit''"
| "eventName Expire = ''expire''"
| "eventName (Grade_complete _) = ''grade_complete''"
| "eventName Review_complete = ''review_complete''"
| "eventName (Void _) = ''void''"

fun EDGES :: "attemptStatus \<Rightarrow> attemptStatus list" where
  "EDGES Created = [In_progress, Voided]"
| "EDGES In_progress = [Submitted, Expired, Voided]"
| "EDGES Submitted = [Auto_graded, Voided]"
| "EDGES Expired = [Auto_graded, Voided]"
| "EDGES Auto_graded = [Under_review, Finalised, Voided]"
| "EDGES Under_review = [Finalised, Voided]"
| "EDGES Finalised = [Voided]"
| "EDGES Voided = []"

definition canTransition :: "attemptStatus \<Rightarrow> attemptStatus \<Rightarrow> bool" where
  "canTransition from to \<longleftrightarrow> to \<in> set (EDGES from)"

definition isTerminalStatus :: "attemptStatus \<Rightarrow> bool" where
  "isTerminalStatus status \<longleftrightarrow> length (EDGES status) = 0"

definition illegal :: "attemptStatus \<Rightarrow> attemptEvent \<Rightarrow> (domain_error, attemptStatus) result" where
  "illegal from ev =
     Inl (domainError Illegal_transition
            (Some [(''from'', D_string (statusName from)), (''event'', D_string (eventName ev))]))"

fun transition :: "attemptStatus \<Rightarrow> attemptEvent \<Rightarrow> (domain_error, attemptStatus) result" where
  "transition from (Void r) =
     (if length (trim r) = 0
      then Inl (domainError Void_reason_required (Some [(''from'', D_string (statusName from))]))
      else if from = Voided
      then Inl (domainError Already_voided (Some [(''from'', D_string (statusName from))]))
      else Inr Voided)"
| "transition from Start = (if from = Created then Inr In_progress else illegal from Start)"
| "transition from Submit = (if from = In_progress then Inr Submitted else illegal from Submit)"
| "transition from Expire = (if from = In_progress then Inr Expired else illegal from Expire)"
| "transition from (Grade_complete needs) =
     (if from = Submitted \<or> from = Expired then Inr Auto_graded
      else if from = Auto_graded then Inr (if needs then Under_review else Finalised)
      else illegal from (Grade_complete needs))"
| "transition from Review_complete =
     (if from = Under_review then Inr Finalised else illegal from Review_complete)"

subsection \<open>The table and the step function\<close>

lemma illegal_not_Inr [simp]: "illegal s e \<noteq> Inr t" "Inr t \<noteq> illegal s e"
  by (simp_all add: illegal_def)

lemma transition_edge: "transition s e = Inr t \<Longrightarrow> canTransition s t"
  by (cases e; cases s) (auto simp: canTransition_def split: if_splits)

interpretation attempt: safe_machine transition canTransition
  by unfold_locales (rule transition_edge)

text \<open>An event that takes each edge of the table.\<close>

fun edge_event :: "attemptStatus \<Rightarrow> attemptEvent" where
  "edge_event In_progress = Start"
| "edge_event Submitted = Submit"
| "edge_event Expired = Expire"
| "edge_event Auto_graded = Grade_complete False"
| "edge_event Under_review = Grade_complete True"
| "edge_event Finalised = Grade_complete False"
| "edge_event _ = Void ''x''"

lemma trim_x: "trim ''x'' = ''x''"
  by (simp add: string_simps)

lemma edge_realised: "canTransition s t \<Longrightarrow> \<exists>e. transition s e = Inr t"
proof -
  assume edge: "canTransition s t"
  show ?thesis
  proof (cases "s = Under_review \<and> t = Finalised")
    case True
    then show ?thesis by (intro exI [of _ Review_complete]) simp
  next
    case False
    with edge have "transition s (edge_event t) = Inr t"
      by (cases s; cases t) (auto simp: canTransition_def trim_x)
    then show ?thesis ..
  qed
qed

subsection \<open>Runs\<close>

text \<open>How many moves the lifecycle still allows.\<close>

fun attempt_rank :: "attemptStatus \<Rightarrow> nat" where
  "attempt_rank Created = 6"
| "attempt_rank In_progress = 5"
| "attempt_rank Submitted = 4"
| "attempt_rank Expired = 4"
| "attempt_rank Auto_graded = 3"
| "attempt_rank Under_review = 2"
| "attempt_rank Finalised = 1"
| "attempt_rank Voided = 0"

lemma attempt_rank_drops: "canTransition s t \<Longrightarrow> attempt_rank t < attempt_rank s"
  by (cases s) (auto simp: canTransition_def)

text \<open>Statuses in which no score has been produced yet.\<close>

definition before_grading :: "attemptStatus \<Rightarrow> bool" where
  "before_grading s \<longleftrightarrow> s \<in> {Created, In_progress, Submitted, Expired}"

lemma voided_run: "attempt.run Voided es = Voided"
  by (rule attempt.stuck_run) (simp add: canTransition_def)

lemma graded_before_finalised:
  assumes "before_grading s" "attempt.run s es = Finalised"
  shows "\<exists>es1 es2. es = es1 @ es2 \<and> attempt.run s es1 = Auto_graded"
  using assms
proof (induction es arbitrary: s)
  case (Cons e es)
  show ?case
  proof (cases "transition s e")
    case (Inl err)
    with Cons.prems have "attempt.run s es = Finalised" by simp
    with Cons.IH Cons.prems(1) obtain es1 es2
      where "es = es1 @ es2" "attempt.run s es1 = Auto_graded" by blast
    with Inl show ?thesis by (intro exI [of _ "e # es1"] exI [of _ es2]) simp
  next
    case (Inr t)
    have "canTransition s t" using Inr by (rule transition_edge)
    with Cons.prems(1) consider "before_grading t" | "t = Auto_graded" | "t = Voided"
      by (auto simp: before_grading_def canTransition_def)
    then show ?thesis
    proof cases
      case 1
      have "attempt.run t es = Finalised" using Cons.prems(2) Inr by simp
      with Cons.IH 1 obtain es1 es2
        where "es = es1 @ es2" "attempt.run t es1 = Auto_graded" by blast
      with Inr show ?thesis by (intro exI [of _ "e # es1"] exI [of _ es2]) simp
    next
      case 2
      with Inr show ?thesis by (intro exI [of _ "[e]"] exI [of _ es]) simp
    next
      case 3
      with Inr Cons.prems(2) show ?thesis by (simp add: voided_run)
    qed
  qed
qed (auto simp: before_grading_def)

subsection \<open>Properties\<close>

text \<open>The declared edge table is exactly what the step function can do: there is an edge from
  one status to another precisely when some event is accepted and leads there, and a status is
  terminal precisely when every event is refused.\<close>

theorem attempt_table_exact:
  "(canTransition s t \<longleftrightarrow> (\<exists>e. transition s e = Inr t)) \<and>
   (isTerminalStatus s \<longleftrightarrow> (\<forall>e. isErr (transition s e)))"
proof
  show iff: "canTransition s t \<longleftrightarrow> (\<exists>e. transition s e = Inr t)" for t
    by (auto intro: transition_edge edge_realised)
  have "isTerminalStatus s \<longleftrightarrow> (\<forall>t. \<not> canTransition s t)"
    by (cases s) (auto simp: isTerminalStatus_def canTransition_def)
  then show "isTerminalStatus s \<longleftrightarrow> (\<forall>e. isErr (transition s e))"
    by (auto simp: iff isErr_def isOk_iff)
qed

text \<open>No sequence of events, refused ones included, finalises a new attempt without it having
  been auto-graded on the way: a finalised attempt always has a score.\<close>

theorem attempt_finalised_was_graded:
  assumes "attempt.run Created es = Finalised"
  shows "\<exists>es1 es2. es = es1 @ es2 \<and> attempt.run Created es1 = Auto_graded \<and>
    attempt.run Auto_graded es2 = Finalised"
proof -
  have "before_grading Created" by (simp add: before_grading_def)
  then obtain es1 es2 where "es = es1 @ es2" "attempt.run Created es1 = Auto_graded"
    using graded_before_finalised assms by blast
  with assms show ?thesis by (auto simp: attempt.run_append)
qed

theorem attempt_finalised_was_graded_witness:
  "\<exists>es1 es2. [Start, Submit, Void '' '', Grade_complete True, Grade_complete True, Review_complete]
     = es1 @ es2 \<and> attempt.run Created es1 = Auto_graded \<and> attempt.run Auto_graded es2 = Finalised"
  by (rule attempt_finalised_was_graded) (simp add: string_simps)

text \<open>The lifecycle ends: whatever events arrive, a new attempt changes status at most six
  times, and once voided it never changes again.\<close>

theorem attempt_lifecycle_bounded:
  "attempt.changes Created es \<le> 6 \<and> attempt.run Voided es = Voided"
  using attempt.changes_bounded [of attempt_rank Created es] attempt_rank_drops voided_run by auto

end
