(* ===== verification/Question_Lifecycle.thy ===== *)
theory Question_Lifecycle
  imports Domain_Error
begin

text \<open>
  The authoring side of \<open>packages/core-domain\<close>: the question lifecycle
  (\<open>question-lifecycle.ts\<close>) and the rule for what content each question kind may and must carry
  (\<open>kind-content.ts\<close>). The message of an issue is the list of its UTF-16 code units.
\<close>

subsection \<open>Lifecycle\<close>

datatype questionStatus = Draft | Review | Published | Retired

definition QUESTION_LIFECYCLE_STATUSES :: "questionStatus list" where
  "QUESTION_LIFECYCLE_STATUSES = [Draft, Review, Published, Retired]"

datatype questionEvent = Submit_for_review | Request_changes | Publish | Retire

definition QUESTION_EVENTS :: "questionEvent list" where
  "QUESTION_EVENTS = [Submit_for_review, Request_changes, Publish, Retire]"

fun questionStatusName :: "questionStatus \<Rightarrow> string" where
  "questionStatusName Draft = ''draft''"
| "questionStatusName Review = ''review''"
| "questionStatusName Published = ''published''"
| "questionStatusName Retired = ''retired''"

fun questionEventName :: "questionEvent \<Rightarrow> string" where
  "questionEventName Submit_for_review = ''submit_for_review''"
| "questionEventName Request_changes = ''request_changes''"
| "questionEventName Publish = ''publish''"
| "questionEventName Retire = ''retire''"

fun QUESTION_EDGES :: "questionStatus \<Rightarrow> questionStatus list" where
  "QUESTION_EDGES Draft = [Review]"
| "QUESTION_EDGES Review = [Draft, Published]"
| "QUESTION_EDGES Published = [Published, Retired]"
| "QUESTION_EDGES Retired = []"

definition canTransitionQuestion :: "questionStatus \<Rightarrow> questionStatus \<Rightarrow> bool" where
  "canTransitionQuestion from to \<longleftrightarrow> to \<in> set (QUESTION_EDGES from)"

definition isTerminalQuestionStatus :: "questionStatus \<Rightarrow> bool" where
  "isTerminalQuestionStatus status \<longleftrightarrow> length (QUESTION_EDGES status) = 0"

definition isServableStatus :: "questionStatus \<Rightarrow> bool" where
  "isServableStatus status \<longleftrightarrow> status = Published"

definition illegal_question ::
  "questionStatus \<Rightarrow> questionEvent \<Rightarrow> (domain_error, questionStatus) result" where
  "illegal_question from ev =
     Inl (domainError Illegal_transition
            (Some [(''from'', D_string (questionStatusName from)),
                   (''event'', D_string (questionEventName ev))]))"

fun transitionQuestion ::
  "questionStatus \<Rightarrow> questionEvent \<Rightarrow> (domain_error, questionStatus) result" where
  "transitionQuestion from Submit_for_review =
     (if from = Draft then Inr Review else illegal_question from Submit_for_review)"
| "transitionQuestion from Request_changes =
     (if from = Review then Inr Draft else illegal_question from Request_changes)"
| "transitionQuestion from Publish =
     (if from = Review \<or> from = Published then Inr Published else illegal_question from Publish)"
| "transitionQuestion from Retire =
     (if from = Published then Inr Retired else illegal_question from Retire)"

lemma illegal_question_not_Inr [simp]: "illegal_question s e \<noteq> Inr t" "Inr t \<noteq> illegal_question s e"
  by (simp_all add: illegal_question_def)

lemma transitionQuestion_edge: "transitionQuestion s e = Inr t \<Longrightarrow> canTransitionQuestion s t"
  by (cases e; cases s) (auto simp: canTransitionQuestion_def)

interpretation question: safe_machine transitionQuestion canTransitionQuestion
  by unfold_locales (rule transitionQuestion_edge)

lemma question_edge_realised:
  assumes "canTransitionQuestion s t"
  shows "\<exists>e. transitionQuestion s e = Inr t"
proof -
  have "\<exists>e \<in> set QUESTION_EVENTS. transitionQuestion s e = Inr t"
    using assms by (cases s) (auto simp: canTransitionQuestion_def QUESTION_EVENTS_def)
  then show ?thesis by blast
qed

text \<open>Until it is published a question has only ever been a draft or in review.\<close>

definition in_circulation :: "questionStatus \<Rightarrow> bool" where
  "in_circulation s \<longleftrightarrow> s = Published \<or> s = Retired"

lemma circulation_is_entered_by_publish:
  assumes "\<not> in_circulation s" "in_circulation (question.run s es)"
  shows "\<exists>es1 es2. es = es1 @ Publish # es2 \<and> question.run s es1 = Review"
  using assms
proof (induction es arbitrary: s)
  case (Cons e es)
  show ?case
  proof (cases "s = Review \<and> e = Publish")
    case True
    then show ?thesis by (intro exI [of _ "[]"] exI [of _ es]) simp
  next
    case False
    define t where "t = (case transitionQuestion s e of Inl _ \<Rightarrow> s | Inr t \<Rightarrow> t)"
    have "\<not> in_circulation t"
      using False Cons.prems(1) unfolding t_def in_circulation_def
      by (cases s; cases e) (auto simp: illegal_question_def)
    moreover have "in_circulation (question.run t es)" using Cons.prems(2) by (simp add: t_def)
    ultimately obtain es1 es2 where "es = es1 @ Publish # es2" "question.run t es1 = Review"
      using Cons.IH by blast
    then show ?thesis by (intro exI [of _ "e # es1"] exI [of _ es2]) (simp add: t_def)
  qed
qed simp

subsection \<open>Content by kind\<close>

datatype questionKind =
    Mcq_single | Mcq_multi | True_false | Short_answer | Coding | Sql | Subjective | System_design

record kindContentShape =
  optionCount :: int
  correctOptionCount :: int
  hasCodingSpec :: bool
  hasFixtureSql :: bool
  testCaseCount :: int
  hiddenTestCaseCount :: int
  answerKeyCount :: int
  gradingMode :: "string option"
  casesWithoutAssertion :: "int option"

fun questionKindName :: "questionKind \<Rightarrow> string" where
  "questionKindName Mcq_single = ''mcq_single''"
| "questionKindName Mcq_multi = ''mcq_multi''"
| "questionKindName True_false = ''true_false''"
| "questionKindName Short_answer = ''short_answer''"
| "questionKindName Coding = ''coding''"
| "questionKindName Sql = ''sql''"
| "questionKindName Subjective = ''subjective''"
| "questionKindName System_design = ''system_design''"

datatype kindContentSeverity = Wrong_kind | Incomplete
datatype contentField = F_options | F_coding_spec | F_test_cases | F_answer_keys
datatype kindContentStage = Stage_draft | Stage_publish

type_synonym codeUnits = "nat list"

definition units :: "string \<Rightarrow> codeUnits" where
  "units s = map of_char s"

text \<open>A template literal with the name of a kind after its \<open>a\<close>.\<close>

definition aKind :: "questionKind \<Rightarrow> string \<Rightarrow> codeUnits" where
  "aKind kind s = units (''a '' @ questionKindName kind @ '' '' @ s)"

definition casesMissing :: "kindContentShape \<Rightarrow> int" where
  "casesMissing shape = (case casesWithoutAssertion shape of None \<Rightarrow> 0 | Some n \<Rightarrow> n)"

type_synonym kindContentIssue = "kindContentSeverity \<times> contentField \<times> codeUnits"

definition CHOICE :: "questionKind set" where
  "CHOICE = {Mcq_single, Mcq_multi, True_false}"

definition CODE :: "questionKind set" where
  "CODE = {Coding, Sql}"

definition issue_when :: "bool \<Rightarrow> kindContentIssue \<Rightarrow> kindContentIssue list" where
  "issue_when b i = (if b then [i] else [])"

text \<open>The refusals that hold at every stage (\<open>wrong\<close>).\<close>

definition wrong_kind_issues :: "questionKind \<Rightarrow> kindContentShape \<Rightarrow> kindContentIssue list" where
  "wrong_kind_issues kind shape =
     issue_when (kind \<notin> CHOICE \<and> optionCount shape > 0)
       (Wrong_kind, F_options, aKind kind ''question has no options; only choice questions do'') @
     issue_when (kind \<notin> CODE \<and> hasCodingSpec shape)
       (Wrong_kind, F_coding_spec, aKind kind ''question has no execution spec; only coding and sql do'') @
     issue_when (kind \<notin> CODE \<and> testCaseCount shape > 0)
       (Wrong_kind, F_test_cases, aKind kind ''question has no test cases; only coding and sql do'') @
     issue_when (kind \<noteq> Short_answer \<and> answerKeyCount shape > 0)
       (Wrong_kind, F_answer_keys, aKind kind ''question has no answer keys; only short_answer does'') @
     issue_when (kind = Coding \<and> hasFixtureSql shape)
       (Wrong_kind, F_coding_spec, units ''fixture_sql belongs to sql questions; a coding question has none'')"

text \<open>The refusals that hold only when the version is about to be published (\<open>missing\<close>). The counts
  are lengths, and the dash of the fixture's message is U+2014.\<close>

definition missing_issues :: "questionKind \<Rightarrow> kindContentShape \<Rightarrow> kindContentIssue list" where
  "missing_issues kind shape =
     (if kind = True_false then
        issue_when (optionCount shape \<noteq> 2) (Incomplete, F_options,
          units (''a true_false question has exactly two options, not '' @ decimal (nat (optionCount shape)))) @
        issue_when (correctOptionCount shape \<noteq> 1) (Incomplete, F_options,
          units ''a true_false question has exactly one correct option'')
      else if kind = Mcq_single then
        issue_when (optionCount shape < 2) (Incomplete, F_options,
          units ''a single-answer question needs at least two options'') @
        issue_when (correctOptionCount shape \<noteq> 1) (Incomplete, F_options,
          units (''a single-answer question has exactly one correct option, not '' @
            decimal (nat (correctOptionCount shape))))
      else if kind = Mcq_multi then
        issue_when (optionCount shape < 2) (Incomplete, F_options,
          units ''a multiple-answer question needs at least two options'') @
        issue_when (correctOptionCount shape < 1) (Incomplete, F_options,
          units ''a multiple-answer question needs at least one correct option'')
      else if kind = Short_answer then
        issue_when (answerKeyCount shape < 1) (Incomplete, F_answer_keys,
          units ''a short_answer question needs at least one answer key to be graded'')
      else if kind \<in> CODE then
        issue_when (\<not> hasCodingSpec shape) (Incomplete, F_coding_spec,
          aKind kind ''question needs an execution spec'') @
        issue_when (hiddenTestCaseCount shape < 1) (Incomplete, F_test_cases,
          aKind kind (''question needs at least one hidden test case; sample cases are '' @
            ''visible to the candidate'')) @
        issue_when (kind = Sql \<and> \<not> hasFixtureSql shape) (Incomplete, F_coding_spec,
          units ''an sql question needs fixture_sql '' @ [0x2014] @
          units '' the database the query runs against'') @
        issue_when (gradingMode shape = Some ''unit_tests'' \<and> casesMissing shape > 0)
          (Incomplete, F_test_cases,
           aKind kind (''question graded by unit tests needs assertion_code on every case; '' @
             decimal (nat (casesMissing shape)) @ '' has none''))
      else [])"

definition validateKindContent ::
  "questionKind \<Rightarrow> kindContentShape \<Rightarrow> kindContentStage \<Rightarrow> kindContentIssue list" where
  "validateKindContent kind shape stage =
     wrong_kind_issues kind shape @
     (if stage = Stage_publish then missing_issues kind shape else [])"

text \<open>What a version of each kind needs before a candidate may be served and graded on it.\<close>

fun gradable :: "questionKind \<Rightarrow> kindContentShape \<Rightarrow> bool" where
  "gradable True_false c \<longleftrightarrow> optionCount c = 2 \<and> correctOptionCount c = 1"
| "gradable Mcq_single c \<longleftrightarrow> 2 \<le> optionCount c \<and> correctOptionCount c = 1"
| "gradable Mcq_multi c \<longleftrightarrow> 2 \<le> optionCount c \<and> 1 \<le> correctOptionCount c"
| "gradable Short_answer c \<longleftrightarrow> 1 \<le> answerKeyCount c"
| "gradable Coding c \<longleftrightarrow> hasCodingSpec c \<and> 1 \<le> hiddenTestCaseCount c \<and> \<not> hasFixtureSql c \<and>
     (gradingMode c = Some ''unit_tests'' \<longrightarrow> casesWithoutAssertion c \<in> {None} \<union> Some ` {..0})"
| "gradable Sql c \<longleftrightarrow> hasCodingSpec c \<and> 1 \<le> hiddenTestCaseCount c \<and> hasFixtureSql c \<and>
     (gradingMode c = Some ''unit_tests'' \<longrightarrow> casesWithoutAssertion c \<in> {None} \<union> Some ` {..0})"
| "gradable Subjective c \<longleftrightarrow> True"
| "gradable System_design c \<longleftrightarrow> True"

text \<open>The content a kind can hold: nothing of another kind's.\<close>

definition only_own_content :: "questionKind \<Rightarrow> kindContentShape \<Rightarrow> bool" where
  "only_own_content kind c \<longleftrightarrow>
     (optionCount c > 0 \<longrightarrow> kind \<in> CHOICE) \<and>
     (hasCodingSpec c \<or> testCaseCount c > 0 \<longrightarrow> kind \<in> CODE) \<and>
     (answerKeyCount c > 0 \<longrightarrow> kind = Short_answer) \<and>
     (hasFixtureSql c \<longrightarrow> kind \<noteq> Coding)"

lemma issue_when_Nil [simp]: "issue_when b i = [] \<longleftrightarrow> \<not> b"
  by (simp add: issue_when_def)

lemma set_issue_when [simp]: "set (issue_when b i) = (if b then {i} else {})"
  by (simp add: issue_when_def)

lemma wrong_kind_issues_iff: "wrong_kind_issues kind c = [] \<longleftrightarrow> only_own_content kind c"
  by (auto simp: wrong_kind_issues_def only_own_content_def)

lemma missing_issues_iff:
  "only_own_content kind c \<Longrightarrow> missing_issues kind c = [] \<longleftrightarrow> gradable kind c"
  by (cases kind; cases "casesWithoutAssertion c")
    (auto simp: missing_issues_def CODE_def only_own_content_def casesMissing_def)

subsection \<open>Properties\<close>

text \<open>A question that has never been in circulation enters it only through a publish event
  applied while it is in review, whatever else is asked of it: no sequence of events serves a
  question nobody reviewed, and a retired question stays retired.\<close>

theorem question_served_only_after_review:
  assumes "isServableStatus (question.run Draft es)"
  shows "(\<exists>es1 es2. es = es1 @ Publish # es2 \<and> question.run Draft es1 = Review) \<and>
    \<not> isServableStatus (question.run Retired fs)"
proof
  show "\<exists>es1 es2. es = es1 @ Publish # es2 \<and> question.run Draft es1 = Review"
    using assms by (intro circulation_is_entered_by_publish)
      (auto simp: isServableStatus_def in_circulation_def)
  have "question.run Retired fs = Retired"
    by (rule question.stuck_run) (simp add: canTransitionQuestion_def)
  then show "\<not> isServableStatus (question.run Retired fs)" by (simp add: isServableStatus_def)
qed

theorem question_served_only_after_review_witness:
  "(\<exists>es1 es2. [Publish, Submit_for_review, Publish, Publish] = es1 @ Publish # es2 \<and>
     question.run Draft es1 = Review) \<and> \<not> isServableStatus (question.run Retired [Publish])"
  by (rule question_served_only_after_review)
    (simp add: illegal_question_def isServableStatus_def)

text \<open>The publish-time content check accepts exactly the versions that carry only their own
  kind's content and everything that kind is graded on; the draft-time check enforces the first
  half only, and every draft issue is reported again at publish.\<close>

theorem validateKindContent_exact:
  "(validateKindContent kind c Stage_publish = [] \<longleftrightarrow> only_own_content kind c \<and> gradable kind c) \<and>
   (validateKindContent kind c Stage_draft = [] \<longleftrightarrow> only_own_content kind c) \<and>
   set (validateKindContent kind c Stage_draft) \<subseteq> set (validateKindContent kind c Stage_publish)"
  using wrong_kind_issues_iff missing_issues_iff by (auto simp: validateKindContent_def)

end
