(* ===== verification/Draw.thy ===== *)
theory Draw
  imports Question_Lifecycle "HOL-Library.Multiset" "HOL-Library.List_Lexorder" "HOL-Library.Char_ord"
begin

text \<open>
  Question selection: \<open>packages/core-domain/src/shuffle.ts\<close> and \<open>draw.ts\<close>. The injected generator
  \<open>rng\<close> is the sequence of numbers it returns: \<open>rng k\<close> is the value of its \<open>k\<close>-th call, an
  arbitrary JavaScript number, so a sloppy generator (one that answers \<open>1\<close>, \<open>-3\<close> or \<open>NaN\<close>) is
  covered. Version identifiers are compared as strings, code unit by code unit.
\<close>

subsection \<open>Shuffling\<close>

definition boundedIndex :: "jsnum \<Rightarrow> nat \<Rightarrow> nat" where
  "boundedIndex draw len =
     (if \<not> isFinite draw \<or> js_lt draw (Fin 0) then 0
      else let index = js_floor (js_mul draw (js_int (int len)))
           in if js_le (js_int (int len)) index then len - 1 else nat \<lfloor>fin_val index\<rfloor>)"

lemma boundedIndex_less:
  assumes "0 < len"
  shows "boundedIndex draw len < len"
proof (cases "\<not> isFinite draw \<or> js_lt draw (Fin 0)")
  case False
  then obtain r where r: "draw = Fin r" "0 \<le> r" by (cases draw) auto
  have "js_nonneg (dbl (r * of_nat len))" using r by (intro dbl_nonneg) simp
  then show ?thesis
    using r assms False
    by (cases "dbl (r * of_nat len)") (auto simp: boundedIndex_def js_int_def Let_def)
qed (use assms in \<open>auto simp: boundedIndex_def\<close>)

text \<open>
  The loop of \<open>shuffleWith\<close>: \<open>pool.splice(i, 1)\<close> removes and returns the element at \<open>i\<close>, and the
  result list grows at its end. \<open>k\<close> counts the calls of \<open>rng\<close>.
\<close>

lemma splice_shorter:
  assumes "pool \<noteq> []"
  shows "min (length pool) (boundedIndex draw (length pool)) +
    (length pool - Suc (boundedIndex draw (length pool))) < length pool"
  using boundedIndex_less [of "length pool" draw] assms by simp

function shuffleLoop :: "'a list \<Rightarrow> 'a list \<Rightarrow> (nat \<Rightarrow> jsnum) \<Rightarrow> nat \<Rightarrow> 'a list" where
  "shuffleLoop pool out rng k =
     (if length pool = 0 then out
      else let i = boundedIndex (rng k) (length pool)
           in shuffleLoop (take i pool @ drop (Suc i) pool) (out @ take 1 (drop i pool)) rng (Suc k))"
  by pat_completeness auto
termination
  by (relation "measure (\<lambda>(pool, out, rng, k). length pool)") (auto simp: splice_shorter)

declare shuffleLoop.simps [simp del]

definition shuffleWith :: "'a list \<Rightarrow> (nat \<Rightarrow> jsnum) \<Rightarrow> 'a list" where
  "shuffleWith items rng = shuffleLoop items [] rng 0"

definition shuffleOptions :: "'a list \<Rightarrow> (nat \<Rightarrow> jsnum) \<Rightarrow> 'a list" where
  "shuffleOptions options rng = shuffleWith options rng"

lemma mset_splice_out:
  assumes "i < length xs"
  shows "mset (take i xs @ drop (Suc i) xs) + mset (take 1 (drop i xs)) = mset xs"
proof -
  have "take 1 (drop i xs) = [xs ! i]" using assms by (simp add: take_Suc_conv_app_nth hd_drop_conv_nth take_Suc)
  moreover have "mset xs = mset (take i xs @ xs ! i # drop (Suc i) xs)"
    using assms by (simp flip: id_take_nth_drop)
  ultimately show ?thesis by simp
qed

lemma mset_shuffleLoop: "mset (shuffleLoop pool out rng k) = mset pool + mset out"
proof (induction pool out rng k rule: shuffleLoop.induct)
  case (1 pool out rng k)
  show ?case
  proof (cases "pool = []")
    case False
    define i where "i = boundedIndex (rng k) (length pool)"
    have i: "i < length pool" unfolding i_def using False by (intro boundedIndex_less) simp
    have "mset (shuffleLoop pool out rng k) =
        mset (take i pool @ drop (Suc i) pool) + mset (out @ take 1 (drop i pool))"
      using 1 False by (simp add: shuffleLoop.simps [of pool out] i_def [symmetric] Let_def)
    then show ?thesis using mset_splice_out [OF i] by (simp add: ac_simps)
  qed (simp add: shuffleLoop.simps)
qed

lemma mset_shuffleWith [simp]: "mset (shuffleWith items rng) = mset items"
  by (simp add: shuffleWith_def mset_shuffleLoop)

lemma set_shuffleWith [simp]: "set (shuffleWith items rng) = set items"
  by (rule mset_eq_setD) simp

lemma length_shuffleWith [simp]: "length (shuffleWith items rng) = length items"
  by (rule mset_eq_length) simp

lemma distinct_map_shuffleWith [simp]:
  "distinct (map f (shuffleWith items rng)) \<longleftrightarrow> distinct (map f items)"
  by (rule mset_eq_imp_distinct_iff) simp

subsection \<open>Rules and candidates\<close>

definition MIN_DIFFICULTY :: int where
  "MIN_DIFFICULTY = 1"

definition MAX_DIFFICULTY :: int where
  "MAX_DIFFICULTY = 5"

record sectionRule =
  pickCount :: jsnum
  rule_skillIds :: "string list"
  kinds :: "questionKind list"
  minDifficulty :: jsnum
  maxDifficulty :: jsnum
  excludeSeenDays :: jsnum
  scorePerQuestion :: jsnum

record drawCandidate =
  questionVersionId :: string
  skillIds :: "string list"
  cand_kind :: questionKind
  difficulty :: jsnum
  lastSeenDaysAgo :: "jsnum option"

definition invalid_rule :: "(string \<times> detail) list \<Rightarrow> domain_error option" where
  "invalid_rule d = Some (domainError Invalid_rule (Some d))"

definition validateRule :: "sectionRule \<Rightarrow> domain_error option" where
  "validateRule rule =
     (if \<not> isInteger (pickCount rule) \<or> js_le (pickCount rule) (Fin 0)
      then invalid_rule [(''pickCount'', D_number (pickCount rule))]
      else if \<not> isInteger (minDifficulty rule) \<or> \<not> isInteger (maxDifficulty rule)
              \<or> js_lt (minDifficulty rule) (js_int MIN_DIFFICULTY)
              \<or> js_lt (js_int MAX_DIFFICULTY) (maxDifficulty rule)
      then invalid_rule [(''minDifficulty'', D_number (minDifficulty rule)),
                         (''maxDifficulty'', D_number (maxDifficulty rule))]
      else if js_lt (maxDifficulty rule) (minDifficulty rule)
      then invalid_rule [(''minDifficulty'', D_number (minDifficulty rule)),
                         (''maxDifficulty'', D_number (maxDifficulty rule))]
      else if \<not> isInteger (excludeSeenDays rule) \<or> js_lt (excludeSeenDays rule) (Fin 0)
      then invalid_rule [(''excludeSeenDays'', D_number (excludeSeenDays rule))]
      else if \<not> isFinite (scorePerQuestion rule) \<or> js_lt (scorePerQuestion rule) (Fin 0)
      then invalid_rule [(''scorePerQuestion'', D_number (scorePerQuestion rule))]
      else None)"

definition matchesRule :: "sectionRule \<Rightarrow> drawCandidate \<Rightarrow> bool" where
  "matchesRule rule entry =
     (if \<not> isInteger (difficulty entry) then False
      else if js_lt (difficulty entry) (minDifficulty rule)
              \<or> js_lt (maxDifficulty rule) (difficulty entry) then False
      else if length (kinds rule) > 0 \<and> cand_kind entry \<notin> set (kinds rule) then False
      else if length (rule_skillIds rule) > 0
              \<and> \<not> list_ex (\<lambda>skill. skill \<in> set (rule_skillIds rule)) (skillIds entry) then False
      else if js_lt (Fin 0) (excludeSeenDays rule)
              \<and> (case lastSeenDaysAgo entry of None \<Rightarrow> False
                 | Some seen \<Rightarrow> js_lt seen (excludeSeenDays rule)) then False
      else True)"

text \<open>The loop of \<open>eligible\<close>: \<open>seen\<close> holds the version identifiers already taken.\<close>

fun eligibleLoop :: "sectionRule \<Rightarrow> string list \<Rightarrow> drawCandidate list \<Rightarrow> drawCandidate list" where
  "eligibleLoop rule seen [] = []"
| "eligibleLoop rule seen (entry # pool) =
     (if questionVersionId entry \<in> set seen \<or> \<not> matchesRule rule entry
      then eligibleLoop rule seen pool
      else entry # eligibleLoop rule (questionVersionId entry # seen) pool)"

definition eligible :: "sectionRule \<Rightarrow> drawCandidate list \<Rightarrow> drawCandidate list" where
  "eligible rule pool = sort_key questionVersionId (eligibleLoop rule [] pool)"

definition resolveDraw ::
  "sectionRule \<Rightarrow> drawCandidate list \<Rightarrow> (nat \<Rightarrow> jsnum) \<Rightarrow> (domain_error, drawCandidate list) result"
where
  "resolveDraw rule pool rng =
     (case validateRule rule of Some e \<Rightarrow> Inl e
      | None \<Rightarrow>
        let pickable = eligible rule pool
        in if js_lt (js_int (int (length pickable))) (pickCount rule)
           then Inl (domainError Draw_infeasible
                  (Some [(''pickCount'', D_number (pickCount rule)),
                         (''eligibleCount'', D_count (length pickable)),
                         (''poolSize'', D_count (length pool))]))
           else Inr (take (nat \<lfloor>fin_val (pickCount rule)\<rfloor>) (shuffleWith pickable rng)))"

subsection \<open>The eligible set\<close>

definition matching_ids :: "sectionRule \<Rightarrow> drawCandidate list \<Rightarrow> string set" where
  "matching_ids rule pool = questionVersionId ` {e \<in> set pool. matchesRule rule e}"

lemma eligibleLoop_ids:
  "questionVersionId ` set (eligibleLoop rule seen pool) = matching_ids rule pool - set seen"
proof (induction rule seen pool rule: eligibleLoop.induct)
  case (2 rule seen entry pool)
  have ids: "matching_ids rule (entry # pool) =
      (if matchesRule rule entry then insert (questionVersionId entry) (matching_ids rule pool)
       else matching_ids rule pool)"
    by (auto simp: matching_ids_def)
  show ?case
  proof (cases "questionVersionId entry \<in> set seen \<or> \<not> matchesRule rule entry")
    case True
    with 2 show ?thesis by (auto simp: ids)
  next
    case False
    with 2 show ?thesis by (simp add: ids) blast
  qed
qed (simp add: matching_ids_def)

lemma eligibleLoop_distinct: "distinct (map questionVersionId (eligibleLoop rule seen pool))"
proof (induction rule seen pool rule: eligibleLoop.induct)
  case (2 rule seen entry pool)
  have "questionVersionId entry \<notin>
      questionVersionId ` set (eligibleLoop rule (questionVersionId entry # seen) pool)"
    unfolding eligibleLoop_ids by simp
  with 2 show ?case by auto
qed simp

lemma eligibleLoop_subset: "set (eligibleLoop rule seen pool) \<subseteq> {e \<in> set pool. matchesRule rule e}"
  by (induction rule seen pool rule: eligibleLoop.induct) auto

lemma distinct_eligible: "distinct (map questionVersionId (eligible rule pool))"
proof -
  have "mset (map questionVersionId (eligible rule pool)) =
      mset (map questionVersionId (eligibleLoop rule [] pool))"
    by (simp add: eligible_def)
  then show ?thesis using eligibleLoop_distinct mset_eq_imp_distinct_iff by blast
qed

lemma eligible_subset: "set (eligible rule pool) \<subseteq> {e \<in> set pool. matchesRule rule e}"
  using eligibleLoop_subset by (simp add: eligible_def)

lemma eligible_ids: "questionVersionId ` set (eligible rule pool) = matching_ids rule pool"
  using eligibleLoop_ids [of rule "[]" pool] by (simp add: eligible_def)

lemma length_eligible: "length (eligible rule pool) = card (matching_ids rule pool)"
  using distinct_card [OF distinct_eligible, of rule pool] by (simp add: eligible_ids)

text \<open>The eligible list is a function of the pool as a set, when entries agree with their ids.\<close>

lemma eligible_set_only:
  assumes "set pool = set pool'" "inj_on questionVersionId (set pool)"
  shows "eligible rule pool = eligible rule pool'"
proof -
  have "sorted (map questionVersionId (eligible rule p))" for p
    by (simp add: eligible_def)
  moreover have "set (map questionVersionId (eligible rule pool)) =
      set (map questionVersionId (eligible rule pool'))"
    using assms(1) by (simp add: eligible_ids matching_ids_def)
  ultimately have ids: "map questionVersionId (eligible rule pool) =
      map questionVersionId (eligible rule pool')"
    by (intro sorted_distinct_set_unique distinct_eligible)
  have "set (eligible rule pool) \<union> set (eligible rule pool') \<subseteq> set pool"
    using eligible_subset assms(1) by fast
  then show ?thesis by (intro map_inj_on [OF ids] inj_on_subset [OF assms(2)])
qed

lemma validateRule_pickCount:
  assumes "validateRule rule = None"
  obtains n where "pickCount rule = js_int n" "0 < n"
proof -
  have "isInteger (pickCount rule)" "\<not> js_le (pickCount rule) (Fin 0)"
    using assms by (auto simp: validateRule_def invalid_rule_def split: if_splits)
  then show thesis
    by (cases "pickCount rule") (auto simp: js_int_def intro!: that [of "\<lfloor>fin_val (pickCount rule)\<rfloor>"])
qed

lemma resolveDraw_valid:
  assumes "validateRule rule = None" "pickCount rule = js_int n"
  shows "resolveDraw rule pool rng =
    (if int (card (matching_ids rule pool)) < n
     then Inl (domainError Draw_infeasible
                  (Some [(''pickCount'', D_number (pickCount rule)),
                         (''eligibleCount'', D_count (card (matching_ids rule pool))),
                         (''poolSize'', D_count (length pool))]))
     else Inr (take (nat n) (shuffleWith (eligible rule pool) rng)))"
proof -
  have "js_lt (js_int (int (card (matching_ids rule pool)))) (pickCount rule) \<longleftrightarrow>
      int (card (matching_ids rule pool)) < n"
    unfolding assms(2) js_int_def js_lt.simps of_int_less_iff ..
  then show ?thesis
    using assms by (simp add: resolveDraw_def Let_def length_eligible js_int_def)
qed

subsection \<open>A concrete section\<close>

definition sample_rule :: sectionRule where
  "sample_rule = \<lparr>pickCount = Fin 1, rule_skillIds = [''sql''], kinds = [], minDifficulty = Fin 2,
     maxDifficulty = Fin 4, excludeSeenDays = Fin 90, scorePerQuestion = Fin 1\<rparr>"

definition sample_entry :: "string \<Rightarrow> rat \<Rightarrow> drawCandidate" where
  "sample_entry i d = \<lparr>questionVersionId = i, skillIds = [''sql'', ''joins''], cand_kind = Sql,
     difficulty = Fin d, lastSeenDaysAgo = Some (Fin 120)\<rparr>"

lemmas sample_defs = sample_rule_def sample_entry_def

lemma sample_valid: "validateRule sample_rule = None"
  by (simp add: validateRule_def sample_rule_def js_int_def MIN_DIFFICULTY_def MAX_DIFFICULTY_def)

lemma sample_draw:
  "resolveDraw sample_rule [sample_entry ''b'' 5, sample_entry ''a'' 3] (\<lambda>_. NaN) =
     Inr [sample_entry ''a'' 3]"
proof -
  have "eligible sample_rule [sample_entry ''b'' 5, sample_entry ''a'' 3] = [sample_entry ''a'' 3]"
    by (simp add: eligible_def matchesRule_def sample_defs)
  moreover have "shuffleWith [sample_entry ''a'' 3] (\<lambda>_. NaN) = [sample_entry ''a'' 3]"
    by (simp add: shuffleWith_def shuffleLoop.simps boundedIndex_def)
  moreover have "pickCount sample_rule = Fin 1" by (simp add: sample_rule_def)
  ultimately show ?thesis by (simp add: resolveDraw_def sample_valid js_int_def)
qed

subsection \<open>Properties\<close>

text \<open>C1: a draw never serves short. On success it returns exactly the number of questions the
  rule asks for, no version twice, every one from the pool and matching the rule.\<close>

theorem resolveDraw_sound:
  assumes "resolveDraw rule pool rng = Inr out"
  shows "js_int (int (length out)) = pickCount rule \<and> distinct (map questionVersionId out) \<and>
    set out \<subseteq> {e \<in> set pool. matchesRule rule e}"
proof -
  have valid: "validateRule rule = None" using assms by (auto simp: resolveDraw_def split: option.splits)
  obtain n where n: "pickCount rule = js_int n" "0 < n" by (rule validateRule_pickCount [OF valid])
  have enough: "n \<le> int (length (eligible rule pool))"
    and out: "out = take (nat n) (shuffleWith (eligible rule pool) rng)"
    using assms resolveDraw_valid [OF valid n(1)] by (auto simp: length_eligible split: if_splits)
  have "distinct (map questionVersionId out)"
    unfolding out take_map [symmetric] by (rule distinct_take) (simp add: distinct_eligible)
  moreover have "set out \<subseteq> set (eligible rule pool)"
    unfolding out using set_take_subset set_shuffleWith by fast
  ultimately show ?thesis using eligible_subset enough n by (auto simp: out js_int_def min_def)
qed

theorem resolveDraw_sound_witness:
  "js_int (int (length [sample_entry ''a'' 3])) = pickCount sample_rule \<and>
   distinct (map questionVersionId [sample_entry ''a'' 3]) \<and>
   set [sample_entry ''a'' 3] \<subseteq>
     {e \<in> set [sample_entry ''b'' 5, sample_entry ''a'' 3]. matchesRule sample_rule e}"
  by (rule resolveDraw_sound [OF sample_draw])

text \<open>A draw fails only for a reason. With a valid rule it is refused exactly when the pool
  holds fewer matching versions than the rule asks for, with those counts in the error; otherwise
  it succeeds, whatever numbers the generator returns.\<close>

theorem resolveDraw_feasible_iff:
  assumes "validateRule rule = None"
  shows "(isOk (resolveDraw rule pool rng) \<longleftrightarrow>
      js_le (pickCount rule) (js_int (int (card (matching_ids rule pool))))) \<and>
    (isErr (resolveDraw rule pool rng) \<longleftrightarrow>
      resolveDraw rule pool rng = Inl (domainError Draw_infeasible
        (Some [(''pickCount'', D_number (pickCount rule)),
               (''eligibleCount'', D_count (card (matching_ids rule pool))),
               (''poolSize'', D_count (length pool))])))"
proof -
  obtain n where n: "pickCount rule = js_int n" "0 < n" by (rule validateRule_pickCount [OF assms])
  have "js_le (pickCount rule) (js_int (int (card (matching_ids rule pool)))) \<longleftrightarrow>
      \<not> int (card (matching_ids rule pool)) < n"
    unfolding n js_int_def js_le.simps of_int_le_iff by linarith
  then show ?thesis
    unfolding resolveDraw_valid [OF assms n(1)] by (simp add: isErr_def)
qed

theorem resolveDraw_feasible_iff_witness:
  "(isOk (resolveDraw sample_rule [] (\<lambda>_. PInf)) \<longleftrightarrow>
      js_le (pickCount sample_rule) (js_int (int (card (matching_ids sample_rule []))))) \<and>
   (isErr (resolveDraw sample_rule [] (\<lambda>_. PInf)) \<longleftrightarrow>
      resolveDraw sample_rule [] (\<lambda>_. PInf) = Inl (domainError Draw_infeasible
        (Some [(''pickCount'', D_number (pickCount sample_rule)),
               (''eligibleCount'', D_count (card (matching_ids sample_rule []))),
               (''poolSize'', D_count (length ([] :: drawCandidate list)))])))"
  by (rule resolveDraw_feasible_iff [OF sample_valid])

text \<open>The draw is a function of the eligible set and the generator: two pools with the same
  entries in any order, with any repetition, yield the same served questions in the same order.\<close>

theorem resolveDraw_order_independent:
  assumes "set pool = set pool'" "inj_on questionVersionId (set pool)"
  shows "resolveDraw rule pool rng = Inr out \<longleftrightarrow> resolveDraw rule pool' rng = Inr out"
  using eligible_set_only [OF assms, of rule]
  by (auto simp: resolveDraw_def Let_def split: option.splits if_splits)

theorem resolveDraw_order_independent_witness:
  "resolveDraw sample_rule [sample_entry ''b'' 2, sample_entry ''a'' 3] (\<lambda>k. Fin (1 / of_nat (k + 2))) = Inr [sample_entry ''b'' 2] \<longleftrightarrow>
   resolveDraw sample_rule [sample_entry ''a'' 3, sample_entry ''b'' 2, sample_entry ''a'' 3] (\<lambda>k. Fin (1 / of_nat (k + 2))) = Inr [sample_entry ''b'' 2]"
  by (rule resolveDraw_order_independent) (auto simp: sample_entry_def)

text \<open>Shuffling the options of a question loses and duplicates nothing, for any generator.\<close>

theorem shuffleOptions_permutes: "mset (shuffleOptions options rng) = mset options"
  by (simp add: shuffleOptions_def)

end
