(* ===== verification/Compose.thy ===== *)
theory Compose
  imports Draw
begin

text \<open>
  Composing an assessment from a role (\<open>packages/core-domain/src/compose.ts\<close>): the
  largest-remainder allocation \<open>allocateByWeight\<close> and \<open>composeFromRole\<close>, which turns the
  required skills of a role into the section rules that \<open>resolveDraw\<close> of \<open>Draw\<close> serves.

  The shares are computed in doubles, so that they add up to the total is not arithmetic but
  an error analysis: each share carries a relative error of at most two roundings plus those of
  the sum of the weights, which for the sizes the contracts admit (weights of two decimals up
  to 99.99, at most 100 questions) stays far below one question. The bounds used here are wider.
\<close>

record roleSkill =
  role_skillId :: string
  role_skillName :: string
  weight :: jsnum
  role_minDifficulty :: "jsnum option"
  role_maxDifficulty :: "jsnum option"
  isRequired :: bool

record composeOptions =
  opt_questionCount :: jsnum
  opt_kinds :: "questionKind list option"
  opt_excludeSeenDays :: "jsnum option"

record composedRule = sectionRule +
  skillName :: string

record composedSection =
  section_name :: string
  section_rules :: "composedRule list"

record composition =
  sections :: "composedSection list"
  questionCount :: jsnum
  totalScore :: jsnum

definition SCORE_PER_QUESTION :: jsnum where
  "SCORE_PER_QUESTION = Fin 1"

definition js_sum :: "jsnum list \<Rightarrow> jsnum" where
  "js_sum = foldl js_add (Fin 0)"

text \<open>The comparator of the leftover order: larger remainder first, then the earlier index.\<close>

definition byRemainder :: "nat \<times> jsnum \<Rightarrow> nat \<times> jsnum \<Rightarrow> jsnum" where
  "byRemainder a b =
     (if js_eq (snd b) (snd a) then js_int (int (fst a) - int (fst b)) else js_sub (snd b) (snd a))"

text \<open>The loop that hands the leftover out, one each, in that order.\<close>

fun handOut :: "jsnum \<Rightarrow> nat list \<Rightarrow> jsnum list \<Rightarrow> jsnum list" where
  "handOut remaining [] out = out"
| "handOut remaining (index # order) out =
     (if js_le remaining (Fin 0) then out
      else handOut (js_sub remaining (Fin 1)) order (out[index := js_add (out ! index) (Fin 1)]))"

definition allocateByWeight :: "jsnum \<Rightarrow> jsnum list \<Rightarrow> jsnum list" where
  "allocateByWeight total_items weights =
     (let sum = js_sum weights
      in if js_le sum (Fin 0) then map (\<lambda>_. Fin 0) weights
         else let exact = map (\<lambda>w. js_mul (js_div w sum) total_items) weights;
                  floors = map js_floor exact;
                  remaining = js_sub total_items (js_sum floors);
                  order = js_sort byRemainder
                            (map (\<lambda>(index, value). (index, js_sub value (js_floor value)))
                              (enumerate 0 exact))
              in handOut remaining (map fst order) floors)"

text \<open>The section rule written for the required skill at \<open>index\<close>.\<close>

definition composeRule :: "composeOptions \<Rightarrow> jsnum list \<Rightarrow> nat \<Rightarrow> roleSkill \<Rightarrow> composedRule" where
  "composeRule options extra index skill =
     \<lparr> pickCount = js_add (Fin 1) (if index < length extra then extra ! index else Fin 0),
       rule_skillIds = [role_skillId skill],
       kinds = (case opt_kinds options of None \<Rightarrow> [] | Some ks \<Rightarrow> ks),
       minDifficulty = (case role_minDifficulty skill of None \<Rightarrow> Fin 1 | Some d \<Rightarrow> d),
       maxDifficulty = (case role_maxDifficulty skill of None \<Rightarrow> Fin 5 | Some d \<Rightarrow> d),
       excludeSeenDays = (case opt_excludeSeenDays options of None \<Rightarrow> Fin 0 | Some d \<Rightarrow> d),
       scorePerQuestion = SCORE_PER_QUESTION,
       skillName = role_skillName skill \<rparr>"

definition composeFromRole ::
  "roleSkill list \<Rightarrow> composeOptions \<Rightarrow> (domain_error, composition) result"
where
  "composeFromRole skills options =
     (let required = filter isRequired skills;
          count = opt_questionCount options
      in if length required = 0
         then Inl (domainError Invalid_rule (Some [(''skillCount'', D_count (length skills))]))
         else if \<not> isInteger count \<or> js_le count (Fin 0)
         then Inl (domainError Invalid_rule (Some [(''questionCount'', D_number count)]))
         else if js_lt count (js_int (int (length required)))
         then Inl (domainError Invalid_rule
                (Some [(''questionCount'', D_number count),
                       (''requiredSkillCount'', D_count (length required))]))
         else if list_ex (\<lambda>skill. js_le (weight skill) (Fin 0)) required
         then Inl (domainError Invalid_rule (Some []))
         else let spare = js_sub count (js_int (int (length required)));
                  extra = allocateByWeight spare (map weight required);
                  rules = map (\<lambda>(index, skill). composeRule options extra index skill) (enumerate 0 required)
              in Inr \<lparr> sections = [\<lparr> section_name = ''Questions'', section_rules = rules \<rparr>],
                       questionCount = js_sum (map pickCount rules),
                       totalScore = js_mul count SCORE_PER_QUESTION \<rparr>)"

subsection \<open>Sums of whole numbers are exact\<close>

lemma foldl_js_add_int:
  assumes "\<forall>k\<in>set ks. 0 \<le> k" "0 \<le> a" "a + sum_list ks \<le> 2 ^ 53"
  shows "foldl js_add (js_int a) (map js_int ks) = js_int (a + sum_list ks)"
  using assms
proof (induction ks arbitrary: a)
  case (Cons k ks)
  have "0 \<le> sum_list ks" using Cons.prems(1) by (simp add: sum_list_nonneg)
  then have "dbl (of_int (a + k)) = Fin (of_int (a + k))"
    using Cons.prems by (intro dbl_int) auto
  then have "js_add (js_int a) (js_int k) = js_int (a + k)" by (simp add: js_int_def)
  then show ?case using Cons by (simp add: add.assoc)
qed simp

lemma js_sum_int:
  assumes "\<forall>k\<in>set ks. 0 \<le> k" "sum_list ks \<le> 2 ^ 53"
  shows "js_sum (map js_int ks) = js_int (sum_list ks)"
  using foldl_js_add_int [of ks 0] assms by (simp add: js_sum_def js_int_def)

lemma js_int_step:
  assumes "\<bar>k\<bar> < 2 ^ 53"
  shows "js_add (js_int k) (Fin 1) = js_int (k + 1)" "js_add (Fin 1) (js_int k) = js_int (1 + k)"
    "js_sub (js_int k) (Fin 1) = js_int (k - 1)"
proof -
  have "\<bar>k + 1\<bar> \<le> 2 ^ 53" "\<bar>k - 1\<bar> \<le> 2 ^ 53" using assms by arith+
  then show "js_add (js_int k) (Fin 1) = js_int (k + 1)" "js_add (Fin 1) (js_int k) = js_int (1 + k)"
    "js_sub (js_int k) (Fin 1) = js_int (k - 1)"
    using dbl_int [of "k + 1"] dbl_int [of "k - 1"] by (simp_all add: js_int_def js_sub_def add.commute)
qed

lemma js_sub_int: "\<bar>a - b\<bar> \<le> 2 ^ 53 \<Longrightarrow> js_sub (js_int a) (js_int b) = js_int (a - b)"
  using dbl_int [of "a - b"] by (simp add: js_int_def js_sub_def)

lemma sum_list_update_int: "i < length xs \<Longrightarrow> sum_list (xs[i := x]) = sum_list xs + x - (xs ! i :: int)"
  by (induction xs arbitrary: i) (auto split: nat.split)

text \<open>
  The loop hands out exactly what remains, at most one to each index, when there are indices
  enough for it.
\<close>

lemma handOut_step:
  assumes "0 < k" "k < 2 ^ 53" "i < length ls" "0 \<le> ls ! i" "ls ! i < 2 ^ 53"
  shows "handOut (js_int k) (i # ixs) (map js_int ls) = handOut (js_int (k - 1)) ixs (map js_int (ls[i := ls ! i + 1]))"
proof -
  have "\<not> js_le (js_int k) (Fin 0)" using assms(1) by (simp add: js_int_def)
  moreover have "\<bar>k\<bar> < 2 ^ 53" "\<bar>ls ! i\<bar> < 2 ^ 53" using assms by linarith+
  ultimately show ?thesis
    using assms(3) by (simp only: handOut.simps js_int_step nth_map map_update if_False)
qed

lemma handOut_spec:
  assumes "distinct ixs" "\<forall>i\<in>set ixs. i < length ls \<and> 0 \<le> ls ! i \<and> ls ! i < 2 ^ 53"
    "0 \<le> k" "k \<le> int (length ixs)" "k < 2 ^ 53"
  shows "\<exists>out. handOut (js_int k) ixs (map js_int ls) = map js_int out \<and> length out = length ls
           \<and> sum_list out = sum_list ls + k \<and> (\<forall>i<length ls. ls ! i \<le> out ! i)"
  using assms
proof (induction ixs arbitrary: k ls)
  case (Cons i ixs)
  show ?case
  proof (cases "k = 0")
    case True
    then show ?thesis by (intro exI [of _ ls]) (simp add: js_int_def)
  next
    case False
    then have k: "0 < k" using Cons.prems by simp
    define ls' where "ls' = ls[i := ls ! i + 1]"
    have i: "i < length ls" "0 \<le> ls ! i" "ls ! i < 2 ^ 53" using Cons.prems(2) by auto
    have other: "ls' ! j = ls ! j" if "j \<noteq> i" for j using that by (simp add: ls'_def)
    have "\<forall>j\<in>set ixs. j < length ls' \<and> 0 \<le> ls' ! j \<and> ls' ! j < 2 ^ 53"
      using Cons.prems(1,2) other by (metis distinct.simps(2) length_list_update list.set_intros(2) ls'_def)
    moreover have "0 \<le> k - 1" "k - 1 \<le> int (length ixs)" "k - 1 < 2 ^ 53" "distinct ixs"
      using Cons.prems k by simp_all
    ultimately obtain out where out: "handOut (js_int (k - 1)) ixs (map js_int ls') = map js_int out"
      "length out = length ls'" "sum_list out = sum_list ls' + (k - 1)"
      "\<forall>j<length ls'. ls' ! j \<le> out ! j" using Cons.IH by meson
    have "ls ! j \<le> ls' ! j" if "j < length ls" for j
      using that by (cases "j = i") (simp_all add: ls'_def)
    then have "\<forall>j<length ls. ls ! j \<le> out ! j" using out(4) by (metis length_list_update ls'_def order_trans)
    moreover have "sum_list out = sum_list ls + k"
      using out(3) i(1) by (simp add: ls'_def sum_list_update_int)
    moreover have "handOut (js_int k) (i # ixs) (map js_int ls) = map js_int out"
      using handOut_step [OF k Cons.prems(5) i] out(1) by (simp only: ls'_def)
    ultimately show ?thesis using out(2) by (metis length_list_update ls'_def)
  qed
next
  case Nil
  then show ?case by (intro exI [of _ ls]) simp
qed

subsection \<open>Error analysis of the shares\<close>

definition weights_ok :: "rat list \<Rightarrow> bool" where
  "weights_ok rs \<longleftrightarrow> (\<forall>r\<in>set rs. 1 / 2 ^ 20 \<le> r \<and> r \<le> 2 ^ 20) \<and> length rs \<le> 2 ^ 20"

lemma float_sum:
  assumes "\<forall>r\<in>set rs. 1 / 2 ^ 20 \<le> r \<and> r \<le> 2 ^ 20"
    "0 \<le> s" "s \<le> of_int (int j * 2 ^ 20)" "j + length rs \<le> 2 ^ 20"
  shows "\<exists>S. foldl js_add (Fin s) (map Fin rs) = Fin S \<and> S \<le> 2 ^ 40
      \<and> (1 - unit_roundoff) ^ length rs * (s + sum_list rs) \<le> S
      \<and> S \<le> (1 + unit_roundoff) ^ length rs * (s + sum_list rs)"
  using assms
proof (induction rs arbitrary: s j)
  case Nil
  have "int j \<le> int (2 ^ 20)" using Nil by (simp only: of_nat_le_iff list.size add_0_right)
  then have "(of_int (int j * 2 ^ 20) :: rat) \<le> of_int (2 ^ 20 * 2 ^ 20)" by (intro of_int_le_iff [THEN iffD2] mult_right_mono) simp_all
  then show ?case using Nil by simp
next
  case (Cons r rs)
  define t where "t = round_double (s + r)"
  have r: "1 / 2 ^ 20 \<le> r" "r \<le> 2 ^ 20" using Cons.prems by auto
  have rest: "0 \<le> sum_list rs" using Cons.prems(1) by (intro sum_list_nonneg) force
  then have urest: "0 \<le> unit_roundoff * sum_list rs" using roundoff_pos by simp
  have "int (Suc j) \<le> int (2 ^ 20)" using Cons.prems(4) by (simp only: of_nat_le_iff) simp
  then have j: "\<bar>int (Suc j) * 2 ^ 20\<bar> \<le> 2 ^ 53" by simp
  have sr: "s + r \<le> of_int (int (Suc j) * 2 ^ 20)"
    using r Cons.prems(3) by (simp add: algebra_simps)
  have tj: "t \<le> of_int (int (Suc j) * 2 ^ 20)"
    unfolding t_def by (rule double.rnd_le_int [OF j sr])
  have t0: "0 \<le> t" unfolding t_def using r Cons.prems(2) by (intro double.rnd_nonneg) (auto intro: order_trans)
  have "1 / 2 ^ 100 \<le> s + r" using r(1) Cons.prems(2) by (simp add: field_simps)
  note tf = round_double_factor [OF this, folded t_def]
  have "s + r \<le> 2 ^ 1000"
  proof -
    have "(of_int (int (Suc j) * 2 ^ 20) :: rat) \<le> of_int (2 ^ 53)" using j by (simp only: of_int_le_iff)
    also have "\<dots> \<le> 2 ^ 1000" by simp
    finally show ?thesis using sr by linarith
  qed
  moreover have "0 \<le> s + r" using r Cons.prems(2) by (auto intro: order_trans)
  ultimately have "js_add (Fin s) (Fin r) = Fin t" by (simp add: t_def dbl_bounded)
  moreover obtain S where S: "foldl js_add (Fin t) (map Fin rs) = Fin S" "S \<le> 2 ^ 40"
      "(1 - unit_roundoff) ^ length rs * (t + sum_list rs) \<le> S"
      "S \<le> (1 + unit_roundoff) ^ length rs * (t + sum_list rs)"
    using Cons.IH [of t "Suc j"] Cons.prems t0 tj by auto
  moreover have "(1 - unit_roundoff) ^ length (r # rs) * (s + sum_list (r # rs)) \<le> S"
  proof -
    have "(1 - unit_roundoff) * (s + sum_list (r # rs)) \<le> t + sum_list rs"
      using tf(1) urest by (simp add: algebra_simps)
    then have "(1 - unit_roundoff) ^ length rs * ((1 - unit_roundoff) * (s + sum_list (r # rs)))
        \<le> (1 - unit_roundoff) ^ length rs * (t + sum_list rs)"
      using roundoff_pos by (intro mult_left_mono) auto
    then show ?thesis using S(3) by (simp add: mult.assoc mult.left_commute)
  qed
  moreover have "S \<le> (1 + unit_roundoff) ^ length (r # rs) * (s + sum_list (r # rs))"
  proof -
    have "t + sum_list rs \<le> (1 + unit_roundoff) * (s + sum_list (r # rs))"
      using tf(2) urest by (simp add: algebra_simps)
    then have "(1 + unit_roundoff) ^ length rs * (t + sum_list rs)
        \<le> (1 + unit_roundoff) ^ length rs * ((1 + unit_roundoff) * (s + sum_list (r # rs)))"
      using roundoff_pos by (intro mult_left_mono) auto
    then show ?thesis using S(4) by (simp add: mult.assoc mult.left_commute)
  qed
  ultimately show ?case by simp
qed

text \<open>The double computed for one share, from the exact values of its operands.\<close>

definition share :: "rat \<Rightarrow> nat \<Rightarrow> rat \<Rightarrow> rat" where
  "share S n r = round_double (round_double (r / S) * of_nat n)"

lemma share_bounds:
  assumes "1 / 2 ^ 20 \<le> r" "r \<le> 2 ^ 20" "1 / 2 ^ 22 \<le> S" "S \<le> 2 ^ 41" "n \<le> 2 ^ 20"
  shows "js_mul (js_div (Fin r) (Fin S)) (js_int (int n)) = Fin (share S n r)"
    "(1 - unit_roundoff) ^ 2 * (r / S * of_nat n) \<le> share S n r"
    "share S n r \<le> (1 + unit_roundoff) ^ 2 * (r / S * of_nat n)"
    "0 \<le> share S n r"
proof -
  have S0: "0 < S" by (rule less_le_trans [OF _ assms(3)]) simp
  have q: "1 / 2 ^ 61 \<le> r / S" "r / S \<le> 2 ^ 42"
  proof -
    have "1 / 2 ^ 61 * S \<le> 1 / 2 ^ 61 * 2 ^ 41" using assms(4) by (intro mult_left_mono) auto
    also have "\<dots> \<le> r" using assms(1) by simp
    finally show "1 / 2 ^ 61 \<le> r / S" using S0 by (simp add: field_simps)
    have "r \<le> 2 ^ 42 * (1 / 2 ^ 22)" using assms(2) by simp
    also have "\<dots> \<le> 2 ^ 42 * S" using assms(3) by (intro mult_left_mono) auto
    finally show "r / S \<le> 2 ^ 42" using S0 by (simp add: field_simps)
  qed
  have q0: "0 \<le> r / S" using q(1) by (rule order_trans [rotated]) simp
  define d where "d = round_double (r / S)"
  have d0: "1 / 2 ^ 100 \<le> r / S" using q(1) by (rule order_trans [rotated]) simp
  note df = round_double_factor [OF d0, folded d_def]
  have d1: "1 / 2 ^ 62 \<le> d" "d \<le> 2 ^ 43"
  proof -
    have "1 / 2 ^ 62 = 1/2 * (1 / 2 ^ 61 :: rat)" by simp
    also have "\<dots> \<le> (1 - unit_roundoff) * (r / S)"
      using q(1) by (intro mult_mono) (auto simp: unit_roundoff_def)
    finally show "1 / 2 ^ 62 \<le> d" using df(1) by linarith
    have "(1 + unit_roundoff) * (r / S) \<le> 2 * 2 ^ 42"
      using q q0 by (intro mult_mono) (auto simp: unit_roundoff_def)
    then show "d \<le> 2 ^ 43" using df(2) by simp
  qed
  have n: "(of_nat n :: rat) \<le> 2 ^ 20"
    using assms(5) by (metis of_nat_le_iff of_nat_numeral of_nat_power)
  have "0 \<le> d" by (rule order_trans [OF _ d1(1)]) simp
  then have dn: "0 \<le> d * of_nat n" "d * of_nat n \<le> 2 ^ 43 * 2 ^ 20"
    using mult_mono [OF d1(2) n] by simp_all
  have "\<bar>r / S\<bar> \<le> 2 ^ 1000" 
  proof -
    have "\<bar>r / S\<bar> = r / S" using q0 by (rule abs_of_nonneg)
    also have "\<dots> \<le> 2 ^ 1000" by (rule order_trans [OF q(2)]) simp
    finally show ?thesis .
  qed
  then have "js_div (Fin r) (Fin S) = Fin d" using S0 by (simp add: d_def dbl_bounded)
  moreover have "\<bar>d * of_nat n\<bar> \<le> 2 ^ 1000" using dn by (simp add: abs_le_iff)
  ultimately show "js_mul (js_div (Fin r) (Fin S)) (js_int (int n)) = Fin (share S n r)"
    by (simp add: js_int_def share_def d_def dbl_bounded)
  show "0 \<le> share S n r" using dn(1) by (simp add: share_def d_def double.rnd_nonneg)
  have "(1 - unit_roundoff) ^ 2 * (r / S * of_nat n) \<le> share S n r
      \<and> share S n r \<le> (1 + unit_roundoff) ^ 2 * (r / S * of_nat n)"
  proof (cases "n = 0")
    case False
    then have n1: "(1::rat) \<le> of_nat n" by simp
    have "1 / 2 ^ 62 * 1 \<le> d * of_nat n" using d1(1) n1 by (intro mult_mono) auto
    then have "1 / 2 ^ 100 \<le> d * of_nat n" by (rule order_trans [rotated]) simp
    note sf = round_double_factor [OF this, folded d_def share_def, unfolded d_def, folded share_def]
    have "(1 - unit_roundoff) * (r / S) * of_nat n \<le> d * of_nat n"
      "d * of_nat n \<le> (1 + unit_roundoff) * (r / S) * of_nat n"
      using df n1 by (intro mult_right_mono; simp)+
    then have "(1 - unit_roundoff) * ((1 - unit_roundoff) * (r / S) * of_nat n) \<le> share S n r"
      "share S n r \<le> (1 + unit_roundoff) * ((1 + unit_roundoff) * (r / S) * of_nat n)"
      using sf roundoff_pos unfolding d_def
      by (meson mult_left_mono order_trans less_imp_le diff_ge_0_iff_ge add_nonneg_nonneg zero_le_one)+
    then show ?thesis by (simp add: power2_eq_square mult.assoc)
  qed (simp add: share_def)
  then show "(1 - unit_roundoff) ^ 2 * (r / S * of_nat n) \<le> share S n r"
    "share S n r \<le> (1 + unit_roundoff) ^ 2 * (r / S * of_nat n)" by simp_all
qed

lemma Bernoulli_rat: "(x :: rat) \<le> 1 \<Longrightarrow> 1 - of_nat k * x \<le> (1 - x) ^ k" if "0 \<le> x"
proof (induction k)
  case (Suc k)
  have "1 - of_nat (Suc k) * x \<le> (1 - x) * (1 - of_nat k * x)"
    using that by (simp add: algebra_simps)
  also have "\<dots> \<le> (1 - x) * (1 - x) ^ k" using Suc by (intro mult_left_mono) auto
  finally show ?case by simp
qed simp

lemma roundoff_powers:
  assumes "m \<le> 2 ^ 20 + 2"
  shows "1 - 1 / 2 ^ 32 \<le> (1 - unit_roundoff) ^ m"
    "(1 + unit_roundoff) ^ m * (1 - 1 / 2 ^ 32) \<le> 1"
proof -
  have "(of_nat m :: rat) \<le> of_nat (2 ^ 20 + 2)" using assms by (simp only: of_nat_le_iff)
  then have "of_nat m * unit_roundoff \<le> 1 / 2 ^ 32" by (simp add: unit_roundoff_def)
  then show lo: "1 - 1 / 2 ^ 32 \<le> (1 - unit_roundoff) ^ m"
    using Bernoulli_rat [of unit_roundoff m] roundoff_pos by linarith
  have "(1 + unit_roundoff) ^ m * (1 - 1 / 2 ^ 32) \<le> (1 + unit_roundoff) ^ m * (1 - unit_roundoff) ^ m"
    using lo roundoff_pos by (intro mult_left_mono) auto
  also have "\<dots> = (1 - unit_roundoff ^ 2) ^ m"
    by (simp add: power_mult_distrib [symmetric] algebra_simps power2_eq_square)
  also have "\<dots> \<le> 1" using roundoff_pos by (intro power_le_one) (auto simp: power_le_one less_imp_le)
  finally show "(1 + unit_roundoff) ^ m * (1 - 1 / 2 ^ 32) \<le> 1" .
qed

lemma sum_list_scale:
  assumes "\<forall>r\<in>set rs. c * (r / S * k) \<le> f r" "\<forall>r\<in>set rs. f r \<le> d * (r / S * k)"
  shows "c * (sum_list rs / S * k) \<le> (\<Sum>r\<leftarrow>rs. f r)" "(\<Sum>r\<leftarrow>rs. f r) \<le> d * (sum_list rs / S * (k :: rat))"
  using assms by (induction rs) (auto simp: algebra_simps add_divide_distrib)

text \<open>The shares add up to within one question of the total.\<close>

lemma share_sum:
  assumes "weights_ok rs" "rs \<noteq> []" "n \<le> 2 ^ 20"
  obtains S where "js_sum (map Fin rs) = Fin S" "1 / 2 ^ 22 \<le> S" "S \<le> 2 ^ 41"
    "of_nat n - 1 < (\<Sum>r\<leftarrow>rs. share S n r)" "(\<Sum>r\<leftarrow>rs. share S n r) < of_nat n + 1"
proof -
  define T where "T = sum_list rs"
  define D where "D = (1 / 2 ^ 32 :: rat)"
  have m: "length rs \<le> 2 ^ 20" and rs: "\<forall>r\<in>set rs. 1 / 2 ^ 20 \<le> r \<and> r \<le> 2 ^ 20"
    using assms(1) by (auto simp: weights_ok_def)
  obtain S where S: "js_sum (map Fin rs) = Fin S" "S \<le> 2 ^ 40"
      "(1 - unit_roundoff) ^ length rs * T \<le> S" "S \<le> (1 + unit_roundoff) ^ length rs * T"
    using float_sum [of rs 0 0] rs m by (auto simp: js_sum_def T_def)
  have T1: "1 / 2 ^ 20 \<le> T"
  proof -
    obtain r qs where q: "rs = r # qs" using assms(2) by (cases rs) auto
    have "0 \<le> sum_list qs" using rs q by (intro sum_list_nonneg) force
    then show ?thesis using rs q by (simp add: T_def)
  qed
  have T0: "0 < T" by (rule less_le_trans [OF _ T1]) simp
  have pw: "1 - D \<le> (1 - unit_roundoff) ^ length rs" "(1 + unit_roundoff) ^ length rs * (1 - D) \<le> 1"
    using roundoff_powers [of "length rs"] m by (simp_all only: D_def)
  have SD: "(1 - D) * T \<le> S" "S * (1 - D) \<le> T"
  proof -
    show "(1 - D) * T \<le> S" using mult_right_mono [OF pw(1)] T0 S(3) by (meson less_imp_le order_trans)
    have "S * (1 - D) \<le> ((1 + unit_roundoff) ^ length rs * T) * (1 - D)"
      using S(4) by (intro mult_right_mono) (auto simp: D_def)
    also have "\<dots> = ((1 + unit_roundoff) ^ length rs * (1 - D)) * T" by simp
    also have "\<dots> \<le> 1 * T" using pw(2) T0 by (intro mult_right_mono) auto
    finally show "S * (1 - D) \<le> T" by simp
  qed
  have "1/2 * (1 / 2 ^ 20) \<le> (1 - D) * T" using T1 by (intro mult_mono) (auto simp: D_def)
  then have S1: "1 / 2 ^ 22 \<le> S" using SD(1) by simp
  have S0: "0 < S" by (rule less_le_trans [OF _ S1]) simp
  have S2: "S \<le> 2 ^ 41" using S(2) by simp
  define k where "k = (of_nat n :: rat)"
  have "(of_nat n :: rat) \<le> of_nat (2 ^ 20)" using assms(3) by (simp only: of_nat_le_iff)
  then have k: "0 \<le> k" "k \<le> 2 ^ 20" by (simp_all add: k_def)
  define Z where "Z = (\<Sum>r\<leftarrow>rs. share S n r)"
  define q where "q = T / S"
  have Z: "(1 - unit_roundoff) ^ 2 * (q * k) \<le> Z" "Z \<le> (1 + unit_roundoff) ^ 2 * (q * k)"
    unfolding Z_def q_def T_def k_def
    using share_bounds(2,3) [OF _ _ S1 S2 assms(3)] rs by (intro sum_list_scale; blast)+
  have q: "1 - D \<le> q" "q * (1 - D) \<le> 1"
    using SD S0 by (simp_all add: q_def field_simps)
  have q2: "q \<le> 1 + 2 * D"
  proof (rule ccontr)
    assume "\<not> q \<le> 1 + 2 * D"
    then have "(1 + 2 * D) * (1 - D) < q * (1 - D)" by (intro mult_strict_right_mono) (auto simp: D_def)
    with q(2) show False by (simp add: D_def)
  qed
  have up: "(1 + unit_roundoff) ^ 2 \<le> 1 + D" "1 - D \<le> (1 - unit_roundoff) ^ 2"
    by (simp_all add: D_def unit_roundoff_def power2_eq_square)
  have "Z \<le> (1 + D) * ((1 + 2 * D) * k)"
    using Z(2) up(1) q q2 k by (elim order_trans) (intro mult_mono; auto simp: D_def intro: mult_mono)
  also have "\<dots> < k + 1" using k(2) by (simp add: D_def algebra_simps)
  finally have upper: "Z < k + 1" .
  have "(1 - D) * ((1 - D) * k) \<le> (1 - unit_roundoff) ^ 2 * (q * k)"
    using up(2) q k by (intro mult_mono) (auto simp: D_def intro: mult_mono)
  then have "(1 - D) * ((1 - D) * k) \<le> Z" using Z(1) by linarith
  moreover have "k - 1 < (1 - D) * ((1 - D) * k)" using k by (simp add: D_def algebra_simps)
  ultimately have "k - 1 < Z" by linarith
  then show ?thesis using that [OF S(1) S1 S2] upper by (simp add: Z_def k_def)
qed

lemma floor_sum_bounds:
  assumes "\<forall>x\<in>set xs. 0 \<le> x" "of_nat n - 1 < sum_list xs" "sum_list xs < (of_nat n + 1 :: rat)"
  shows "(\<Sum>x\<leftarrow>xs. \<lfloor>x\<rfloor>) \<le> int n" "int n - (\<Sum>x\<leftarrow>xs. \<lfloor>x\<rfloor>) \<le> int (length xs)"
proof -
  have fl: "of_int (\<Sum>x\<leftarrow>ys. \<lfloor>x\<rfloor>) \<le> sum_list ys"
    "sum_list ys \<le> of_int ((\<Sum>x\<leftarrow>ys. \<lfloor>x\<rfloor>) + int (length ys))" for ys :: "rat list"
    by (induction ys; simp; linarith)+
  have "(of_int (\<Sum>x\<leftarrow>xs. \<lfloor>x\<rfloor>) :: rat) < of_int (int n + 1)"
    using fl(1) [of xs] assms(3) by simp
  then show "(\<Sum>x\<leftarrow>xs. \<lfloor>x\<rfloor>) \<le> int n" by (simp only: of_int_less_iff)
  have "(of_int (int n - 1) :: rat) < of_int ((\<Sum>x\<leftarrow>xs. \<lfloor>x\<rfloor>) + int (length xs))"
    using fl(2) [of xs] assms(2) by simp
  then show "int n - (\<Sum>x\<leftarrow>xs. \<lfloor>x\<rfloor>) \<le> int (length xs)" by (simp only: of_int_less_iff)
qed

lemma member_le_sum_int: "\<forall>k\<in>set ks. 0 \<le> k \<Longrightarrow> k \<in> set ks \<Longrightarrow> k \<le> sum_list (ks :: int list)"
  by (induction ks) (auto simp: sum_list_nonneg add_increasing add_increasing2)

lemma enumerate_fst: "map fst (map (\<lambda>(i, v). (i, f v)) (enumerate k xs)) = [k..<k + length xs]"
  by (simp add: comp_def case_prod_beta' map_fst_enumerate [symmetric] del: map_fst_enumerate)

lemma allocateByWeight_sum:
  assumes "weights_ok rs" "rs \<noteq> []" "n \<le> 2 ^ 20"
  shows "\<exists>ks. allocateByWeight (js_int (int n)) (map Fin rs) = map js_int ks
           \<and> length ks = length rs \<and> sum_list ks = int n \<and> (\<forall>k\<in>set ks. 0 \<le> k)"
proof -
  obtain S where S: "js_sum (map Fin rs) = Fin S" "1 / 2 ^ 22 \<le> S" "S \<le> 2 ^ 41"
    "of_nat n - 1 < (\<Sum>r\<leftarrow>rs. share S n r)" "(\<Sum>r\<leftarrow>rs. share S n r) < of_nat n + 1"
    using share_sum [OF assms] by blast
  have S0: "0 < S" by (rule less_le_trans [OF _ S(2)]) simp
  define xs where "xs = map (share S n) rs"
  define fs where "fs = map floor xs"
  have rs: "\<forall>r\<in>set rs. 1 / 2 ^ 20 \<le> r \<and> r \<le> 2 ^ 20" and m: "length rs \<le> 2 ^ 20"
    using assms(1) by (auto simp: weights_ok_def)
  have "0 \<le> share S n r" if "r \<in> set rs" for r
    using share_bounds(4) [OF _ _ S(2,3) assms(3)] rs that by blast
  then have xs0: "\<forall>x\<in>set xs. 0 \<le> x" by (auto simp: xs_def)
  have fsum: "sum_list fs \<le> int n" "int n - sum_list fs \<le> int (length rs)"
    using floor_sum_bounds [OF xs0, of n] S(4,5) by (simp_all add: xs_def fs_def)
  have fs0: "\<forall>k\<in>set fs. 0 \<le> k" using xs0 by (auto simp: fs_def)
  have n53: "int n \<le> 2 ^ 20" using assms(3) by (metis of_nat_le_iff of_nat_numeral of_nat_power)
  have exact: "map (\<lambda>w. js_mul (js_div w (Fin S)) (js_int (int n))) (map Fin rs) = map Fin xs"
    using share_bounds(1) [OF _ _ S(2,3) assms(3)] rs by (simp add: xs_def)
  have floors: "map js_floor (map Fin xs) = map js_int fs" by (simp add: fs_def js_int_def)
  have "js_sum (map js_int fs) = js_int (sum_list fs)"
    using fs0 fsum n53 by (intro js_sum_int) auto
  moreover have "0 \<le> sum_list fs" using fs0 by (intro sum_list_nonneg) auto
  ultimately have rem: "js_sub (js_int (int n)) (js_sum (map js_int fs)) = js_int (int n - sum_list fs)"
    using fsum n53 by (simp add: js_sub_int)
  define order where "order = js_sort byRemainder
    (map (\<lambda>(index, value). (index, js_sub value (js_floor value))) (enumerate 0 (map Fin xs)))"
  have "mset (map fst order) = mset [0..<length rs]"
    unfolding order_def mset_map mset_js_sort
    by (simp only: mset_map [symmetric] enumerate_fst) (simp add: xs_def)
  then have order: "distinct (map fst order)" "set (map fst order) = {0..<length rs}"
    "length (map fst order) = length rs"
    by (metis distinct_upt mset_eq_imp_distinct_iff, metis set_upt set_mset_mset,
        metis size_mset length_upt diff_zero)
  have big: "\<forall>k\<in>set fs. 0 \<le> k \<and> k < 2 ^ 53"
    using fs0 member_le_sum_int [OF fs0] fsum(1) n53 by force
  have ix: "\<forall>i\<in>set (map fst order). i < length fs \<and> 0 \<le> fs ! i \<and> fs ! i < 2 ^ 53"
    using big order(2) by (auto simp: fs_def xs_def)
  have "\<exists>out. handOut (js_int (int n - sum_list fs)) (map fst order) (map js_int fs) = map js_int out
      \<and> length out = length fs \<and> sum_list out = sum_list fs + (int n - sum_list fs)
      \<and> (\<forall>i<length fs. fs ! i \<le> out ! i)"
    using order(3) fsum n53 \<open>0 \<le> sum_list fs\<close> by (intro handOut_spec [OF order(1) ix]) simp_all
  then obtain out where out: "handOut (js_int (int n - sum_list fs)) (map fst order) (map js_int fs) = map js_int out"
    "length out = length fs" "sum_list out = int n" "\<forall>i<length fs. fs ! i \<le> out ! i" by auto
  have "allocateByWeight (js_int (int n)) (map Fin rs) = map js_int out"
    using S(1) S0 unfolding allocateByWeight_def Let_def
    by (simp only: exact floors rem out(1) [unfolded order_def]) simp
  moreover have "\<forall>k\<in>set out. 0 \<le> k"
    using out(2,4) fs0 by (metis in_set_conv_nth nth_mem order_trans)
  ultimately show ?thesis using out by (auto simp: fs_def xs_def)
qed

subsection \<open>Composition\<close>

text \<open>The required skills of a role carry weights the analysis covers.\<close>

definition role_ok :: "roleSkill list \<Rightarrow> bool" where
  "role_ok skills \<longleftrightarrow>
     (\<exists>rs. map weight (filter isRequired skills) = map Fin rs \<and> weights_ok rs)
     \<and> filter isRequired skills \<noteq> []"

lemma composeFromRole_eval:
  assumes "role_ok skills" "opt_questionCount options = js_int (int n)"
    "length (filter isRequired skills) \<le> n" "n \<le> 2 ^ 20"
  obtains ks rules where "length ks = length (filter isRequired skills)" "sum_list ks = int n"
    "\<forall>k\<in>set ks. 1 \<le> k" "map pickCount rules = map js_int ks"
    "map rule_skillIds rules = map (\<lambda>s. [role_skillId s]) (filter isRequired skills)"
    "composeFromRole skills options =
       Inr \<lparr> sections = [\<lparr> section_name = ''Questions'', section_rules = rules \<rparr>],
             questionCount = js_int (int n), totalScore = js_int (int n) \<rparr>"
proof -
  define required where "required = filter isRequired skills"
  define m where "m = length required"
  obtain rs where rs: "map weight required = map Fin rs" "weights_ok rs"
    using assms(1) by (auto simp: role_ok_def required_def)
  have m: "0 < m" "m \<le> n" "length rs = m"
    using assms rs by (auto simp: role_ok_def m_def required_def dest: map_eq_imp_length_eq)
  have n: "int n \<le> 2 ^ 20" using assms(4) by (metis of_nat_le_iff of_nat_numeral of_nat_power)
  obtain es where es: "allocateByWeight (js_int (int (n - m))) (map Fin rs) = map js_int es"
    "length es = m" "sum_list es = int (n - m)" "\<forall>e\<in>set es. 0 \<le> e"
    using allocateByWeight_sum [OF rs(2), of "n - m"] m assms(4) by fastforce
  have "js_sub (js_int (int n)) (js_int (int m)) = js_int (int (n - m))"
    using js_sub_int [of "int n" "int m"] m n by (simp add: of_nat_diff)
  note extra = this [THEN arg_cong, of "\<lambda>k. allocateByWeight k (map Fin rs)"]
  define rules where
    "rules = map (\<lambda>(index, skill). composeRule options (map js_int es) index skill) (enumerate 0 required)"
  define ks where "ks = map (\<lambda>e. 1 + e) es"
  have ksum: "sum_list ks = int n" "length ks = m" "\<forall>k\<in>set ks. 1 \<le> k"
    using es m by (auto simp: ks_def sum_list_addf sum_list_triv of_nat_diff)
  have "js_add (Fin 1) (js_int (es ! i)) = js_int (1 + es ! i)" if "i < m" for i
  proof (rule js_int_step(2))
    have "es ! i \<in> set es" using that es(2) by simp
    then have "0 \<le> es ! i" "es ! i \<le> int (n - m)"
      using es(3,4) member_le_sum_int [OF es(4)] by auto
    moreover have "int (n - m) \<le> int n" by simp
    ultimately show "\<bar>es ! i\<bar> < 2 ^ 53" using n by simp
  qed
  then have picks: "map pickCount rules = map js_int ks"
    using es(2) by (intro nth_equalityI) (auto simp: rules_def ks_def m_def nth_enumerate_eq composeRule_def)
  have ids: "map rule_skillIds rules = map (\<lambda>s. [role_skillId s]) required"
    by (intro nth_equalityI) (auto simp: rules_def nth_enumerate_eq composeRule_def)
  have total: "js_sum (map pickCount rules) = js_int (int n)"
    unfolding picks using ksum n by (subst js_sum_int) (auto intro: order_trans [of 0 1])
  have weights: "\<not> list_ex (\<lambda>s. js_le (weight s) (Fin 0)) required"
  proof -
    have "\<not> js_le w (Fin 0)" if "w \<in> set (map weight required)" for w
      using that rs unfolding rs(1) weights_ok_def by (force simp: not_le intro: less_le_trans [rotated])
    then show ?thesis by (auto simp: list_ex_iff)
  qed
  have guards: "isInteger (js_int (int n))" "\<not> js_le (js_int (int n)) (Fin 0)"
    "\<not> js_lt (js_int (int n)) (js_int (int m))" "js_mul (js_int (int n)) SCORE_PER_QUESTION = js_int (int n)"
    using m n dbl_int [of "int n"] by (auto simp: js_int_def SCORE_PER_QUESTION_def)
  have "composeFromRole skills options =
       Inr \<lparr> sections = [\<lparr> section_name = ''Questions'', section_rules = rules \<rparr>],
             questionCount = js_int (int n), totalScore = js_int (int n) \<rparr>"
    unfolding composeFromRole_def Let_def required_def [symmetric] assms(2) m_def [symmetric]
    by (simp only: guards weights m(1) rs(1) extra es(1) rules_def [symmetric] total
        not_gr0 [symmetric] if_False if_True not_True_eq_False not_False_eq_True simp_thms)
  then show ?thesis using that [of ks rules] ksum picks ids by (simp add: required_def m_def)
qed

text \<open>C24: composing an assessment never changes its size. For a role whose required skills carry
  usable weights and any question count that covers them, composition succeeds, the paper holds
  exactly the requested number of questions and marks, with one rule per required skill in order,
  and every required skill is asked at least once, although the shares are computed in floating
  point.\<close>

theorem composeFromRole_exact:
  assumes "role_ok skills" "opt_questionCount options = js_int (int n)"
    "length (filter isRequired skills) \<le> n" "n \<le> 2 ^ 20"
  shows "\<exists>rules ks. composeFromRole skills options =
           Inr \<lparr> sections = [\<lparr> section_name = ''Questions'', section_rules = rules \<rparr>],
                 questionCount = js_int (int n), totalScore = js_int (int n) \<rparr>
         \<and> map rule_skillIds rules = map (\<lambda>s. [role_skillId s]) (filter isRequired skills)
         \<and> map pickCount rules = map js_int ks \<and> sum_list ks = int n \<and> (\<forall>k\<in>set ks. 1 \<le> k)"
proof -
  obtain ks rules where "length ks = length (filter isRequired skills)" "sum_list ks = int n"
    "\<forall>k\<in>set ks. 1 \<le> k" "map pickCount rules = map js_int ks"
    "map rule_skillIds rules = map (\<lambda>s. [role_skillId s]) (filter isRequired skills)"
    "composeFromRole skills options =
       Inr \<lparr> sections = [\<lparr> section_name = ''Questions'', section_rules = rules \<rparr>],
             questionCount = js_int (int n), totalScore = js_int (int n) \<rparr>"
    by (rule composeFromRole_eval [OF assms])
  then show ?thesis by (intro exI [of _ rules] exI [of _ ks] conjI)
qed

definition sample_skill :: "string \<Rightarrow> rat \<Rightarrow> bool \<Rightarrow> roleSkill" where
  "sample_skill name w req =
     \<lparr> role_skillId = name, role_skillName = name, weight = Fin w, role_minDifficulty = Some (Fin 2),
       role_maxDifficulty = None, isRequired = req \<rparr>"

definition sample_role :: "roleSkill list" where
  "sample_role = [sample_skill ''python'' 2 True, sample_skill ''go'' 1 False, sample_skill ''sql'' 1 True]"

definition sample_options :: composeOptions where
  "sample_options = \<lparr> opt_questionCount = js_int 10, opt_kinds = None, opt_excludeSeenDays = None \<rparr>"

lemmas compose_samples = sample_role_def sample_skill_def sample_options_def

lemma sample_role_ok: "role_ok sample_role"
  by (auto simp: role_ok_def compose_samples weights_ok_def intro!: exI [of _ "[2, 1]"])

theorem composeFromRole_exact_witness:
  "\<exists>rules ks. composeFromRole sample_role sample_options =
           Inr \<lparr> sections = [\<lparr> section_name = ''Questions'', section_rules = rules \<rparr>],
                 questionCount = js_int 10, totalScore = js_int 10 \<rparr>
         \<and> map rule_skillIds rules = [[''python''], [''sql'']]
         \<and> map pickCount rules = map js_int ks \<and> sum_list ks = 10 \<and> (\<forall>k\<in>set ks. 1 \<le> k)"
  using composeFromRole_exact [OF sample_role_ok, of sample_options 10] by (simp add: compose_samples)

text \<open>The rules a composition writes, as \<open>resolveDraw\<close> reads them.\<close>

definition composed_rules :: "composition \<Rightarrow> sectionRule list" where
  "composed_rules c = concat (map (\<lambda>s. map sectionRule.truncate (section_rules s)) (sections c))"

text \<open>A band the schema admits: whole difficulties in \<open>1..5\<close>, in order.\<close>

definition band_ok :: "roleSkill \<Rightarrow> bool" where
  "band_ok skill \<longleftrightarrow>
     (\<exists>a b. (case role_minDifficulty skill of None \<Rightarrow> Fin 1 | Some d \<Rightarrow> d) = js_int a
        \<and> (case role_maxDifficulty skill of None \<Rightarrow> Fin 5 | Some d \<Rightarrow> d) = js_int b
        \<and> 1 \<le> a \<and> a \<le> b \<and> b \<le> 5)"

lemma composed_rules_from:
  assumes "composeFromRole skills options = Inr c" "rule \<in> set (composed_rules c)"
  obtains extra index skill where "skill \<in> set skills" "isRequired skill"
    "rule = sectionRule.truncate (composeRule options extra index skill)"
proof -
  define extra where "extra = allocateByWeight
    (js_sub (opt_questionCount options) (js_int (int (length (filter isRequired skills)))))
    (map weight (filter isRequired skills))"
  have "composed_rules c = map (\<lambda>(index, skill). sectionRule.truncate
      (composeRule options extra index skill)) (enumerate 0 (filter isRequired skills))"
    using assms(1)
    by (auto simp: composeFromRole_def Let_def composed_rules_def comp_def case_prod_beta' extra_def split: if_splits)
  with assms(2) obtain index skill where "(index, skill) \<in> set (enumerate 0 (filter isRequired skills))"
    "rule = sectionRule.truncate (composeRule options extra index skill)" by auto
  moreover from this(1) have "skill \<in> set (filter isRequired skills)"
    by (auto simp: in_set_enumerate_eq dest: nth_mem)
  ultimately show ?thesis using that by auto
qed

lemma composed_pickCount:
  assumes "role_ok skills" "opt_questionCount options = js_int (int n)"
    "length (filter isRequired skills) \<le> n" "n \<le> 2 ^ 20"
    "composeFromRole skills options = Inr c" "rule \<in> set (composed_rules c)"
  obtains k where "pickCount rule = js_int k" "0 < k"
proof -
  obtain ks rules where c: "length ks = length (filter isRequired skills)" "sum_list ks = int n"
    "\<forall>k\<in>set ks. 1 \<le> k" "map pickCount rules = map js_int ks"
    "map rule_skillIds rules = map (\<lambda>s. [role_skillId s]) (filter isRequired skills)"
    "composeFromRole skills options =
       Inr \<lparr> sections = [\<lparr> section_name = ''Questions'', section_rules = rules \<rparr>],
             questionCount = js_int (int n), totalScore = js_int (int n) \<rparr>"
    by (rule composeFromRole_eval [OF assms(1-4)])
  then have "composed_rules c = map sectionRule.truncate rules"
    using assms(5) by (simp add: composed_rules_def)
  then obtain r where "r \<in> set rules" "rule = sectionRule.truncate r" using assms(6) by auto
  then have "pickCount rule \<in> set (map pickCount rules)" by (simp add: sectionRule.truncate_def)
  then obtain k where "k \<in> set ks" "pickCount rule = js_int k" unfolding c(4) by auto
  then show ?thesis using that c(3) by force
qed

text \<open>What composition writes, the draw accepts. For a role with usable weights and whole
  difficulty bands in 1..5, and a whole number of recently seen days, every composed rule passes
  the validation at the head of resolveDraw: a draw on it succeeds or is refused for want of
  questions, never as a malformed rule.\<close>

theorem composed_rules_valid:
  assumes "role_ok skills" "opt_questionCount options = js_int (int n)"
    "length (filter isRequired skills) \<le> n" "n \<le> 2 ^ 20"
    "\<forall>skill\<in>set skills. band_ok skill"
    "opt_excludeSeenDays options = None \<or> opt_excludeSeenDays options = Some (js_int (int days))"
    "composeFromRole skills options = Inr c" "rule \<in> set (composed_rules c)"
  shows "validateRule rule = None
     \<and> (\<forall>e. resolveDraw rule pool rng = Inl e \<longrightarrow> err_code e = Draw_infeasible)"
proof -
  obtain extra index skill where r: "skill \<in> set skills" "isRequired skill"
    "rule = sectionRule.truncate (composeRule options extra index skill)"
    using composed_rules_from [OF assms(7,8)] .
  have sel: "minDifficulty rule = (case role_minDifficulty skill of None \<Rightarrow> Fin 1 | Some d \<Rightarrow> d)"
    "maxDifficulty rule = (case role_maxDifficulty skill of None \<Rightarrow> Fin 5 | Some d \<Rightarrow> d)"
    "excludeSeenDays rule = (case opt_excludeSeenDays options of None \<Rightarrow> Fin 0 | Some d \<Rightarrow> d)"
    "scorePerQuestion rule = Fin 1"
    by (simp_all add: r(3) composeRule_def sectionRule.truncate_def SCORE_PER_QUESTION_def)
  have "band_ok skill" using assms(5) r(1) by blast
  then obtain a b where ab: "minDifficulty rule = js_int a" "maxDifficulty rule = js_int b"
    "1 \<le> a" "a \<le> b" "b \<le> 5"
    unfolding band_ok_def sel by blast
  obtain k where k: "pickCount rule = js_int k" "0 < k"
    using composed_pickCount [OF assms(1-4,7,8)] .
  have "excludeSeenDays rule = js_int 0 \<or> excludeSeenDays rule = js_int (int days)"
    using assms(6) unfolding sel by (elim disjE) (simp_all add: js_int_def)
  then obtain d where d: "excludeSeenDays rule = js_int d" "0 \<le> d" by (elim disjE) simp_all
  have "validateRule rule = None"
    unfolding validateRule_def ab(1,2) k(1) d(1) sel(4) using ab(3-5) k(2) d(2)
    by (simp add: js_int_def MIN_DIFFICULTY_def MAX_DIFFICULTY_def)
  then show ?thesis by (simp add: resolveDraw_def Let_def)
qed

theorem composed_rules_valid_witness:
  "\<exists>c. composeFromRole sample_role sample_options = Inr c \<and> length (composed_rules c) = 2
     \<and> list_all (\<lambda>rule. validateRule rule = None) (composed_rules c)"
proof -
  obtain c where c: "composeFromRole sample_role sample_options = Inr c" "length (composed_rules c) = 2"
    by (auto simp: composeFromRole_def compose_samples js_int_def Let_def composed_rules_def)
  have "validateRule rule = None" if "rule \<in> set (composed_rules c)" for rule
    using composed_rules_valid [OF sample_role_ok, of sample_options 10 0 c rule "[]" "\<lambda>_. Fin 0"] c(1) that
    by (simp add: compose_samples band_ok_def js_int_def)
  then show ?thesis using c by (auto simp: list_all_iff)
qed

end
