(* ===== verification/Scoring.thy ===== *)
theory Scoring
  imports Compose
begin

text \<open>
  Scores (\<open>packages/grading/src/{round,aggregate}.ts\<close> and
  \<open>packages/core-domain/src/{round,skill-scores}.ts\<close>): the rounding to six decimals, the
  weighted share of passed test cases, the weighted total of sections
  and the per-skill roll-up. Everything is computed in doubles; a \<open>RangeError\<close> is \<open>Inl\<close>.
\<close>

subsection \<open>Rounding and guards\<close>

definition roundScore :: "jsnum \<Rightarrow> (thrown, jsnum) result" where
  "roundScore v = (case v of Fin x \<Rightarrow> Inr (toFixed6 x) | _ \<Rightarrow> Inl RangeError)"

definition assertFiniteAtLeast :: "jsnum \<Rightarrow> jsnum \<Rightarrow> (thrown, unit) result" where
  "assertFiniteAtLeast v least = (if \<not> isFinite v \<or> js_lt v least then Inl RangeError else Inr ())"

lemma roundScore_Fin [simp]: "roundScore (Fin x) = Inr (toFixed6 x)"
  by (simp add: roundScore_def)

lemma assertFiniteAtLeast_0 [simp]:
  "assertFiniteAtLeast v (Fin 0) = Inr () \<longleftrightarrow> (\<exists>r. v = Fin r \<and> 0 \<le> r)"
  "assertFiniteAtLeast (Fin r) (Fin 0) = (if r < 0 then Inl RangeError else Inr ())"
  by (cases v) (auto simp: assertFiniteAtLeast_def)

subsection \<open>Test cases and sections\<close>

fun scoreLoop :: "bool list \<Rightarrow> jsnum list \<Rightarrow> jsnum \<Rightarrow> jsnum \<Rightarrow> (thrown, jsnum \<times> jsnum) result" where
  "scoreLoop [] weights totalWeight earned = Inr (totalWeight, earned)"
| "scoreLoop (passed # results) [] totalWeight earned = Inl RangeError"
| "scoreLoop (passed # results) (w # weights) totalWeight earned =
     (case assertFiniteAtLeast w (Fin 0) of Inl e \<Rightarrow> Inl e
      | Inr _ \<Rightarrow> scoreLoop results weights (js_add totalWeight w) (if passed then js_add earned w else earned))"

definition scoreSubmission :: "bool list \<Rightarrow> jsnum list \<Rightarrow> (thrown, jsnum) result" where
  "scoreSubmission results weights =
     (if length results \<noteq> length weights then Inl RangeError
      else case scoreLoop results weights (Fin 0) (Fin 0) of Inl e \<Rightarrow> Inl e
           | Inr (totalWeight, earnedWeight) \<Rightarrow>
             if js_eq totalWeight (Fin 0) then Inr (Fin 0)
             else roundScore (js_div earnedWeight totalWeight))"

text \<open>A section is its score and its weight.\<close>

type_synonym weightedSection = "jsnum \<times> jsnum"

fun totalLoop :: "weightedSection list \<Rightarrow> jsnum \<Rightarrow> jsnum \<Rightarrow> (thrown, jsnum \<times> jsnum) result" where
  "totalLoop [] totalWeight wsum = Inr (totalWeight, wsum)"
| "totalLoop ((score, w) # secs) totalWeight wsum =
     (if \<not> isFinite score then Inl RangeError
      else case assertFiniteAtLeast w (Fin 0) of Inl e \<Rightarrow> Inl e
           | Inr _ \<Rightarrow> totalLoop secs (js_add totalWeight w) (js_add wsum (js_mul score w)))"

definition weightedTotal :: "weightedSection list \<Rightarrow> (thrown, jsnum) result" where
  "weightedTotal secs =
     (case totalLoop secs (Fin 0) (Fin 0) of Inl e \<Rightarrow> Inl e
      | Inr (totalWeight, weightedSum) \<Rightarrow>
        if js_eq totalWeight (Fin 0) then Inr (Fin 0) else roundScore (js_div weightedSum totalWeight))"

subsection \<open>Per-skill roll-up\<close>

definition roundProportion :: "jsnum \<Rightarrow> (thrown, jsnum) result" where
  "roundProportion v = (case v of Fin x \<Rightarrow> Inr (toFixed6 x) | _ \<Rightarrow> Inl RangeError)"

record questionSkillScore =
  q_skillIds :: "string list"
  q_score :: jsnum
  q_maxScore :: jsnum

definition assertFiniteInRange :: "jsnum \<Rightarrow> jsnum \<Rightarrow> jsnum option \<Rightarrow> (thrown, unit) result" where
  "assertFiniteInRange v least most =
     (if \<not> isFinite v \<or> js_lt v least \<or> (case most of None \<Rightarrow> False | Some m \<Rightarrow> js_lt m v)
      then Inl RangeError else Inr ())"

type_synonym skillMarks = "(string, jsnum) jsmap"

definition addMarks :: "skillMarks \<Rightarrow> string \<Rightarrow> jsnum \<Rightarrow> skillMarks" where
  "addMarks m skill v =
     map_set m skill (js_add (case map_get m skill of None \<Rightarrow> Fin 0 | Some x \<Rightarrow> x) v)"

fun rollSkills :: "questionSkillScore \<Rightarrow> skillMarks \<Rightarrow> string list \<Rightarrow> skillMarks \<times> skillMarks
    \<Rightarrow> (thrown, skillMarks \<times> skillMarks) result" where
  "rollSkills question weights [] acc = Inr acc"
| "rollSkills question weights (skill # skills) (earned, available) =
     (let w = (case map_get weights skill of None \<Rightarrow> Fin 1 | Some w \<Rightarrow> w)
      in case assertFiniteInRange w (Fin 0) None of Inl e \<Rightarrow> Inl e
         | Inr _ \<Rightarrow> rollSkills question weights skills
             (addMarks earned skill (js_mul w (q_score question)),
              addMarks available skill (js_mul w (q_maxScore question))))"

fun rollQuestions :: "questionSkillScore list \<Rightarrow> skillMarks \<Rightarrow> skillMarks \<times> skillMarks
    \<Rightarrow> (thrown, skillMarks \<times> skillMarks) result" where
  "rollQuestions [] weights acc = Inr acc"
| "rollQuestions (question # perQuestion) weights acc =
     (case assertFiniteInRange (q_maxScore question) (Fin 0) None of Inl e \<Rightarrow> Inl e | Inr _ \<Rightarrow>
      case assertFiniteInRange (q_score question) (Fin 0) (Some (q_maxScore question)) of Inl e \<Rightarrow> Inl e | Inr _ \<Rightarrow>
      case rollSkills question weights (uniq (q_skillIds question)) acc of Inl e \<Rightarrow> Inl e
      | Inr acc' \<Rightarrow> rollQuestions perQuestion weights acc')"

fun rollOut :: "skillMarks \<Rightarrow> skillMarks \<Rightarrow> skillMarks \<Rightarrow> (thrown, skillMarks) result" where
  "rollOut earned [] rolled = Inr rolled"
| "rollOut earned ((skill, availableMarks) # available) rolled =
     (if js_le availableMarks (Fin 0) then rollOut earned available rolled
      else case roundProportion (js_div (case map_get earned skill of None \<Rightarrow> Fin 0 | Some x \<Rightarrow> x) availableMarks)
           of Inl e \<Rightarrow> Inl e | Inr p \<Rightarrow> rollOut earned available (map_set rolled skill p))"

definition rollUpSkillScores ::
  "questionSkillScore list \<Rightarrow> skillMarks \<Rightarrow> (thrown, skillMarks) result"
where
  "rollUpSkillScores perQuestion weights =
     (case rollQuestions perQuestion weights ([], []) of Inl e \<Rightarrow> Inl e
      | Inr (earned, available) \<Rightarrow> rollOut earned available [])"

subsection \<open>Submissions\<close>

lemma scoreLoop_spec:
  assumes "length results = length weights" "\<forall>w\<in>set weights. \<exists>r. w = Fin r \<and> 0 \<le> r"
    "js_nonneg earned" "js_le earned totalWeight" "is_double earned"
  shows "\<exists>e. scoreLoop results weights totalWeight earned = Inr (foldl js_add totalWeight weights, e)
     \<and> js_nonneg e \<and> js_le e (foldl js_add totalWeight weights)
     \<and> (list_all id results \<and> earned = totalWeight \<longrightarrow> e = foldl js_add totalWeight weights)
     \<and> (list_all Not results \<longrightarrow> e = earned)"
  using assms
proof (induction results weights arbitrary: totalWeight earned rule: list_induct2')
  case (4 passed results w weights)
  then obtain r where w: "w = Fin r" "0 \<le> r" by auto
  let ?e = "if passed then js_add earned w else earned"
  have e: "js_nonneg ?e" "js_le ?e (js_add totalWeight w)" "is_double ?e"
    using 4(4-6) w by (auto intro: js_add_nonneg js_add_mono js_le_add)
  show ?case
    using 4(1) [OF _ _ e] 4(2-) w by (auto simp: assertFiniteAtLeast_def)
qed auto

text \<open>More passed cases earn at least as much, weight for weight.\<close>

lemma scoreLoop_mono:
  assumes "list_all2 (\<longrightarrow>) results results'" "\<forall>w\<in>set weights. \<exists>r. w = Fin r \<and> 0 \<le> r"
    "js_nonneg earned" "js_le earned earned'" "is_double earned" "is_double earned'"
    "scoreLoop results weights t earned = Inr (t1, e)" "scoreLoop results' weights t earned' = Inr (t2, e')"
  shows "js_nonneg e \<and> js_le e e' \<and> t1 = t2"
  using assms
proof (induction results results' arbitrary: weights t earned earned' rule: list_all2_induct)
  case (Cons p rs p' rs')
  then obtain r ws where w: "weights = Fin r # ws" "0 \<le> r" by (cases weights) auto
  let ?e = "if p then js_add earned (Fin r) else earned"
  let ?e' = "if p' then js_add earned' (Fin r) else earned'"
  have "js_nonneg earned'" using Cons js_le_trans by blast
  then have e: "js_nonneg ?e" "js_le ?e ?e'" "is_double ?e" "is_double ?e'"
    using Cons.hyps(1) Cons.prems w by (auto intro: js_add_nonneg js_add_mono js_le_add)
  have "scoreLoop rs ws (js_add t (Fin r)) ?e = Inr (t1, e)"
    "scoreLoop rs' ws (js_add t (Fin r)) ?e' = Inr (t2, e')"
    using Cons.prems w by (auto simp: assertFiniteAtLeast_def)
  moreover have "\<forall>w\<in>set ws. \<exists>r. w = Fin r \<and> 0 \<le> r" using Cons.prems w by simp
  ultimately show ?case using Cons.IH e by blast
qed auto

text \<open>A submission's score is a proportion. With one finite non-negative weight per test case
  whose sum does not overflow, scoring returns a number in [0, 1]; it is 1 when every case passed
  and some case carries weight, and 0 when none did.\<close>

theorem scoreSubmission_unit:
  assumes "length results = length weights" "\<forall>w\<in>set weights. \<exists>r. w = Fin r \<and> 0 \<le> r"
    "isFinite (js_sum weights)"
  shows "\<exists>s. scoreSubmission results weights = Inr (Fin s) \<and> 0 \<le> s \<and> s \<le> 1
     \<and> (list_all id results \<and> js_lt (Fin 0) (js_sum weights) \<longrightarrow> s = 1)
     \<and> (list_all Not results \<longrightarrow> s = 0)"
proof -
  obtain t where t: "js_sum weights = Fin t" using assms(3) by (cases "js_sum weights") auto
  obtain e where e: "scoreLoop results weights (Fin 0) (Fin 0) = Inr (Fin t, e)"
    "js_nonneg e" "js_le e (Fin t)"
    "list_all id results \<longrightarrow> e = Fin t" "list_all Not results \<longrightarrow> e = Fin 0"
    using scoreLoop_spec [OF assms(1,2), of "Fin 0" "Fin 0"] t by (auto simp: js_sum_def)
  then obtain r where r: "e = Fin r" "0 \<le> r" "r \<le> t" by (cases e) auto
  show ?thesis
  proof (cases "t = 0")
    case True
    then show ?thesis using assms(1) e t by (simp add: scoreSubmission_def js_eq_def)
  next
    case False
    then have "0 < t" using r by simp
    then obtain q where q: "js_div e (Fin t) = Fin q" "0 \<le> q" "q \<le> 1"
      using js_div_unit [of e "Fin t"] r by auto
    obtain s where s: "toFixed6 q = Fin s" "0 \<le> s" "s \<le> 1" using toFixed6_unit q by blast
    have "scoreSubmission results weights = Inr (Fin s)"
      using assms(1) e(1) q(1) s(1) False by (simp add: scoreSubmission_def js_eq_def)
    moreover have "list_all id results \<longrightarrow> s = 1" "list_all Not results \<longrightarrow> s = 0"
      using e(4,5) q(1) s(1) r(1) False by auto
    ultimately show ?thesis using s by blast
  qed
qed

theorem scoreSubmission_unit_witness:
  "\<exists>s. scoreSubmission [True, False] [Fin 1, Fin 2] = Inr (Fin s) \<and> 0 \<le> s \<and> s \<le> 1"
  using scoreSubmission_unit [of "[True, False]" "[Fin 1, Fin 2]"]
  by (simp add: js_sum_def js_simps)

text \<open>Passing more test cases never lowers a score: if every case passed in one run also passed
  in the other, the second run's score is at least the first's.\<close>

theorem scoreSubmission_monotone:
  assumes "list_all2 (\<longrightarrow>) results results'" "\<forall>w\<in>set weights. \<exists>r. w = Fin r \<and> 0 \<le> r"
    "scoreSubmission results weights = Inr s" "scoreSubmission results' weights = Inr s'"
  shows "js_le s s'"
proof -
  have len: "length results = length weights" "length results' = length weights"
    using assms(3,4) by (auto simp: scoreSubmission_def split: if_splits)
  obtain e t where e: "scoreLoop results weights (Fin 0) (Fin 0) = Inr (t, e)" "js_le e t"
    using scoreLoop_spec [OF len(1) assms(2), of "Fin 0" "Fin 0"] by auto
  obtain e' t' where e': "scoreLoop results' weights (Fin 0) (Fin 0) = Inr (t', e')" "js_le e' t'"
    using scoreLoop_spec [OF len(2) assms(2), of "Fin 0" "Fin 0"] by auto
  have le: "js_nonneg e" "js_le e e'" "t = t'"
    using scoreLoop_mono [OF assms(1,2) _ _ _ _ e(1) e'(1)] by auto
  show ?thesis
  proof (cases "js_eq t (Fin 0)")
    case True
    then have "s = Fin 0" "s' = Fin 0"
      using assms(3,4) e(1) e'(1) le(3) len by (auto simp: scoreSubmission_def)
    then show ?thesis by simp
  next
    case False
    then have r: "roundScore (js_div e t) = Inr s" "roundScore (js_div e' t) = Inr s'"
      using assms(3,4) e(1) e'(1) le(3) len by (auto simp: scoreSubmission_def)
    then obtain q q' where q: "js_div e t = Fin q" "s = toFixed6 q" "js_div e' t = Fin q'" "s' = toFixed6 q'"
      by (auto simp: roundScore_def split: jsnum.splits)
    have "q \<le> q'"
    proof (cases t)
      case (Fin y)
      then obtain x x' where x: "e = Fin x" "e' = Fin x'" "0 \<le> x" "x \<le> x'" "x' \<le> y"
        using le e(2) e'(2) by (cases e; cases e') auto
      with False Fin have y: "0 < y" by (simp add: js_eq_def)
      have "js_le (dbl (x / y)) (dbl (x' / y))" using x y by (intro dbl_mono) (simp add: divide_right_mono)
      then show ?thesis using q x y Fin by simp
    qed (use q le e e' in \<open>cases e; cases e'; simp\<close>)+
    then show ?thesis using q toFixed6_mono by simp
  qed
qed

theorem scoreSubmission_monotone_witness:
  "scoreSubmission [True, False] [Fin 1, Fin 1] = Inr (toFixed6 (round_double (1/2)))
   \<and> scoreSubmission [True, True] [Fin 1, Fin 1] = Inr (Fin 1)
   \<and> js_le (toFixed6 (round_double (1/2))) (Fin 1)"
proof -
  have "\<bar>1/2 :: rat\<bar> \<le> 2 ^ 1000" by simp
  then have "dbl (1/2) = Fin (round_double (1/2))" by (rule dbl_bounded)
  then have "scoreSubmission [True, False] [Fin 1, Fin 1] = Inr (toFixed6 (round_double (1/2)))"
    "scoreSubmission [True, True] [Fin 1, Fin 1] = Inr (Fin 1)"
    by (simp_all add: scoreSubmission_def js_eq_def js_simps)
  then show ?thesis
    using scoreSubmission_monotone [of "[True, False]" "[True, True]" "[Fin 1, Fin 1]"] by simp
qed

subsection \<open>Roll-up\<close>

text \<open>
  The state of the roll-up: \<open>c\<close> counts how often a skill was added to, \<open>A\<close> is the set of skills
  with marks available.
\<close>

definition mark_inv :: "nat \<Rightarrow> bool \<Rightarrow> jsnum option \<Rightarrow> jsnum option \<Rightarrow> bool" where
  "mark_inv n assessed available earned \<longleftrightarrow>
     (case available of None \<Rightarrow> \<not> assessed \<and> earned = None
      | Some v \<Rightarrow> \<exists>a e. v = Fin a \<and> earned = Some (Fin e) \<and> 0 \<le> e \<and> e \<le> a
          \<and> a \<le> of_int (int n * 2 ^ 30) \<and> round_double a = a \<and> (0 < a \<longleftrightarrow> assessed))"

definition roll_inv :: "(string \<Rightarrow> nat) \<Rightarrow> string set \<Rightarrow> skillMarks \<times> skillMarks \<Rightarrow> bool" where
  "roll_inv c A acc \<longleftrightarrow> map_wf (snd acc)
     \<and> (\<forall>k. mark_inv (c k) (k \<in> A) (map_get (snd acc) k) (map_get (fst acc) k))"

definition skill_weight :: "skillMarks \<Rightarrow> string \<Rightarrow> jsnum" where
  "skill_weight weights k = (case map_get weights k of None \<Rightarrow> Fin 1 | Some w \<Rightarrow> w)"

definition weight_ok :: "jsnum \<Rightarrow> bool" where
  "weight_ok w \<longleftrightarrow> (\<exists>r. w = Fin r \<and> 0 \<le> r \<and> r \<le> 2 ^ 10)"

definition question_ok :: "questionSkillScore \<Rightarrow> bool" where
  "question_ok q \<longleftrightarrow> (\<exists>x m. q_score q = Fin x \<and> q_maxScore q = Fin m \<and> 0 \<le> x \<and> x \<le> m \<and> m \<le> 2 ^ 20)"

lemma roll_product:
  assumes "0 \<le> w" "w \<le> 2 ^ 10" "0 \<le> x" "x \<le> m" "m \<le> 2 ^ 20"
  shows "dbl (w * x) = Fin (round_double (w * x))" "dbl (w * m) = Fin (round_double (w * m))"
    "0 \<le> round_double (w * x)" "round_double (w * x) \<le> round_double (w * m)"
    "round_double (w * m) \<le> of_int (2 ^ 30)"
proof -
  have wm: "w * m \<le> 2 ^ 10 * 2 ^ 20" "0 \<le> w * x" "w * x \<le> w * m" "0 \<le> w * m"
    using mult_mono [OF assms(2,5)] assms by (auto intro: mult_left_mono)
  then have b: "\<bar>w * x\<bar> \<le> 2 ^ 1000" "\<bar>w * m\<bar> \<le> 2 ^ 1000" by simp_all
  show "dbl (w * x) = Fin (round_double (w * x))" "dbl (w * m) = Fin (round_double (w * m))"
    using b by (simp_all only: dbl_bounded)
  show "0 \<le> round_double (w * x)" using wm by (simp add: double.rnd_nonneg)
  show "round_double (w * x) \<le> round_double (w * m)" using wm by (intro double.rnd_mono)
  show "round_double (w * m) \<le> of_int (2 ^ 30)" using wm by (intro double.rnd_le_int) simp_all
qed

lemma roll_sum:
  assumes "0 \<le> e" "e \<le> a" "a \<le> of_int (int n * 2 ^ 30)" "round_double a = a"
    "0 \<le> p" "p \<le> q" "q \<le> of_int (2 ^ 30)" "round_double q = q" "n < 2 ^ 20"
  shows "dbl (e + p) = Fin (round_double (e + p))" "dbl (a + q) = Fin (round_double (a + q))"
    "0 \<le> round_double (e + p)" "round_double (e + p) \<le> round_double (a + q)"
    "round_double (a + q) \<le> of_int (int (Suc n) * 2 ^ 30)"
    "0 < round_double (a + q) \<longleftrightarrow> 0 < a \<or> 0 < q"
proof -
  have "int (Suc n) \<le> int (2 ^ 20)" using assms(9) by (simp only: of_nat_le_iff)
  then have n: "int (Suc n) * 2 ^ 30 \<le> 2 ^ 50" by simp
  have aq: "a + q \<le> of_int (int (Suc n) * 2 ^ 30)" using assms by (simp add: algebra_simps)
  have "(of_int (int (Suc n) * 2 ^ 30) :: rat) \<le> of_int (2 ^ 50)" using n by (simp only: of_int_le_iff)
  then have lim: "a + q \<le> 2 ^ 50" using aq by simp
  have b: "\<bar>e + p\<bar> \<le> 2 ^ 1000" "\<bar>a + q\<bar> \<le> 2 ^ 1000" using assms lim by simp_all
  show "dbl (e + p) = Fin (round_double (e + p))" "dbl (a + q) = Fin (round_double (a + q))"
    using b by (simp_all only: dbl_bounded)
  show "0 \<le> round_double (e + p)" using assms by (simp add: double.rnd_nonneg)
  show "round_double (e + p) \<le> round_double (a + q)" using assms by (intro double.rnd_mono) simp
  have "\<bar>int (Suc n) * 2 ^ 30\<bar> \<le> 2 ^ 53" using n by simp
  then show "round_double (a + q) \<le> of_int (int (Suc n) * 2 ^ 30)" using aq by (rule double.rnd_le_int)
  have "a \<le> round_double (a + q)" "q \<le> round_double (a + q)"
    using assms double.rnd_mono [of a "a + q"] double.rnd_mono [of q "a + q"] by simp_all
  then show "0 < round_double (a + q) \<longleftrightarrow> 0 < a \<or> 0 < q"
    using assms double.rnd_0 by (auto simp: order.order_iff_strict)
qed

definition skill_marks :: "skillMarks \<Rightarrow> questionSkillScore \<Rightarrow> string \<Rightarrow> jsnum" where
  "skill_marks weights q k = js_mul (skill_weight weights k) (q_maxScore q)"

lemma mark_inv_cases:
  assumes "mark_inv n assessed available earned"
  obtains a e where "(case available of None \<Rightarrow> Fin 0 | Some y \<Rightarrow> y) = Fin a"
    "(case earned of None \<Rightarrow> Fin 0 | Some y \<Rightarrow> y) = Fin e"
    "0 \<le> e" "e \<le> a" "a \<le> of_int (int n * 2 ^ 30)" "round_double a = a" "0 < a \<longleftrightarrow> assessed"
proof (cases available)
  case None
  then show ?thesis using assms that [of 0 0] double.rnd_0 by (simp add: mark_inv_def)
next
  case (Some v)
  then show ?thesis using assms that by (auto simp: mark_inv_def)
qed

lemma roll_step:
  assumes "roll_inv c A (earned, available)" "question_ok q" "weight_ok (skill_weight weights k)" "c k < 2 ^ 20"
  shows "roll_inv (c(k := Suc (c k))) (if js_lt (Fin 0) (skill_marks weights q k) then insert k A else A)
     (addMarks earned k (js_mul (skill_weight weights k) (q_score q)),
      addMarks available k (js_mul (skill_weight weights k) (q_maxScore q)))"
    (is "roll_inv _ ?A (?E, ?V)")
proof -
  obtain w where w: "skill_weight weights k = Fin w" "0 \<le> w" "w \<le> 2 ^ 10"
    using assms(3) by (auto simp: weight_ok_def)
  obtain x m where x: "q_score q = Fin x" "q_maxScore q = Fin m" "0 \<le> x" "x \<le> m" "m \<le> 2 ^ 20"
    using assms(2) by (auto simp: question_ok_def)
  define p r where "p = round_double (w * x)" and "r = round_double (w * m)"
  have pr: "dbl (w * x) = Fin p" "dbl (w * m) = Fin r" "0 \<le> p" "p \<le> r" "r \<le> of_int (2 ^ 30)" "round_double r = r"
    using roll_product [OF w(2,3) x(3-5)] double.rnd_idem by (simp_all add: p_def r_def)
  have inv: "map_wf available" "mark_inv (c j) (j \<in> A) (map_get available j) (map_get earned j)" for j
    using assms(1) by (simp_all add: roll_inv_def)
  obtain a e where ae: "(case map_get available k of None \<Rightarrow> Fin 0 | Some y \<Rightarrow> y) = Fin a"
    "(case map_get earned k of None \<Rightarrow> Fin 0 | Some y \<Rightarrow> y) = Fin e"
    "0 \<le> e" "e \<le> a" "a \<le> of_int (int (c k) * 2 ^ 30)" "round_double a = a" "0 < a \<longleftrightarrow> k \<in> A"
    by (rule mark_inv_cases [OF inv(2)])
  note sums = roll_sum [OF ae(3-6) pr(3-6) assms(4)]
  have pos: "js_lt (Fin 0) (skill_marks weights q k) \<longleftrightarrow> 0 < r"
    by (simp add: skill_marks_def w(1) x(2) pr(2))
  have new: "?E = map_set earned k (Fin (round_double (e + p)))"
    "?V = map_set available k (Fin (round_double (a + r)))"
    by (simp_all only: addMarks_def w(1) x(1,2) js_mul.simps pr(1,2) ae(1,2) js_add.simps sums(1,2))
  have "mark_inv (Suc (c k)) (k \<in> ?A) (Some (Fin (round_double (a + r)))) (Some (Fin (round_double (e + p))))"
    unfolding mark_inv_def pos using sums(3-6) ae(7) double.rnd_idem by auto
  then show ?thesis unfolding new roll_inv_def using inv by (simp split: if_splits)
qed

lemma mark_inv_mono: "mark_inv n b v e \<Longrightarrow> n \<le> m \<Longrightarrow> mark_inv m b v e"
proof -
  assume inv: "mark_inv n b v e" and le: "n \<le> m"
  have "int n * 2 ^ 30 \<le> int m * 2 ^ 30" using le by simp
  then have "(of_int (int n * 2 ^ 30) :: rat) \<le> of_int (int m * 2 ^ 30)" by (simp only: of_int_le_iff)
  then show ?thesis using inv unfolding mark_inv_def by (fastforce split: option.splits)
qed

lemma roll_inv_mono: "roll_inv c A acc \<Longrightarrow> (\<And>k. c k \<le> d k) \<Longrightarrow> roll_inv d A acc"
  unfolding roll_inv_def using mark_inv_mono by blast

lemma rollSkills_inv:
  assumes "distinct skills" "question_ok q" "\<forall>k. weight_ok (skill_weight weights k)"
    "roll_inv c A acc" "\<forall>k\<in>set skills. c k < 2 ^ 20"
  shows "\<exists>acc'. rollSkills q weights skills acc = Inr acc'
     \<and> roll_inv (\<lambda>k. if k \<in> set skills then Suc (c k) else c k)
         (A \<union> {k \<in> set skills. js_lt (Fin 0) (skill_marks weights q k)}) acc'"
  using assms
proof (induction skills arbitrary: c A acc)
  case (Cons k skills)
  obtain earned available where acc: "acc = (earned, available)" by (cases acc)
  let ?A = "if js_lt (Fin 0) (skill_marks weights q k) then insert k A else A"
  define acc' where "acc' = (addMarks earned k (js_mul (skill_weight weights k) (q_score q)),
      addMarks available k (js_mul (skill_weight weights k) (q_maxScore q)))"
  have inv: "roll_inv (c(k := Suc (c k))) ?A acc'"
    unfolding acc'_def using Cons.prems acc by (intro roll_step) auto
  have "weight_ok (skill_weight weights k)" using Cons.prems by blast
  then have step: "rollSkills q weights (k # skills) acc = rollSkills q weights skills acc'"
    by (auto simp: acc acc'_def weight_ok_def assertFiniteInRange_def skill_weight_def [symmetric] Let_def)
  have "\<forall>j\<in>set skills. (c(k := Suc (c k))) j < 2 ^ 20" using Cons.prems by auto
  then obtain acc'' where "rollSkills q weights skills acc' = Inr acc''"
    "roll_inv (\<lambda>j. if j \<in> set skills then Suc ((c(k := Suc (c k))) j) else (c(k := Suc (c k))) j)
       (?A \<union> {j \<in> set skills. js_lt (Fin 0) (skill_marks weights q j)}) acc''"
    using Cons.IH [OF _ Cons.prems(2,3) inv] Cons.prems(1) by auto
  moreover have "(\<lambda>j. if j \<in> set skills then Suc ((c(k := Suc (c k))) j) else (c(k := Suc (c k))) j)
      = (\<lambda>j. if j \<in> set (k # skills) then Suc (c j) else c j)"
    using Cons.prems(1) by auto
  moreover have "?A \<union> {j \<in> set skills. js_lt (Fin 0) (skill_marks weights q j)}
      = A \<union> {j \<in> set (k # skills). js_lt (Fin 0) (skill_marks weights q j)}" by auto
  ultimately show ?case unfolding step by (metis (no_types, lifting))
qed simp

text \<open>The skills some question has marks available for.\<close>

definition assessed_skills :: "questionSkillScore list \<Rightarrow> skillMarks \<Rightarrow> string set" where
  "assessed_skills qs weights =
     {k. \<exists>q\<in>set qs. k \<in> set (q_skillIds q) \<and> js_lt (Fin 0) (skill_marks weights q k)}"

lemma rollQuestions_inv:
  assumes "\<forall>q\<in>set qs. question_ok q" "\<forall>k. weight_ok (skill_weight weights k)"
    "roll_inv (\<lambda>_. n) A acc" "n + length qs \<le> 2 ^ 20"
  shows "\<exists>acc' m. rollQuestions qs weights acc = Inr acc'
     \<and> roll_inv (\<lambda>_. m) (A \<union> assessed_skills qs weights) acc'"
  using assms
proof (induction qs arbitrary: n A acc)
  case (Cons q qs)
  let ?B = "A \<union> {k \<in> set (uniq (q_skillIds q)). js_lt (Fin 0) (skill_marks weights q k)}"
  have "question_ok q" using Cons.prems by simp
  moreover obtain acc1 where acc1: "rollSkills q weights (uniq (q_skillIds q)) acc = Inr acc1"
    "roll_inv (\<lambda>k. if k \<in> set (uniq (q_skillIds q)) then Suc n else n) ?B acc1"
    using rollSkills_inv [OF distinct_uniq \<open>question_ok q\<close> Cons.prems(2,3)] Cons.prems(4) by fastforce
  ultimately have step: "rollQuestions (q # qs) weights acc = rollQuestions qs weights acc1"
    by (auto simp: question_ok_def assertFiniteInRange_def)
  have "roll_inv (\<lambda>_. Suc n) ?B acc1"
    by (rule roll_inv_mono [OF acc1(2)]) simp
  then obtain acc' m where "rollQuestions qs weights acc1 = Inr acc'"
    "roll_inv (\<lambda>_. m) (?B \<union> assessed_skills qs weights) acc'"
    using Cons.IH [OF _ Cons.prems(2), of "Suc n" ?B acc1] Cons.prems(1,4) by auto
  moreover have "?B \<union> assessed_skills qs weights = A \<union> assessed_skills (q # qs) weights"
    by (auto simp: assessed_skills_def)
  ultimately show ?case unfolding step by auto
qed (auto simp: assessed_skills_def)

definition has_marks :: "skillMarks \<Rightarrow> string \<Rightarrow> bool" where
  "has_marks available k \<longleftrightarrow> (\<exists>a. map_get available k = Some (Fin a) \<and> 0 < a)"

lemma rollOut_spec:
  assumes "distinct (map fst available)"
    "\<forall>(k, v)\<in>set available. \<exists>a e. v = Fin a \<and> map_get earned k = Some (Fin e) \<and> 0 \<le> e \<and> e \<le> a"
  shows "\<exists>m. rollOut earned available rolled = Inr m
     \<and> (\<forall>k. if has_marks available k then \<exists>r. map_get m k = Some (Fin r) \<and> 0 \<le> r \<and> r \<le> 1
            else map_get m k = map_get rolled k)"
  using assms
proof (induction available arbitrary: rolled)
  case Nil
  then show ?case by (simp add: has_marks_def)
next
  case (Cons kv available)
  obtain k v where kv: "kv = (k, v)" by (cases kv)
  then obtain a e where ae: "v = Fin a" "map_get earned k = Some (Fin e)" "0 \<le> e" "e \<le> a"
    using Cons.prems(2) by auto
  have prems: "distinct (map fst available)"
    "\<forall>(k, v)\<in>set available. \<exists>a e. v = Fin a \<and> map_get earned k = Some (Fin e) \<and> 0 \<le> e \<and> e \<le> a"
    "map_get available k = None"
    using Cons.prems by (auto simp: kv map_get_None_iff)
  then have nk: "\<not> has_marks available k" by (simp add: has_marks_def)
  have hm: "has_marks (kv # available) j \<longleftrightarrow> (if j = k then 0 < a else has_marks available j)" for j
    by (simp add: kv ae(1) map_get_def has_marks_def)
  show ?case
  proof (cases "0 < a")
    case False
    then have "rollOut earned (kv # available) rolled = rollOut earned available rolled"
      by (simp add: kv ae(1))
    moreover have "has_marks (kv # available) j = has_marks available j" for j using hm nk False by simp
    ultimately show ?thesis using Cons.IH [OF prems(1,2), of rolled] by (simp only:)
  next
    case True
    obtain q where q: "js_div (Fin e) (Fin a) = Fin q" "0 \<le> q" "q \<le> 1"
      using js_div_unit [of "Fin e" "Fin a"] ae True by auto
    obtain s where s: "toFixed6 q = Fin s" "0 \<le> s" "s \<le> 1" using toFixed6_unit q by blast
    have step: "rollOut earned (kv # available) rolled = rollOut earned available (map_set rolled k (Fin s))"
      using True q(1) s(1) ae by (simp add: kv roundProportion_def)
    obtain m where m: "rollOut earned available (map_set rolled k (Fin s)) = Inr m"
      "\<And>j. if has_marks available j then \<exists>r. map_get m j = Some (Fin r) \<and> 0 \<le> r \<and> r \<le> 1
            else map_get m j = map_get (map_set rolled k (Fin s)) j"
      using Cons.IH [OF prems(1,2)] by blast
    have "if has_marks (kv # available) j then \<exists>r. map_get m j = Some (Fin r) \<and> 0 \<le> r \<and> r \<le> 1
          else map_get m j = map_get rolled j" for j
      using m(2) [of j] nk True s by (cases "j = k") (simp_all add: hm split: if_splits)
    then show ?thesis using step m(1) by auto
  qed
qed

text \<open>The per-skill breakdown is a set of proportions over exactly the assessed skills. For
  scores within their maxima and weights of sane size, the roll-up returns; a skill is reported
  exactly when some question tagged with it had marks available, and then with a number in
  [0, 1]; a skill that was never assessed is omitted, not reported as zero.\<close>

theorem rollUpSkillScores_proportions:
  assumes "\<forall>q\<in>set qs. question_ok q" "\<forall>k. weight_ok (skill_weight weights k)" "length qs \<le> 2 ^ 20"
  shows "\<exists>m. rollUpSkillScores qs weights = Inr m
     \<and> (\<forall>k. if k \<in> assessed_skills qs weights then \<exists>r. map_get m k = Some (Fin r) \<and> 0 \<le> r \<and> r \<le> 1
            else map_get m k = None)"
proof -
  have "roll_inv (\<lambda>_. 0) {} ([], [])" by (simp add: roll_inv_def mark_inv_def)
  note run = rollQuestions_inv [OF assms(1,2) this]
  obtain earned available n where acc: "rollQuestions qs weights ([], []) = Inr (earned, available)"
    "roll_inv (\<lambda>_. n) (assessed_skills qs weights) (earned, available)"
    using run assms(3) by auto
  have inv: "map_wf available"
    "mark_inv n (k \<in> assessed_skills qs weights) (map_get available k) (map_get earned k)" for k
    using acc(2) by (simp_all add: roll_inv_def)
  have "\<exists>a e. v = Fin a \<and> map_get earned k = Some (Fin e) \<and> 0 \<le> e \<and> e \<le> a" if "(k, v) \<in> set available" for k v
    using inv(2) [of k] map_get_eq_Some_iff [OF inv(1), of k v] that by (auto simp: mark_inv_def)
  then have "\<forall>(k, v)\<in>set available. \<exists>a e. v = Fin a \<and> map_get earned k = Some (Fin e) \<and> 0 \<le> e \<and> e \<le> a"
    by blast
  then obtain m where m: "rollOut earned available [] = Inr m"
    "\<And>k. if has_marks available k then \<exists>r. map_get m k = Some (Fin r) \<and> 0 \<le> r \<and> r \<le> 1 else map_get m k = None"
    using rollOut_spec inv(1) unfolding map_wf_def by (metis (lifting) map_get_Nil)
  moreover have "has_marks available k \<longleftrightarrow> k \<in> assessed_skills qs weights" for k
    using inv(2) [of k] by (auto simp: has_marks_def mark_inv_def split: option.splits)
  ultimately show ?thesis using acc(1) by (simp add: rollUpSkillScores_def)
qed

theorem rollUpSkillScores_proportions_witness:
  "\<exists>m. rollUpSkillScores [\<lparr> q_skillIds = [''sql'', ''sql''], q_score = Fin 2, q_maxScore = Fin 4 \<rparr>] [] = Inr m
     \<and> (\<exists>r. map_get m ''sql'' = Some (Fin r) \<and> 0 \<le> r \<and> r \<le> 1) \<and> map_get m ''go'' = None"
proof -
  let ?q = "\<lparr> q_skillIds = [''sql'', ''sql''], q_score = Fin 2, q_maxScore = Fin 4 \<rparr>"
  have w: "skill_weight [] k = Fin 1" for k by (simp add: skill_weight_def)
  have "\<forall>q\<in>set [?q]. question_ok q" by (simp add: question_ok_def)
  moreover have "\<forall>k. weight_ok (skill_weight [] k)" by (simp add: w weight_ok_def)
  ultimately obtain m where m: "rollUpSkillScores [?q] [] = Inr m"
    "\<And>k. if k \<in> assessed_skills [?q] [] then \<exists>r. map_get m k = Some (Fin r) \<and> 0 \<le> r \<and> r \<le> 1
         else map_get m k = None"
    using rollUpSkillScores_proportions [of "[?q]" "[]"] by auto
  moreover have "''sql'' \<in> assessed_skills [?q] []" "''go'' \<notin> assessed_skills [?q] []"
    by (simp_all add: assessed_skills_def skill_marks_def w js_simps)
  ultimately show ?thesis by (metis (full_types))
qed

end
