(* ===== verification/Mcq.thy ===== *)
theory Mcq
  imports Scoring
begin

text \<open>
  The multiple-choice mark (\<open>packages/grading/src/mcq.ts\<close>): all-or-nothing or partial credit,
  negative marking and the floor at zero, computed in doubles and rounded to six decimals.
\<close>

subsection \<open>The mark\<close>

record mcqScoringOptions =
  maxScore :: jsnum
  negativeScore :: jsnum
  partialCredit :: bool
  allowNegativeTotal :: "bool option"

text \<open>The two counts the mark depends on: selected options that are correct and that are not.\<close>

definition mcq_hits :: "string list \<Rightarrow> string list \<Rightarrow> nat" where
  "mcq_hits selected correct = length (filter (\<lambda>opt. opt \<in> set correct) (uniq selected))"

definition mcq_mark :: "nat \<Rightarrow> nat \<Rightarrow> nat \<Rightarrow> mcqScoringOptions \<Rightarrow> (thrown, jsnum) result" where
  "mcq_mark hits misses correctSize opts =
     (let floor = (if allowNegativeTotal opts = Some True then NInf else Fin 0)
      in if \<not> partialCredit opts
         then let exact = (misses = 0 \<and> hits = correctSize)
              in roundScore (if exact then maxScore opts else js_max floor (js_neg (negativeScore opts)))
         else let perCorrectOption = js_div (maxScore opts) (js_int (int correctSize));
                  raw = js_sub (js_mul perCorrectOption (js_int (int hits)))
                               (js_mul (negativeScore opts) (js_int (int misses)))
              in roundScore (js_min (maxScore opts) (js_max floor raw)))"

definition gradeMcq ::
  "string list \<Rightarrow> string list \<Rightarrow> mcqScoringOptions \<Rightarrow> (thrown, jsnum) result"
where
  "gradeMcq selected correct opts =
     (case assertFiniteAtLeast (maxScore opts) (Fin 0) of Inl e \<Rightarrow> Inl e | Inr _ \<Rightarrow>
      case assertFiniteAtLeast (negativeScore opts) (Fin 0) of Inl e \<Rightarrow> Inl e | Inr _ \<Rightarrow>
      let correctSize = length (uniq correct); selectedSize = length (uniq selected)
      in if correctSize = 0 then Inl RangeError
         else if selectedSize = 0 then Inr (Fin 0)
         else let hits = mcq_hits selected correct; misses = selectedSize - hits
              in mcq_mark hits misses correctSize opts)"

subsection \<open>Hits and misses\<close>

lemma mcq_hits_card: "mcq_hits selected correct = card (set selected \<inter> set correct)"
proof -
  have "distinct (filter (\<lambda>opt. opt \<in> set correct) (uniq selected))" by simp
  then have "mcq_hits selected correct = card (set (filter (\<lambda>opt. opt \<in> set correct) (uniq selected)))"
    unfolding mcq_hits_def by (rule distinct_card [symmetric])
  then show ?thesis by (simp add: Int_def)
qed

lemma mcq_hits_le: "mcq_hits selected correct \<le> length (uniq correct)"
  "mcq_hits selected correct \<le> length (uniq selected)"
  by (auto simp: mcq_hits_card length_uniq intro: card_mono)

lemma mcq_misses: "length (uniq selected) - mcq_hits selected correct = card (set selected - set correct)"
  by (simp add: mcq_hits_card length_uniq card_Diff_subset_Int)

lemma mcq_exact_iff:
  assumes "set selected - set correct = {}" "card (set selected \<inter> set correct) = card (set correct)"
  shows "set selected = set correct"
  using assms card_subset_eq [of "set correct" "set selected \<inter> set correct"] by auto

subsection \<open>Bounds\<close>

text \<open>Marks and penalties the analysis covers; far above what an author can store.\<close>

definition mark_ok :: "jsnum \<Rightarrow> bool" where
  "mark_ok v \<longleftrightarrow> (\<exists>r. v = Fin r \<and> 0 \<le> r \<and> r \<le> 2 ^ 40)"

lemma raw_mark_finite:
  assumes "0 \<le> M" "M \<le> 2 ^ 40" "0 \<le> N" "N \<le> 2 ^ 40" "0 < s" "h \<le> 2 ^ 40" "m \<le> 2 ^ 40"
  shows "\<exists>r. js_sub (js_mul (js_div (Fin M) (js_int (int s))) (js_int (int h)))
                     (js_mul (Fin N) (js_int (int m))) = Fin r"
proof -
  have s: "(1::rat) \<le> of_nat s" using assms(5) by simp
  have hm: "(of_nat h :: rat) \<le> 2 ^ 40" "(of_nat m :: rat) \<le> 2 ^ 40"
    using assms(6,7) by (metis of_nat_le_iff of_nat_numeral of_nat_power)+
  have "M / of_nat s \<le> M" using assms(1) s by (simp add: divide_le_eq mult_le_cancel_left1)
  then have q: "\<bar>M / of_nat s\<bar> \<le> 2 ^ 40" using assms(1,2) by simp
  define p where "p = round_double (M / of_nat s)"
  have p: "\<bar>p\<bar> \<le> 2 ^ 40" unfolding p_def by (rule round_double_pow2 [OF q])
  have pd: "dbl (M / of_nat s) = Fin p"
    unfolding p_def using dbl_pow2 [OF q] by simp
  have ph: "\<bar>p * of_nat h\<bar> \<le> 2 ^ 80"
    using mult_mono [OF p hm(1)] by (simp add: abs_mult)
  have nm: "\<bar>N * of_nat m\<bar> \<le> 2 ^ 80"
    using mult_mono [OF assms(4) hm(2)] assms(3) by (simp add: abs_mult)
  define a b where "a = round_double (p * of_nat h)" and "b = round_double (N * of_nat m)"
  have ab: "\<bar>a\<bar> \<le> 2 ^ 80" "\<bar>b\<bar> \<le> 2 ^ 80"
    unfolding a_def b_def using ph nm by (simp_all only: round_double_pow2)
  have "dbl (p * of_nat h) = Fin a" "dbl (N * of_nat m) = Fin b"
    unfolding a_def b_def using dbl_pow2 [OF ph] dbl_pow2 [OF nm] by simp_all
  moreover have "\<bar>a - b\<bar> \<le> 2 ^ 1000"
  proof -
    have "\<bar>a - b\<bar> \<le> 2 ^ 80 + 2 ^ 80" using ab by linarith
    then show ?thesis by (rule order_trans) simp
  qed
  then have "dbl (a - b) = Fin (round_double (a - b))" by (rule dbl_bounded)
  ultimately show ?thesis using s pd by (simp add: js_int_def js_sub_def)
qed

lemma mcq_mark_bounds:
  assumes "maxScore opts = Fin M" "negativeScore opts = Fin N" "0 \<le> M" "M \<le> 2 ^ 40" "0 \<le> N" "N \<le> 2 ^ 40"
    "0 < n" "hits \<le> 2 ^ 40" "misses \<le> 2 ^ 40"
  shows "\<exists>x. mcq_mark hits misses n opts = Inr (toFixed6 x) \<and> x \<le> M
     \<and> (allowNegativeTotal opts \<noteq> Some True \<longrightarrow> 0 \<le> x)"
proof (cases "partialCredit opts")
  case False
  define x where "x = (if misses = 0 \<and> hits = n then M
    else if allowNegativeTotal opts = Some True then - N else 0)"
  have "mcq_mark hits misses n opts = roundScore (Fin x)"
    using False assms(1,2,5) by (auto simp: mcq_mark_def Let_def js_max_def x_def)
  moreover have "x \<le> M" "allowNegativeTotal opts \<noteq> Some True \<longrightarrow> 0 \<le> x"
    using assms(3,5) by (auto simp: x_def)
  ultimately show ?thesis by auto
next
  case True
  obtain r where r: "js_sub (js_mul (js_div (Fin M) (js_int (int n))) (js_int (int hits)))
      (js_mul (Fin N) (js_int (int misses))) = Fin r"
    using raw_mark_finite [OF assms(3-9)] by blast
  have "mcq_mark hits misses n opts =
      roundScore (js_min (Fin M) (js_max (if allowNegativeTotal opts = Some True then NInf else Fin 0) (Fin r)))"
    using True by (simp add: mcq_mark_def Let_def assms(1,2) r)
  moreover define x where "x = min M (if allowNegativeTotal opts = Some True then r else max 0 r)"
  moreover have "js_min (Fin M) (js_max (if allowNegativeTotal opts = Some True then NInf else Fin 0) (Fin r)) = Fin x"
    by (simp add: js_min_def js_max_def x_def)
  moreover have "x \<le> M" "allowNegativeTotal opts \<noteq> Some True \<longrightarrow> 0 \<le> x"
    using assms(3) by (auto simp: x_def)
  ultimately show ?thesis by (intro exI [of _ x]) simp
qed

text \<open>A multiple-choice mark stays in its range. For every well-formed question and every
  selection, grading returns a mark that does not exceed the rounded maximum, is never negative
  unless the author allowed it, and is exactly zero when nothing was selected.\<close>

theorem gradeMcq_bounds:
  assumes "mark_ok (maxScore opts)" "mark_ok (negativeScore opts)" "correct \<noteq> []" "length selected \<le> 2 ^ 40"
  shows "\<exists>s. gradeMcq selected correct opts = Inr s
     \<and> js_le s (toFixed6 (fin_val (maxScore opts)))
     \<and> (allowNegativeTotal opts \<noteq> Some True \<longrightarrow> js_nonneg s)
     \<and> (selected = [] \<longrightarrow> s = Fin 0)"
proof -
  obtain M N where MN: "maxScore opts = Fin M" "0 \<le> M" "M \<le> 2 ^ 40" "negativeScore opts = Fin N" "0 \<le> N" "N \<le> 2 ^ 40"
    using assms(1,2) by (auto simp: mark_ok_def)
  have size: "0 < length (uniq correct)"
    using assms(3) set_uniq [of correct] by (cases correct) auto
  show ?thesis
  proof (cases "selected = []")
    case True
    have "js_nonneg (toFixed6 M)" using toFixed6_mono [OF MN(2)] by simp
    then show ?thesis using True MN size by (auto simp: gradeMcq_def Let_def)
  next
    case False
    have ne: "length (uniq selected) \<noteq> 0"
      using False set_uniq [of selected] by (cases selected) auto
    have "length (uniq selected) \<le> 2 ^ 40"
      using assms(4) card_length [of selected] unfolding length_uniq by linarith
    then have "mcq_hits selected correct \<le> 2 ^ 40" "length (uniq selected) - mcq_hits selected correct \<le> 2 ^ 40"
      using mcq_hits_le(2) [of selected correct] by linarith+
    then obtain x where x: "mcq_mark (mcq_hits selected correct) (length (uniq selected) - mcq_hits selected correct)
        (length (uniq correct)) opts = Inr (toFixed6 x)" "x \<le> M"
        "allowNegativeTotal opts \<noteq> Some True \<longrightarrow> 0 \<le> x"
      using mcq_mark_bounds [OF MN(1,4,2,3,5,6) size] by blast
    moreover have "gradeMcq selected correct opts = Inr (toFixed6 x)"
      using MN size ne x(1) by (simp add: gradeMcq_def Let_def)
    moreover have "0 \<le> x \<Longrightarrow> js_nonneg (toFixed6 x)" using toFixed6_mono [of 0 x] by simp
    ultimately show ?thesis using False MN(1) toFixed6_mono [OF x(2)] by auto
  qed
qed

definition sample_mcq :: mcqScoringOptions where
  "sample_mcq = \<lparr> maxScore = Fin 9, negativeScore = Fin 3, partialCredit = True, allowNegativeTotal = None \<rparr>"

theorem gradeMcq_bounds_witness:
  "\<exists>s. gradeMcq [''a'', ''z''] [''a'', ''b'', ''c''] sample_mcq = Inr s \<and> js_le s (Fin 9) \<and> js_nonneg s"
  using gradeMcq_bounds [of sample_mcq "[''a'', ''b'', ''c'']" "[''a'', ''z'']"]
  by (simp add: sample_mcq_def mark_ok_def js_simps)

subsection \<open>Full marks\<close>

lemma toFixed6_near_int:
  assumes "\<bar>k\<bar> \<le> 2 ^ 53" "0 \<le> k" "of_int k - 1 / 2 ^ 30 \<le> x" "x \<le> of_int k" "0 < x"
  shows "toFixed6 x = Fin (of_int k)"
proof -
  have k53: "(of_int k :: rat) \<le> of_int (2 ^ 53)" using assms(1,2) by (simp only: of_int_le_iff)
  have "\<lfloor>x * 10 ^ 6 + 1/2\<rfloor> = k * 10 ^ 6"
    using assms(3,4) by (intro floor_unique) simp_all
  then have "dec6 x = of_int k" using assms(5) by (simp add: dec6_def sgn_if)
  moreover have "\<bar>x\<bar> < 10 ^ 21"
  proof -
    have "x \<le> 2 ^ 53" using assms(4) k53 by simp
    also have "\<dots> < 10 ^ 21" by simp
    finally show ?thesis using assms(5) by simp
  qed
  ultimately show ?thesis using assms(1) by (simp add: toFixed6_finite double.rnd_int)
qed

lemma partial_full_raw:
  assumes "1 \<le> k" "k \<le> 2 ^ 20" "0 < s" "s \<le> 2 ^ 20"
  shows "js_sub (js_mul (js_div (Fin (of_int k)) (js_int (int s))) (js_int (int s))) (js_mul (Fin N) (js_int 0))
           = Fin (share (of_nat s) s (of_int k))"
    "(1 - unit_roundoff) ^ 2 * of_int k \<le> share (of_nat s) s (of_int k)"
proof -
  have s: "(1::rat) \<le> of_nat s" "(of_nat s :: rat) \<le> 2 ^ 20"
    using assms(3,4) by simp (metis assms(4) of_nat_le_iff of_nat_numeral of_nat_power)
  have k: "(1::rat) \<le> of_int k" "(of_int k :: rat) \<le> of_int (2 ^ 20)"
    using assms(1,2) by (simp, simp only: of_int_le_iff)
  have pre: "1 / 2 ^ 20 \<le> (of_int k :: rat)" "(of_int k :: rat) \<le> 2 ^ 20" "1 / 2 ^ 22 \<le> (of_nat s :: rat)"
    "(of_nat s :: rat) \<le> 2 ^ 41" using s k by simp_all
  note sb = share_bounds [OF pre assms(4)]
  have "of_int k / of_nat s * of_nat s = (of_int k :: rat)" using s by simp
  then show "(1 - unit_roundoff) ^ 2 * of_int k \<le> share (of_nat s) s (of_int k)" using sb(2) by simp
  have "dbl (share (of_nat s) s (of_int k)) = Fin (share (of_nat s) s (of_int k))"
    using is_double_mul [of "js_div (Fin (of_int k)) (Fin (of_nat s))" "js_int (int s)"] sb(1)
    by (simp add: is_double_def)
  then show "js_sub (js_mul (js_div (Fin (of_int k)) (js_int (int s))) (js_int (int s))) (js_mul (Fin N) (js_int 0))
           = Fin (share (of_nat s) s (of_int k))"
    using sb(1) by (simp add: js_int_def js_sub_def)
qed

lemma roundoff_square: "0 \<le> k \<Longrightarrow> k \<le> 2 ^ 20 \<Longrightarrow> of_int k - 1 / 2 ^ 30 \<le> (1 - unit_roundoff) ^ 2 * of_int k"
proof -
  assume k: "0 \<le> k" "k \<le> 2 ^ 20"
  then have "(of_int k :: rat) \<le> of_int (2 ^ 20)" by (simp only: of_int_le_iff)
  then show ?thesis using k by (simp add: unit_roundoff_def power2_eq_square)
qed

text \<open>The right answer earns the whole mark. For a question worth a whole number of marks,
  selecting exactly the correct options earns exactly that number, with and without partial
  credit and whatever the penalty, although each option's share is a rounded quotient.\<close>

theorem gradeMcq_full_marks:
  assumes "maxScore opts = js_int k" "0 \<le> k" "k \<le> 2 ^ 20" "mark_ok (negativeScore opts)"
    "correct \<noteq> []" "length correct \<le> 2 ^ 20" "set selected = set correct"
  shows "gradeMcq selected correct opts = Inr (js_int k)"
proof -
  obtain N where N: "negativeScore opts = Fin N" "0 \<le> N" using assms(4) by (auto simp: mark_ok_def)
  define s where "s = card (set correct)"
  have s: "0 < s" "s \<le> 2 ^ 20"
    using assms(5,6) card_length [of correct] by (auto simp: s_def card_gt_0_iff)
  have counts: "length (uniq correct) = s" "length (uniq selected) = s" "mcq_hits selected correct = s"
    by (simp_all add: length_uniq mcq_hits_card assms(7) s_def)
  have "gradeMcq selected correct opts = mcq_mark s 0 s opts"
    using assms(1,2) N s(1) by (simp add: gradeMcq_def Let_def counts js_int_def)
  also have "\<dots> = Inr (js_int k)"
  proof (cases "partialCredit opts \<and> k \<noteq> 0")
    case True
    define x where "x = min (of_int k) (share (of_nat s) s (of_int k))"
    have raw: "js_sub (js_mul (js_div (maxScore opts) (js_int (int s))) (js_int (int s)))
        (js_mul (negativeScore opts) (js_int (int 0))) = Fin (share (of_nat s) s (of_int k))"
      "of_int k - 1 / 2 ^ 30 \<le> share (of_nat s) s (of_int k)"
      using partial_full_raw(1) [of k s N] partial_full_raw(2) [of k s] roundoff_square [of k] True assms(1-3) s N(1) by (simp_all add: js_int_def)
    have "of_int k - 1 / 2 ^ 30 \<le> x" "x \<le> of_int k" "0 < x"
      using raw(2) True assms(2) by (auto simp: x_def min_def intro: less_le_trans [rotated])
    then have "toFixed6 x = Fin (of_int k)" using assms(2,3) by (intro toFixed6_near_int) simp_all
    moreover have "mcq_mark s 0 s opts = roundScore (Fin x)"
      using True raw(1) assms(1) \<open>0 < x\<close>
      by (auto simp: mcq_mark_def Let_def js_min_def js_max_def x_def js_int_def min_def)
    ultimately show ?thesis by (simp add: js_int_def)
  next
    case False
    then show ?thesis
      using assms(1-3) toFixed6_int [of k] N s by (auto simp: mcq_mark_def Let_def js_int_def js_min_def js_max_def js_sub_def)
  qed
  finally show ?thesis .
qed

theorem gradeMcq_full_marks_witness:
  "gradeMcq [''c'', ''a'', ''b'', ''a''] [''a'', ''b'', ''c''] sample_mcq = Inr (Fin 9)"
proof -
  have "maxScore sample_mcq = js_int 9" "mark_ok (negativeScore sample_mcq)"
    by (simp_all add: sample_mcq_def js_int_def mark_ok_def)
  moreover have "set [''c'', ''a'', ''b'', ''a''] = set [''a'', ''b'', ''c'']" by auto
  ultimately show ?thesis
    using gradeMcq_full_marks [of sample_mcq 9 "[''a'', ''b'', ''c'']" "[''c'', ''a'', ''b'', ''a'']"]
    by (simp add: js_int_def)
qed

text \<open>
  Without partial credit the penalty is flat: it is charged once however many wrong options were
  selected, and also when no wrong option was selected but a correct one is missing.
\<close>

theorem gradeMcq_flat_penalty:
  assumes "maxScore opts = Fin M" "0 \<le> M" "negativeScore opts = Fin N" "0 \<le> N"
    "\<not> partialCredit opts" "allowNegativeTotal opts = Some True"
    "correct \<noteq> []" "selected \<noteq> []" "set selected \<noteq> set correct"
  shows "gradeMcq selected correct opts = Inr (toFixed6 (- N))"
proof -
  have ne: "length (uniq correct) \<noteq> 0" "length (uniq selected) \<noteq> 0"
    using assms(7,8) by (simp_all add: length_uniq)
  have "\<not> (length (uniq selected) - mcq_hits selected correct = 0
      \<and> mcq_hits selected correct = length (uniq correct))"
  proof (rule notI, elim conjE)
    assume "length (uniq selected) - mcq_hits selected correct = 0"
      and "mcq_hits selected correct = length (uniq correct)"
    then have "set selected - set correct = {}" "card (set selected \<inter> set correct) = card (set correct)"
      unfolding mcq_misses by (simp_all add: mcq_hits_card length_uniq)
    with assms(9) mcq_exact_iff show False by blast
  qed
  then show ?thesis
    using assms(1-6) ne by (auto simp: gradeMcq_def Let_def mcq_mark_def js_max_def)
qed

end
