(* ===== verification/Answer_Compare.thy ===== *)
theory Answer_Compare
  imports Scoring Js_String
begin

text \<open>
  Comparing an answer with its key (\<open>packages/grading/src/compare.ts\<close>) and marking a short
  answer (\<open>packages/grading/src/short-answer.ts\<close>).

  The conversion \<open>Number(token)\<close> is the language's string-to-number grammar: signed decimals
  with a fraction and an exponent, \<open>Infinity\<close>, and unsigned hexadecimal, octal and binary
  integers, rounded to the nearest double. The regular-expression engine is a parameter
  \<open>regexp pattern flags\<close>, \<open>None\<close> when the constructor throws and otherwise the test function.
\<close>

subsection \<open>Strings to numbers\<close>

definition digit_value :: "char \<Rightarrow> nat" where
  "digit_value c =
     (let n = of_char c :: nat
      in if 48 \<le> n \<and> n \<le> 57 then n - 48
         else if 97 \<le> n \<and> n \<le> 122 then n - 87
         else if 65 \<le> n \<and> n \<le> 90 then n - 55 else 99)"

definition numeral_value :: "nat \<Rightarrow> string \<Rightarrow> nat" where
  "numeral_value base ds = foldl (\<lambda>v c. v * base + digit_value c) 0 ds"

text \<open>The exponent part: empty, or \<open>e\<close> with an optional sign and at least one digit.\<close>

fun exponent_value :: "string \<Rightarrow> int option" where
  "exponent_value [] = Some 0"
| "exponent_value (c # r) =
     (if c \<noteq> CHR ''e'' \<and> c \<noteq> CHR ''E'' then None
      else let (sgn, ds) = (case r of CHR ''-'' # d \<Rightarrow> (- 1, d) | CHR ''+'' # d \<Rightarrow> (1, d) | _ \<Rightarrow> (1, r))
           in if ds = [] \<or> \<not> list_all is_digit ds then None else Some (sgn * int (numeral_value 10 ds)))"

definition decimal_value :: "string \<Rightarrow> rat option" where
  "decimal_value s =
     (let ip = takeWhile is_digit s; rest = dropWhile is_digit s;
          (fp, tail) = (case rest of CHR ''.'' # r \<Rightarrow> (takeWhile is_digit r, dropWhile is_digit r)
                        | _ \<Rightarrow> ([], rest))
      in if ip = [] \<and> fp = [] then None
         else map_option (\<lambda>e. (of_nat (numeral_value 10 ip)
                  + of_nat (numeral_value 10 fp) / 10 ^ length fp) * 10 powi e) (exponent_value tail))"

definition radix_value :: "nat \<Rightarrow> string \<Rightarrow> jsnum" where
  "radix_value base ds =
     (if ds = [] \<or> \<not> list_all (\<lambda>c. digit_value c < base) ds then NaN
      else dbl (of_nat (numeral_value base ds)))"

definition unsigned_value :: "string \<Rightarrow> jsnum" where
  "unsigned_value s =
     (if s = ''Infinity'' then PInf
      else case decimal_value s of None \<Rightarrow> NaN | Some x \<Rightarrow> dbl x)"

definition js_Number :: "string \<Rightarrow> jsnum" where
  "js_Number str =
     (let s = trim str
      in if s = [] then Fin 0
         else case s of
           CHR ''+'' # r \<Rightarrow> unsigned_value r
         | CHR ''-'' # r \<Rightarrow> js_neg (unsigned_value r)
         | [a, b] \<Rightarrow> unsigned_value s
         | a # b # r \<Rightarrow>
             if a = CHR ''0'' \<and> b \<in> {CHR ''x'', CHR ''X''} then radix_value 16 r
             else if a = CHR ''0'' \<and> b \<in> {CHR ''o'', CHR ''O''} then radix_value 8 r
             else if a = CHR ''0'' \<and> b \<in> {CHR ''b'', CHR ''B''} then radix_value 2 r
             else unsigned_value s
         | _ \<Rightarrow> unsigned_value s)"

subsection \<open>Modes, options and outcomes\<close>

datatype gradingMode = Exact | Trimmed | Case_insensitive | Numeric_tolerance | Regex

definition GRADING_MODES :: "gradingMode list" where
  "GRADING_MODES = [Exact, Trimmed, Case_insensitive, Numeric_tolerance, Regex]"

record compareOptions =
  absoluteTolerance :: "jsnum option"
  relativeTolerance :: "jsnum option"
  regexFlags :: "string option"

datatype caseOutcomeReason =
  Match | Mismatch | Length_mismatch | Not_a_number | Invalid_tolerance | Invalid_pattern

record caseOutcome =
  passed :: bool
  outcome_mode :: gradingMode
  reason :: caseOutcomeReason

definition MAX_PATTERN_LENGTH :: nat where
  "MAX_PATTERN_LENGTH = 4096"

definition DEFAULT_ABSOLUTE_TOLERANCE :: jsnum where
  "DEFAULT_ABSOLUTE_TOLERANCE = dbl (1 / 10 ^ 9)"

definition DEFAULT_RELATIVE_TOLERANCE :: jsnum where
  "DEFAULT_RELATIVE_TOLERANCE = Fin 0"

definition ALLOWED_REGEX_FLAGS :: "char list" where
  "ALLOWED_REGEX_FLAGS = ''imsu''"

definition outcome :: "gradingMode \<Rightarrow> caseOutcomeReason \<Rightarrow> caseOutcome" where
  "outcome m r = \<lparr> passed = (r = Match), outcome_mode = m, reason = r \<rparr>"

subsection \<open>White-space normalisation\<close>

abbreviation NL :: char where "NL \<equiv> CHR 0x0A"
abbreviation CR :: char where "CR \<equiv> CHR 0x0D"

text \<open>\<open>replace(/\r\n?/gu, '\n')\<close>\<close>

fun unify_newlines :: "string \<Rightarrow> string" where
  "unify_newlines [] = []"
| "unify_newlines [c] = [if c = CR then NL else c]"
| "unify_newlines (c # d # s) =
     (if c = CR then NL # (if d = NL then unify_newlines s else unify_newlines (d # s))
      else c # unify_newlines (d # s))"

definition strip_leading :: "char \<Rightarrow> string \<Rightarrow> string" where
  "strip_leading c s = dropWhile (\<lambda>x. x = c) s"

definition strip_trailing :: "char \<Rightarrow> string \<Rightarrow> string" where
  "strip_trailing c s = rev (strip_leading c (rev s))"

definition normalise :: "string \<Rightarrow> string" where
  "normalise txt =
     strip_trailing NL (strip_leading NL (joinWith NL (map trim (splitOn NL (unify_newlines txt)))))"

text \<open>\<open>replace(/\s+/gu, ' ')\<close>\<close>

function collapse_ws :: "string \<Rightarrow> string" where
  "collapse_ws [] = []"
| "collapse_ws (c # s) = (if is_ws c then CHR '' '' # collapse_ws (dropWhile is_ws s) else c # collapse_ws s)"
  by pat_completeness auto
termination
  by (relation "measure length") (auto simp: le_imp_less_Suc length_dropWhile_le)

definition tokenise :: "string \<Rightarrow> string list" where
  "tokenise txt =
     (let normalised = collapse_ws (normalise txt)
      in if length normalised = 0 then [] else splitOn (CHR '' '') normalised)"

subsection \<open>Numbers within a tolerance\<close>

definition parseNumber :: "string \<Rightarrow> jsnum option" where
  "parseNumber token =
     (if length token = 0 then None
      else let v = js_Number token in if v = NaN then None else Some v)"

definition withinTolerance :: "jsnum \<Rightarrow> jsnum \<Rightarrow> jsnum \<Rightarrow> jsnum \<Rightarrow> bool" where
  "withinTolerance expected actual absolute relative =
     (if js_eq expected actual then True
      else if \<not> isFinite expected \<or> \<not> isFinite actual then False
      else let difference = js_abs (js_sub expected actual)
           in if js_le difference absolute then True
              else if js_lt (Fin 0) relative
              then js_le difference (js_mul relative (js_max (js_abs expected) (js_abs actual)))
              else False)"

fun compareTokens :: "string list \<Rightarrow> string list \<Rightarrow> jsnum \<Rightarrow> jsnum \<Rightarrow> caseOutcomeReason" where
  "compareTokens [] actual absolute relative = Match"
| "compareTokens (e # expected) [] absolute relative = Length_mismatch"
| "compareTokens (e # expected) (a # actual) absolute relative =
     (case (parseNumber e, parseNumber a) of
        (Some x, Some y) \<Rightarrow>
          if \<not> withinTolerance x y absolute relative then Mismatch
          else compareTokens expected actual absolute relative
      | _ \<Rightarrow> Not_a_number)"

definition compareNumeric :: "string \<Rightarrow> string \<Rightarrow> compareOptions option \<Rightarrow> caseOutcome" where
  "compareNumeric expected actual opts =
     (let absolute = (case opts of None \<Rightarrow> DEFAULT_ABSOLUTE_TOLERANCE
                      | Some p \<Rightarrow> (case absoluteTolerance p of None \<Rightarrow> DEFAULT_ABSOLUTE_TOLERANCE | Some v \<Rightarrow> v));
          relative = (case opts of None \<Rightarrow> DEFAULT_RELATIVE_TOLERANCE
                      | Some p \<Rightarrow> (case relativeTolerance p of None \<Rightarrow> DEFAULT_RELATIVE_TOLERANCE | Some v \<Rightarrow> v))
      in if \<not> isFinite absolute \<or> js_lt absolute (Fin 0) \<or> \<not> isFinite relative \<or> js_lt relative (Fin 0)
         then outcome Numeric_tolerance Invalid_tolerance
         else let expectedTokens = tokenise expected; actualTokens = tokenise actual
              in if length expectedTokens \<noteq> length actualTokens
                 then outcome Numeric_tolerance Length_mismatch
                 else outcome Numeric_tolerance (compareTokens expectedTokens actualTokens absolute relative))"

subsection \<open>Patterns\<close>

type_synonym regexp_engine = "string \<Rightarrow> string \<Rightarrow> (string \<Rightarrow> bool) option"

definition compareRegex ::
  "regexp_engine \<Rightarrow> string \<Rightarrow> string \<Rightarrow> compareOptions option \<Rightarrow> caseOutcome"
where
  "compareRegex regexp expected actual opts =
     (let flags = (case opts of None \<Rightarrow> [] | Some p \<Rightarrow> (case regexFlags p of None \<Rightarrow> [] | Some f \<Rightarrow> f))
      in if length expected = 0 \<or> length expected > MAX_PATTERN_LENGTH then outcome Regex Invalid_pattern
         else if length (uniq flags) \<noteq> length flags then outcome Regex Invalid_pattern
         else if \<not> list_all (\<lambda>f. f \<in> set ALLOWED_REGEX_FLAGS) flags then outcome Regex Invalid_pattern
         else case regexp (''^(?:'' @ expected @ '')$'') flags of
                None \<Rightarrow> outcome Regex Invalid_pattern
              | Some test \<Rightarrow> outcome Regex (if test (normalise actual) then Match else Mismatch))"

definition compareCase ::
  "regexp_engine \<Rightarrow> gradingMode \<Rightarrow> string \<Rightarrow> string \<Rightarrow> compareOptions option \<Rightarrow> caseOutcome"
where
  "compareCase regexp m expected actual opts =
     (case m of
        Exact \<Rightarrow> outcome Exact (if expected = actual then Match else Mismatch)
      | Trimmed \<Rightarrow> outcome Trimmed (if normalise expected = normalise actual then Match else Mismatch)
      | Case_insensitive \<Rightarrow> outcome Case_insensitive
          (if toLowerCase (normalise expected) = toLowerCase (normalise actual) then Match else Mismatch)
      | Numeric_tolerance \<Rightarrow> compareNumeric expected actual opts
      | Regex \<Rightarrow> compareRegex regexp expected actual opts)"

subsection \<open>Short answers\<close>

record answerKey =
  key_mode :: gradingMode
  key_expected :: string
  key_score :: "jsnum option"
  key_options :: "compareOptions option"

fun validateKeys :: "answerKey list \<Rightarrow> (thrown, unit) result" where
  "validateKeys [] = Inr ()"
| "validateKeys (key # keys) =
     (case key_score key of None \<Rightarrow> validateKeys keys
      | Some v \<Rightarrow> (case assertFiniteAtLeast v (Fin 0) of Inl e \<Rightarrow> Inl e | Inr _ \<Rightarrow> validateKeys keys))"

fun firstMatch :: "regexp_engine \<Rightarrow> string \<Rightarrow> answerKey list \<Rightarrow> jsnum \<Rightarrow> (thrown, jsnum) result" where
  "firstMatch regexp answer [] maxi = Inr (Fin 0)"
| "firstMatch regexp answer (key # keys) maxi =
     (if passed (compareCase regexp (key_mode key) (key_expected key) answer (key_options key))
      then roundScore (js_min maxi (case key_score key of None \<Rightarrow> maxi | Some v \<Rightarrow> v))
      else firstMatch regexp answer keys maxi)"

definition gradeShortAnswer ::
  "regexp_engine \<Rightarrow> string \<Rightarrow> answerKey list \<Rightarrow> jsnum \<Rightarrow> (thrown, jsnum) result"
where
  "gradeShortAnswer regexp answer keys maxi =
     (case assertFiniteAtLeast maxi (Fin 0) of Inl e \<Rightarrow> Inl e | Inr _ \<Rightarrow>
      case validateKeys keys of Inl e \<Rightarrow> Inl e | Inr _ \<Rightarrow> firstMatch regexp answer keys maxi)"

subsection \<open>Normal forms of texts\<close>

lemma unify_newlines_no_CR: "CR \<notin> set (unify_newlines s)"
  by (induction s rule: unify_newlines.induct) auto

lemma unify_newlines_id: "CR \<notin> set s \<Longrightarrow> unify_newlines s = s"
  by (induction s rule: unify_newlines.induct) auto

lemma strip_leading_join:
  assumes "\<forall>l\<in>set ls. c \<notin> set l"
  shows "strip_leading c (joinWith c ls) = joinWith c (dropWhile (\<lambda>l. l = []) ls)"
  using assms
proof (induction c ls rule: joinWith.induct)
  case (2 c x)
  then show ?case by (cases x) (auto simp: strip_leading_def)
next
  case (3 c x y ys)
  then show ?case by (cases x) (auto simp: strip_leading_def)
qed (simp add: strip_leading_def)

lemma joinWith_append:
  "xs \<noteq> [] \<Longrightarrow> ys \<noteq> [] \<Longrightarrow> joinWith c (xs @ ys) = joinWith c xs @ c # joinWith c ys"
  by (induction c xs rule: joinWith.induct) (auto simp: joinWith_Cons)

lemma rev_joinWith: "rev (joinWith c ls) = joinWith c (rev (map rev ls))"
proof (induction c ls rule: joinWith.induct)
  case (3 c x y ys)
  have "rev (joinWith c (x # y # ys)) = joinWith c (rev (map rev (y # ys))) @ c # rev x"
    using 3 by simp
  also have "\<dots> = joinWith c (rev (map rev (y # ys)) @ [rev x])" by (subst joinWith_append) simp_all
  finally show ?case by simp
qed simp_all

definition drop_trailing :: "string list \<Rightarrow> string list" where
  "drop_trailing ls = rev (dropWhile (\<lambda>l. l = []) (rev ls))"

lemma strip_trailing_join:
  assumes "\<forall>l\<in>set ls. c \<notin> set l"
  shows "strip_trailing c (joinWith c ls) = joinWith c (drop_trailing ls)"
proof -
  have "strip_leading c (rev (joinWith c ls)) = joinWith c (dropWhile (\<lambda>l. l = []) (rev (map rev ls)))"
    unfolding rev_joinWith using assms by (intro strip_leading_join) auto
  also have "dropWhile (\<lambda>l. l = []) (rev (map rev ls)) = map rev (dropWhile (\<lambda>l. l = []) (rev ls))"
    by (simp add: rev_map dropWhile_map comp_def)
  finally show ?thesis
    by (simp add: strip_trailing_def drop_trailing_def rev_joinWith rev_map comp_def)
qed

text \<open>
  A normalised text is a list of lines, trimmed, free of line ends, whose first and last lines
  are not empty.
\<close>

definition normal_lines :: "string list \<Rightarrow> bool" where
  "normal_lines ls \<longleftrightarrow> (\<forall>l\<in>set ls. trim l = l \<and> NL \<notin> set l \<and> CR \<notin> set l)
     \<and> (ls \<noteq> [] \<longrightarrow> hd ls \<noteq> [] \<and> last ls \<noteq> [])"

lemma set_drop_ends: "set (drop_trailing (dropWhile (\<lambda>l. l = []) ls)) \<subseteq> set ls"
  unfolding drop_trailing_def set_rev by (metis set_dropWhileD set_rev subsetI)

lemma drop_ends_ends:
  assumes "drop_trailing (dropWhile (\<lambda>l. l = []) ls) \<noteq> []"
  shows "hd (drop_trailing (dropWhile (\<lambda>l. l = []) ls)) \<noteq> []"
    "last (drop_trailing (dropWhile (\<lambda>l. l = []) ls)) \<noteq> []"
proof -
  define ms where "ms = dropWhile (\<lambda>l. l = []) ls"
  define ks where "ks = dropWhile (\<lambda>l. l = []) (rev ms)"
  have ks: "ks \<noteq> []" "drop_trailing ms = rev ks" using assms by (auto simp: drop_trailing_def ms_def ks_def)
  then have "hd ks \<noteq> []" using hd_dropWhile [of "\<lambda>l. l = []" "rev ms"] by (simp add: ks_def)
  then show "last (drop_trailing (dropWhile (\<lambda>l. l = []) ls)) \<noteq> []"
    using ks by (simp add: ms_def [symmetric] last_rev)
  have "rev ms = takeWhile (\<lambda>l. l = []) (rev ms) @ ks" by (simp add: ks_def)
  then have "ms = rev ks @ rev (takeWhile (\<lambda>l. l = []) (rev ms))" by (metis rev_append rev_rev_ident)
  then have "hd (rev ks) = hd ms" "ms \<noteq> []" using ks(1) by (metis hd_append2 rev_is_Nil_conv, auto)
  moreover have "hd ms \<noteq> []" using \<open>ms \<noteq> []\<close> hd_dropWhile [of "\<lambda>l. l = []" ls] by (simp add: ms_def)
  ultimately show "hd (drop_trailing (dropWhile (\<lambda>l. l = []) ls)) \<noteq> []"
    using ks by (simp add: ms_def [symmetric])
qed

lemma normalise_lines:
  obtains ls where "normal_lines ls" "normalise s = joinWith NL ls"
proof -
  define ls where "ls = map trim (splitOn NL (unify_newlines s))"
  define ms where "ms = drop_trailing (dropWhile (\<lambda>l. l = []) ls)"
  have no: "trim l = l \<and> NL \<notin> set l \<and> CR \<notin> set l" if l: "l \<in> set ls" for l
  proof -
    obtain x where x: "x \<in> set (splitOn NL (unify_newlines s))" "l = trim x" using l by (auto simp: ls_def)
    have "set l \<subseteq> set x" "set x \<subseteq> set (unify_newlines s)" "NL \<notin> set x"
      using x set_trim splitOn_subset splitOn_no_sep by auto
    then show ?thesis using x(2) unify_newlines_no_CR by auto
  qed
  have "set ms \<subseteq> set ls" unfolding ms_def by (rule set_drop_ends)
  then have "normal_lines ms"
    unfolding normal_lines_def using no drop_ends_ends [of ls] by (auto simp: ms_def)
  moreover have "normalise s = joinWith NL ms"
  proof -
    have "\<forall>l\<in>set ls. NL \<notin> set l" using no by blast
    moreover have "\<forall>l\<in>set (dropWhile (\<lambda>l. l = []) ls). NL \<notin> set l"
      using no by (blast dest: set_dropWhileD)
    ultimately show ?thesis
      by (simp add: normalise_def ls_def [symmetric] strip_leading_join strip_trailing_join ms_def)
  qed
  ultimately show ?thesis using that by blast
qed

lemma normal_lines_drop: "normal_lines ls \<Longrightarrow> drop_trailing (dropWhile (\<lambda>l. l = []) ls) = ls"
proof (cases "ls = []")
  case False
  assume n: "normal_lines ls"
  then have "dropWhile (\<lambda>l. l = []) ls = ls" using False by (cases ls) (auto simp: normal_lines_def)
  moreover have "dropWhile (\<lambda>l. l = []) (rev ls) = rev ls"
    using n False by (cases ls rule: rev_cases) (auto simp: normal_lines_def)
  ultimately show ?thesis by (simp add: drop_trailing_def)
qed (simp add: drop_trailing_def)

lemma set_joinWith: "set (joinWith c ls) \<subseteq> insert c (\<Union> (set ` set ls))"
  by (induction c ls rule: joinWith.induct) auto

lemma normalise_joinWith:
  assumes "normal_lines ls"
  shows "normalise (joinWith NL ls) = joinWith NL ls"
proof (cases "ls = []")
  case True
  then show ?thesis by (simp add: normalise_def trim_def trimStart_def trimEnd_def strip_leading_def strip_trailing_def)
next
  case False
  have no: "\<forall>l\<in>set ls. NL \<notin> set l" "\<forall>l\<in>set ls. CR \<notin> set l" "\<forall>l\<in>set ls. trim l = l"
    using assms by (auto simp: normal_lines_def)
  have "CR \<notin> set (joinWith NL ls)" using set_joinWith [of NL ls] no(2) by auto
  then have "splitOn NL (unify_newlines (joinWith NL ls)) = ls"
    using splitOn_joinWith [OF False no(1)] by (simp add: unify_newlines_id)
  moreover have "map trim ls = ls" using no(3) by (simp add: map_idI)
  moreover have "\<forall>l\<in>set (dropWhile (\<lambda>l. l = []) ls). NL \<notin> set l"
    using no(1) by (blast dest: set_dropWhileD)
  ultimately show ?thesis
    using no(1) normal_lines_drop [OF assms]
    by (simp add: normalise_def strip_leading_join strip_trailing_join)
qed

lemma normalise_idem: "normalise (normalise s) = normalise s"
  using normalise_lines [of s] normalise_joinWith by metis

subsection \<open>Properties of the comparison\<close>

text \<open>Formatting a terminal adds never decides a verdict. In every mode but the byte-for-byte
  one, comparing the raw answer and comparing its normal form (unified line ends, trimmed lines,
  no blank lines at either end) give the same outcome, reason included.\<close>

theorem compareCase_normalised_answer:
  assumes "m \<noteq> Exact"
  shows "compareCase regexp m expected (normalise actual) opts = compareCase regexp m expected actual opts"
  using assms
  by (cases m) (simp_all add: compareCase_def compareNumeric_def compareRegex_def tokenise_def normalise_idem
      Let_def cong: option.case_cong)

theorem compareCase_normalised_answer_witness:
  "compareCase (\<lambda>_ _. None) Trimmed ''ok'' (normalise (CR # NL # '' ok '')) None
     = compareCase (\<lambda>_ _. None) Trimmed ''ok'' (CR # NL # '' ok '') None"
  using compareCase_normalised_answer [of Trimmed] by simp

lemma dbl_minus: "dbl (- x) = js_neg (dbl x)"
  by (auto simp: dbl_def Let_def double.rnd_minus)

lemma js_abs_neg: "js_abs (js_neg v) = js_abs v"
  by (cases v) simp_all

lemma js_sub_swap: "js_abs (js_sub (Fin a) (Fin b)) = js_abs (js_sub (Fin b) (Fin a))"
proof -
  have "a + - b = - (b + - a)" by simp
  then have "dbl (a + - b) = js_neg (dbl (b + - a))" by (simp only: dbl_minus)
  then show ?thesis by (simp add: js_sub_def js_abs_neg)
qed

lemma js_max_commute: "js_max a b = js_max b a"
  using js_le_linear js_le_antisym by (auto simp: js_max_def)

lemma withinTolerance_sym: "withinTolerance x y t r = withinTolerance y x t r"
proof (cases "isFinite x \<and> isFinite y")
  case True
  then obtain a b where "x = Fin a" "y = Fin b" by (cases x; cases y) auto
  then show ?thesis
    using js_sub_swap [of a b] js_max_commute [of "js_abs x" "js_abs y"]
    by (simp add: withinTolerance_def js_eq_def Let_def eq_commute)
next
  case False
  then show ?thesis by (auto simp: withinTolerance_def js_eq_def Let_def)
qed

lemma compareTokens_sym:
  "length es = length as \<Longrightarrow> compareTokens es as t r = compareTokens as es t r"
  by (induction es as rule: list_induct2)
     (auto simp: withinTolerance_sym [of _ _ t r] split: option.splits)

text \<open>Numeric comparison is fair to both sides: exchanging the key and the answer never changes
  the outcome or its reason, for any tolerance.\<close>

theorem compareNumeric_sym: "compareNumeric expected actual opts = compareNumeric actual expected opts"
  using compareTokens_sym [of "tokenise expected" "tokenise actual"]
  by (auto simp: compareNumeric_def Let_def)

lemma withinTolerance_mono:
  assumes "withinTolerance x y t r" "js_le t t'" "js_le r r'" "isFinite r" "isFinite r'" "js_nonneg r"
  shows "withinTolerance x y t' r'"
proof (cases "isFinite x \<and> isFinite y \<and> \<not> js_eq x y")
  case True
  obtain a b where fin: "r = Fin a" "r' = Fin b" "0 \<le> a" "a \<le> b" using assms(3-6) by (cases r; cases r') auto
  obtain v w where xy: "x = Fin v" "y = Fin w" using True by (cases x; cases y) auto
  define big where "big = js_max (js_abs x) (js_abs y)"
  have "big = Fin (max \<bar>v\<bar> \<bar>w\<bar>)" by (simp add: big_def xy js_max_def max_def)
  then obtain c where c: "big = Fin c" "0 \<le> c" by simp
  have mono: "js_le (js_mul r big) (js_mul r' big)"
    unfolding fin c js_mul.simps using fin c by (intro dbl_mono mult_right_mono)
  define d where "d = js_abs (js_sub x y)"
  have "js_le d t \<or> (js_lt (Fin 0) r \<and> js_le d (js_mul r big))"
    using assms(1) True by (auto simp: withinTolerance_def Let_def d_def big_def split: if_splits)
  then have "js_le d t' \<or> (js_lt (Fin 0) r' \<and> js_le d (js_mul r' big))"
    using assms(2) mono fin js_le_trans by (auto intro: js_le_trans)
  then show ?thesis using True by (auto simp: withinTolerance_def Let_def d_def big_def)
next
  case False
  then show ?thesis using assms(1) by (auto simp: withinTolerance_def Let_def split: if_splits)
qed

lemma compareTokens_mono:
  assumes "compareTokens es as t r = Match" "js_le t t'" "js_le r r'" "isFinite r" "isFinite r'" "js_nonneg r"
  shows "compareTokens es as t' r' = Match"
  using assms
proof (induction es as t r rule: compareTokens.induct)
  case (3 e es a as t r)
  from "3.prems"(1) obtain x y where xy: "parseNumber e = Some x" "parseNumber a = Some y"
    "withinTolerance x y t r" "compareTokens es as t r = Match"
    by (auto split: option.splits if_splits)
  then have "withinTolerance x y t' r'" using withinTolerance_mono "3.prems" by blast
  then show ?case using xy "3.IH" "3.prems" by simp
qed auto

definition tolerances :: "jsnum \<Rightarrow> jsnum \<Rightarrow> compareOptions option" where
  "tolerances t r = Some \<lparr> absoluteTolerance = Some t, relativeTolerance = Some r, regexFlags = None \<rparr>"

text \<open>Widening a tolerance never fails an answer that passed: if an answer passes with some
  absolute and relative tolerances, it passes with any larger ones.\<close>

theorem compareNumeric_tolerance_mono:
  assumes "passed (compareNumeric expected actual (tolerances t r))" "js_le t t'" "js_le r r'"
    "isFinite t'" "isFinite r'"
  shows "passed (compareNumeric expected actual (tolerances t' r'))"
proof -
  have tr: "isFinite t" "isFinite r" "js_nonneg t" "js_nonneg r"
    "length (tokenise expected) = length (tokenise actual)"
    "compareTokens (tokenise expected) (tokenise actual) t r = Match"
    using assms(1) unfolding compareNumeric_def tolerances_def
    by (cases t; cases r; auto simp: Let_def outcome_def split: if_splits)+
  have "js_nonneg t'" "js_nonneg r'" using tr assms js_le_trans by blast+
  then have "\<not> js_lt t' (Fin 0)" "\<not> js_lt r' (Fin 0)" using assms(4,5) by (cases t'; cases r'; simp)+
  then show ?thesis
    using compareTokens_mono [OF tr(6) assms(2,3) tr(2) assms(5) tr(4)] tr(5) assms(4,5)
    by (simp add: compareNumeric_def tolerances_def outcome_def)
qed

theorem compareNumeric_tolerance_mono_witness:
  "passed (compareNumeric ''7'' ''7'' (tolerances (Fin 0) (Fin 0)))
   \<and> passed (compareNumeric ''7'' ''7'' (tolerances (Fin 1) (Fin 2)))"
proof -
  have "normalise ''7'' = ''7''"
    by (simp add: normalise_def trim_def trimStart_def trimEnd_def is_ws_def strip_leading_def strip_trailing_def)
  then have "tokenise ''7'' = [''7'']" by (simp add: tokenise_def is_ws_def)
  moreover have "trim ''7'' = ''7''" by (simp add: trim_def trimStart_def trimEnd_def is_ws_def)
  then have "js_Number ''7'' = Fin 7"
    by (simp add: js_Number_def unsigned_value_def decimal_value_def is_digit_def numeral_value_def
        digit_value_def js_simps)
  ultimately have "passed (compareNumeric ''7'' ''7'' (tolerances (Fin 0) (Fin 0)))"
    by (simp add: compareNumeric_def tolerances_def parseNumber_def withinTolerance_def js_eq_def outcome_def)
  then show ?thesis
    using compareNumeric_tolerance_mono [of "''7''" "''7''" "Fin 0" "Fin 0" "Fin 1" "Fin 2"] by simp
qed

subsection \<open>Properties of the short-answer mark\<close>

definition key_ok :: "answerKey \<Rightarrow> bool" where
  "key_ok key \<longleftrightarrow> (case key_score key of None \<Rightarrow> True | Some v \<Rightarrow> \<exists>r. v = Fin r \<and> 0 \<le> r)"

lemma validateKeys_iff: "validateKeys keys = Inr () \<longleftrightarrow> list_all key_ok keys"
proof (induction keys)
  case (Cons key keys)
  then show ?case
    by (cases "key_score key")
       (auto simp: key_ok_def assertFiniteAtLeast_def split: sum.splits if_splits jsnum.splits
         elim: isFinite.elims)
qed simp

text \<open>What the mark is: that of the first key the answer matches, capped at the maximum.\<close>

definition key_mark :: "rat \<Rightarrow> answerKey \<Rightarrow> rat" where
  "key_mark M key = (case key_score key of None \<Rightarrow> M | Some v \<Rightarrow> min M (fin_val v))"

lemma firstMatch_find:
  assumes "list_all key_ok keys" "0 \<le> M"
  shows "firstMatch regexp answer keys (Fin M) =
     Inr (case find (\<lambda>k. passed (compareCase regexp (key_mode k) (key_expected k) answer (key_options k))) keys
          of None \<Rightarrow> Fin 0 | Some k \<Rightarrow> toFixed6 (key_mark M k))"
  using assms(1)
  by (induction keys) (auto simp: key_ok_def key_mark_def js_min_def min_def split: option.splits)

text \<open>The first matching key decides a short answer. For a valid maximum and key list the mark
  is that of the first key in the author's order that the answer matches, capped at the maximum
  and rounded, and zero when no key matches; it lies between zero and the rounded maximum, for any
  regular-expression engine.\<close>

theorem gradeShortAnswer_first_match:
  assumes "0 \<le> M" "list_all key_ok keys"
  shows "\<exists>s. gradeShortAnswer regexp answer keys (Fin M) = Inr s \<and> js_nonneg s \<and> js_le s (toFixed6 M)
     \<and> s = (case find (\<lambda>k. passed (compareCase regexp (key_mode k) (key_expected k) answer (key_options k))) keys
            of None \<Rightarrow> Fin 0 | Some k \<Rightarrow> toFixed6 (key_mark M k))"
    (is "\<exists>s. _ \<and> _ \<and> _ \<and> s = ?s")
proof -
  have "gradeShortAnswer regexp answer keys (Fin M) = Inr ?s"
    using assms by (simp add: gradeShortAnswer_def firstMatch_find validateKeys_iff [symmetric])
  moreover have "js_nonneg ?s \<and> js_le ?s (toFixed6 M)"
  proof (cases "find (\<lambda>k. passed (compareCase regexp (key_mode k) (key_expected k) answer (key_options k))) keys")
    case None
    then show ?thesis using toFixed6_mono [OF assms(1)] by simp
  next
    case (Some k)
    then have "key_ok k" using assms(2) by (auto simp: find_Some_iff list_all_length)
    then have "0 \<le> key_mark M k" "key_mark M k \<le> M"
      using assms(1) by (auto simp: key_ok_def key_mark_def split: option.splits)
    then show ?thesis using toFixed6_mono Some by (metis option.simps(5) toFixed6_0)
  qed
  ultimately show ?thesis by blast
qed

theorem gradeShortAnswer_first_match_witness:
  "\<exists>s. gradeShortAnswer (\<lambda>_ _. None) ''b''
        [\<lparr> key_mode = Exact, key_expected = ''a'', key_score = Some (Fin 5), key_options = None \<rparr>,
         \<lparr> key_mode = Exact, key_expected = ''b'', key_score = Some (Fin 1), key_options = None \<rparr>] (Fin 3) = Inr s
     \<and> s = Fin 1"
  using gradeShortAnswer_first_match [of 3
        "[\<lparr> key_mode = Exact, key_expected = ''a'', key_score = Some (Fin 5), key_options = None \<rparr>,
          \<lparr> key_mode = Exact, key_expected = ''b'', key_score = Some (Fin 1), key_options = None \<rparr>]"
        "\<lambda>_ _. None" "''b''"]
  by (simp add: key_ok_def compareCase_def outcome_def key_mark_def)

end
