(* ===== verification/Deadline.thy ===== *)
theory Deadline
  imports Domain_Error
begin

text \<open>
  The server-owned clock of \<open>packages/core-domain/src/deadline.ts\<close>. A \<open>Date\<close> is its time value:
  \<open>None\<close> for an invalid date, \<open>Some t\<close> for \<open>t\<close> milliseconds with \<open>\<bar>t\<bar> \<le> 8.64e15\<close>
  (\<open>valid_date\<close>). Durations and percentages are JavaScript numbers and the arithmetic is that of
  doubles; the theorems show that its rounding never shortens a candidate's time.
\<close>

type_synonym date = "int option"

definition MAX_TIME :: int where
  "MAX_TIME = 8640000000000000"

definition valid_date :: "date \<Rightarrow> bool" where
  "valid_date d \<longleftrightarrow> (case d of None \<Rightarrow> False | Some t \<Rightarrow> \<bar>t\<bar> \<le> MAX_TIME)"

text \<open>\<open>new Date(x)\<close>: the time value is clipped to the representable range.\<close>

fun newDate :: "jsnum \<Rightarrow> date" where
  "newDate (Fin r) =
     (if \<bar>r\<bar> \<le> of_int MAX_TIME then Some (if 0 \<le> r then \<lfloor>r\<rfloor> else \<lceil>r\<rceil>) else None)"
| "newDate _ = None"

definition MAX_DURATION_SECONDS :: int where
  "MAX_DURATION_SECONDS = 7 * 24 * 60 * 60"

definition MAX_EXTRA_TIME_PCT :: int where
  "MAX_EXTRA_TIME_PCT = 1000"

definition assertValidDate :: "date \<Rightarrow> (thrown, int) result" where
  "assertValidDate d = (case d of None \<Rightarrow> Inl RangeError | Some t \<Rightarrow> Inr t)"

definition computeDeadline :: "date \<Rightarrow> jsnum \<Rightarrow> jsnum \<Rightarrow> (thrown, date) result" where
  "computeDeadline startedAt durationSeconds extraTimePct =
     (case assertValidDate startedAt of Inl e \<Rightarrow> Inl e | Inr t \<Rightarrow>
      if \<not> isInteger durationSeconds \<or> js_le durationSeconds (Fin 0) then Inl RangeError
      else if js_lt (js_int MAX_DURATION_SECONDS) durationSeconds then Inl RangeError
      else if \<not> isFinite extraTimePct \<or> js_lt extraTimePct (Fin 0) then Inl RangeError
      else if js_lt (js_int MAX_EXTRA_TIME_PCT) extraTimePct then Inl RangeError
      else
        let totalSeconds =
              js_ceil (js_div (js_mul durationSeconds (js_add (Fin 100) extraTimePct)) (Fin 100))
        in Inr (newDate (js_add (js_int t) (js_mul totalSeconds (Fin 1000)))))"

definition isPastDeadline :: "date \<Rightarrow> date \<Rightarrow> (thrown, bool) result" where
  "isPastDeadline deadlineAt now =
     (case assertValidDate deadlineAt of Inl e \<Rightarrow> Inl e | Inr d \<Rightarrow>
      case assertValidDate now of Inl e \<Rightarrow> Inl e | Inr n \<Rightarrow> Inr (n > d))"

definition secondsRemaining :: "date \<Rightarrow> date \<Rightarrow> (thrown, jsnum) result" where
  "secondsRemaining deadlineAt now =
     (case assertValidDate deadlineAt of Inl e \<Rightarrow> Inl e | Inr d \<Rightarrow>
      case assertValidDate now of Inl e \<Rightarrow> Inl e | Inr n \<Rightarrow>
        Inr (js_max (Fin 0) (js_ceil (js_div (js_sub (js_int d) (js_int n)) (Fin 1000)))))"

subsection \<open>The arithmetic of a deadline\<close>

text \<open>
  \<open>deadline_seconds d p\<close> is \<open>totalSeconds\<close> for a whole number of seconds \<open>d\<close> and a percentage
  \<open>p\<close>, once the guards have passed.
\<close>

definition deadline_seconds :: "int \<Rightarrow> rat \<Rightarrow> int" where
  "deadline_seconds d p =
     \<lceil>round_double (round_double (of_int d * round_double (100 + p)) / 100)\<rceil>"

lemmas deadline_limits = MAX_TIME_def MAX_DURATION_SECONDS_def MAX_EXTRA_TIME_PCT_def

lemma deadline_factor_bounds:
  assumes "0 \<le> p" "p \<le> 1000"
  shows "100 \<le> round_double (100 + p)" "round_double (100 + p) \<le> 1100"
  using double.rnd_ge_int [of 100 "100 + p"] double.rnd_le_int [of 1100 "100 + p"] assms by auto

lemma deadline_product_bounds:
  assumes "0 < d" "d \<le> MAX_DURATION_SECONDS" "0 \<le> p" "p \<le> 1000"
  shows "of_int (d * 100) \<le> round_double (of_int d * round_double (100 + p))"
    "round_double (of_int d * round_double (100 + p)) \<le> of_int (d * 1100)"
proof -
  have lo: "of_int (d * 100) \<le> of_int d * round_double (100 + p)"
    using deadline_factor_bounds(1) [OF assms(3,4)] assms(1) by (simp add: mult_left_mono)
  have hi: "of_int d * round_double (100 + p) \<le> of_int (d * 1100)"
    using deadline_factor_bounds(2) [OF assms(3,4)] assms(1) by (simp add: mult_left_mono)
  have small: "\<bar>d * 100\<bar> \<le> 2 ^ 53" "\<bar>d * 1100\<bar> \<le> 2 ^ 53"
    using assms(1,2) by (auto simp: deadline_limits)
  show "of_int (d * 100) \<le> round_double (of_int d * round_double (100 + p))"
    by (rule double.rnd_ge_int [OF small(1) lo])
  show "round_double (of_int d * round_double (100 + p)) \<le> of_int (d * 1100)"
    by (rule double.rnd_le_int [OF small(2) hi])
qed

lemma deadline_quotient_bounds:
  assumes "0 < d" "d \<le> MAX_DURATION_SECONDS" "0 \<le> p" "p \<le> 1000"
  shows "of_int d \<le> round_double (round_double (of_int d * round_double (100 + p)) / 100)"
    "round_double (round_double (of_int d * round_double (100 + p)) / 100) \<le> of_int (d * 11)"
proof -
  have small: "\<bar>d\<bar> \<le> 2 ^ 53" "\<bar>d * 11\<bar> \<le> 2 ^ 53" using assms(1,2) by (auto simp: deadline_limits)
  have "of_int d \<le> round_double (of_int d * round_double (100 + p)) / 100"
    "round_double (of_int d * round_double (100 + p)) / 100 \<le> of_int (d * 11)"
    using deadline_product_bounds [OF assms] by simp_all
  then show "of_int d \<le> round_double (round_double (of_int d * round_double (100 + p)) / 100)"
    "round_double (round_double (of_int d * round_double (100 + p)) / 100) \<le> of_int (d * 11)"
    using double.rnd_ge_int [OF small(1)] double.rnd_le_int [OF small(2)] by blast+
qed

lemma deadline_seconds_bounds:
  assumes "0 < d" "d \<le> MAX_DURATION_SECONDS" "0 \<le> p" "p \<le> 1000"
  shows "d \<le> deadline_seconds d p" "deadline_seconds d p \<le> d * 11"
proof -
  have "(of_int d :: rat) \<le> of_int (deadline_seconds d p)"
    using deadline_quotient_bounds(1) [OF assms] unfolding deadline_seconds_def by linarith
  then show "d \<le> deadline_seconds d p" by simp
  show "deadline_seconds d p \<le> d * 11"
    using deadline_quotient_bounds(2) [OF assms] unfolding deadline_seconds_def
    by (simp only: ceiling_le_iff)
qed

lemma deadline_seconds_int:
  assumes "0 < d" "d \<le> MAX_DURATION_SECONDS" "0 \<le> p" "p \<le> 1000"
  shows "deadline_seconds d (of_int p) = \<lceil>of_int (d * (100 + p)) / 100 :: rat\<rceil>"
proof -
  have "\<bar>100 + p\<bar> \<le> 2 ^ 53" using assms by simp
  then have f: "round_double (100 + of_int p) = of_int (100 + p)"
    using double.rnd_int [of "100 + p"] by simp
  have le: "d * (100 + p) \<le> MAX_DURATION_SECONDS * 1100" using assms by (intro mult_mono) auto
  have ge: "0 \<le> d * (100 + p)" using assms by simp
  have "\<bar>d * (100 + p)\<bar> \<le> 2 ^ 53" using le ge by (simp add: deadline_limits)
  then have g: "round_double (of_int d * of_int (100 + p)) = of_int (d * (100 + p))"
    using double.rnd_int [of "d * (100 + p)"] by simp
  have "d * (100 + p) div 100 \<le> 2 ^ 42" using le by (simp add: deadline_limits)
  moreover have "0 \<le> d * (100 + p) div 100" using ge by (simp add: pos_imp_zdiv_nonneg_iff)
  ultimately have "\<bar>d * (100 + p) div 100\<bar> \<le> 2 ^ 42" by simp
  then show ?thesis
    using round_double_quotient_ceiling [of 100 "d * (100 + p)"]
    unfolding deadline_seconds_def f g by simp
qed

lemma bounded_dbl: "\<bar>x\<bar> \<le> of_int (2 ^ 60) \<Longrightarrow> dbl x = Fin (round_double x)"
proof (rule dbl_bounded)
  assume "\<bar>x\<bar> \<le> of_int (2 ^ 60)"
  moreover have "(of_int (2 ^ 60) :: rat) \<le> 2 ^ 1000" by simp
  ultimately show "\<bar>x\<bar> \<le> 2 ^ 1000" by linarith
qed

lemma newDate_js_int: "newDate (js_int k) = (if \<bar>k\<bar> \<le> MAX_TIME then Some k else None)"
  by (simp add: js_int_def flip: of_int_abs)

lemma computeDeadline_eval:
  assumes "\<bar>t\<bar> \<le> MAX_TIME" "0 < d" "d \<le> MAX_DURATION_SECONDS" "0 \<le> p" "p \<le> 1000"
  shows "computeDeadline (Some t) (js_int d) (Fin p) =
    Inr (newDate (js_int (t + deadline_seconds d p * 1000)))"
proof -
  let ?f = "round_double (100 + p)"
  let ?g = "round_double (of_int d * ?f)"
  note a = assms(2-5)
  note b = deadline_factor_bounds [OF a(3,4)] deadline_product_bounds [OF a]
    deadline_quotient_bounds [OF a] deadline_seconds_bounds [OF a]
  have d: "(of_int d :: rat) \<le> 604800" "(0::rat) < of_int d"
    using assms(2,3) of_int_le_iff [of d 604800, where 'a = rat] by (simp_all add: deadline_limits)
  have e1: "dbl (100 + p) = Fin ?f" using a by (intro bounded_dbl) simp
  have "of_int d * ?f \<le> 604800 * 1100" using d b(1,2) by (intro mult_mono) auto
  moreover have "0 \<le> of_int d * ?f" using d b(1) by simp
  ultimately have e2: "dbl (of_int d * ?f) = Fin ?g" by (intro bounded_dbl) simp
  have "?g / 100 \<le> 604800 * 11" "0 \<le> ?g / 100" using b(3,4) d by simp_all
  then have e3: "dbl (?g / 100) = Fin (round_double (?g / 100))" by (intro bounded_dbl) simp
  let ?T = "deadline_seconds d p"
  have T: "0 < ?T" "?T \<le> 604800 * 11" using b(7,8) a(1,2) by (auto simp: deadline_limits)
  have "\<bar>?T * 1000\<bar> \<le> 2 ^ 53" using T by simp
  then have e4: "dbl (of_int ?T * 1000) = Fin (of_int (?T * 1000))" using dbl_int [of "?T * 1000"] by simp
  have "\<bar>t + ?T * 1000\<bar> \<le> 2 ^ 53" using T assms(1) by (simp add: deadline_limits)
  then have e5: "dbl (of_int t + of_int (?T * 1000)) = js_int (t + ?T * 1000)"
    using dbl_int [of "t + ?T * 1000"] by (simp add: js_int_def)
  show ?thesis
    using a e1 e2 e3 e4 e5
    by (simp add: computeDeadline_def assertValidDate_def js_int_def deadline_limits
        deadline_seconds_def [symmetric] Let_def)
qed

lemma seconds_left_bounds:
  assumes "\<bar>d\<bar> \<le> MAX_TIME" "\<bar>n\<bar> \<le> MAX_TIME"
  shows "js_ceil (js_div (js_sub (js_int d) (js_int n)) (Fin 1000)) =
    js_int \<lceil>round_double (round_double (of_int (d - n)) / 1000)\<rceil>"
proof -
  have "\<bar>d - n\<bar> \<le> 2 ^ 55" using assms by (simp add: deadline_limits)
  then have "\<bar>of_int (d - n) :: rat\<bar> \<le> of_int (2 ^ 55)"
    by (simp only: of_int_abs [symmetric] of_int_le_iff)
  moreover have dy: "round_double (of_int (2 ^ 55)) = of_int (2 ^ 55)"
    using round_double_dyadic [of 1 55] by (simp add: power_int_def)
  ultimately have r: "\<bar>round_double (of_int (d - n))\<bar> \<le> of_int (2 ^ 55)"
    using double.rnd_mono [of "of_int (d - n)" "of_int (2 ^ 55)"]
      double.rnd_mono [of "- of_int (2 ^ 55)" "of_int (d - n)"]
    unfolding double.rnd_minus dy abs_le_iff by linarith
  have e1: "dbl (of_int d + - of_int n) = Fin (round_double (of_int (d - n)))"
    using bounded_dbl [of "of_int (d - n)"] \<open>\<bar>of_int (d - n)\<bar> \<le> of_int (2 ^ 55)\<close> by simp
  have e2: "dbl (round_double (of_int (d - n)) / 1000) = Fin (round_double (round_double (of_int (d - n)) / 1000))"
    using r by (intro bounded_dbl) (simp add: abs_if split: if_splits)
  show ?thesis using e1 e2 by (simp add: js_sub_def js_int_def)
qed

lemma seconds_left_sign:
  "\<lceil>round_double (round_double (of_int k) / 1000)\<rceil> \<le> 0 \<longleftrightarrow> k \<le> 0"
proof
  assume "k \<le> 0"
  then have "round_double (of_int k) \<le> 0" using double.rnd_le_int [of 0 "of_int k"] by simp
  then have "round_double (round_double (of_int k) / 1000) \<le> 0"
    using double.rnd_le_int [of 0 "round_double (of_int k) / 1000"] by simp
  then show "\<lceil>round_double (round_double (of_int k) / 1000)\<rceil> \<le> 0" by simp
next
  assume c: "\<lceil>round_double (round_double (of_int k) / 1000)\<rceil> \<le> 0"
  show "k \<le> 0"
  proof (rule ccontr)
    assume "\<not> k \<le> 0"
    then have "1 \<le> round_double (of_int k)" using double.rnd_ge_int [of 1 "of_int k"] by simp
    then have "0 < round_double (round_double (of_int k) / 1000)"
      using round_double_above [of 0 "round_double (of_int k) / 1000"] by simp
    with c show False by (simp add: ceiling_le_iff)
  qed
qed

lemma secondsRemaining_eval:
  assumes "valid_date (Some d)" "valid_date (Some n)"
  shows "secondsRemaining (Some d) (Some n) =
    Inr (js_int (max 0 \<lceil>round_double (round_double (of_int (d - n)) / 1000)\<rceil>))"
  using seconds_left_bounds [of d n] assms
  by (simp add: secondsRemaining_def assertValidDate_def valid_date_def js_max_def js_int_def max_def)

subsection \<open>Properties\<close>

text \<open>
  The three roundings of the quotient together move it by less than a microsecond: each is
  within a unit roundoff of its argument, and the quotient is at most eleven weeks of seconds.
\<close>

lemma round_double_close:
  assumes "1 \<le> x" "x \<le> b"
  shows "\<bar>round_double x - x\<bar> \<le> unit_roundoff * b"
proof -
  have "1 / 2 ^ 100 \<le> \<bar>x\<bar>" using assms(1) by simp
  then have "\<bar>round_double x - x\<bar> \<le> unit_roundoff * \<bar>x\<bar>" by (rule round_double_relative)
  also have "\<dots> \<le> unit_roundoff * b"
    using assms roundoff_pos(1) by (intro mult_left_mono) auto
  finally show ?thesis .
qed

lemma deadline_quotient_error:
  assumes "0 < d" "d \<le> MAX_DURATION_SECONDS" "0 \<le> p" "p \<le> 1000"
  shows "\<bar>round_double (round_double (of_int d * round_double (100 + p)) / 100) -
    of_int d * (100 + p) / 100\<bar> < 1 / 10 ^ 6"
proof -
  let ?f = "round_double (100 + p)"
  let ?g = "round_double (of_int d * ?f)"
  let ?q = "round_double (?g / 100)"
  let ?d = "of_int d :: rat"
  have d: "?d \<le> 604800" "1 \<le> ?d"
    using assms(1,2) of_int_le_iff [of d 604800, where 'a = rat] by (simp_all add: deadline_limits)
  note b = deadline_factor_bounds [OF assms(3,4)] deadline_product_bounds [OF assms]
  have hi: "?d * ?f \<le> 604800 * 1100" using d b(1,2) by (intro mult_mono) simp_all
  have lo: "1 * 100 \<le> ?d * ?f" using d b(1,2) by (intro mult_mono) simp_all
  from hi lo have g: "\<bar>?g - ?d * ?f\<bar> \<le> unit_roundoff * 665280000"
    using round_double_close [of "?d * ?f" 665280000] by simp
  have "\<bar>?f - (100 + p)\<bar> \<le> unit_roundoff * 1100"
    using assms(3,4) by (intro round_double_close) simp_all
  then have "?d * \<bar>?f - (100 + p)\<bar> \<le> 604800 * (unit_roundoff * 1100)"
    using d by (intro mult_mono) auto
  then have f: "\<bar>?d * ?f - ?d * (100 + p)\<bar> \<le> unit_roundoff * 665280000"
    using d by (simp add: abs_mult flip: right_diff_distrib)
  have "1 \<le> ?g / 100" "?g / 100 \<le> 6652800" using b(3,4) d by simp_all
  then have q: "\<bar>?q - ?g / 100\<bar> \<le> unit_roundoff * 6652800" by (rule round_double_close)
  have "\<bar>?g / 100 - ?d * (100 + p) / 100\<bar> \<le> unit_roundoff * 13305600" using f g by linarith
  then have "\<bar>?q - ?d * (100 + p) / 100\<bar> \<le> unit_roundoff * 19958400" using q by linarith
  moreover have "unit_roundoff * 19958400 < (1 / 10 ^ 6 :: rat)" by (simp add: unit_roundoff_def)
  ultimately show ?thesis by linarith
qed

lemma deadline_seconds_close:
  assumes "0 < d" "d \<le> MAX_DURATION_SECONDS" "0 \<le> p" "p \<le> 1000"
  shows "of_int d * (100 + p) / 100 - 1 / 10 ^ 6 < of_int (deadline_seconds d p)"
    "of_int (deadline_seconds d p) < of_int d * (100 + p) / 100 + 1 + 1 / 10 ^ 6"
  using deadline_quotient_error [OF assms] unfolding deadline_seconds_def by linarith+

text \<open>C39: for every accepted duration and accommodation the deadline exists and is a whole number
  of seconds \<open>T\<close> after the start. \<open>T\<close> is the duration scaled by the accommodation and rounded up to
  a second: it is less than the scaled duration by no more than a microsecond, the floating-point
  error, and exceeds it by less than a second and that microsecond; for a whole percentage it is
  exactly the ceiling. It is never below the plain duration and never above eleven durations.\<close>

theorem deadline_never_shortened:
  assumes "\<bar>t\<bar> \<le> MAX_TIME - 1000 * 11 * MAX_DURATION_SECONDS"
    and "0 < d" "d \<le> MAX_DURATION_SECONDS" "0 \<le> p" "p \<le> 1000"
  shows "\<exists>T. computeDeadline (Some t) (js_int d) (Fin p) = Inr (Some (t + 1000 * T)) \<and>
    d \<le> T \<and> T \<le> 11 * d \<and>
    of_int d * (100 + p) / 100 - 1 / 10 ^ 6 < of_int T \<and>
    of_int T < of_int d * (100 + p) / 100 + 1 + 1 / 10 ^ 6 \<and>
    (p \<in> \<int> \<longrightarrow> T = \<lceil>of_int d * (100 + p) / 100\<rceil>)"
proof -
  have T: "d \<le> deadline_seconds d p" "deadline_seconds d p \<le> d * 11"
    using deadline_seconds_bounds assms(2-5) by auto
  have t: "\<bar>t\<bar> \<le> MAX_TIME" using assms(1) by (simp add: deadline_limits)
  have "\<bar>t + deadline_seconds d p * 1000\<bar> \<le> MAX_TIME"
    using T assms(1-3) by (auto simp: deadline_limits)
  moreover have "deadline_seconds d p = \<lceil>of_int d * (100 + p) / 100\<rceil>" if "p \<in> \<int>"
    using that assms(4,5) deadline_seconds_int [OF assms(2,3)] by (auto elim!: Ints_cases)
  ultimately show ?thesis
    using computeDeadline_eval [OF t assms(2-5)] T deadline_seconds_close [OF assms(2-5)]
    by (intro exI [of _ "deadline_seconds d p"]) (simp add: newDate_js_int mult.commute)
qed

theorem deadline_never_shortened_witness:
  "\<exists>T. computeDeadline (Some 1700000000000) (js_int 3601) (Fin (25/2)) =
     Inr (Some (1700000000000 + 1000 * T)) \<and> 3601 \<le> T \<and> T \<le> 11 * 3601 \<and>
     (4051 :: rat) < of_int T \<and> of_int T < (4053 :: rat)"
  using deadline_never_shortened [of 1700000000000 3601 "25/2"]
  by (auto simp add: deadline_limits)

text \<open>For a whole percentage the deadline is exact: the duration scaled by the percentage and
  rounded up to a second, with no floating-point error in either direction.\<close>

theorem deadline_exact_for_whole_percentages:
  assumes "\<bar>t\<bar> \<le> MAX_TIME - 1000 * 11 * MAX_DURATION_SECONDS"
    and "0 < d" "d \<le> MAX_DURATION_SECONDS" "0 \<le> p" "p \<le> 1000"
  shows "computeDeadline (Some t) (js_int d) (js_int p) =
    Inr (Some (t + 1000 * \<lceil>of_int (d * (100 + p)) / 100 :: rat\<rceil>))"
proof -
  have p: "(0::rat) \<le> of_int p" "(of_int p :: rat) \<le> 1000" using assms(4,5) by auto
  have T: "deadline_seconds d (of_int p) \<le> d * 11" "d \<le> deadline_seconds d (of_int p)"
    using deadline_seconds_bounds [OF assms(2,3) p] by auto
  have t: "\<bar>t\<bar> \<le> MAX_TIME" using assms(1) by (simp add: deadline_limits)
  have "\<bar>t + deadline_seconds d (of_int p) * 1000\<bar> \<le> MAX_TIME"
    using T assms(1-3) by (auto simp: deadline_limits)
  then have "computeDeadline (Some t) (js_int d) (Fin (of_int p)) =
      Inr (Some (t + 1000 * deadline_seconds d (of_int p)))"
    using computeDeadline_eval [OF t assms(2,3) p] by (simp add: newDate_js_int mult.commute)
  then show ?thesis using deadline_seconds_int [OF assms(2-5)] by (simp add: js_int_def)
qed

theorem deadline_exact_for_whole_percentages_witness:
  "computeDeadline (Some 0) (js_int 601) (js_int 25) = Inr (Some 752000)"
proof -
  have "\<lceil>of_int (601 * (100 + 25)) / 100 :: rat\<rceil> = 752" by (intro ceiling_unique) simp_all
  then show ?thesis
    using deadline_exact_for_whole_percentages [of 0 601 25] by (simp add: deadline_limits)
qed

text \<open>The two readings of the clock agree on valid dates: neither throws, the displayed
  countdown is a non-negative whole number that is zero exactly when the deadline is not in the
  future, and the write gate closes only strictly after the deadline, so the boundary instant
  belongs to the candidate while the display already reads zero.\<close>

theorem clock_readings_agree:
  assumes "valid_date (Some d)" "valid_date (Some n)"
  shows "\<exists>s. secondsRemaining (Some d) (Some n) = Inr (js_int s) \<and> 0 \<le> s \<and> (s = 0 \<longleftrightarrow> d \<le> n) \<and>
    isPastDeadline (Some d) (Some n) = Inr (d < n)"
proof -
  define c where "c = \<lceil>round_double (round_double (of_int (d - n)) / 1000)\<rceil>"
  have "c \<le> 0 \<longleftrightarrow> d \<le> n" unfolding c_def by (simp only: seconds_left_sign diff_le_0_iff_le)
  then have "max 0 c = 0 \<longleftrightarrow> d \<le> n" by (auto simp: max_def)
  moreover have "secondsRemaining (Some d) (Some n) = Inr (js_int (max 0 c))"
    unfolding c_def by (rule secondsRemaining_eval [OF assms])
  ultimately show ?thesis
    by (intro exI [of _ "max 0 c"]) (simp add: isPastDeadline_def assertValidDate_def)
qed

theorem clock_readings_agree_witness:
  "\<exists>s. secondsRemaining (Some 5000) (Some 4999) = Inr (js_int s) \<and> 0 \<le> s \<and>
     (s = 0 \<longleftrightarrow> (5000::int) \<le> 4999) \<and> isPastDeadline (Some 5000) (Some 4999) = Inr (5000 < (4999::int))"
  by (rule clock_readings_agree) (simp_all add: valid_date_def MAX_TIME_def)

end
