(* ===== verification/Credentials.thy ===== *)
theory Credentials
  imports Deadline Js_String
begin

text \<open>
  Signed credentials (\<open>packages/auth/src/{crypto,envelope,attempt-token,ws-ticket,token,
  permissions,errors}.ts\<close>): the three-part envelope, the attempt token, the WebSocket ticket,
  the invitation-token hash and the permission check.

  The platform is a parameter: the keyed digest of \<open>node:crypto\<close>, the base64url codec, \<open>JSON\<close>
  and zod's UUID format are fields of \<open>platform\<close>, and what a theorem needs of them is a named
  hypothesis. The claims schemas are the model's own, read off the zod declarations. A date is an
  instant in milliseconds or invalid, as in \<open>Deadline\<close>; a comparison with an invalid date is
  false, as it is on \<open>NaN\<close>.
\<close>

datatype jvalue =
    JNull | JBool bool | JNumber jsnum | JString string
  | JArray "jvalue list" | JObject "(string \<times> jvalue) list"

record platform =
  hmacHex :: "string \<Rightarrow> string \<Rightarrow> string"
  encodeBase64Url :: "string \<Rightarrow> string"
  decodeBase64Url :: "string \<Rightarrow> string"
  stringify :: "jvalue \<Rightarrow> string"
  jsonParse :: "string \<Rightarrow> jvalue option"
  isUuid :: "string \<Rightarrow> bool"

subsection \<open>Comparison in constant time\<close>

definition constantTimeEquals :: "string \<Rightarrow> string \<Rightarrow> bool" where
  "constantTimeEquals a b =
     (let left = utf8 a; right = utf8 b;
          sameLength = (length left = length right);
          comparable = (if sameLength then left else right)
      in comparable = right \<and> sameLength)"

subsection \<open>Errors\<close>

datatype authErrorReason =
    Malformed | Signature_invalid | Claims_invalid | Expired | Not_yet_valid
  | Wrong_purpose | Attempt_mismatch

definition AUTH_ERROR_REASONS :: "authErrorReason list" where
  "AUTH_ERROR_REASONS =
     [Malformed, Signature_invalid, Claims_invalid, Expired, Not_yet_valid, Wrong_purpose, Attempt_mismatch]"

subsection \<open>The envelope\<close>

definition MAX_CREDENTIAL_LENGTH :: nat where
  "MAX_CREDENTIAL_LENGTH = 4096"

definition ENVELOPE_DOMAIN :: string where
  "ENVELOPE_DOMAIN = ''assaybank.envelope.v1''"

definition PART_COUNT :: nat where
  "PART_COUNT = 3"

abbreviation DOT :: char where "DOT \<equiv> CHR ''.''"

definition signedMessage :: "string \<Rightarrow> string \<Rightarrow> string" where
  "signedMessage pre payload = ENVELOPE_DOMAIN @ ''.'' @ pre @ ''.'' @ payload"

definition sealEnvelope :: "platform \<Rightarrow> string \<Rightarrow> jvalue \<Rightarrow> string \<Rightarrow> string" where
  "sealEnvelope pf pre claims secret =
     (let payload = encodeBase64Url pf (stringify pf claims)
      in pre @ ''.'' @ payload @ ''.'' @ hmacHex pf secret (signedMessage pre payload))"

definition openEnvelope ::
  "platform \<Rightarrow> string \<Rightarrow> string \<Rightarrow> string \<Rightarrow> (authErrorReason, jvalue) result"
where
  "openEnvelope pf credential pre secret =
     (if length credential = 0 \<or> length credential > MAX_CREDENTIAL_LENGTH then Inl Malformed
      else case splitOn DOT credential of
        [presentedPrefix, payload, signature] \<Rightarrow>
          if length payload = 0 then Inl Malformed
          else if presentedPrefix \<noteq> pre then Inl Wrong_purpose
          else if \<not> constantTimeEquals (hmacHex pf secret (signedMessage pre payload)) signature
          then Inl Signature_invalid
          else (case jsonParse pf (decodeBase64Url pf payload) of None \<Rightarrow> Inl Claims_invalid
                | Some claims \<Rightarrow> Inr claims)
      | _ \<Rightarrow> Inl Malformed)"

subsection \<open>Claims schemas\<close>

definition MAX_SAFE_INTEGER :: int where
  "MAX_SAFE_INTEGER = 2 ^ 53 - 1"

fun member :: "jvalue \<Rightarrow> string \<Rightarrow> jvalue option" where
  "member (JObject entries) k = map_of entries k"
| "member _ k = None"

definition literalNumber :: "int \<Rightarrow> jvalue option \<Rightarrow> bool" where
  "literalNumber k v \<longleftrightarrow> v = Some (JNumber (js_int k))"

definition literalString :: "string \<Rightarrow> jvalue option \<Rightarrow> bool" where
  "literalString s v \<longleftrightarrow> v = Some (JString s)"

definition uuidField :: "platform \<Rightarrow> jvalue option \<Rightarrow> string option" where
  "uuidField pf v = (case v of Some (JString s) \<Rightarrow> if isUuid pf s then Some s else None | _ \<Rightarrow> None)"

text \<open>\<open>z.number().int().positive().max(Number.MAX_SAFE_INTEGER)\<close>\<close>

definition instantField :: "jvalue option \<Rightarrow> int option" where
  "instantField v =
     (case v of
        Some (JNumber (Fin r)) \<Rightarrow>
          if of_int \<lfloor>r\<rfloor> = r \<and> 0 < r \<and> r \<le> of_int MAX_SAFE_INTEGER then Some \<lfloor>r\<rfloor> else None
      | _ \<Rightarrow> None)"

definition nonceField :: "jvalue option \<Rightarrow> bool" where
  "nonceField v = (case v of Some (JString s) \<Rightarrow> 1 \<le> length s \<and> length s \<le> 64 | _ \<Rightarrow> False)"

definition parseAttemptClaims :: "platform \<Rightarrow> jvalue \<Rightarrow> (string \<times> string \<times> int) option" where
  "parseAttemptClaims pf v =
     (if literalNumber 1 (member v ''v'') \<and> literalString ''attempt'' (member v ''p'')
      then case (uuidField pf (member v ''aid''), uuidField pf (member v ''oid''), instantField (member v ''exp''))
           of (Some aid, Some oid, Some ex) \<Rightarrow> Some (aid, oid, ex) | _ \<Rightarrow> None
      else None)"

definition parseWsTicketClaims :: "platform \<Rightarrow> jvalue \<Rightarrow> (string \<times> int) option" where
  "parseWsTicketClaims pf v =
     (if literalNumber 1 (member v ''v'') \<and> literalString ''ws'' (member v ''p'') \<and> nonceField (member v ''n'')
      then case (uuidField pf (member v ''sid''), instantField (member v ''iat''))
           of (Some sid, Some iat) \<Rightarrow> Some (sid, iat) | _ \<Rightarrow> None
      else None)"

text \<open>\<open>a.getTime() < b.getTime()\<close> and \<open>\<ge>\<close>: false as soon as one side is invalid.\<close>

definition date_lt :: "date \<Rightarrow> date \<Rightarrow> bool" where
  "date_lt a b = (case (a, b) of (Some x, Some y) \<Rightarrow> x < y | _ \<Rightarrow> False)"

definition date_ge :: "date \<Rightarrow> date \<Rightarrow> bool" where
  "date_ge a b = (case (a, b) of (Some x, Some y) \<Rightarrow> x \<ge> y | _ \<Rightarrow> False)"

text \<open>\<open>JSON.stringify\<close> writes an invalid time as \<open>null\<close>.\<close>

definition timeValue :: "date \<Rightarrow> jvalue" where
  "timeValue d = (case d of None \<Rightarrow> JNull | Some t \<Rightarrow> JNumber (js_int t))"

subsection \<open>The attempt token\<close>

definition ATTEMPT_TOKEN_PREFIX :: string where
  "ATTEMPT_TOKEN_PREFIX = ''abat1''"

record attemptTokenClaims =
  attemptId :: string
  token_orgId :: string
  expiresAt :: date

definition attemptClaimsValue :: "attemptTokenClaims \<Rightarrow> jvalue" where
  "attemptClaimsValue claims = JObject
     [(''v'', JNumber (js_int 1)), (''p'', JString ''attempt''), (''aid'', JString (attemptId claims)),
      (''oid'', JString (token_orgId claims)), (''exp'', timeValue (expiresAt claims))]"

definition issueAttemptToken :: "platform \<Rightarrow> attemptTokenClaims \<Rightarrow> string \<Rightarrow> string" where
  "issueAttemptToken pf claims secret = sealEnvelope pf ATTEMPT_TOKEN_PREFIX (attemptClaimsValue claims) secret"

definition verifyAttemptToken ::
  "platform \<Rightarrow> string \<Rightarrow> string \<Rightarrow> date \<Rightarrow> string option \<Rightarrow> (authErrorReason, attemptTokenClaims) result"
where
  "verifyAttemptToken pf token secret now expectedAttemptId =
     (case openEnvelope pf token ATTEMPT_TOKEN_PREFIX secret of Inl e \<Rightarrow> Inl e
      | Inr v \<Rightarrow>
        (case parseAttemptClaims pf v of None \<Rightarrow> Inl Claims_invalid
         | Some (aid, oid, ex) \<Rightarrow>
           let claims = \<lparr> attemptId = aid, token_orgId = oid, expiresAt = newDate (js_int ex) \<rparr>
           in if date_ge now (expiresAt claims) then Inl Expired
              else if expectedAttemptId \<noteq> None \<and> Some (attemptId claims) \<noteq> expectedAttemptId
              then Inl Attempt_mismatch
              else Inr claims))"

subsection \<open>The WebSocket ticket\<close>

definition WS_TICKET_PREFIX :: string where
  "WS_TICKET_PREFIX = ''abwt1''"

definition WS_TICKET_TTL_SECONDS :: int where
  "WS_TICKET_TTL_SECONDS = 60"

definition WS_TICKET_CLOCK_SKEW_SECONDS :: int where
  "WS_TICKET_CLOCK_SKEW_SECONDS = 5"

record wsTicket =
  sessionId :: string
  issuedAt :: date

definition issueWsTicket :: "platform \<Rightarrow> wsTicket \<Rightarrow> string \<Rightarrow> string \<Rightarrow> string" where
  "issueWsTicket pf ticket nonce secret = sealEnvelope pf WS_TICKET_PREFIX (JObject
     [(''v'', JNumber (js_int 1)), (''p'', JString ''ws''), (''sid'', JString (sessionId ticket)),
      (''iat'', timeValue (issuedAt ticket)), (''n'', JString nonce)]) secret"

text \<open>\<open>now - issuedAt\<close> in milliseconds, \<open>None\<close> for \<open>NaN\<close>.\<close>

definition ageMs :: "date \<Rightarrow> date \<Rightarrow> int option" where
  "ageMs now issued = (case (now, issued) of (Some n, Some i) \<Rightarrow> Some (n - i) | _ \<Rightarrow> None)"

definition verifyWsTicket ::
  "platform \<Rightarrow> string \<Rightarrow> string \<Rightarrow> date \<Rightarrow> (authErrorReason, wsTicket) result"
where
  "verifyWsTicket pf ticket secret now =
     (case openEnvelope pf ticket WS_TICKET_PREFIX secret of Inl e \<Rightarrow> Inl e
      | Inr v \<Rightarrow>
        (case parseWsTicketClaims pf v of None \<Rightarrow> Inl Claims_invalid
         | Some (sid, iat) \<Rightarrow>
           let issued = newDate (js_int iat); age = ageMs now issued
           in if (case age of Some a \<Rightarrow> a < - WS_TICKET_CLOCK_SKEW_SECONDS * 1000 | None \<Rightarrow> False)
              then Inl Not_yet_valid
              else if (case age of Some a \<Rightarrow> a \<ge> WS_TICKET_TTL_SECONDS * 1000 | None \<Rightarrow> False)
              then Inl Expired
              else Inr \<lparr> sessionId = sid, issuedAt = issued \<rparr>))"

subsection \<open>Invitation tokens\<close>

definition TOKEN_HASH_VERSION :: string where
  "TOKEN_HASH_VERSION = ''v1''"

definition TOKEN_HASH_DOMAIN :: string where
  "TOKEN_HASH_DOMAIN = ''assaybank.token.v1''"

definition hashToken :: "platform \<Rightarrow> string \<Rightarrow> string \<Rightarrow> string" where
  "hashToken pf plaintext pepper =
     TOKEN_HASH_VERSION @ ''$'' @ hmacHex pf pepper (TOKEN_HASH_DOMAIN @ [CHR 0x1F] @ plaintext)"

text \<open>\<open>generateToken\<close>, with the base64url text of the random bytes as an argument.\<close>

definition generateToken :: "platform \<Rightarrow> string \<Rightarrow> string \<Rightarrow> string \<times> string" where
  "generateToken pf pepper plaintext = (plaintext, hashToken pf plaintext pepper)"

definition verifyToken :: "platform \<Rightarrow> string \<Rightarrow> string \<Rightarrow> string \<Rightarrow> bool" where
  "verifyToken pf plaintext hsh pepper = constantTimeEquals (hashToken pf plaintext pepper) hsh"

subsection \<open>Permissions\<close>

definition PERMISSIONS :: "string list" where
  "PERMISSIONS =
     [''question.read'', ''question.write'', ''question.publish'', ''assessment.write'', ''invite.send'',
      ''attempt.read'', ''attempt.grade'', ''attempt.void'', ''interview.host'', ''report.export'', ''org.admin'']"

definition isPermission :: "string \<Rightarrow> bool" where
  "isPermission p \<longleftrightarrow> p \<in> set PERMISSIONS"

datatype principal =
    StaffPrincipal (userId: string) (principal_orgId: string) (permissions: "string list")
  | CandidatePrincipal (principal_attemptId: string) (principal_orgId: string)

fun can :: "principal \<Rightarrow> string \<Rightarrow> bool" where
  "can p permission =
     (if \<not> isPermission permission then False
      else case p of CandidatePrincipal _ _ \<Rightarrow> False
           | StaffPrincipal _ _ held \<Rightarrow> permission \<in> set held)"

subsection \<open>Comparison is equality\<close>

lemma utf8_unit_inj_append:
  assumes "utf8_unit c @ s = utf8_unit d @ t"
  shows "c = d \<and> s = t"
proof -
  define m n where "m = (of_char c :: nat)" and "n = (of_char d :: nat)"
  have lim: "m < 256" "n < 256" by (simp_all add: m_def n_def)
  have "m = n \<and> s = t"
    using assms lim
    by (auto simp: utf8_unit_def m_def [symmetric] n_def [symmetric] split: if_splits)
       (metis div_mult_mod_eq)
  then show ?thesis by (simp add: m_def n_def of_char_eq_iff)
qed

lemma utf8_unit_not_Nil [simp]: "utf8_unit c \<noteq> []"
  by (simp add: utf8_unit_def Let_def)

lemma utf8_inj: "utf8 a = utf8 b \<Longrightarrow> a = b"
proof (induction a arbitrary: b)
  case Nil
  then show ?case by (cases b) (simp_all add: utf8_def)
next
  case (Cons c a)
  then obtain d b' where b: "b = d # b'" by (cases b) (simp_all add: utf8_def)
  with Cons.prems have "c = d \<and> utf8 a = utf8 b'"
    using utf8_unit_inj_append [of c "utf8 a" d "utf8 b'"] by (simp add: utf8_def)
  then show ?case using Cons.IH b by simp
qed

lemma constantTimeEquals_iff [simp]: "constantTimeEquals a b \<longleftrightarrow> a = b"
  using utf8_inj by (auto simp: constantTimeEquals_def Let_def)

subsection \<open>What an opened envelope is\<close>

lemma splitOn_three:
  assumes "splitOn c s = [x, y, z]"
  shows "s = x @ c # y @ c # z"
  using joinWith_splitOn [of c s] assms by simp

lemma openEnvelope_sound:
  assumes "openEnvelope pf credential pre secret = Inr v"
  obtains payload where
    "credential = pre @ ''.'' @ payload @ ''.'' @ hmacHex pf secret (signedMessage pre payload)"
    "payload \<noteq> []" "jsonParse pf (decodeBase64Url pf payload) = Some v"
    "splitOn DOT credential = [pre, payload, hmacHex pf secret (signedMessage pre payload)]"
proof -
  obtain payload where "splitOn DOT credential = [pre, payload, hmacHex pf secret (signedMessage pre payload)]"
    "payload \<noteq> []" "jsonParse pf (decodeBase64Url pf payload) = Some v"
    using assms by (auto simp: openEnvelope_def split: if_splits list.splits option.splits)
  then show ?thesis using that splitOn_three [of DOT credential] by simp
qed

lemma openEnvelope_other_prefix:
  assumes "openEnvelope pf credential pre secret = Inr v" "pre \<noteq> other"
  shows "openEnvelope pf credential other key = Inl Wrong_purpose"
proof -
  obtain payload sig where "splitOn DOT credential = [pre, payload, sig]" "payload \<noteq> []"
    using openEnvelope_sound [OF assms(1)] by metis
  moreover have "\<not> (length credential = 0 \<or> length credential > MAX_CREDENTIAL_LENGTH)"
    using assms(1) by (auto simp: openEnvelope_def)
  ultimately show ?thesis using assms(2) by (simp add: openEnvelope_def)
qed

text \<open>What the platform promises for one set of claims.\<close>

definition codec_ok :: "platform \<Rightarrow> string \<Rightarrow> jvalue \<Rightarrow> string \<Rightarrow> bool" where
  "codec_ok pf pre v secret \<longleftrightarrow>
     (let payload = encodeBase64Url pf (stringify pf v)
      in jsonParse pf (stringify pf v) = Some v
       \<and> decodeBase64Url pf payload = stringify pf v
       \<and> payload \<noteq> [] \<and> DOT \<notin> set payload
       \<and> DOT \<notin> set (hmacHex pf secret (signedMessage pre payload))
       \<and> length (sealEnvelope pf pre v secret) \<le> MAX_CREDENTIAL_LENGTH)"

lemma open_seal:
  assumes "codec_ok pf pre v secret" "DOT \<notin> set pre"
  shows "openEnvelope pf (sealEnvelope pf pre v secret) pre secret = Inr v"
proof -
  define payload where "payload = encodeBase64Url pf (stringify pf v)"
  define sig where "sig = hmacHex pf secret (signedMessage pre payload)"
  have c: "jsonParse pf (stringify pf v) = Some v" "decodeBase64Url pf payload = stringify pf v"
    "payload \<noteq> []" "DOT \<notin> set payload" "DOT \<notin> set sig"
    "length (sealEnvelope pf pre v secret) \<le> MAX_CREDENTIAL_LENGTH"
    using assms(1) by (auto simp: codec_ok_def payload_def sig_def Let_def)
  have seal: "sealEnvelope pf pre v secret = pre @ DOT # payload @ DOT # sig"
    by (simp add: sealEnvelope_def payload_def sig_def Let_def)
  then have "splitOn DOT (sealEnvelope pf pre v secret) = [pre, payload, sig]"
    using assms(2) c(4,5) by (simp add: splitOn_append splitOn_single)
  then show ?thesis using c seal by (simp add: openEnvelope_def sig_def)
qed

lemma prefixes [simp]: "DOT \<notin> set ATTEMPT_TOKEN_PREFIX" "DOT \<notin> set WS_TICKET_PREFIX"
  "ATTEMPT_TOKEN_PREFIX \<noteq> WS_TICKET_PREFIX" "WS_TICKET_PREFIX \<noteq> ATTEMPT_TOKEN_PREFIX"
  by (simp_all add: ATTEMPT_TOKEN_PREFIX_def WS_TICKET_PREFIX_def)

subsection \<open>Properties of the attempt token\<close>

text \<open>What the claims schema reads of an attempt token's payload.\<close>

lemma parseAttemptClaims_reads:
  assumes "parseAttemptClaims pf v = Some (aid, oid, ex)"
  shows "member v ''v'' = Some (JNumber (js_int 1))" "member v ''p'' = Some (JString ''attempt'')"
    "member v ''aid'' = Some (JString aid)" "isUuid pf aid"
    "member v ''oid'' = Some (JString oid)" "isUuid pf oid"
    "member v ''exp'' = Some (JNumber (js_int ex))" "0 < ex" "ex \<le> MAX_SAFE_INTEGER"
proof -
  have u: "uuidField pf (member v ''aid'') = Some aid" "uuidField pf (member v ''oid'') = Some oid"
    and e: "instantField (member v ''exp'') = Some ex"
    and l: "literalNumber 1 (member v ''v'')" "literalString ''attempt'' (member v ''p'')"
    using assms by (auto simp: parseAttemptClaims_def split: if_splits option.splits)
  show "member v ''v'' = Some (JNumber (js_int 1))" "member v ''p'' = Some (JString ''attempt'')"
    using l by (simp_all add: literalNumber_def literalString_def)
  show "member v ''aid'' = Some (JString aid)" "isUuid pf aid"
    "member v ''oid'' = Some (JString oid)" "isUuid pf oid"
    using u by (auto simp: uuidField_def split: if_splits option.splits jvalue.splits)
  obtain r where r: "member v ''exp'' = Some (JNumber (Fin r))" "of_int \<lfloor>r\<rfloor> = r" "0 < r"
    "r \<le> of_int MAX_SAFE_INTEGER" "ex = \<lfloor>r\<rfloor>"
    using e by (auto simp: instantField_def split: option.splits jvalue.splits jsnum.splits if_splits)
  have x: "r = of_int ex" unfolding r(5) by (rule r(2) [symmetric])
  show "member v ''exp'' = Some (JNumber (js_int ex))" using r(1) x by (simp add: js_int_def)
  show "0 < ex" "ex \<le> MAX_SAFE_INTEGER" using r(3,4) unfolding x by simp_all
qed

text \<open>C31: an attempt token is accepted only as the exact text its issuer signed, and for what it
  says. If verification succeeds, the token is the attempt prefix, one payload and the keyed digest
  of the domain, the prefix and that payload. The payload decodes to an object of version one and
  purpose attempt, whose members \<open>aid\<close>, \<open>oid\<close> and \<open>exp\<close> are the attempt, the organisation and the
  expiry of the claims returned. The clock has not reached that expiry, and the attempt is the
  expected one when the caller named one. The expiry is the signed instant wherever a \<open>Date\<close> can
  hold it; the schema also admits the instants between \<open>8.64e15\<close> and \<open>2^53 - 1\<close>, for which the
  expiry returned is an invalid date (see the never-expiring token below).\<close>

theorem verifyAttemptToken_sound:
  assumes "verifyAttemptToken pf token secret now expected = Inr claims"
  shows "\<exists>payload v ex. token = ATTEMPT_TOKEN_PREFIX @ ''.'' @ payload @ ''.''
            @ hmacHex pf secret (signedMessage ATTEMPT_TOKEN_PREFIX payload)
     \<and> jsonParse pf (decodeBase64Url pf payload) = Some v
     \<and> member v ''v'' = Some (JNumber (js_int 1)) \<and> member v ''p'' = Some (JString ''attempt'')
     \<and> member v ''aid'' = Some (JString (attemptId claims)) \<and> isUuid pf (attemptId claims)
     \<and> member v ''oid'' = Some (JString (token_orgId claims)) \<and> isUuid pf (token_orgId claims)
     \<and> member v ''exp'' = Some (JNumber (js_int ex)) \<and> 0 < ex \<and> ex \<le> MAX_SAFE_INTEGER
     \<and> expiresAt claims = (if ex \<le> MAX_TIME then Some ex else None)
     \<and> \<not> date_ge now (expiresAt claims)
     \<and> (\<forall>n. now = Some n \<and> ex \<le> MAX_TIME \<longrightarrow> n < ex)
     \<and> (expected = None \<or> expected = Some (attemptId claims))"
proof -
  obtain v where v: "openEnvelope pf token ATTEMPT_TOKEN_PREFIX secret = Inr v"
    using assms by (auto simp: verifyAttemptToken_def split: sum.splits)
  then obtain aid oid ex where c: "parseAttemptClaims pf v = Some (aid, oid, ex)"
    "claims = \<lparr> attemptId = aid, token_orgId = oid, expiresAt = newDate (js_int ex) \<rparr>"
    "\<not> date_ge now (newDate (js_int ex))" "expected = None \<or> expected = Some aid"
    using assms by (auto simp: verifyAttemptToken_def Let_def split: option.splits if_splits)
  note reads = parseAttemptClaims_reads [OF c(1)]
  have d: "newDate (js_int ex) = (if ex \<le> MAX_TIME then Some ex else None)"
    using reads(8) by (simp add: newDate_js_int)
  have "\<forall>n. now = Some n \<and> ex \<le> MAX_TIME \<longrightarrow> n < ex"
    using c(3) unfolding d by (auto simp: date_ge_def)
  moreover obtain payload where "token = ATTEMPT_TOKEN_PREFIX @ ''.'' @ payload @ ''.''
      @ hmacHex pf secret (signedMessage ATTEMPT_TOKEN_PREFIX payload)"
    "jsonParse pf (decodeBase64Url pf payload) = Some v"
    using openEnvelope_sound [OF v] by metis
  ultimately show ?thesis
    using reads c(2-4) d by (intro exI [of _ payload] exI [of _ v] exI [of _ ex]) simp
qed

text \<open>A credential serves one purpose. A token accepted as an attempt token is refused as a
  WebSocket ticket for its wrong purpose, and a ticket as an attempt token, under any keys and at
  any time, even when both surfaces share a key.\<close>

theorem credentials_single_purpose:
  "((\<exists>claims. verifyAttemptToken pf text secret now expected = Inr claims)
      \<longrightarrow> verifyWsTicket pf text secret' now' = Inl Wrong_purpose)
   \<and> ((\<exists>ticket. verifyWsTicket pf text secret now = Inr ticket)
      \<longrightarrow> verifyAttemptToken pf text secret' now' expected' = Inl Wrong_purpose)"
proof (intro conjI impI)
  assume "\<exists>claims. verifyAttemptToken pf text secret now expected = Inr claims"
  then obtain v where "openEnvelope pf text ATTEMPT_TOKEN_PREFIX secret = Inr v"
    by (auto simp: verifyAttemptToken_def split: sum.splits)
  then have "openEnvelope pf text WS_TICKET_PREFIX secret' = Inl Wrong_purpose"
    by (rule openEnvelope_other_prefix) simp
  then show "verifyWsTicket pf text secret' now' = Inl Wrong_purpose" by (simp add: verifyWsTicket_def)
next
  assume "\<exists>ticket. verifyWsTicket pf text secret now = Inr ticket"
  then obtain v where "openEnvelope pf text WS_TICKET_PREFIX secret = Inr v"
    by (auto simp: verifyWsTicket_def split: sum.splits)
  then have "openEnvelope pf text ATTEMPT_TOKEN_PREFIX secret' = Inl Wrong_purpose"
    by (rule openEnvelope_other_prefix) simp
  then show "verifyAttemptToken pf text secret' now' expected' = Inl Wrong_purpose"
    by (simp add: verifyAttemptToken_def)
qed

lemma newDate_small: "\<bar>t\<bar> \<le> MAX_TIME \<Longrightarrow> newDate (js_int t) = Some t"
  by (simp add: newDate_js_int)

lemma attempt_token_verifies:
  assumes "codec_ok pf ATTEMPT_TOKEN_PREFIX
      (attemptClaimsValue \<lparr> attemptId = aid, token_orgId = oid, expiresAt = Some t \<rparr>) secret"
    "isUuid pf aid" "isUuid pf oid" "0 < t" "t \<le> MAX_TIME" "expected = None \<or> expected = Some aid"
  shows "verifyAttemptToken pf
       (issueAttemptToken pf \<lparr> attemptId = aid, token_orgId = oid, expiresAt = Some t \<rparr> secret)
       secret (Some now) expected
     = (if now < t then Inr \<lparr> attemptId = aid, token_orgId = oid, expiresAt = Some t \<rparr> else Inl Expired)"
proof -
  let ?c = "\<lparr> attemptId = aid, token_orgId = oid, expiresAt = Some t \<rparr>"
  have op: "openEnvelope pf (issueAttemptToken pf ?c secret) ATTEMPT_TOKEN_PREFIX secret
      = Inr (attemptClaimsValue ?c)"
    using open_seal [OF assms(1)] by (simp add: issueAttemptToken_def)
  have t: "newDate (js_int t) = Some t" using assms(4,5) by (intro newDate_small) simp
  have "instantField (Some (JNumber (js_int t))) = Some t"
    using assms(4,5) by (simp add: instantField_def js_int_def MAX_SAFE_INTEGER_def MAX_TIME_def)
  then have "parseAttemptClaims pf (attemptClaimsValue ?c) = Some (aid, oid, t)"
    using assms(2,3)
    by (simp add: parseAttemptClaims_def attemptClaimsValue_def literalNumber_def literalString_def
        uuidField_def timeValue_def)
  then show ?thesis using assms(6) by (auto simp: verifyAttemptToken_def op t date_ge_def)
qed

text \<open>Issuing and verifying are inverse. A token issued for a UUID-named attempt and organisation
  with an expiry the calendar can hold verifies to exactly those claims at any instant before the
  expiry, and is refused as expired from the expiry on.\<close>

theorem attempt_token_round_trip:
  assumes "codec_ok pf ATTEMPT_TOKEN_PREFIX
      (attemptClaimsValue \<lparr> attemptId = aid, token_orgId = oid, expiresAt = Some t \<rparr>) secret"
    "isUuid pf aid" "isUuid pf oid" "0 < t" "t \<le> MAX_TIME"
  shows "verifyAttemptToken pf
       (issueAttemptToken pf \<lparr> attemptId = aid, token_orgId = oid, expiresAt = Some t \<rparr> secret)
       secret (Some now) (Some aid)
     = (if now < t then Inr \<lparr> attemptId = aid, token_orgId = oid, expiresAt = Some t \<rparr> else Inl Expired)"
  by (rule attempt_token_verifies [OF assms]) simp

definition sample_claims :: attemptTokenClaims where
  "sample_claims = \<lparr> attemptId = ''a1'', token_orgId = ''o1'', expiresAt = Some 5000 \<rparr>"

definition sample_platform :: platform where
  "sample_platform =
     \<lparr> hmacHex = (\<lambda>key msg. ''5e''), encodeBase64Url = (\<lambda>s. ''eA''), decodeBase64Url = (\<lambda>s. ''x''),
       stringify = (\<lambda>v. ''x''), jsonParse = (\<lambda>s. Some (attemptClaimsValue sample_claims)),
       isUuid = (\<lambda>s. length s = 2) \<rparr>"

lemmas credential_samples = sample_claims_def sample_platform_def

lemma sample_codec: "codec_ok sample_platform ATTEMPT_TOKEN_PREFIX (attemptClaimsValue sample_claims) key"
  by (simp add: codec_ok_def sealEnvelope_def sample_platform_def MAX_CREDENTIAL_LENGTH_def ATTEMPT_TOKEN_PREFIX_def)

theorem attempt_token_round_trip_witness:
  "verifyAttemptToken sample_platform (issueAttemptToken sample_platform sample_claims ''k'') ''k'' (Some 4999) (Some ''a1'')
     = Inr sample_claims
   \<and> verifyAttemptToken sample_platform (issueAttemptToken sample_platform sample_claims ''k'') ''k'' (Some 5000) (Some ''a1'')
     = Inl Expired"
  using attempt_token_round_trip [of sample_platform "''a1''" "''o1''" 5000 "''k''" 4999]
    attempt_token_round_trip [of sample_platform "''a1''" "''o1''" 5000 "''k''" 5000]
    sample_codec [of "''k''", unfolded sample_claims_def]
  by (simp add: sample_claims_def) (simp add: sample_platform_def MAX_TIME_def)

lemma sample_token_accepted:
  "verifyAttemptToken sample_platform ''abat1.eA.5e'' ''k'' (Some 4999) None = Inr sample_claims"
  by (simp add: verifyAttemptToken_def openEnvelope_def MAX_CREDENTIAL_LENGTH_def ATTEMPT_TOKEN_PREFIX_def
      sample_platform_def parseAttemptClaims_def attemptClaimsValue_def sample_claims_def literalNumber_def
      literalString_def uuidField_def instantField_def timeValue_def js_int_def MAX_SAFE_INTEGER_def
      MAX_TIME_def date_ge_def Let_def)

theorem verifyAttemptToken_sound_witness:
  "\<exists>payload. ''abat1.eA.5e'' = ATTEMPT_TOKEN_PREFIX @ ''.'' @ payload @ ''.''
            @ hmacHex sample_platform ''k'' (signedMessage ATTEMPT_TOKEN_PREFIX payload)
     \<and> isUuid sample_platform (attemptId sample_claims)
     \<and> \<not> date_ge (Some 4999) (expiresAt sample_claims)"
  using verifyAttemptToken_sound [OF sample_token_accepted] by blast

theorem credentials_single_purpose_witness:
  "verifyWsTicket sample_platform ''abat1.eA.5e'' ''k2'' (Some 7) = Inl Wrong_purpose"
  using credentials_single_purpose [of sample_platform "''abat1.eA.5e''" "''k''" "Some 4999" None "''k2''" "Some 7" None]
    sample_token_accepted by blast

text \<open>
  The claims schema admits instants up to \<open>2^53 - 1\<close>, but a \<open>Date\<close> holds only \<open>\<bar>t\<bar> \<le> 8.64e15\<close>:
  a signed expiry between the two gives an invalid date, the comparison with it is false, and the
  token never expires.
\<close>

theorem unrepresentable_expiry_never_expires:
  assumes "openEnvelope pf token ATTEMPT_TOKEN_PREFIX secret = Inr v"
    "parseAttemptClaims pf v = Some (aid, oid, ex)" "MAX_TIME < ex"
  shows "verifyAttemptToken pf token secret now None
     = Inr \<lparr> attemptId = aid, token_orgId = oid, expiresAt = None \<rparr>"
proof -
  have "newDate (js_int ex) = None" using assms(3) by (simp add: newDate_js_int MAX_TIME_def)
  then show ?thesis using assms by (simp add: verifyAttemptToken_def date_ge_def Let_def split: option.splits)
qed

subsection \<open>Properties of the WebSocket ticket\<close>

text \<open>What an accepted ticket is: a signed text whose instant of issue puts the clock in its window.\<close>

lemma verifyWsTicket_accepted:
  assumes "verifyWsTicket pf ticket secret (Some now) = Inr t"
  obtains v sid iat where "openEnvelope pf ticket WS_TICKET_PREFIX secret = Inr v"
    "parseWsTicketClaims pf v = Some (sid, iat)" "t = \<lparr> sessionId = sid, issuedAt = newDate (js_int iat) \<rparr>"
    "\<bar>iat\<bar> \<le> MAX_TIME \<longrightarrow> iat - 5000 \<le> now \<and> now < iat + 60000"
proof -
  obtain v where v: "openEnvelope pf ticket WS_TICKET_PREFIX secret = Inr v"
    using assms by (auto simp: verifyWsTicket_def split: sum.splits)
  moreover obtain sid iat where c: "parseWsTicketClaims pf v = Some (sid, iat)"
    "t = \<lparr> sessionId = sid, issuedAt = newDate (js_int iat) \<rparr>"
    using assms v by (auto simp: verifyWsTicket_def Let_def split: option.splits if_splits)
  moreover have "\<bar>iat\<bar> \<le> MAX_TIME \<longrightarrow> iat - 5000 \<le> now \<and> now < iat + 60000"
    using assms v c(1)
    by (auto simp: verifyWsTicket_def Let_def ageMs_def newDate_js_int WS_TICKET_CLOCK_SKEW_SECONDS_def
        WS_TICKET_TTL_SECONDS_def split: if_splits)
  ultimately show ?thesis using that by blast
qed

lemma ws_ticket_window:
  assumes "verifyWsTicket pf ticket secret (Some now) = Inr t" "issuedAt t = Some i"
  shows "i - 5000 \<le> now \<and> now < i + 60000"
proof -
  obtain v sid iat where c: "openEnvelope pf ticket WS_TICKET_PREFIX secret = Inr v"
    "parseWsTicketClaims pf v = Some (sid, iat)" "t = \<lparr> sessionId = sid, issuedAt = newDate (js_int iat) \<rparr>"
    "\<bar>iat\<bar> \<le> MAX_TIME \<longrightarrow> iat - 5000 \<le> now \<and> now < iat + 60000"
    by (rule verifyWsTicket_accepted [OF assms(1)])
  then show ?thesis using assms(2) by (auto simp: newDate_js_int split: if_splits)
qed

text \<open>A WebSocket ticket lives one minute. A ticket that verifies, and whose instant of issue the
  calendar can hold, was issued at most five seconds ahead of the verifier's clock and less than
  sixty seconds behind it.\<close>

theorem verifyWsTicket_window:
  assumes "verifyWsTicket pf ticket secret (Some now) = Inr t" "issuedAt t = Some i"
  shows "i - 5000 \<le> now \<and> now < i + 60000"
  using ws_ticket_window [OF assms] .

definition sample_ws_platform :: platform where
  "sample_ws_platform = sample_platform \<lparr> jsonParse := (\<lambda>s. Some (JObject
     [(''v'', JNumber (js_int 1)), (''p'', JString ''ws''), (''sid'', JString ''s1''),
      (''iat'', JNumber (js_int 9000)), (''n'', JString ''n'')])) \<rparr>"

lemma sample_ticket_accepted:
  "verifyWsTicket sample_ws_platform ''abwt1.eA.5e'' ''k'' (Some 8000) = Inr \<lparr> sessionId = ''s1'', issuedAt = Some 9000 \<rparr>"
  by (simp add: verifyWsTicket_def openEnvelope_def MAX_CREDENTIAL_LENGTH_def WS_TICKET_PREFIX_def
      sample_ws_platform_def sample_platform_def parseWsTicketClaims_def literalNumber_def literalString_def
      uuidField_def instantField_def nonceField_def js_int_def MAX_SAFE_INTEGER_def MAX_TIME_def ageMs_def
      WS_TICKET_CLOCK_SKEW_SECONDS_def WS_TICKET_TTL_SECONDS_def)

theorem verifyWsTicket_window_witness:
  "issuedAt \<lparr> sessionId = ''s1'', issuedAt = Some 9000 \<rparr> = Some 9000 \<and> 9000 - 5000 \<le> (8000 :: int) \<and> 8000 < 9000 + (60000 :: int)"
  using verifyWsTicket_window [OF sample_ticket_accepted] by simp

subsection \<open>Permissions\<close>

text \<open>A candidate holds no permission, and a staff member only known ones: the check grants a
  permission exactly when it is one of the declared eleven and the principal is a staff member
  holding it.\<close>

theorem can_iff:
  "can p permission \<longleftrightarrow> isPermission permission
     \<and> (\<exists>user org held. p = StaffPrincipal user org held \<and> permission \<in> set held)"
  by (cases p) auto

end
