(* ===== verification/Single_Use.thy ===== *)
theory Single_Use
  imports Credentials
begin

text \<open>
  Single-use claims. The contract \<open>single_use\<close> says what a store that remembers claims promises;
  it is interpreted on both stores of the program, \<open>memorySingleUseStore\<close> of
  \<open>apps/api/src/credentials/single-use.ts\<close> and \<open>TicketStore\<close> of
  \<open>apps/collab/src/ticket-store.ts\<close>. On top of them: the refusals of
  \<open>apps/api/src/credentials/refusal.ts\<close> and the ticket service of
  \<open>apps/api/src/credentials/ws-ticket.ts\<close>.

  A store reads its clock once per claim; the reading is an argument of the model, in
  milliseconds.
\<close>

datatype claimOutcome = Claimed | Replayed

subsection \<open>The contract\<close>

locale single_use =
  fixes claim :: "'s \<Rightarrow> int \<Rightarrow> 'k \<Rightarrow> claimOutcome \<times> 's"
    and live :: "'s \<Rightarrow> int \<Rightarrow> 'k \<Rightarrow> bool"
    and wf :: "'s \<Rightarrow> bool"
    and retention :: int
  assumes claim_iff: "wf s \<Longrightarrow> fst (claim s now k) = Claimed \<longleftrightarrow> \<not> live s now k"
    and claim_wf: "wf s \<Longrightarrow> wf (snd (claim s now k))"
    and claim_live: "wf s \<Longrightarrow> fst (claim s now k) = Claimed \<Longrightarrow> now \<le> t \<Longrightarrow> t < now + retention
          \<Longrightarrow> live (snd (claim s now k)) t k"
    and claim_keeps: "wf s \<Longrightarrow> live s t j \<Longrightarrow> now \<le> t \<Longrightarrow> live (snd (claim s now k)) t j"
begin

fun run :: "'s \<Rightarrow> (int \<times> 'k) list \<Rightarrow> 's" where
  "run s [] = s"
| "run s ((now, k) # cs) = run (snd (claim s now k)) cs"

lemma run_wf: "wf s \<Longrightarrow> wf (run s cs)"
  by (induction s cs rule: run.induct) (auto intro: claim_wf)

lemma run_keeps: "wf s \<Longrightarrow> live s t j \<Longrightarrow> \<forall>(now, k)\<in>set cs. now \<le> t \<Longrightarrow> live (run s cs) t j"
  by (induction s cs rule: run.induct) (auto intro: claim_wf claim_keeps)

text \<open>Within the retention a key is claimed once, whatever else is claimed in between.\<close>

lemma second_claim_replayed:
  assumes "wf s" "fst (claim s t1 k) = Claimed" "\<forall>(now, j)\<in>set cs. now \<le> t2" "t1 \<le> t2" "t2 < t1 + retention"
  shows "fst (claim (run (snd (claim s t1 k)) cs) t2 k) = Replayed"
proof -
  have "live (snd (claim s t1 k)) t2 k" using claim_live assms by blast
  then have "live (run (snd (claim s t1 k)) cs) t2 k" using run_keeps claim_wf assms by blast
  then have "fst (claim (run (snd (claim s t1 k)) cs) t2 k) \<noteq> Claimed"
    using claim_iff run_wf claim_wf assms(1) by blast
  then show ?thesis by (cases "fst (claim (run (snd (claim s t1 k)) cs) t2 k)") auto
qed

end

subsection \<open>The store of the API\<close>

definition SWEEP_INTERVAL_MS :: int where
  "SWEEP_INTERVAL_MS = 10000"

record single_use_store =
  claimed :: "(string, int) jsmap"
  lastSweep :: int

definition emptyStore :: single_use_store where
  "emptyStore = \<lparr> claimed = [], lastSweep = 0 \<rparr>"

definition sweep :: "single_use_store \<Rightarrow> int \<Rightarrow> single_use_store" where
  "sweep s now =
     (if now - lastSweep s < SWEEP_INTERVAL_MS then s
      else \<lparr> claimed = filter (\<lambda>(key, expiry). \<not> expiry \<le> now) (claimed s), lastSweep = now \<rparr>)"

definition ttl_ms :: "rat \<Rightarrow> int" where
  "ttl_ms ttlMs = max 1 \<lceil>ttlMs\<rceil>"

definition memoryClaim ::
  "rat \<Rightarrow> single_use_store \<Rightarrow> int \<Rightarrow> string \<Rightarrow> claimOutcome \<times> single_use_store"
where
  "memoryClaim ttlMs store now key =
     (let s = sweep store now
      in case map_get (claimed s) key of
           Some expiry \<Rightarrow> if expiry > now then (Replayed, s)
             else (Claimed, s\<lparr> claimed := map_set (claimed s) key (now + ttl_ms ttlMs) \<rparr>)
         | None \<Rightarrow> (Claimed, s\<lparr> claimed := map_set (claimed s) key (now + ttl_ms ttlMs) \<rparr>))"

text \<open>The reading of a store: until when a key is remembered.\<close>

definition store_live :: "single_use_store \<Rightarrow> int \<Rightarrow> string \<Rightarrow> bool" where
  "store_live s t key \<longleftrightarrow> (case map_get (claimed s) key of Some expiry \<Rightarrow> t < expiry | None \<Rightarrow> False)"

definition store_wf :: "single_use_store \<Rightarrow> bool" where
  "store_wf s \<longleftrightarrow> map_wf (claimed s)"

lemma sweep_wf: "store_wf s \<Longrightarrow> store_wf (sweep s now)"
  by (simp add: store_wf_def sweep_def)

lemma sweep_live: "store_wf s \<Longrightarrow> now \<le> t \<Longrightarrow> store_live (sweep s now) t k \<longleftrightarrow> store_live s t k"
  by (auto simp: store_wf_def sweep_def store_live_def map_get_filter split: option.splits)

lemma memoryClaim_outcome:
  "store_wf s \<Longrightarrow> fst (memoryClaim ttl s now k) = Claimed \<longleftrightarrow> \<not> store_live s now k"
  using sweep_live [of s now now k]
  by (auto simp: memoryClaim_def Let_def store_live_def split: option.splits)

lemma memoryClaim_wf: "store_wf s \<Longrightarrow> store_wf (snd (memoryClaim ttl s now k))"
  using sweep_wf [of s now] by (auto simp: memoryClaim_def Let_def store_wf_def split: option.splits)

lemma memoryClaim_live:
  "fst (memoryClaim ttl s now k) = Claimed \<Longrightarrow> t < now + ttl_ms ttl \<Longrightarrow> store_live (snd (memoryClaim ttl s now k)) t k"
  by (auto simp: memoryClaim_def Let_def store_live_def split: option.splits if_splits)

lemma memoryClaim_keeps:
  assumes "store_wf s" "store_live s t j" "now \<le> t"
  shows "store_live (snd (memoryClaim ttl s now k)) t j"
proof -
  have "store_live (sweep s now) t j" using sweep_live assms by blast
  then show ?thesis using assms(3)
    by (auto simp: memoryClaim_def Let_def store_live_def split: option.splits if_splits)
qed

text \<open>The retention a ticket is claimed with: its life and the clock skew it is forgiven.\<close>

definition TICKET_REPLAY_RETENTION_MS :: int where
  "TICKET_REPLAY_RETENTION_MS = (WS_TICKET_TTL_SECONDS + WS_TICKET_CLOCK_SKEW_SECONDS) * 1000"

lemma retention_value: "TICKET_REPLAY_RETENTION_MS = 65000"
  by (simp add: TICKET_REPLAY_RETENTION_MS_def WS_TICKET_TTL_SECONDS_def WS_TICKET_CLOCK_SKEW_SECONDS_def)

lemma ttl_retention: "ttl_ms (of_int TICKET_REPLAY_RETENTION_MS) = TICKET_REPLAY_RETENTION_MS"
  by (simp add: ttl_ms_def retention_value)

interpretation memory_store: single_use "memoryClaim (of_int TICKET_REPLAY_RETENTION_MS)" store_live store_wf
    TICKET_REPLAY_RETENTION_MS
  by unfold_locales
     (auto simp: memoryClaim_outcome memoryClaim_wf memoryClaim_keeps ttl_retention intro: memoryClaim_live)

subsection \<open>The store of the collaboration server\<close>

definition REPLAY_RETENTION_MS :: int where
  "REPLAY_RETENTION_MS = (WS_TICKET_TTL_SECONDS + WS_TICKET_CLOCK_SKEW_SECONDS) * 1000"

definition ticketStoreClaim ::
  "platform \<Rightarrow> string \<Rightarrow> int \<Rightarrow> single_use_store \<Rightarrow> int \<Rightarrow> string \<Rightarrow> claimOutcome \<times> single_use_store"
where
  "ticketStoreClaim pf pepper retentionMs store now ticket =
     (let s = sweep store now; key = hashToken pf ticket pepper
      in case map_get (claimed s) key of
           Some expiry \<Rightarrow> if expiry > now then (Replayed, s)
             else (Claimed, s\<lparr> claimed := map_set (claimed s) key (now + retentionMs) \<rparr>)
         | None \<Rightarrow> (Claimed, s\<lparr> claimed := map_set (claimed s) key (now + retentionMs) \<rparr>))"

lemma ticketStoreClaim_memory:
  "1 \<le> retentionMs \<Longrightarrow> ticketStoreClaim pf pepper retentionMs store now ticket
     = memoryClaim (of_int retentionMs) store now (hashToken pf ticket pepper)"
  by (simp add: ticketStoreClaim_def memoryClaim_def ttl_ms_def Let_def split: option.splits)

interpretation collab_store: single_use "ticketStoreClaim pf pepper REPLAY_RETENTION_MS"
    "\<lambda>s t ticket. store_live s t (hashToken pf ticket pepper)" store_wf REPLAY_RETENTION_MS
  for pf pepper
proof -
  have r: "REPLAY_RETENTION_MS = TICKET_REPLAY_RETENTION_MS"
    by (simp add: REPLAY_RETENTION_MS_def TICKET_REPLAY_RETENTION_MS_def)
  have "1 \<le> TICKET_REPLAY_RETENTION_MS" by (simp add: retention_value)
  then have eq: "ticketStoreClaim pf pepper TICKET_REPLAY_RETENTION_MS s now ticket
      = memoryClaim (of_int TICKET_REPLAY_RETENTION_MS) s now (hashToken pf ticket pepper)" for s now ticket
    by (rule ticketStoreClaim_memory)
  show "single_use (ticketStoreClaim pf pepper REPLAY_RETENTION_MS)
      (\<lambda>s t ticket. store_live s t (hashToken pf ticket pepper)) store_wf REPLAY_RETENTION_MS"
    unfolding r
    by unfold_locales (simp_all only: eq memory_store.claim_iff memory_store.claim_wf memory_store.claim_keeps
        memory_store.claim_live [OF _ memory_store.claim_iff [THEN iffD2]] not_False_eq_True)
qed

subsection \<open>Refusals\<close>

datatype refusalSurface = Redeem | Attempt_token | Ws_ticket

datatype refusalReason =
    R_auth authErrorReason
  | R_absent | R_no_such_invitation | R_hash_mismatch | R_not_yet_open | R_already_redeemed
  | R_assessment_not_published | R_invitation_incomplete | R_replayed | R_wrong_principal
  | R_no_such_session | R_session_ended

record refusal =
  surface :: refusalSurface
  refusal_reason :: refusalReason
  refusal_fields :: "(string \<times> detail) list"

definition REASON_FROM_AUTH :: "authErrorReason \<Rightarrow> refusalReason" where
  "REASON_FROM_AUTH r = R_auth r"

definition refuse :: "refusalSurface \<Rightarrow> refusalReason \<Rightarrow> (string \<times> detail) list \<Rightarrow> refusal" where
  "refuse srf rsn fs = \<lparr> surface = srf, refusal_reason = rsn, refusal_fields = fs \<rparr>"

datatype refusalCode = Not_found | Unauthenticated

definition errorCodeFor :: "refusal \<Rightarrow> refusalCode" where
  "errorCodeFor r =
     (if surface r = Redeem then Not_found
      else if refusal_reason r = R_no_such_session \<or> refusal_reason r = R_session_ended then Not_found
      else Unauthenticated)"

subsection \<open>The ticket service\<close>

text \<open>
  \<open>claim\<close> of the service: the ticket is verified against the clock, then its hash is claimed. The
  two clock readings of one call are separate arguments.
\<close>

definition wsTicketIssue :: "platform \<Rightarrow> string \<Rightarrow> date \<Rightarrow> string \<Rightarrow> string \<Rightarrow> string \<times> int" where
  "wsTicketIssue pf signingKey now nonce session =
     (issueWsTicket pf \<lparr> sessionId = session, issuedAt = now \<rparr> nonce signingKey, WS_TICKET_TTL_SECONDS)"

definition wsTicketClaim ::
  "platform \<Rightarrow> string \<Rightarrow> string \<Rightarrow> single_use_store \<Rightarrow> int \<Rightarrow> int \<Rightarrow> string
     \<Rightarrow> (refusal, wsTicket) result \<times> single_use_store"
where
  "wsTicketClaim pf signingKey pepper store verifyNow claimNow ticket =
     (case verifyWsTicket pf ticket signingKey (Some verifyNow) of
        Inl reason \<Rightarrow> (Inl (refuse Ws_ticket (REASON_FROM_AUTH reason) []), store)
      | Inr verified \<Rightarrow>
        (case memoryClaim (of_int TICKET_REPLAY_RETENTION_MS) store claimNow (hashToken pf ticket pepper) of
           (Replayed, s) \<Rightarrow> (Inl (refuse Ws_ticket R_replayed [(''session_id'', D_string (sessionId verified))]), s)
         | (Claimed, s) \<Rightarrow> (Inr verified, s)))"

text \<open>A history of service calls, each at one instant.\<close>

fun serviceRun :: "platform \<Rightarrow> string \<Rightarrow> string \<Rightarrow> single_use_store \<Rightarrow> (int \<times> string) list \<Rightarrow> single_use_store" where
  "serviceRun pf signingKey pepper s [] = s"
| "serviceRun pf signingKey pepper s ((now, ticket) # calls) =
     serviceRun pf signingKey pepper (snd (wsTicketClaim pf signingKey pepper s now now ticket)) calls"

text \<open>The claims a history of calls makes on the store: those of the tickets that verify.\<close>

definition claims_of :: "platform \<Rightarrow> string \<Rightarrow> string \<Rightarrow> (int \<times> string) list \<Rightarrow> (int \<times> string) list" where
  "claims_of pf signingKey pepper calls =
     map (\<lambda>(now, ticket). (now, hashToken pf ticket pepper))
       (filter (\<lambda>(now, ticket). isOk (verifyWsTicket pf ticket signingKey (Some now))) calls)"

lemma serviceRun_store:
  "serviceRun pf signingKey pepper s calls = memory_store.run s (claims_of pf signingKey pepper calls)"
proof (induction calls arbitrary: s)
  case (Cons c calls)
  obtain now ticket where c: "c = (now, ticket)" by (cases c)
  show ?case
  proof (cases "verifyWsTicket pf ticket signingKey (Some now)")
    case (Inl r)
    then show ?thesis using Cons by (simp add: c wsTicketClaim_def claims_of_def)
  next
    case (Inr t)
    then have "snd (wsTicketClaim pf signingKey pepper s now now ticket)
        = snd (memoryClaim (of_int TICKET_REPLAY_RETENTION_MS) s now (hashToken pf ticket pepper))"
      by (auto simp: wsTicketClaim_def split: prod.splits claimOutcome.splits)
    then show ?thesis using Cons Inr by (simp add: c claims_of_def)
  qed
qed (simp add: claims_of_def)

text \<open>C2: a WebSocket ticket opens one session. Once the service has accepted a ticket, it refuses
  the same ticket at every later call, whatever other tickets were presented in between: while the
  ticket's window is open the store remembers it, and afterwards verification refuses it. Clock
  readings do not go back, and the two readings of one call agree.\<close>

theorem ticket_accepted_once:
  assumes "store_wf store"
    "wsTicketClaim pf signingKey pepper store t1 t1 ticket = (Inr verified, store')" "issuedAt verified = Some i"
    "\<forall>(now, other)\<in>set calls. now \<le> t2" "t1 \<le> t2"
  shows "isErr (fst (wsTicketClaim pf signingKey pepper (serviceRun pf signingKey pepper store' calls) t2 t2 ticket))"
proof (cases "verifyWsTicket pf ticket signingKey (Some t2)")
  case (Inl r)
  then show ?thesis by (simp add: wsTicketClaim_def isErr_def)
next
  case (Inr again)
  let ?key = "hashToken pf ticket pepper"
  let ?claim = "memoryClaim (of_int TICKET_REPLAY_RETENTION_MS)"
  have first: "verifyWsTicket pf ticket signingKey (Some t1) = Inr verified"
    "?claim store t1 ?key = (Claimed, store')"
    using assms(2) by (auto simp: wsTicketClaim_def split: sum.splits prod.splits claimOutcome.splits)
  have "issuedAt again = issuedAt verified"
    using first(1) Inr by (auto simp: verifyWsTicket_def Let_def split: sum.splits option.splits if_splits)
  then have "t2 < t1 + TICKET_REPLAY_RETENTION_MS"
    using ws_ticket_window [OF first(1) assms(3)] ws_ticket_window [OF Inr, of i] assms(3)
    by (simp add: retention_value)
  moreover have "\<forall>(now, j)\<in>set (claims_of pf signingKey pepper calls). now \<le> t2"
    using assms(4) by (auto simp: claims_of_def)
  ultimately have "fst (?claim (memory_store.run (snd (?claim store t1 ?key)) (claims_of pf signingKey pepper calls)) t2 ?key)
      = Replayed"
    using memory_store.second_claim_replayed [OF assms(1), of t1 ?key] assms(5) first(2) by (metis fst_conv)
  then show ?thesis
    using Inr by (auto simp: wsTicketClaim_def serviceRun_store first(2) isErr_def split: prod.splits)
qed

theorem ticket_accepted_once_witness:
  "isErr (fst (wsTicketClaim sample_ws_platform ''k'' ''p''
      (serviceRun sample_ws_platform ''k'' ''p''
        (snd (wsTicketClaim sample_ws_platform ''k'' ''p'' emptyStore 8000 8000 ''abwt1.eA.5e'')) [(8500, ''junk'')])
      8600 8600 ''abwt1.eA.5e''))"
proof -
  have "wsTicketClaim sample_ws_platform ''k'' ''p'' emptyStore 8000 8000 ''abwt1.eA.5e'' =
      (Inr \<lparr> sessionId = ''s1'', issuedAt = Some 9000 \<rparr>,
       snd (wsTicketClaim sample_ws_platform ''k'' ''p'' emptyStore 8000 8000 ''abwt1.eA.5e''))"
    by (simp add: wsTicketClaim_def sample_ticket_accepted memoryClaim_def emptyStore_def sweep_def SWEEP_INTERVAL_MS_def)
  moreover have "store_wf emptyStore" by (simp add: store_wf_def emptyStore_def)
  ultimately show ?thesis
    using ticket_accepted_once [of emptyStore sample_ws_platform "''k''" "''p''" 8000 "''abwt1.eA.5e''" _ _ 9000
        "[(8500, ''junk'')]" 8600] by fastforce
qed

end
