(* ===== verification/Redemption.thy ===== *)
theory Redemption
  imports Single_Use
begin

text \<open>
  The candidate credential flow of the API (\<open>apps/api/src/credentials\<close>): key derivation
  (\<open>keys.ts\<close>), attempt tokens (\<open>attempt-token.ts\<close>), redemption of an invitation
  (\<open>redemption.ts\<close>), the database side of it (\<open>redemption-postgres.ts\<close>, \<open>driver-values.ts\<close>), the
  response bodies (\<open>responses.ts\<close>) and the two route handlers (\<open>routes.ts\<close>).

  The handler that runs inside the transaction is a pure function of the locked row, the clock and
  the identifier the insert returns, giving the outcome and the writes it made. The database is
  three tables. Redemptions run concurrently: each is a process whose steps interleave with the
  others' at every statement, under the rule the row lock enforces.
\<close>

subsection \<open>Keys\<close>

definition DERIVATION_DOMAIN :: string where
  "DERIVATION_DOMAIN = ''assaybank.api.credential-key.v1''"

datatype credentialPurpose = Attempt_token_key | Ws_ticket_key

fun purposeName :: "credentialPurpose \<Rightarrow> string" where
  "purposeName Attempt_token_key = ''attempt-token''"
| "purposeName Ws_ticket_key = ''ws-ticket''"

record credentialKeys =
  attemptToken :: string
  wsTicketKey :: string
  pepper :: string

definition deriveCredentialKey :: "platform \<Rightarrow> string \<Rightarrow> credentialPurpose \<Rightarrow> string" where
  "deriveCredentialKey pf rootSecret purpose = hmacHex pf rootSecret (DERIVATION_DOMAIN @ ''.'' @ purposeName purpose)"

definition deriveCredentialKeys :: "platform \<Rightarrow> string \<Rightarrow> string \<Rightarrow> credentialKeys" where
  "deriveCredentialKeys pf sessionSecret tokenPepper =
     \<lparr> attemptToken = deriveCredentialKey pf sessionSecret Attempt_token_key,
       wsTicketKey = deriveCredentialKey pf sessionSecret Ws_ticket_key, pepper = tokenPepper \<rparr>"

subsection \<open>Attempt tokens\<close>

definition BEARER_SCHEME :: string where
  "BEARER_SCHEME = ''Bearer''"

definition ATTEMPT_TOKEN_START_WINDOW_SECONDS :: int where
  "ATTEMPT_TOKEN_START_WINDOW_SECONDS = 30 * 60"

definition ATTEMPT_TOKEN_TAIL_SECONDS :: int where
  "ATTEMPT_TOKEN_TAIL_SECONDS = 15 * 60"

definition MAX_ATTEMPT_TOKEN_LIFE_SECONDS :: int where
  "MAX_ATTEMPT_TOKEN_LIFE_SECONDS = 12 * 60 * 60"

definition attemptTokenLifeSeconds :: "jsnum \<Rightarrow> jsnum" where
  "attemptTokenLifeSeconds durationSeconds =
     (let bounded = (if isFinite durationSeconds \<and> js_lt (Fin 0) durationSeconds then durationSeconds else Fin 0)
      in js_min
           (js_add (js_add (js_int ATTEMPT_TOKEN_START_WINDOW_SECONDS) bounded) (js_int ATTEMPT_TOKEN_TAIL_SECONDS))
           (js_int MAX_ATTEMPT_TOKEN_LIFE_SECONDS))"

definition mintAttemptToken ::
  "platform \<Rightarrow> string \<Rightarrow> string \<Rightarrow> jsnum \<Rightarrow> string \<Rightarrow> int \<Rightarrow> string \<times> date"
where
  "mintAttemptToken pf attempt org durationSeconds signingKey now =
     (let expires = newDate (js_add (js_int now) (js_mul (attemptTokenLifeSeconds durationSeconds) (Fin 1000)))
      in (issueAttemptToken pf \<lparr> attemptId = attempt, token_orgId = org, expiresAt = expires \<rparr> signingKey, expires))"

datatype headerValue = H_absent | H_one string | H_many "string list"

fun bearerCredential :: "headerValue \<Rightarrow> string option" where
  "bearerCredential (H_one header) =
     (if CHR '' '' \<notin> set header then None
      else let scheme = takeWhile (\<lambda>c. c \<noteq> CHR '' '') header;
               rest = tl (dropWhile (\<lambda>c. c \<noteq> CHR '' '') header)
           in if toLowerCase scheme \<noteq> toLowerCase BEARER_SCHEME then None
              else let credential = trim rest in if length credential = 0 then None else Some credential)"
| "bearerCredential _ = None"

definition authenticateAttempt ::
  "platform \<Rightarrow> headerValue \<Rightarrow> string \<Rightarrow> int \<Rightarrow> string option \<Rightarrow> refusalSurface option \<Rightarrow> (refusal, principal) result"
where
  "authenticateAttempt pf header signingKey now expectedAttemptId srf =
     (let sfc = (case srf of Some x \<Rightarrow> x | None \<Rightarrow> Attempt_token)
      in case bearerCredential header of
           None \<Rightarrow> Inl (refuse sfc R_absent [])
         | Some credential \<Rightarrow>
           (case verifyAttemptToken pf credential signingKey (Some now) expectedAttemptId of
              Inl reason \<Rightarrow> Inl (refuse sfc (REASON_FROM_AUTH reason) [])
            | Inr claims \<Rightarrow> Inr (CandidatePrincipal (attemptId claims) (token_orgId claims))))"

subsection \<open>Redemption\<close>

datatype invitationChannel = Email | Link

record assessmentFacts =
  assessment_id :: string
  assessment_name :: string
  durationSeconds :: nat
  assessment_status :: string
  versionNo :: nat
  allowBackNav :: bool
  sectionCount :: nat

record lockedInvitation =
  invitationId :: string
  inv_orgId :: string
  tokenHash :: string
  candidateId :: "string option"
  opensAt :: "int option"
  inv_expiresAt :: int
  maxAttempts :: nat
  sittingsTaken :: nat
  sentAt :: "int option"
  assessment :: assessmentFacts

record redemption =
  red_attemptId :: string
  red_orgId :: string
  red_attemptToken :: string
  red_expiresAt :: date
  sitting :: nat
  red_assessment :: assessmentFacts

datatype dbWrite =
    Create_attempt (w_invitation: string) (w_candidate: string) (w_assessment: string) (w_version: nat) (w_at: int)
  | is_Record_redemption: Record_redemption (a_attempt: string) (a_invitation: string) (a_sitting: nat) (a_max: nat)
      (a_ip: "string option") (a_at: int)

definition MAX_INVITATION_TOKEN_LENGTH :: nat where
  "MAX_INVITATION_TOKEN_LENGTH = 512"

definition channelOf :: "lockedInvitation \<Rightarrow> invitationChannel" where
  "channelOf invitation = (if sentAt invitation = None then Link else Email)"

text \<open>The callback run under the lock; \<open>mintNow\<close> is the second reading of the clock.\<close>

definition redeemLocked ::
  "platform \<Rightarrow> credentialKeys \<Rightarrow> string \<Rightarrow> string option \<Rightarrow> int \<Rightarrow> int \<Rightarrow> string \<Rightarrow> lockedInvitation
     \<Rightarrow> (refusal, redemption) result \<times> dbWrite list"
where
  "redeemLocked pf keys presented ip now mintNow freshId invitation =
     (if \<not> verifyToken pf presented (tokenHash invitation) (pepper keys) then (Inl (refuse Redeem R_hash_mismatch []), [])
      else if (case opensAt invitation of Some t \<Rightarrow> now < t | None \<Rightarrow> False) then (Inl (refuse Redeem R_not_yet_open []), [])
      else if now \<ge> inv_expiresAt invitation then (Inl (refuse Redeem (R_auth Expired) []), [])
      else if assessment_status (assessment invitation) \<noteq> ''published''
      then (Inl (refuse Redeem R_assessment_not_published []), [])
      else case candidateId invitation of
        None \<Rightarrow> (Inl (refuse Redeem R_invitation_incomplete []), [])
      | Some candidate \<Rightarrow>
        if sittingsTaken invitation \<ge> maxAttempts invitation
        then (Inl (refuse Redeem R_already_redeemed
               [(''sittings_taken'', D_number (js_int (int (sittingsTaken invitation)))),
                (''max_attempts'', D_number (js_int (int (maxAttempts invitation))))]), [])
        else
          let nth = sittingsTaken invitation + 1;
              (token, expires) = mintAttemptToken pf freshId (inv_orgId invitation)
                (js_int (int (durationSeconds (assessment invitation)))) (attemptToken keys) mintNow
          in (Inr \<lparr> red_attemptId = freshId, red_orgId = inv_orgId invitation, red_attemptToken = token,
                    red_expiresAt = expires, sitting = nth, red_assessment = assessment invitation \<rparr>,
              [Create_attempt (invitationId invitation) candidate (assessment_id (assessment invitation))
                 (versionNo (assessment invitation)) now,
               Record_redemption freshId (invitationId invitation) nth (maxAttempts invitation) ip now]))"

subsection \<open>The database side\<close>

text \<open>A value the driver returns for a column, and its reading. \<open>dateParse\<close> is \<open>new Date\<close> on a string.\<close>

datatype dbValue = V_null | V_date date | V_string string | V_number jsnum | V_other

datatype dbError = Bad_column string | Bad_id | No_row

definition requireDate :: "(string \<Rightarrow> date) \<Rightarrow> dbValue \<Rightarrow> string \<Rightarrow> (dbError, int) result" where
  "requireDate dateParse v column =
     (case v of
        V_date (Some t) \<Rightarrow> Inr t
      | V_string s \<Rightarrow> (case dateParse s of Some t \<Rightarrow> Inr t | None \<Rightarrow> Inl (Bad_column column))
      | _ \<Rightarrow> Inl (Bad_column column))"

definition optionalDate :: "(string \<Rightarrow> date) \<Rightarrow> dbValue \<Rightarrow> string \<Rightarrow> (dbError, int option) result" where
  "optionalDate dateParse v column =
     (if v = V_null then Inr None else map_sum id Some (requireDate dateParse v column))"

text \<open>\<open>Number.parseInt(s, 10)\<close>.\<close>

definition parseInt10 :: "string \<Rightarrow> jsnum" where
  "parseInt10 s =
     (let t = trimStart s;
          neg = (t \<noteq> [] \<and> hd t = CHR ''-'');
          digits = takeWhile is_digit (if t \<noteq> [] \<and> (hd t = CHR ''-'' \<or> hd t = CHR ''+'') then tl t else t);
          val = foldl (\<lambda>n c. 10 * n + (of_char c - 48)) 0 digits
      in if digits = [] then NaN else dbl (of_int (if neg then - val else val)))"

definition requireCount :: "dbValue \<Rightarrow> string \<Rightarrow> (dbError, nat) result" where
  "requireCount v column =
     (case (case v of V_string s \<Rightarrow> V_number (parseInt10 s) | _ \<Rightarrow> v) of
        V_number (Fin r) \<Rightarrow> if isInteger (Fin r) \<and> \<not> r < 0 then Inr (nat \<lfloor>r\<rfloor>) else Inl (Bad_column column)
      | _ \<Rightarrow> Inl (Bad_column column))"

definition requireId :: "platform \<Rightarrow> string \<Rightarrow> (dbError, string) result" where
  "requireId pf s = (if isUuid pf s then Inr s else Inl Bad_id)"

record invitationRow =
  row_id :: string
  row_org :: string
  row_hash :: string
  row_opens :: dbValue
  row_expires :: dbValue
  row_max :: dbValue
  row_sent :: dbValue
  row_candidate :: "string option"
  row_assessment :: string
  row_name :: string
  row_duration :: dbValue
  row_status :: string
  row_version :: dbValue
  row_backnav :: bool

definition toLockedInvitation ::
  "platform \<Rightarrow> (string \<Rightarrow> date) \<Rightarrow> invitationRow \<Rightarrow> dbValue \<Rightarrow> dbValue \<Rightarrow> (dbError, lockedInvitation) result"
where
  "toLockedInvitation pf dateParse row sittings_taken section_count =
     bindResult (requireId pf (row_id row)) (\<lambda>iid.
     bindResult (requireId pf (row_org row)) (\<lambda>org.
     bindResult (case row_candidate row of None \<Rightarrow> Inr None | Some c \<Rightarrow> map_sum id Some (requireId pf c)) (\<lambda>cand.
     bindResult (optionalDate dateParse (row_opens row) ''opens_at'') (\<lambda>opens.
     bindResult (requireDate dateParse (row_expires row) ''expires_at'') (\<lambda>expires.
     bindResult (requireCount (row_max row) ''max_attempts'') (\<lambda>maxA.
     bindResult (requireCount sittings_taken ''sittings_taken'') (\<lambda>taken.
     bindResult (optionalDate dateParse (row_sent row) ''sent_at'') (\<lambda>sent.
     bindResult (requireId pf (row_assessment row)) (\<lambda>aid.
     bindResult (requireCount (row_duration row) ''duration_seconds'') (\<lambda>duration.
     bindResult (requireCount (row_version row) ''version_no'') (\<lambda>version.
     bindResult (requireCount section_count ''section_count'') (\<lambda>secs.
     Inr \<lparr> invitationId = iid, inv_orgId = org, tokenHash = row_hash row, candidateId = cand, opensAt = opens,
           inv_expiresAt = expires, maxAttempts = maxA, sittingsTaken = taken, sentAt = sent,
           assessment = \<lparr> assessment_id = aid, assessment_name = row_name row, durationSeconds = duration,
             assessment_status = row_status row, versionNo = version, allowBackNav = row_backnav row,
             sectionCount = secs \<rparr> \<rparr>))))))))))))"

text \<open>The tables a redemption reads and writes. \<open>inv_table\<close> is the invitations by token hash (a unique
  column), joined to their assessment and application.\<close>

record attemptRow =
  att_id :: string
  att_org :: string
  att_invitation :: string
  att_candidate :: string
  att_assessment :: string
  att_version :: nat
  att_created :: int

record tables =
  inv_table :: "string \<Rightarrow> invitationRow option"
  sections_table :: "string \<Rightarrow> nat"
  attempts_table :: "attemptRow list"
  audit_table :: "dbWrite list"

definition findOrgByTokenHash :: "tables \<Rightarrow> string \<Rightarrow> string option" where
  "findOrgByTokenHash db hsh = map_option row_org (inv_table db hsh)"

definition sittings :: "tables \<Rightarrow> string \<Rightarrow> nat" where
  "sittings db iid = length (filter (\<lambda>a. att_invitation a = iid) (attempts_table db))"

definition applyWrite :: "string \<Rightarrow> string \<Rightarrow> dbWrite \<Rightarrow> tables \<Rightarrow> tables" where
  "applyWrite org freshId w db =
     (case w of
        Create_attempt iid cand asm ver whn \<Rightarrow>
          db\<lparr> attempts_table := attempts_table db @ [\<lparr> att_id = freshId, att_org = org, att_invitation = iid,
               att_candidate = cand, att_assessment = asm, att_version = ver, att_created = whn \<rparr>] \<rparr>
      | Record_redemption _ _ _ _ _ _ \<Rightarrow> db\<lparr> audit_table := audit_table db @ [w] \<rparr>)"

text \<open>\<open>redeem\<close> run alone: the calls of the service on the gateway, in order.\<close>

datatype redeemResult = Redeemed redemption | Refused refusal | Failed dbError

definition redeemPrelude ::
  "platform \<Rightarrow> credentialKeys \<Rightarrow> tables \<Rightarrow> string \<Rightarrow> (refusal, string \<times> string \<times> string) result"
where
  "redeemPrelude pf keys db token =
     (let presented = trim token
      in if length presented = 0 \<or> length presented > MAX_INVITATION_TOKEN_LENGTH
         then Inl (refuse Redeem (R_auth Malformed) [])
         else let hsh = hashToken pf presented (pepper keys)
              in case findOrgByTokenHash db hsh of
                   None \<Rightarrow> Inl (refuse Redeem R_no_such_invitation [])
                 | Some org \<Rightarrow> Inr (presented, hsh, org))"

definition lockRow :: "tables \<Rightarrow> string \<Rightarrow> string \<Rightarrow> invitationRow option" where
  "lockRow db org hsh = (case inv_table db hsh of Some row \<Rightarrow> if row_org row = org then Some row else None | None \<Rightarrow> None)"

definition countRow ::
  "platform \<Rightarrow> (string \<Rightarrow> date) \<Rightarrow> tables \<Rightarrow> invitationRow \<Rightarrow> (dbError, lockedInvitation) result"
where
  "countRow pf dateParse db row =
     toLockedInvitation pf dateParse row (V_number (js_int (int (sittings db (row_id row)))))
       (V_number (js_int (int (sections_table db (row_assessment row)))))"

definition redeem ::
  "platform \<Rightarrow> (string \<Rightarrow> date) \<Rightarrow> credentialKeys \<Rightarrow> int \<Rightarrow> int \<Rightarrow> string \<Rightarrow> string \<Rightarrow> string option \<Rightarrow> tables
     \<Rightarrow> redeemResult \<times> tables"
where
  "redeem pf dateParse keys now mintNow freshId token ip db =
     (case redeemPrelude pf keys db token of Inl r \<Rightarrow> (Refused r, db)
      | Inr (presented, hsh, org) \<Rightarrow>
        (case lockRow db org hsh of None \<Rightarrow> (Refused (refuse Redeem R_no_such_invitation []), db)
         | Some row \<Rightarrow>
           (case countRow pf dateParse db row of Inl e \<Rightarrow> (Failed e, db)
            | Inr invitation \<Rightarrow>
              (case redeemLocked pf keys presented ip now mintNow freshId invitation of
                 (Inl r, ws) \<Rightarrow> (Refused r, db)
               | (Inr red, ws) \<Rightarrow> (Redeemed red, fold (applyWrite org freshId) ws db)))))"

subsection \<open>Responses and routes\<close>

text \<open>\<open>toISOString\<close> throws on an invalid date: \<open>None\<close>. Its text is a parameter.\<close>

record redeemResponse =
  attempt_token :: string
  attempt_token_expires_at :: string
  rsp_attempt_id :: string
  rsp_sitting :: nat
  summary_id :: string
  summary_name :: string
  summary_duration :: nat
  summary_sections :: nat
  summary_backnav :: bool
  rsp_server_time :: string

definition toRedeemResponse :: "(int \<Rightarrow> string) \<Rightarrow> redemption \<Rightarrow> int \<Rightarrow> redeemResponse option" where
  "toRedeemResponse toISO red serverTime =
     map_option (\<lambda>e. \<lparr> attempt_token = red_attemptToken red, attempt_token_expires_at = toISO e,
       rsp_attempt_id = red_attemptId red, rsp_sitting = sitting red,
       summary_id = assessment_id (red_assessment red), summary_name = assessment_name (red_assessment red),
       summary_duration = durationSeconds (red_assessment red), summary_sections = sectionCount (red_assessment red),
       summary_backnav = allowBackNav (red_assessment red), rsp_server_time = toISO serverTime \<rparr>) (red_expiresAt red)"

record ticketResponse =
  rsp_ticket :: string
  rsp_expires_in :: int
  rsp_session_id :: string
  ticket_server_time :: string

definition toTicketResponse :: "(int \<Rightarrow> string) \<Rightarrow> string \<times> int \<Rightarrow> string \<Rightarrow> int \<Rightarrow> ticketResponse" where
  "toTicketResponse toISO issued session serverTime =
     \<lparr> rsp_ticket = fst issued, rsp_expires_in = snd issued, rsp_session_id = session, ticket_server_time = toISO serverTime \<rparr>"

text \<open>A handler answers, refuses with a public code, or fails (an internal error).\<close>

datatype 'a routeResult = Ok_200 'a | Denied refusalCode | Internal

definition deny :: "refusal \<Rightarrow> 'a routeResult" where
  "deny r = Denied (errorCodeFor r)"

definition redeemRoute ::
  "(int \<Rightarrow> string) \<Rightarrow> redeemResult \<Rightarrow> int \<Rightarrow> redeemResponse routeResult"
where
  "redeemRoute toISO outcome serverTime =
     (case outcome of
        Refused r \<Rightarrow> deny r
      | Failed e \<Rightarrow> Internal
      | Redeemed red \<Rightarrow> (case toRedeemResponse toISO red serverTime of Some rsp \<Rightarrow> Ok_200 rsp | None \<Rightarrow> Internal))"

record sessionRow =
  session_status :: string
  session_ended :: dbValue

record sessionAvailability =
  av_sessionId :: string
  av_status :: string
  av_endedAt :: "int option"

definition findSession ::
  "(string \<Rightarrow> date) \<Rightarrow> (string \<times> string \<Rightarrow> sessionRow option) \<Rightarrow> string \<Rightarrow> string \<Rightarrow> (dbError, sessionAvailability option) result"
where
  "findSession dateParse sessions org session =
     (case sessions (org, session) of None \<Rightarrow> Inr None
      | Some row \<Rightarrow> bindResult (optionalDate dateParse (session_ended row) ''ended_at'')
          (\<lambda>ended. Inr (Some \<lparr> av_sessionId = session, av_status = session_status row, av_endedAt = ended \<rparr>)))"

definition ticketRoute ::
  "platform \<Rightarrow> (string \<Rightarrow> date) \<Rightarrow> (int \<Rightarrow> string) \<Rightarrow> credentialKeys \<Rightarrow> (string \<times> string \<Rightarrow> sessionRow option)
     \<Rightarrow> principal \<Rightarrow> string \<Rightarrow> int \<Rightarrow> string \<Rightarrow> ticketResponse routeResult"
where
  "ticketRoute pf dateParse toISO keys sessions p session now nonce =
     (case p of
        CandidatePrincipal _ _ \<Rightarrow> deny (refuse Ws_ticket R_wrong_principal [])
      | StaffPrincipal user org held \<Rightarrow>
        if \<not> isUuid pf session then Internal
        else (case findSession dateParse sessions org session of
            Inl e \<Rightarrow> Internal
          | Inr None \<Rightarrow> deny (refuse Ws_ticket R_no_such_session [(''session_id'', D_string session)])
          | Inr (Some av) \<Rightarrow>
            if av_endedAt av \<noteq> None \<or> av_status av = ''ended''
            then deny (refuse Ws_ticket R_session_ended [(''session_id'', D_string session)])
            else Ok_200 (toTicketResponse toISO (wsTicketIssue pf (wsTicketKey keys) (Some now) nonce session) session now)))"

subsection \<open>Concurrent redemptions\<close>

text \<open>
  Each redemption is a process. The row lock (\<open>FOR UPDATE\<close>) is held from the first statement of the
  transaction to its commit or abort; a transaction sees what is committed, and its own writes
  become visible when it commits.
\<close>

datatype proc =
    Ready
  | Asked string string string
  | Holding string string string invitationRow
  | Counted string string lockedInvitation
  | Writing redemption string string lockedInvitation "dbWrite list"
  | Done redeemResult

fun holds :: "proc \<Rightarrow> string option" where
  "holds (Holding _ _ _ row) = Some (row_id row)"
| "holds (Counted _ _ l) = Some (invitationId l)"
| "holds (Writing _ _ _ l _) = Some (invitationId l)"
| "holds _ = None"

record world =
  db :: tables
  procs :: "nat \<Rightarrow> proc"

abbreviation to_proc :: "world \<Rightarrow> nat \<Rightarrow> proc \<Rightarrow> world" where
  "to_proc w i p \<equiv> w\<lparr> procs := (procs w)(i := p) \<rparr>"

inductive redemption_step :: "platform \<Rightarrow> (string \<Rightarrow> date) \<Rightarrow> credentialKeys \<Rightarrow> world \<Rightarrow> world \<Rightarrow> bool"
  for pf dateParse keys where
  refuse_early: "procs w i = Ready \<Longrightarrow> redeemPrelude pf keys (db w) token = Inl r
    \<Longrightarrow> redemption_step pf dateParse keys w (to_proc w i (Done (Refused r)))"
| ask: "procs w i = Ready \<Longrightarrow> redeemPrelude pf keys (db w) token = Inr (presented, hsh, org)
    \<Longrightarrow> redemption_step pf dateParse keys w (to_proc w i (Asked presented hsh org))"
| gone: "procs w i = Asked presented hsh org \<Longrightarrow> lockRow (db w) org hsh = None
    \<Longrightarrow> redemption_step pf dateParse keys w (to_proc w i (Done (Refused (refuse Redeem R_no_such_invitation []))))"
| lock: "procs w i = Asked presented hsh org \<Longrightarrow> lockRow (db w) org hsh = Some row
    \<Longrightarrow> \<forall>j. holds (procs w j) \<noteq> Some (row_id row)
    \<Longrightarrow> redemption_step pf dateParse keys w (to_proc w i (Holding presented hsh org row))"
| count: "procs w i = Holding presented hsh org row \<Longrightarrow> countRow pf dateParse (db w) row = Inr invitation
    \<Longrightarrow> redemption_step pf dateParse keys w (to_proc w i (Counted presented org invitation))"
| unreadable: "procs w i = Holding presented hsh org row \<Longrightarrow> countRow pf dateParse (db w) row = Inl e
    \<Longrightarrow> redemption_step pf dateParse keys w (to_proc w i (Done (Failed e)))"
| refuse_locked: "procs w i = Counted presented org invitation
    \<Longrightarrow> redeemLocked pf keys presented ip now mintNow freshId invitation = (Inl r, ws)
    \<Longrightarrow> redemption_step pf dateParse keys w (to_proc w i (Done (Refused r)))"
| insert: "procs w i = Counted presented org invitation
    \<Longrightarrow> redeemLocked pf keys presented ip now mintNow freshId invitation = (Inr red, ws)
    \<Longrightarrow> redemption_step pf dateParse keys w (to_proc w i (Writing red org freshId invitation ws))"
| commit: "procs w i = Writing red org freshId invitation ws
    \<Longrightarrow> redemption_step pf dateParse keys w
          ((to_proc w i (Done (Redeemed red)))\<lparr> db := fold (applyWrite org freshId) ws (db w) \<rparr>)"
| abort: "holds (procs w i) \<noteq> None \<Longrightarrow> redemption_step pf dateParse keys w (to_proc w i (Done (Failed e)))"

text \<open>The limit a row declares, the sittings the audit trail records, and the constraint the primary
  key of the invitations enforces.\<close>

definition row_limit :: "invitationRow \<Rightarrow> nat option" where
  "row_limit row = (case requireCount (row_max row) ''max_attempts'' of Inl _ \<Rightarrow> None | Inr m \<Rightarrow> Some m)"

definition audited :: "tables \<Rightarrow> string \<Rightarrow> nat list" where
  "audited t iid = map a_sitting (filter (\<lambda>w. is_Record_redemption w \<and> a_invitation w = iid) (audit_table t))"

definition ids_unique :: "tables \<Rightarrow> bool" where
  "ids_unique t \<longleftrightarrow> (\<forall>h row h' row'. inv_table t h = Some row \<and> inv_table t h' = Some row' \<and> row_id row = row_id row'
     \<longrightarrow> row = row')"

definition within_limits :: "tables \<Rightarrow> bool" where
  "within_limits t \<longleftrightarrow> (\<forall>h row m. inv_table t h = Some row \<and> row_limit row = Some m \<longrightarrow> sittings t (row_id row) \<le> m)"

definition audit_complete :: "tables \<Rightarrow> bool" where
  "audit_complete t \<longleftrightarrow> (\<forall>iid. audited t iid = [1 ..< sittings t iid + 1])"

subsection \<open>The invariant of concurrent redemptions\<close>

definition for_row :: "tables \<Rightarrow> lockedInvitation \<Rightarrow> bool" where
  "for_row t l \<longleftrightarrow> sittingsTaken l = sittings t (invitationId l)
     \<and> (\<exists>h row. inv_table t h = Some row \<and> row_id row = invitationId l \<and> row_limit row = Some (maxAttempts l))"

definition written :: "lockedInvitation \<Rightarrow> string \<Rightarrow> dbWrite list \<Rightarrow> bool" where
  "written l freshId ws \<longleftrightarrow> (\<exists>cand asm ver ip whn. ws = [Create_attempt (invitationId l) cand asm ver whn,
     Record_redemption freshId (invitationId l) (sittingsTaken l + 1) (maxAttempts l) ip whn])"

fun proc_ok :: "tables \<Rightarrow> proc \<Rightarrow> bool" where
  "proc_ok t (Holding _ h _ row) \<longleftrightarrow> inv_table t h = Some row"
| "proc_ok t (Counted _ _ l) \<longleftrightarrow> for_row t l"
| "proc_ok t (Writing _ _ f l ws) \<longleftrightarrow> for_row t l \<and> sittingsTaken l < maxAttempts l \<and> written l f ws"
| "proc_ok t _ \<longleftrightarrow> True"

definition world_ok :: "world \<Rightarrow> bool" where
  "world_ok w \<longleftrightarrow> (\<forall>i. proc_ok (db w) (procs w i))
     \<and> (\<forall>i j. holds (procs w i) \<noteq> None \<and> holds (procs w i) = holds (procs w j) \<longrightarrow> i = j)
     \<and> ids_unique (db w) \<and> within_limits (db w) \<and> audit_complete (db w)"

lemma requireCount_js_int [simp]: "requireCount (V_number (js_int (int n))) col = Inr n"
  by (simp add: requireCount_def js_int_def)

lemma countRow_fields:
  assumes "countRow pf dateParse t row = Inr l"
  shows "invitationId l = row_id row" "row_limit row = Some (maxAttempts l)"
    "sittingsTaken l = sittings t (row_id row)" "inv_orgId l = row_org row" "isUuid pf (inv_orgId l)"
  using assms
  by (auto simp: countRow_def toLockedInvitation_def bindResult_Inr_iff row_limit_def requireId_def split: if_splits)

lemma countRow_for_row:
  assumes "inv_table t h = Some row" "countRow pf dateParse t row = Inr l"
  shows "for_row t l"
  using countRow_fields(1-3) [OF assms(2)] assms(1) by (auto simp: for_row_def)

lemma redeemLocked_written:
  assumes "redeemLocked pf keys presented ip now mintNow freshId l = (Inr red, ws)"
  shows "sittingsTaken l < maxAttempts l" "written l freshId ws"
  using assms
  by (auto simp: redeemLocked_def written_def Let_def split: if_splits option.splits prod.splits)

text \<open>What a commit does to the tables.\<close>

lemma applied_writes:
  fixes t :: tables and org :: string
  assumes "written l freshId ws"
  defines "t' \<equiv> fold (applyWrite org freshId) ws t"
  shows "inv_table t' = inv_table t"
    and "sittings t' iid = (if iid = invitationId l then sittings t iid + 1 else sittings t iid)"
    and "audited t' iid = (if iid = invitationId l then audited t iid @ [sittingsTaken l + 1] else audited t iid)"
  using assms by (auto simp: written_def applyWrite_def sittings_def audited_def)

lemma world_ok_move:
  assumes "world_ok w" "proc_ok (db w) p"
    "holds p = None \<or> holds p = holds (procs w i) \<or> (\<forall>j. holds (procs w j) \<noteq> holds p)"
  shows "world_ok (to_proc w i p)"
  using assms unfolding world_ok_def by (auto simp: fun_upd_def split: if_splits) metis+

lemma step_world_ok:
  assumes "redemption_step pf dateParse keys w w'" "world_ok w"
  shows "world_ok w'"
  using assms
proof (cases rule: redemption_step.cases)
  case (lock i presented hsh org row)
  have "proc_ok (db w) (Holding presented hsh org row)"
    using lock(3) by (auto simp: lockRow_def split: option.splits if_splits)
  then show ?thesis unfolding lock(1) using assms(2) lock(4) by (intro world_ok_move) auto
next
  case (count i presented hsh org row invitation)
  have "proc_ok (db w) (procs w i)" using assms(2) by (simp add: world_ok_def)
  then have "inv_table (db w) hsh = Some row" using count(2) by simp
  note f = countRow_for_row [OF this count(3)] countRow_fields(1) [OF count(3)]
  show ?thesis unfolding count(1) using assms(2) f count(2) by (intro world_ok_move) auto
next
  case (insert i presented org invitation ip now mintNow freshId red ws)
  have "proc_ok (db w) (procs w i)" using assms(2) by (simp add: world_ok_def)
  then show ?thesis
    unfolding insert(1) using assms(2) insert(2) redeemLocked_written [OF insert(3)] by (intro world_ok_move) auto
next
  case (commit i red org freshId l ws)
  let ?t = "db w" and ?t' = "fold (applyWrite org freshId) ws (db w)"
  have all: "\<And>j. proc_ok ?t (procs w j)" and excl: "\<And>i j. holds (procs w i) \<noteq> None \<Longrightarrow> holds (procs w i) = holds (procs w j) \<Longrightarrow> i = j"
    and uniq: "ids_unique ?t" and lim: "within_limits ?t" and aud: "audit_complete ?t"
    using assms(2) by (auto simp: world_ok_def)
  have me: "for_row ?t l" "sittingsTaken l < maxAttempts l" "written l freshId ws" using all [of i] commit(2) by auto
  note eff = applied_writes [OF me(3), of org ?t]
  have others: "proc_ok ?t' (procs w j)" if "j \<noteq> i" for j
  proof -
    have "holds (procs w j) \<noteq> Some (invitationId l)" using excl [of i j] commit(2) that by auto
    then show ?thesis using all [of j] by (cases "procs w j") (auto simp: for_row_def eff)
  qed
  have "within_limits ?t'"
    unfolding within_limits_def
  proof (intro allI impI, elim conjE)
    fix h row m assume r: "inv_table ?t' h = Some row" "row_limit row = Some m"
    obtain h0 row0 where r0: "inv_table ?t h0 = Some row0" "row_id row0 = invitationId l" "row_limit row0 = Some (maxAttempts l)"
      and taken: "sittingsTaken l = sittings ?t (invitationId l)" using me(1) by (auto simp: for_row_def)
    show "sittings ?t' (row_id row) \<le> m"
    proof (cases "row_id row = invitationId l")
      case True
      then have "row = row0" using uniq r(1) r0(1,2) unfolding ids_unique_def eff(1) by metis
      then show ?thesis using r(2) r0(3) taken me(2) True by (simp add: eff(2))
    next
      case False
      then show ?thesis using lim r unfolding within_limits_def by (simp add: eff)
    qed
  qed
  moreover have "audit_complete ?t'"
    using aud me(1) unfolding audit_complete_def for_row_def by (simp add: eff(2,3))
  moreover have "ids_unique ?t'" using uniq unfolding ids_unique_def by (simp add: eff(1))
  ultimately show ?thesis
    unfolding commit(1) world_ok_def using others excl by (auto split: if_splits) metis
qed (use assms(2) in \<open>auto intro!: world_ok_move\<close>)

text \<open>C8: an invitation is never over-redeemed. Any number of redemptions may run at once, interleaved
  at every statement and aborting anywhere: as long as the tables start within limits with a
  complete audit trail, no invitation ever has more sittings than it allows, and its audit trail
  numbers its sittings consecutively from one.\<close>

theorem sittings_within_limits:
  assumes "(redemption_step pf dateParse keys)\<^sup>*\<^sup>* w w'" "\<forall>i. procs w i = Ready"
    "ids_unique (db w)" "within_limits (db w)" "audit_complete (db w)"
  shows "within_limits (db w') \<and> audit_complete (db w')"
proof -
  have "world_ok w" using assms(2-5) by (simp add: world_ok_def)
  with assms(1) have "world_ok w'" by (induction rule: rtranclp_induct) (auto intro: step_world_ok)
  then show ?thesis by (simp add: world_ok_def)
qed

subsection \<open>Concurrent redemptions are serial ones\<close>

text \<open>
  The abstract specification is the service run alone, one redemption after the other. \<open>explained\<close>
  says that what a process has read so far is what the service run alone would read now; a commit
  is then exactly one atomic redemption.
\<close>

record call =
  c_now :: int
  c_mintNow :: int
  c_freshId :: string
  c_token :: string
  c_ip :: "string option"

definition perform :: "platform \<Rightarrow> (string \<Rightarrow> date) \<Rightarrow> credentialKeys \<Rightarrow> tables \<Rightarrow> call \<Rightarrow> redeemResult \<times> tables" where
  "perform pf dateParse keys t c = redeem pf dateParse keys (c_now c) (c_mintNow c) (c_freshId c) (c_token c) (c_ip c) t"

fun explained :: "platform \<Rightarrow> (string \<Rightarrow> date) \<Rightarrow> credentialKeys \<Rightarrow> tables \<Rightarrow> proc \<Rightarrow> bool" where
  "explained pf dateParse keys t (Asked presented hsh org) \<longleftrightarrow>
     (\<exists>token. redeemPrelude pf keys t token = Inr (presented, hsh, org))"
| "explained pf dateParse keys t (Holding presented hsh org row) \<longleftrightarrow>
     (\<exists>token. redeemPrelude pf keys t token = Inr (presented, hsh, org)) \<and> lockRow t org hsh = Some row"
| "explained pf dateParse keys t (Counted presented org l) \<longleftrightarrow>
     (\<exists>token hsh row. redeemPrelude pf keys t token = Inr (presented, hsh, org) \<and> lockRow t org hsh = Some row
        \<and> countRow pf dateParse t row = Inr l)"
| "explained pf dateParse keys t (Writing red org freshId l ws) \<longleftrightarrow>
     (\<exists>token presented hsh row now mintNow ip. redeemPrelude pf keys t token = Inr (presented, hsh, org)
        \<and> lockRow t org hsh = Some row \<and> countRow pf dateParse t row = Inr l
        \<and> redeemLocked pf keys presented ip now mintNow freshId l = (Inr red, ws))"
| "explained pf dateParse keys t _ \<longleftrightarrow> True"

lemma explained_writing:
  assumes "explained pf dateParse keys t (Writing red org freshId l ws)"
  obtains c where "perform pf dateParse keys t c = (Redeemed red, fold (applyWrite org freshId) ws t)"
proof -
  obtain token presented hsh row now mintNow ip where "redeemPrelude pf keys t token = Inr (presented, hsh, org)"
    "lockRow t org hsh = Some row" "countRow pf dateParse t row = Inr l"
    "redeemLocked pf keys presented ip now mintNow freshId l = (Inr red, ws)"
    using assms by auto
  then have "perform pf dateParse keys t \<lparr> c_now = now, c_mintNow = mintNow, c_freshId = freshId, c_token = token, c_ip = ip \<rparr>
      = (Redeemed red, fold (applyWrite org freshId) ws t)"
    by (simp add: perform_def redeem_def)
  then show ?thesis by (rule that)
qed

text \<open>A commit for another invitation changes nothing a process has read.\<close>

lemma countRow_cong:
  assumes "sittings t' (row_id row) = sittings t (row_id row)" "sections_table t' = sections_table t"
  shows "countRow pf dateParse t' row = countRow pf dateParse t row"
  using assms by (simp add: countRow_def)

lemma explained_stable:
  assumes "explained pf dateParse keys t p" "inv_table t' = inv_table t" "sections_table t' = sections_table t"
    "\<And>iid. holds p = Some iid \<Longrightarrow> sittings t' iid = sittings t iid"
  shows "explained pf dateParse keys t' p"
proof -
  have pre: "redeemPrelude pf keys t' token = redeemPrelude pf keys t token" for token
    using assms(2) by (simp add: redeemPrelude_def findOrgByTokenHash_def Let_def)
  have lock: "lockRow t' org hsh = lockRow t org hsh" for org hsh using assms(2) by (simp add: lockRow_def)
  have count: "countRow pf dateParse t' row = Inr l"
    if "countRow pf dateParse t row = Inr l" "holds p = Some (invitationId l)" for row l
    using that countRow_fields(1) [OF that(1)] assms(3,4) countRow_cong [of t' row t pf dateParse] by simp
  show ?thesis
    using assms(1) count by (cases p) (auto simp: pre lock, (blast | metis)+)
qed

lemma applied_sections: "sections_table (fold (applyWrite org freshId) ws t) = sections_table t"
  by (induction ws arbitrary: t) (simp_all add: applyWrite_def split: dbWrite.splits)

lemma step_explained:
  assumes "redemption_step pf dateParse keys w w'" "world_ok w" "\<forall>i. explained pf dateParse keys (db w) (procs w i)"
  shows "(\<forall>i. explained pf dateParse keys (db w') (procs w' i)) \<and>
     (db w' = db w \<or> (\<exists>c. db w' = snd (perform pf dateParse keys (db w) c)))"
  using assms(1)
proof (cases rule: redemption_step.cases)
  case (commit i red org freshId l ws)
  let ?t' = "fold (applyWrite org freshId) ws (db w)"
  have mine: "explained pf dateParse keys (db w) (Writing red org freshId l ws)"
    "proc_ok (db w) (Writing red org freshId l ws)"
    using assms(2,3) commit(2) by (metis, metis world_ok_def)
  then have eff: "inv_table ?t' = inv_table (db w)"
    "sittings ?t' iid = (if iid = invitationId l then sittings (db w) iid + 1 else sittings (db w) iid)" for iid
    using applied_writes(1,2) [of l freshId ws org "db w"] by auto
  have others: "explained pf dateParse keys ?t' (procs w j)" if "j \<noteq> i" for j
  proof (rule explained_stable [OF _ eff(1) applied_sections])
    show "explained pf dateParse keys (db w) (procs w j)" using assms(3) by blast
    show "sittings ?t' iid = sittings (db w) iid" if h: "holds (procs w j) = Some iid" for iid
    proof -
      have "iid \<noteq> invitationId l"
        using assms(2) h commit(2) \<open>j \<noteq> i\<close> unfolding world_ok_def by (metis holds.simps(3) option.distinct(1))
      then show ?thesis by (simp add: eff(2))
    qed
  qed
  obtain c where "perform pf dateParse keys (db w) c = (Redeemed red, ?t')"
    by (rule explained_writing [OF mine(1)])
  then have "db w' = snd (perform pf dateParse keys (db w) c)" by (simp add: commit(1))
  moreover have "explained pf dateParse keys (db w') (procs w' j)" for j using others by (simp add: commit(1))
  ultimately show ?thesis by blast
next
  case (ask i token presented hsh org)
  have "explained pf dateParse keys (db w) (Asked presented hsh org)" using ask(3) by auto
  then show ?thesis unfolding ask(1) using assms(3) by simp
next
  case (lock i presented hsh org row)
  have "explained pf dateParse keys (db w) (Holding presented hsh org row)"
    using assms(3) lock(2,3) by (metis explained.simps(1,2))
  then show ?thesis unfolding lock(1) using assms(3) by simp
next
  case (count i presented hsh org row l)
  have "explained pf dateParse keys (db w) (Counted presented org l)"
    using assms(3) count(2,3) by (metis explained.simps(2,3))
  then show ?thesis unfolding count(1) using assms(3) by simp
next
  case (insert i presented org l ip now mintNow freshId red ws)
  have "explained pf dateParse keys (db w) (Writing red org freshId l ws)"
    using assms(3) insert(2,3) by (metis explained.simps(3,4))
  then show ?thesis unfolding insert(1) using assms(3) by simp
qed (use assms(3) in simp_all)

text \<open>C30: concurrent redemptions behave as if they ran one at a time. However the redemptions of any
  number of requests interleave, the tables they leave are the tables some sequence of complete
  redemptions, each run alone, leaves.\<close>

theorem redemptions_serialisable:
  assumes "(redemption_step pf dateParse keys)\<^sup>*\<^sup>* w w'" "\<forall>i. procs w i = Ready"
    "ids_unique (db w)" "within_limits (db w)" "audit_complete (db w)"
  shows "\<exists>calls. db w' = foldl (\<lambda>t c. snd (perform pf dateParse keys t c)) (db w) calls"
proof -
  have start: "world_ok w" "\<forall>i. explained pf dateParse keys (db w) (procs w i)"
    using assms(2-5) by (simp_all add: world_ok_def)
  from assms(1) start have "world_ok w' \<and> (\<forall>i. explained pf dateParse keys (db w') (procs w' i))
      \<and> (\<exists>calls. db w' = foldl (\<lambda>t c. snd (perform pf dateParse keys t c)) (db w) calls)"
  proof (induction rule: rtranclp_induct)
    case base
    then show ?case by (auto intro!: exI [of _ "[]"])
  next
    case (step u v)
    then obtain calls where c: "db u = foldl (\<lambda>t c. snd (perform pf dateParse keys t c)) (db w) calls"
      and ok: "world_ok u" "\<forall>i. explained pf dateParse keys (db u) (procs u i)" by blast
    have next_call: "db v = db u \<or> (\<exists>c. db v = snd (perform pf dateParse keys (db u) c))"
      using step_explained [OF step.hyps(2) ok] by (rule conjunct2)
    have "\<exists>calls'. db v = foldl (\<lambda>t c. snd (perform pf dateParse keys t c)) (db w) calls'"
      using next_call
    proof
      assume "db v = db u"
      then show ?thesis using c by auto
    next
      assume "\<exists>c. db v = snd (perform pf dateParse keys (db u) c)"
      then obtain k where "db v = snd (perform pf dateParse keys (db u) k)" by blast
      then show ?thesis using c by (intro exI [of _ "calls @ [k]"]) simp
    qed
    then show ?case using step_explained [OF step.hyps(2) ok] step_world_ok [OF step.hyps(2) ok(1)] by blast
  qed
  then show ?thesis by blast
qed

subsection \<open>Refusals are opaque\<close>

lemma redeemLocked_refusal:
  "fst (redeemLocked pf keys presented ip now mintNow freshId l) = Inl r \<Longrightarrow> surface r = Redeem"
  by (auto simp: redeemLocked_def refuse_def Let_def split: if_splits option.splits prod.splits)

lemma redeemPrelude_refusal: "redeemPrelude pf keys t token = Inl r \<Longrightarrow> surface r = Redeem"
  by (auto simp: redeemPrelude_def refuse_def Let_def split: if_splits option.splits)

lemma redeem_cases:
  assumes "redeem pf dateParse keys now mintNow freshId token ip t = (result, t')"
  obtains (early) r where "redeemPrelude pf keys t token = Inl r" "result = Refused r" "t' = t"
  | (gone) "result = Refused (refuse Redeem R_no_such_invitation [])" "t' = t"
  | (unreadable) e where "result = Failed e" "t' = t"
  | (locked) presented hsh org row l r ws where "redeemPrelude pf keys t token = Inr (presented, hsh, org)"
      "lockRow t org hsh = Some row" "countRow pf dateParse t row = Inr l"
      "redeemLocked pf keys presented ip now mintNow freshId l = (Inl r, ws)" "result = Refused r" "t' = t"
  | (redeemed) presented hsh org row l red ws where "redeemPrelude pf keys t token = Inr (presented, hsh, org)"
      "lockRow t org hsh = Some row" "countRow pf dateParse t row = Inr l"
      "redeemLocked pf keys presented ip now mintNow freshId l = (Inr red, ws)" "result = Redeemed red"
      "t' = fold (applyWrite org freshId) ws t"
proof (cases "redeemPrelude pf keys t token")
  case (Inl r)
  then show ?thesis using early assms by (simp add: redeem_def)
next
  case (Inr x)
  obtain presented hsh org where x: "redeemPrelude pf keys t token = Inr (presented, hsh, org)" using Inr by (cases x) auto
  show ?thesis
  proof (cases "lockRow t org hsh")
    case None
    then show ?thesis using gone x assms by (simp add: redeem_def)
  next
    case (Some row)
    show ?thesis
    proof (cases "countRow pf dateParse t row")
      case (Inl e)
      then show ?thesis using unreadable [of e] x Some assms by (auto simp: redeem_def)
    next
      case (Inr l)
      obtain out ws where out: "redeemLocked pf keys presented ip now mintNow freshId l = (out, ws)" by fastforce
      show ?thesis
        using locked [OF x Some Inr] redeemed [OF x Some Inr] x Some Inr assms out
        by (cases out) (simp_all add: redeem_def)
    qed
  qed
qed

text \<open>A refused redemption explains nothing. Whatever the reason, from an unknown token to an expired
  invitation or one already used up, the caller is answered the same \<open>not_found\<close>, and the tables
  are left as they were.\<close>

theorem redeem_refusals_opaque:
  assumes "redeem pf dateParse keys now mintNow freshId token ip t = (Refused r, t')"
  shows "errorCodeFor r = Not_found \<and> t' = t"
  using assms
proof (cases rule: redeem_cases)
  case (locked presented hsh org row l r' ws)
  then show ?thesis using redeemLocked_refusal [of pf keys presented ip now mintNow freshId l r'] by (simp add: errorCodeFor_def)
qed (auto simp: errorCodeFor_def refuse_def dest: redeemPrelude_refusal)

subsection \<open>The life of an attempt token\<close>

lemmas token_life_constants = ATTEMPT_TOKEN_START_WINDOW_SECONDS_def ATTEMPT_TOKEN_TAIL_SECONDS_def
  MAX_ATTEMPT_TOKEN_LIFE_SECONDS_def

lemma js_add_js_int: "\<bar>a + b\<bar> \<le> 2 ^ 53 \<Longrightarrow> js_add (js_int a) (js_int b) = js_int (a + b)"
  using dbl_int [of "a + b"] by (simp add: js_int_def)

lemma js_mul_js_int: "\<bar>a * b\<bar> \<le> 2 ^ 53 \<Longrightarrow> js_mul (js_int a) (js_int b) = js_int (a * b)"
  using dbl_int [of "a * b"] by (simp add: js_int_def)

lemma attemptTokenLifeSeconds_int:
  assumes "d \<le> 2 ^ 31"
  shows "attemptTokenLifeSeconds (js_int (int d)) = js_int (min (int d + 2700) 43200)"
proof -
  have zero: "js_int 0 = Fin 0" by (simp add: js_int_def)
  have "attemptTokenLifeSeconds (js_int (int d))
      = js_min (js_add (js_add (js_int 1800) (js_int (int d))) (js_int 900)) (js_int 43200)"
    by (cases "d = 0") (simp_all add: attemptTokenLifeSeconds_def token_life_constants js_int_def)
  also have "\<dots> = js_min (js_int (int d + 2700)) (js_int 43200)"
    using assms by (simp add: js_add_js_int add.commute)
  also have "\<dots> = js_int (min (int d + 2700) 43200)"
    by (simp add: js_min_def js_int_def min_def)
  finally show ?thesis .
qed

lemma mintAttemptToken_expiry:
  assumes "d \<le> 2 ^ 31" "0 \<le> t" "t \<le> MAX_TIME - 43200000"
  shows "snd (mintAttemptToken pf aid org (js_int (int d)) key t) = Some (t + min (int d + 2700) 43200 * 1000)"
proof -
  define life where "life = min (int d + 2700) 43200"
  have life: "2700 \<le> life" "life \<le> 43200" by (auto simp: life_def)
  have "js_mul (js_int life) (Fin 1000) = js_int (life * 1000)"
    using js_mul_js_int [of life 1000] life by (simp add: js_int_def)
  moreover have "js_add (js_int t) (js_int (life * 1000)) = js_int (t + life * 1000)"
    using assms(2,3) life by (intro js_add_js_int) (simp add: MAX_TIME_def)
  ultimately show ?thesis
    using assms life
    by (simp add: mintAttemptToken_def Let_def attemptTokenLifeSeconds_int newDate_js_int MAX_TIME_def flip: life_def)
qed

text \<open>A token outlives the sitting it is for. For every duration the database can hold, a token
  minted at an instant expires that many seconds plus forty-five minutes later, and never more than
  twelve hours later.\<close>

theorem attempt_token_life:
  assumes "d \<le> 2 ^ 31" "0 \<le> t" "t \<le> MAX_TIME - 43200000"
  shows "\<exists>e. snd (mintAttemptToken pf aid org (js_int (int d)) key t) = Some e
     \<and> e = t + min (int d + 2700) 43200 * 1000 \<and> t + 2700000 \<le> e \<and> e \<le> t + 43200000"
  using mintAttemptToken_expiry [OF assms] by auto

theorem attempt_token_life_witness:
  "\<exists>e. snd (mintAttemptToken sample_platform ''a1'' ''o1'' (js_int (int 3600)) ''k'' 1000) = Some e
     \<and> e = 1000 + min (int 3600 + 2700) 43200 * 1000 \<and> 1000 + 2700000 \<le> e \<and> e \<le> 1000 + 43200000"
  by (rule attempt_token_life) (simp_all add: MAX_TIME_def)

text \<open>The life takes no account of an accommodation: with double time on a two-hour sitting, a token
  redeemed at the start expires more than an hour before the deadline.\<close>

theorem token_expires_before_extended_deadline:
  "snd (mintAttemptToken pf aid org (js_int (int 7200)) key 0) = Some 9900000
   \<and> computeDeadline (Some 0) (js_int 7200) (js_int 100) = Inr (Some 14400000)"
proof
  show "snd (mintAttemptToken pf aid org (js_int (int 7200)) key 0) = Some 9900000"
    using mintAttemptToken_expiry [of 7200 0] by (simp add: MAX_TIME_def)
  have "deadline_seconds 7200 100 = 14400"
    using deadline_seconds_int [of 7200 100] by (simp add: MAX_DURATION_SECONDS_def)
  then show "computeDeadline (Some 0) (js_int 7200) (js_int 100) = Inr (Some 14400000)"
    using computeDeadline_eval [of 0 7200 100]
    by (simp add: js_int_def MAX_TIME_def MAX_DURATION_SECONDS_def)
qed

subsection \<open>From redemption to authentication\<close>

lemma trim_no_ws: "\<forall>c \<in> set s. \<not> is_ws c \<Longrightarrow> trim s = s"
proof -
  assume a: "\<forall>c \<in> set s. \<not> is_ws c"
  have none: "dropWhile is_ws xs = xs" if "\<forall>c \<in> set xs. \<not> is_ws c" for xs using that by (cases xs) auto
  show ?thesis using none [of s] none [of "rev s"] a by (simp add: trim_def trimStart_def trimEnd_def)
qed

lemma bearerCredential_bearer:
  assumes "\<forall>c \<in> set token. \<not> is_ws c" "token \<noteq> []"
  shows "bearerCredential (H_one (''Bearer '' @ token)) = Some token"
  using assms by (simp add: BEARER_SCHEME_def trim_no_ws)

lemma redeemLocked_redeemed:
  assumes "redeemLocked pf keys presented ip now mintNow freshId l = (Inr red, ws)"
  shows "red_attemptId red = freshId" "red_orgId red = inv_orgId l"
    "(red_attemptToken red, red_expiresAt red) = mintAttemptToken pf freshId (inv_orgId l)
       (js_int (int (durationSeconds (assessment l)))) (attemptToken keys) mintNow"
    "red_assessment red = assessment l" "sitting red = sittingsTaken l + 1"
  using assms by (auto simp: redeemLocked_def Let_def split: if_splits option.splits prod.splits)

text \<open>C35: what a redemption hands out is what the candidate surface accepts. The token of a successful
  redemption, sent back in an authorization header, authenticates as exactly the attempt and the
  organisation of the redemption until the expiry the redemption reports, and is refused as
  expired from then on. The signing and encoding platform is assumed lossless on the claims, and
  tokens free of white space.\<close>

theorem redeemed_token_authenticates:
  assumes "redeem pf dateParse keys now mintNow freshId token ip t = (Redeemed red, t')"
    "durationSeconds (red_assessment red) \<le> 2 ^ 31" "0 \<le> mintNow" "mintNow \<le> MAX_TIME - 43200000" "isUuid pf freshId"
    "codec_ok pf ATTEMPT_TOKEN_PREFIX (attemptClaimsValue
       \<lparr> attemptId = freshId, token_orgId = red_orgId red, expiresAt = red_expiresAt red \<rparr>) (attemptToken keys)"
    "\<forall>c \<in> set (red_attemptToken red). \<not> is_ws c"
  shows "\<exists>e. red_expiresAt red = Some e
     \<and> authenticateAttempt pf (H_one (''Bearer '' @ red_attemptToken red)) (attemptToken keys) later (Some freshId) None
       = (if later < e then Inr (CandidatePrincipal freshId (red_orgId red))
          else Inl (refuse Attempt_token (R_auth Expired) []))"
  using assms(1)
proof (cases rule: redeem_cases)
  case (redeemed presented hsh org row l red' ws)
  then have red: "redeemLocked pf keys presented ip now mintNow freshId l = (Inr red, ws)" by simp
  note r = redeemLocked_redeemed [OF red]
  define e where "e = mintNow + min (int (durationSeconds (assessment l)) + 2700) 43200 * 1000"
  have e: "red_expiresAt red = Some e"
    using mintAttemptToken_expiry [of "durationSeconds (assessment l)" mintNow pf freshId "inv_orgId l" "attemptToken keys"]
      r(3,4) assms(2-4) by (metis e_def snd_conv)
  have range: "0 < e" "e \<le> MAX_TIME" using assms(3,4) by (auto simp: e_def MAX_TIME_def min_def)
  have tok: "red_attemptToken red = issueAttemptToken pf
      \<lparr> attemptId = freshId, token_orgId = red_orgId red, expiresAt = Some e \<rparr> (attemptToken keys)"
    using r(2,3) e by (simp add: mintAttemptToken_def Let_def)
  have "isUuid pf (red_orgId red)" using countRow_fields(5) [OF redeemed(3)] r(2) by simp
  then have "verifyAttemptToken pf (red_attemptToken red) (attemptToken keys) (Some later) (Some freshId)
      = (if later < e then Inr \<lparr> attemptId = freshId, token_orgId = red_orgId red, expiresAt = Some e \<rparr> else Inl Expired)"
    using attempt_token_verifies [of pf freshId "red_orgId red" e "attemptToken keys" "Some freshId" later]
      assms(5,6) range tok e by simp
  moreover have "red_attemptToken red \<noteq> []" by (simp add: tok issueAttemptToken_def sealEnvelope_def Let_def)
  ultimately show ?thesis
    using e bearerCredential_bearer [OF assms(7)]
    by (simp add: authenticateAttempt_def REASON_FROM_AUTH_def del: bearerCredential.simps)
qed simp_all

text \<open>The service run alone is one run of the concurrent system.\<close>

lemma redeem_is_a_run:
  assumes "redeem pf dateParse keys now mintNow freshId token ip t = (Redeemed red, t')"
  shows "(redemption_step pf dateParse keys)\<^sup>*\<^sup>* \<lparr> db = t, procs = (\<lambda>_. Ready) \<rparr>
     \<lparr> db = t', procs = (\<lambda>_. Ready)(0 := Done (Redeemed red)) \<rparr>"
  using assms
proof (cases rule: redeem_cases)
  case (redeemed presented hsh org row l red' ws)
  let ?w = "\<lambda>p. \<lparr> db = t, procs = (\<lambda>_. Ready)(0 := p) \<rparr>"
  let ?step = "redemption_step pf dateParse keys"
  have w0: "\<lparr> db = t, procs = (\<lambda>_. Ready) \<rparr> = ?w Ready" by (simp add: fun_eq_iff)
  have "?step (?w Ready) (?w (Asked presented hsh org))"
    using redemption_step.ask [of "?w Ready" 0 pf keys token presented hsh org dateParse] redeemed(1) by simp
  moreover have "?step (?w (Asked presented hsh org)) (?w (Holding presented hsh org row))"
    using redemption_step.lock [of "?w (Asked presented hsh org)" 0 presented hsh org row pf dateParse keys] redeemed(2) by simp
  moreover have "?step (?w (Holding presented hsh org row)) (?w (Counted presented org l))"
    using redemption_step.count [of "?w (Holding presented hsh org row)" 0 presented hsh org row pf dateParse l keys]
      redeemed(3) by simp
  moreover have "?step (?w (Counted presented org l)) (?w (Writing red' org freshId l ws))"
    using redemption_step.insert [of "?w (Counted presented org l)" 0 presented org l pf keys ip now mintNow freshId red' ws dateParse]
      redeemed(4) by simp
  moreover have "?step (?w (Writing red' org freshId l ws)) \<lparr> db = t', procs = (\<lambda>_. Ready)(0 := Done (Redeemed red)) \<rparr>"
    using redemption_step.commit [of "?w (Writing red' org freshId l ws)" 0 red' org freshId l ws pf dateParse keys]
      redeemed(5,6) by simp
  ultimately show ?thesis unfolding w0 by (meson converse_rtranclp_into_rtranclp rtranclp.rtrancl_refl)
qed simp_all

subsection \<open>A sample redemption\<close>

definition sample_red_platform :: platform where
  "sample_red_platform = sample_platform\<lparr> jsonParse := (\<lambda>s. Some (attemptClaimsValue
     \<lparr> attemptId = ''a1'', token_orgId = ''o1'', expiresAt = Some 6301000 \<rparr>)) \<rparr>"

definition sample_keys :: credentialKeys where
  "sample_keys = deriveCredentialKeys sample_red_platform ''k'' ''p''"

definition sample_row :: invitationRow where
  "sample_row = \<lparr> row_id = ''i1'', row_org = ''o1'', row_hash = hashToken sample_red_platform ''tok'' ''p'',
     row_opens = V_null, row_expires = V_date (Some 9000), row_max = V_number (js_int 1), row_sent = V_null,
     row_candidate = Some ''c1'', row_assessment = ''s1'', row_name = ''n'', row_duration = V_number (js_int 3600),
     row_status = ''published'', row_version = V_number (js_int 1), row_backnav = True \<rparr>"

definition sample_tables :: tables where
  "sample_tables = \<lparr> inv_table = (\<lambda>h. if h = row_hash sample_row then Some sample_row else None),
     sections_table = (\<lambda>_. 2), attempts_table = [], audit_table = [] \<rparr>"

definition sample_redemption :: redemption where
  "sample_redemption = \<lparr> red_attemptId = ''a1'', red_orgId = ''o1'', red_attemptToken = ''abat1.eA.5e'',
     red_expiresAt = Some 6301000, sitting = 1, red_assessment = \<lparr> assessment_id = ''s1'', assessment_name = ''n'',
       durationSeconds = 3600, assessment_status = ''published'', versionNo = 1, allowBackNav = True, sectionCount = 2 \<rparr> \<rparr>"

definition sample_locked :: lockedInvitation where
  "sample_locked = \<lparr> invitationId = ''i1'', inv_orgId = ''o1'', tokenHash = row_hash sample_row, candidateId = Some ''c1'',
     opensAt = None, inv_expiresAt = 9000, maxAttempts = 1, sittingsTaken = 0, sentAt = None,
     assessment = red_assessment sample_redemption \<rparr>"

lemmas sample_red_defs = sample_red_platform_def sample_platform_def

lemma sample_requireCount: "requireCount (V_number (js_int 1)) c = Inr 1" "requireCount (V_number (js_int 3600)) c = Inr 3600"
  using requireCount_js_int [of 1] requireCount_js_int [of 3600] by simp_all

lemma sample_counted: "countRow sample_red_platform dateParse sample_tables sample_row = Inr sample_locked"
  using requireCount_js_int [of 0] requireCount_js_int [of 2]
  by (simp add: countRow_def toLockedInvitation_def sittings_def sample_tables_def requireId_def optionalDate_def
      requireDate_def sample_locked_def sample_redemption_def)
     (simp add: sample_row_def sample_requireCount sample_red_defs requireId_def)

lemma sample_mint: "mintAttemptToken sample_red_platform ''a1'' ''o1'' (js_int (int 3600)) key 1000 = (''abat1.eA.5e'', Some 6301000)"
proof -
  have "snd (mintAttemptToken sample_red_platform ''a1'' ''o1'' (js_int (int 3600)) key 1000) = Some 6301000"
    using mintAttemptToken_expiry [of 3600 1000] by (simp add: MAX_TIME_def)
  moreover have "fst (mintAttemptToken sample_red_platform ''a1'' ''o1'' (js_int (int 3600)) key 1000) = ''abat1.eA.5e''"
    by (simp add: mintAttemptToken_def Let_def issueAttemptToken_def sealEnvelope_def sample_red_defs ATTEMPT_TOKEN_PREFIX_def)
  ultimately show ?thesis by (metis prod.collapse)
qed

lemma sample_redeemed:
  "\<exists>t'. redeem sample_red_platform (\<lambda>_. None) sample_keys 1000 1000 ''a1'' ''tok'' None sample_tables = (Redeemed sample_redemption, t')"
proof -
  have "redeemPrelude sample_red_platform sample_keys sample_tables ''tok'' = Inr (''tok'', row_hash sample_row, ''o1'')"
    by (simp add: redeemPrelude_def Let_def trim_def trimStart_def trimEnd_def is_ws_def MAX_INVITATION_TOKEN_LENGTH_def
        findOrgByTokenHash_def sample_tables_def sample_keys_def deriveCredentialKeys_def)
       (simp add: sample_row_def)
  moreover have "lockRow sample_tables ''o1'' (row_hash sample_row) = Some sample_row"
    by (simp add: lockRow_def sample_tables_def sample_row_def)
  moreover have "verifyToken sample_red_platform ''tok'' (row_hash sample_row) ''p''"
    by (simp add: verifyToken_def sample_row_def constantTimeEquals_def)
  then have "fst (redeemLocked sample_red_platform sample_keys ''tok'' None 1000 1000 ''a1'' sample_locked) = Inr sample_redemption"
    using sample_mint [of "attemptToken sample_keys"]
    by (simp add: redeemLocked_def sample_locked_def sample_keys_def deriveCredentialKeys_def sample_redemption_def Let_def)
  ultimately show ?thesis
    by (auto simp: redeem_def sample_counted split: prod.splits)
qed

theorem redeemed_token_authenticates_witness:
  "\<exists>e. red_expiresAt sample_redemption = Some e
     \<and> authenticateAttempt sample_red_platform (H_one (''Bearer '' @ red_attemptToken sample_redemption))
         (attemptToken sample_keys) 2000 (Some ''a1'') None
       = (if 2000 < e then Inr (CandidatePrincipal ''a1'' (red_orgId sample_redemption))
          else Inl (refuse Attempt_token (R_auth Expired) []))"
proof -
  obtain t' where r: "redeem sample_red_platform (\<lambda>_. None) sample_keys 1000 1000 ''a1'' ''tok'' None sample_tables
      = (Redeemed sample_redemption, t')" using sample_redeemed by blast
  have "codec_ok sample_red_platform ATTEMPT_TOKEN_PREFIX (attemptClaimsValue \<lparr> attemptId = ''a1'',
      token_orgId = red_orgId sample_redemption, expiresAt = red_expiresAt sample_redemption \<rparr>) key" for key
    by (simp add: codec_ok_def sealEnvelope_def sample_red_defs sample_redemption_def MAX_CREDENTIAL_LENGTH_def
        ATTEMPT_TOKEN_PREFIX_def)
  then show ?thesis
    by (intro redeemed_token_authenticates [OF r])
       (simp_all add: sample_redemption_def MAX_TIME_def sample_red_defs is_ws_def)
qed

lemma sample_tables_ok: "ids_unique sample_tables" "within_limits sample_tables" "audit_complete sample_tables"
  by (auto simp: ids_unique_def within_limits_def audit_complete_def sample_tables_def sittings_def audited_def
      split: if_splits)

theorem sittings_within_limits_witness:
  "\<exists>w'. (redemption_step sample_red_platform (\<lambda>_. None) sample_keys)\<^sup>*\<^sup>* \<lparr> db = sample_tables, procs = (\<lambda>_. Ready) \<rparr> w'
     \<and> procs w' 0 = Done (Redeemed sample_redemption) \<and> within_limits (db w') \<and> audit_complete (db w')"
proof -
  obtain t' where r: "redeem sample_red_platform (\<lambda>_. None) sample_keys 1000 1000 ''a1'' ''tok'' None sample_tables
      = (Redeemed sample_redemption, t')" using sample_redeemed by blast
  note run = redeem_is_a_run [OF r]
  show ?thesis using sittings_within_limits [OF run] run sample_tables_ok
    by (intro exI [of _ "\<lparr> db = t', procs = (\<lambda>_. Ready)(0 := Done (Redeemed sample_redemption)) \<rparr>"]) simp
qed

theorem redemptions_serialisable_witness:
  "\<exists>w' calls. (redemption_step sample_red_platform (\<lambda>_. None) sample_keys)\<^sup>*\<^sup>* \<lparr> db = sample_tables, procs = (\<lambda>_. Ready) \<rparr> w'
     \<and> procs w' 0 = Done (Redeemed sample_redemption)
     \<and> db w' = foldl (\<lambda>t c. snd (perform sample_red_platform (\<lambda>_. None) sample_keys t c)) sample_tables calls"
proof -
  obtain t' where r: "redeem sample_red_platform (\<lambda>_. None) sample_keys 1000 1000 ''a1'' ''tok'' None sample_tables
      = (Redeemed sample_redemption, t')" using sample_redeemed by blast
  note run = redeem_is_a_run [OF r]
  show ?thesis using redemptions_serialisable [OF run] run sample_tables_ok
    by (intro exI [of _ "\<lparr> db = t', procs = (\<lambda>_. Ready)(0 := Done (Redeemed sample_redemption)) \<rparr>"]) simp
qed

theorem redeem_refusals_opaque_witness:
  "errorCodeFor (refuse Redeem (R_auth Malformed) []) = Not_found \<and> sample_tables = sample_tables"
  by (rule redeem_refusals_opaque [of sample_red_platform "\<lambda>_. None" sample_keys 0 0 "[]" "[]" None])
     (simp add: redeem_def redeemPrelude_def trim_def trimStart_def trimEnd_def)

subsection \<open>Interview tickets\<close>

text \<open>Interview tickets stay inside the organisation. A ticket is answered only to a staff member,
  for a session stored under that member's own organisation that has not ended, and it names
  exactly the session asked for; for every other session the answer is the same
  \<open>not_found\<close> whether the session exists elsewhere, has ended or never existed.\<close>

theorem ticketRoute_own_sessions:
  assumes "isUuid pf session"
  shows "(\<forall>rsp. ticketRoute pf dateParse toISO keys sessions p session now nonce = Ok_200 rsp \<longrightarrow>
       (\<exists>user org held row. p = StaffPrincipal user org held \<and> sessions (org, session) = Some row
          \<and> session_status row \<noteq> ''ended'' \<and> session_ended row = V_null \<and> rsp_session_id rsp = session
          \<and> rsp_ticket rsp = issueWsTicket pf \<lparr> sessionId = session, issuedAt = Some now \<rparr> nonce (wsTicketKey keys)))
     \<and> (\<forall>user org held. p = StaffPrincipal user org held \<and> sessions (org, session) = None \<longrightarrow>
          ticketRoute pf dateParse toISO keys sessions p session now nonce = Denied Not_found)
     \<and> (\<forall>user org held row. p = StaffPrincipal user org held \<and> sessions (org, session) = Some row
          \<and> session_ended row = V_null \<and> session_status row = ''ended'' \<longrightarrow>
          ticketRoute pf dateParse toISO keys sessions p session now nonce = Denied Not_found)"
proof -
  have ended: "map_sum id Some r \<noteq> Inr None" for r :: "(dbError, int) result"
    by (cases r) auto
  show ?thesis
    using assms
    by (auto simp: ticketRoute_def findSession_def deny_def refuse_def errorCodeFor_def toTicketResponse_def
        wsTicketIssue_def bindResult_def ended optionalDate_def
        split: principal.splits if_splits option.splits sum.splits)
qed

theorem ticketRoute_own_sessions_witness:
  "ticketRoute sample_platform (\<lambda>_. None) (\<lambda>_. ''t'') sample_keys
      (\<lambda>k. if k = (''o2'', ''s1'') then Some \<lparr> session_status = ''live'', session_ended = V_null \<rparr> else None)
      (StaffPrincipal ''u1'' ''o1'' []) ''s1'' 5 ''n'' = Denied Not_found"
  using ticketRoute_own_sessions [of sample_platform "''s1''" "\<lambda>_. None" "\<lambda>_. ''t''" sample_keys
      "\<lambda>k. if k = (''o2'', ''s1'') then Some \<lparr> session_status = ''live'', session_ended = V_null \<rparr> else None"
      "StaffPrincipal ''u1'' ''o1'' []" 5 "''n''"]
  by (simp add: sample_platform_def)

definition ws_claims :: "wsTicket \<Rightarrow> string \<Rightarrow> jvalue" where
  "ws_claims tk nonce = JObject
     [(''v'', JNumber (js_int 1)), (''p'', JString ''ws''), (''sid'', JString (sessionId tk)),
      (''iat'', timeValue (issuedAt tk)), (''n'', JString nonce)]"

text \<open>C38: as configured, interview tickets do not open interviews. The API signs tickets with a key
  derived from the session secret, and the collaboration server is given the session secret itself
  as the ticket secret (\<open>apps/collab/src/index.ts\<close>): unless the two keys happen to sign alike, every
  ticket the API issues is refused there as \<open>signature_invalid\<close>, at every instant.\<close>

theorem derived_key_tickets_refused:
  fixes pf :: platform and secret nonce :: string and tk :: wsTicket
  defines "key \<equiv> deriveCredentialKey pf secret Ws_ticket_key"
    and "msg \<equiv> signedMessage WS_TICKET_PREFIX (encodeBase64Url pf (stringify pf (ws_claims tk nonce)))"
  assumes "codec_ok pf WS_TICKET_PREFIX (ws_claims tk nonce) key" "hmacHex pf key msg \<noteq> hmacHex pf secret msg"
  shows "verifyWsTicket pf (issueWsTicket pf tk nonce (wsTicketKey (deriveCredentialKeys pf secret pep))) secret now
     = Inl Signature_invalid"
proof -
  define payload where "payload = encodeBase64Url pf (stringify pf (ws_claims tk nonce))"
  define sig where "sig = hmacHex pf key (signedMessage WS_TICKET_PREFIX payload)"
  let ?t = "issueWsTicket pf tk nonce (wsTicketKey (deriveCredentialKeys pf secret pep))"
  have t: "?t = sealEnvelope pf WS_TICKET_PREFIX (ws_claims tk nonce) key"
    by (simp add: issueWsTicket_def ws_claims_def deriveCredentialKeys_def key_def)
  have c: "payload \<noteq> []" "DOT \<notin> set payload" "DOT \<notin> set sig" "length ?t \<le> MAX_CREDENTIAL_LENGTH"
    using assms(3) by (auto simp: codec_ok_def payload_def sig_def t Let_def)
  have seal: "?t = WS_TICKET_PREFIX @ DOT # payload @ DOT # sig"
    by (simp add: t sealEnvelope_def payload_def sig_def Let_def)
  then have "splitOn DOT ?t = [WS_TICKET_PREFIX, payload, sig]"
    using c(2,3) by (simp add: splitOn_append splitOn_single)
  then have "openEnvelope pf ?t WS_TICKET_PREFIX secret = Inl Signature_invalid"
    using c(1,4) assms(4) seal by (simp add: openEnvelope_def sig_def payload_def msg_def)
  then show ?thesis by (simp add: verifyWsTicket_def)
qed

theorem derived_key_tickets_refused_witness:
  "verifyWsTicket (sample_ws_platform\<lparr> hmacHex := (\<lambda>k m. if k = ''k'' then ''5e'' else ''6f'') \<rparr>)
     (issueWsTicket (sample_ws_platform\<lparr> hmacHex := (\<lambda>k m. if k = ''k'' then ''5e'' else ''6f'') \<rparr>)
        \<lparr> sessionId = ''s1'', issuedAt = Some 9000 \<rparr> ''n''
        (wsTicketKey (deriveCredentialKeys (sample_ws_platform\<lparr> hmacHex := (\<lambda>k m. if k = ''k'' then ''5e'' else ''6f'') \<rparr>) ''k'' ''p'')))
     ''k'' (Some 9000) = Inl Signature_invalid"
  by (rule derived_key_tickets_refused)
     (simp_all add: codec_ok_def sealEnvelope_def ws_claims_def deriveCredentialKey_def sample_ws_platform_def sample_platform_def
        timeValue_def MAX_CREDENTIAL_LENGTH_def WS_TICKET_PREFIX_def)

end
