(* ===== verification/Api_Errors.thy ===== *)
theory Api_Errors
  imports Js_String
begin

text \<open>
  The error surface of the API: the closed set of codes with their statuses and messages and the
  envelope (\<open>packages/contracts/src/errors.ts\<close>), and the normalisation of whatever a handler or the
  framework throws (\<open>apps/api/src/errors.ts\<close>).
\<close>

datatype errorCode =
    E_unauthenticated | E_forbidden | E_not_found | E_validation_failed | E_conflict | E_rate_limited
  | E_attempt_expired | E_attempt_already_submitted | E_attempt_anonymised | E_question_not_published
  | E_version_immutable | E_translation_immutable | E_locale_coverage_incomplete | E_locale_not_offered
  | E_locale_not_supported | E_candidate_identity_conflict | E_candidate_erased | E_execution_unavailable
  | E_internal

definition ERROR_CODES :: "errorCode list" where
  "ERROR_CODES =
     [E_unauthenticated, E_forbidden, E_not_found, E_validation_failed, E_conflict, E_rate_limited,
      E_attempt_expired, E_attempt_already_submitted, E_attempt_anonymised, E_question_not_published,
      E_version_immutable, E_translation_immutable, E_locale_coverage_incomplete, E_locale_not_offered,
      E_locale_not_supported, E_candidate_identity_conflict, E_candidate_erased, E_execution_unavailable,
      E_internal]"

fun ERROR_CODE_STATUS :: "errorCode \<Rightarrow> nat" where
  "ERROR_CODE_STATUS E_unauthenticated = 401"
| "ERROR_CODE_STATUS E_forbidden = 403"
| "ERROR_CODE_STATUS E_not_found = 404"
| "ERROR_CODE_STATUS E_validation_failed = 422"
| "ERROR_CODE_STATUS E_conflict = 409"
| "ERROR_CODE_STATUS E_attempt_expired = 409"
| "ERROR_CODE_STATUS E_attempt_already_submitted = 409"
| "ERROR_CODE_STATUS E_attempt_anonymised = 409"
| "ERROR_CODE_STATUS E_question_not_published = 409"
| "ERROR_CODE_STATUS E_version_immutable = 409"
| "ERROR_CODE_STATUS E_translation_immutable = 409"
| "ERROR_CODE_STATUS E_locale_coverage_incomplete = 409"
| "ERROR_CODE_STATUS E_candidate_identity_conflict = 409"
| "ERROR_CODE_STATUS E_candidate_erased = 409"
| "ERROR_CODE_STATUS E_locale_not_offered = 422"
| "ERROR_CODE_STATUS E_locale_not_supported = 422"
| "ERROR_CODE_STATUS E_rate_limited = 429"
| "ERROR_CODE_STATUS E_execution_unavailable = 503"
| "ERROR_CODE_STATUS E_internal = 500"

definition statusForErrorCode :: "errorCode \<Rightarrow> nat" where
  "statusForErrorCode c = ERROR_CODE_STATUS c"

fun ERROR_CODE_MESSAGES :: "errorCode \<Rightarrow> string" where
  "ERROR_CODE_MESSAGES E_unauthenticated = ''Authentication is required.''"
| "ERROR_CODE_MESSAGES E_forbidden = ''You do not have permission to perform this action.''"
| "ERROR_CODE_MESSAGES E_not_found = ''The requested resource does not exist.''"
| "ERROR_CODE_MESSAGES E_validation_failed = ''The request was not valid.''"
| "ERROR_CODE_MESSAGES E_conflict = ''The request conflicts with the current state of the resource.''"
| "ERROR_CODE_MESSAGES E_rate_limited = ''Too many requests. Retry after the interval in the Retry-After header.''"
| "ERROR_CODE_MESSAGES E_attempt_expired = ''The deadline for this attempt has passed.''"
| "ERROR_CODE_MESSAGES E_attempt_already_submitted = ''This attempt has already been submitted.''"
| "ERROR_CODE_MESSAGES E_attempt_anonymised = ''This attempt has been anonymised and can no longer be re-graded.''"
| "ERROR_CODE_MESSAGES E_question_not_published = ''This question version is not published.''"
| "ERROR_CODE_MESSAGES E_version_immutable = ''A published question version cannot be modified.''"
| "ERROR_CODE_MESSAGES E_translation_immutable = ''A published translation cannot be modified.''"
| "ERROR_CODE_MESSAGES E_locale_coverage_incomplete = ''Some questions are not available in every offered locale.''"
| "ERROR_CODE_MESSAGES E_locale_not_offered = ''That locale is not offered for this assessment.''"
| "ERROR_CODE_MESSAGES E_locale_not_supported = ''That locale is not supported.''"
| "ERROR_CODE_MESSAGES E_candidate_identity_conflict = ''Two candidate records claim the same person.''"
| "ERROR_CODE_MESSAGES E_candidate_erased = ''This candidate record was erased and cannot be recreated.''"
| "ERROR_CODE_MESSAGES E_execution_unavailable = ''Code execution is temporarily unavailable. Your work is saved.''"
| "ERROR_CODE_MESSAGES E_internal = ''An unexpected error occurred.''"

definition INTERNAL_ERROR_MESSAGE :: string where
  "INTERNAL_ERROR_MESSAGE = ERROR_CODE_MESSAGES E_internal"

text \<open>Details are authored per code; the only ones built here are those of a failed validation.\<close>

record fieldFailure =
  ff_field :: string
  ff_rule :: string

datatype errorDetails = Validation_fields "fieldFailure list" bool | Other_details string

record apiError =
  ae_code :: errorCode
  ae_status :: nat
  ae_message :: string
  ae_details :: "errorDetails option"

definition newApiError :: "errorCode \<Rightarrow> string option \<Rightarrow> errorDetails option \<Rightarrow> apiError" where
  "newApiError c message details =
     \<lparr> ae_code = c, ae_status = ERROR_CODE_STATUS c,
       ae_message = (case message of Some m \<Rightarrow> m | None \<Rightarrow> ERROR_CODE_MESSAGES c), ae_details = details \<rparr>"

definition apiInternal :: apiError where
  "apiInternal = newApiError E_internal (Some INTERNAL_ERROR_MESSAGE) None"

record errorEnvelope =
  env_code :: errorCode
  env_message :: string
  env_details :: "errorDetails option"
  env_requestId :: string

text \<open>What is thrown: an \<open>ApiError\<close>, or anything else.\<close>

datatype thrownValue = Api apiError | Not_api

definition toErrorEnvelope :: "thrownValue \<Rightarrow> string \<Rightarrow> errorEnvelope" where
  "toErrorEnvelope err requestId =
     (case err of
        Api e \<Rightarrow>
          if ae_code e = E_internal
          then \<lparr> env_code = E_internal, env_message = INTERNAL_ERROR_MESSAGE, env_details = None, env_requestId = requestId \<rparr>
          else \<lparr> env_code = ae_code e,
                 env_message = (if length (ae_message e) > 0 then ae_message e else ERROR_CODE_MESSAGES (ae_code e)),
                 env_details = ae_details e, env_requestId = requestId \<rparr>
      | Not_api \<Rightarrow>
          \<lparr> env_code = E_internal, env_message = INTERNAL_ERROR_MESSAGE, env_details = None, env_requestId = requestId \<rparr>)"

subsection \<open>Normalisation\<close>

definition MAX_VALIDATION_FIELDS :: nat where
  "MAX_VALIDATION_FIELDS = 20"

record validationFailure =
  instancePath :: string
  keyword :: string

text \<open>An error reaching the error handler: an \<open>ApiError\<close>, or the framework's error with its
  validation failures, their context and a status. Its message and stack are arbitrary text.\<close>

record frameworkError =
  fe_validation :: "validationFailure list option"
  fe_context :: "string option"
  fe_statusCode :: "nat option"
  fe_message :: string

datatype handlerError = Is_api apiError | Framework frameworkError

definition validationDetails :: "frameworkError \<Rightarrow> errorDetails option" where
  "validationDetails error =
     (case fe_validation error of
        None \<Rightarrow> None
      | Some failures \<Rightarrow>
        if length failures = 0 then None
        else let part = (case fe_context error of Some c \<Rightarrow> c | None \<Rightarrow> ''request'')
             in Some (Validation_fields
                  (map (\<lambda>f. \<lparr> ff_field = part @ instancePath f, ff_rule = keyword f \<rparr>) (take MAX_VALIDATION_FIELDS failures))
                  (length failures > MAX_VALIDATION_FIELDS)))"

definition normaliseError :: "handlerError \<Rightarrow> apiError" where
  "normaliseError error =
     (case error of
        Is_api e \<Rightarrow> e
      | Framework fe \<Rightarrow>
        (case validationDetails fe of
           Some details \<Rightarrow> newApiError E_validation_failed None (Some details)
         | None \<Rightarrow>
           (case fe_statusCode fe of
              None \<Rightarrow> apiInternal
            | Some s \<Rightarrow>
              if s = 400 then newApiError E_validation_failed None None
              else if s = 401 then newApiError E_unauthenticated None None
              else if s = 403 then newApiError E_forbidden None None
              else if s = 404 then newApiError E_not_found None None
              else if s = 405 \<or> s = 406 \<or> s = 413 \<or> s = 415 then newApiError E_validation_failed None None
              else if s = 429 then newApiError E_rate_limited None None
              else apiInternal)))"

text \<open>\<open>send\<close>: the status and the body.\<close>

definition sendError :: "apiError \<Rightarrow> string \<Rightarrow> nat \<times> errorEnvelope" where
  "sendError e requestId = (ae_status e, toErrorEnvelope (Api e) requestId)"

definition handleError :: "handlerError \<Rightarrow> string \<Rightarrow> nat \<times> errorEnvelope" where
  "handleError error requestId = sendError (normaliseError error) requestId"

subsection \<open>What leaves the process\<close>

text \<open>An \<open>ApiError\<close> is only ever built by its constructor.\<close>

definition built :: "handlerError \<Rightarrow> bool" where
  "built error \<longleftrightarrow> (\<forall>e. error = Is_api e \<longrightarrow> (\<exists>c m d. e = newApiError c m d))"

lemma status_range: "400 \<le> ERROR_CODE_STATUS c" "ERROR_CODE_STATUS c < 600"
  "ERROR_CODE_STATUS c = 500 \<longleftrightarrow> c = E_internal"
  by (cases c; simp)+

lemma normaliseError_status: "built error \<Longrightarrow> ae_status (normaliseError error) = ERROR_CODE_STATUS (ae_code (normaliseError error))"
  by (auto simp: built_def normaliseError_def newApiError_def apiInternal_def split: handlerError.splits option.splits)

text \<open>C36: the error surface is closed and an unexpected failure tells nothing. Whatever a handler or
  the framework throws, the response carries one of the declared codes with that code's status and
  at most twenty validation fields; the details of a framework error are only its failed
  validations, and whenever the status is 500 the body is the one fixed message without details,
  whatever the error said.\<close>

theorem error_surface_closed:
  assumes "built error"
  shows "env_code (snd (handleError error rid)) \<in> set ERROR_CODES
     \<and> fst (handleError error rid) = ERROR_CODE_STATUS (env_code (snd (handleError error rid)))
     \<and> (fst (handleError error rid) = 500 \<longrightarrow>
          snd (handleError error rid) = \<lparr> env_code = E_internal, env_message = INTERNAL_ERROR_MESSAGE,
            env_details = None, env_requestId = rid \<rparr>)
     \<and> (\<forall>fe. error = Framework fe \<longrightarrow>
          env_details (snd (handleError error rid)) = validationDetails fe
          \<and> env_message (snd (handleError error rid)) = ERROR_CODE_MESSAGES (env_code (snd (handleError error rid)))
          \<and> (\<forall>fs more. validationDetails fe = Some (Validation_fields fs more) \<longrightarrow> length fs \<le> MAX_VALIDATION_FIELDS))"
proof -
  let ?e = "normaliseError error"
  have all: "c \<in> set ERROR_CODES" for c by (cases c) (simp_all add: ERROR_CODES_def)
  have code: "env_code (snd (handleError error rid)) = ae_code ?e"
    by (simp add: handleError_def sendError_def toErrorEnvelope_def)
  have status: "fst (handleError error rid) = ERROR_CODE_STATUS (ae_code ?e)"
    using normaliseError_status [OF assms] by (simp add: handleError_def sendError_def)
  have framework: "env_details (snd (handleError (Framework fe) rid)) = validationDetails fe
      \<and> env_message (snd (handleError (Framework fe) rid)) = ERROR_CODE_MESSAGES (env_code (snd (handleError (Framework fe) rid)))" for fe
    by (auto simp: handleError_def sendError_def toErrorEnvelope_def normaliseError_def newApiError_def apiInternal_def
        INTERNAL_ERROR_MESSAGE_def split: option.splits)
  have short: "length fs \<le> MAX_VALIDATION_FIELDS" if "validationDetails fe = Some (Validation_fields fs more)" for fe fs more
    using that by (auto simp: validationDetails_def Let_def split: option.splits if_splits)
  have "snd (handleError error rid) = \<lparr> env_code = E_internal, env_message = INTERNAL_ERROR_MESSAGE,
      env_details = None, env_requestId = rid \<rparr>" if "fst (handleError error rid) = 500"
    using that status status_range(3) by (simp add: handleError_def sendError_def toErrorEnvelope_def)
  then show ?thesis using all code status framework short by auto
qed

theorem error_surface_closed_witness:
  "snd (handleError (Framework \<lparr> fe_validation = None, fe_context = None, fe_statusCode = None,
      fe_message = ''relation users does not exist'' \<rparr>) ''r1'')
     = \<lparr> env_code = E_internal, env_message = INTERNAL_ERROR_MESSAGE, env_details = None, env_requestId = ''r1'' \<rparr>"
  using error_surface_closed [of "Framework \<lparr> fe_validation = None, fe_context = None, fe_statusCode = None,
      fe_message = ''relation users does not exist'' \<rparr>" "''r1''"]
  by (simp add: built_def handleError_def sendError_def normaliseError_def validationDetails_def apiInternal_def newApiError_def)

end
