(* ===== verification/Api_Gate.thy ===== *)
theory Api_Gate
  imports Redemption Api_Errors
begin

text \<open>
  What stands between a request and a handler of the API: the cross-site check (\<open>csrf.ts\<close>,
  \<open>auth/csrf-token.ts\<close>, \<open>auth/cookie-names.ts\<close>), the two authentication hooks
  (\<open>credentials/routes.ts\<close>, \<open>auth/staff-session.ts\<close>, \<open>auth/permission-set.ts\<close>), the principal
  (\<open>principal.ts\<close>) and the per-route authorisation (\<open>authorisation.ts\<close>), in the order
  \<open>server.ts\<close> registers them; and the signed cookie of the OIDC redirect
  (\<open>auth/oidc-org-cookie.ts\<close>). The session library is the argument \<open>getSession\<close>.
\<close>

subsection \<open>Requests\<close>

definition API_BASE_PATH :: string where
  "API_BASE_PATH = ''/api/v1''"

text \<open>Methods are ASCII tokens, on which \<open>toUpperCase\<close> moves \<open>a-z\<close> only.\<close>

definition upper_char :: "char \<Rightarrow> char" where
  "upper_char c = (if is_lower c then char_of (of_char c - 32 :: nat) else c)"

definition toUpperCase :: "string \<Rightarrow> string" where
  "toUpperCase s = map upper_char s"

datatype publicCredential = Cred_none | Cred_session

datatype routeAuthorisation = Needs_permission string | Public publicCredential string

text \<open>A request as the hooks see it: the headers under their lower-case names, the route it was
  dispatched to (none for an unmatched path) and the principal the hooks have set.\<close>

record request =
  rq_method :: string
  rq_url :: string
  rq_headers :: "(string, headerValue) jsmap"
  rq_is404 :: bool
  rq_routeUrl :: "string option"
  rq_authorisation :: "routeAuthorisation option"
  rq_principal :: "principal option"

definition headerOf :: "request \<Rightarrow> string \<Rightarrow> string option" where
  "headerOf rq name =
     (case map_get (rq_headers rq) name of
        None \<Rightarrow> None
      | Some H_absent \<Rightarrow> None
      | Some (H_one v) \<Rightarrow> Some v
      | Some (H_many vs) \<Rightarrow> (case vs of [] \<Rightarrow> None | v # _ \<Rightarrow> Some v))"

subsection \<open>Cookies\<close>

definition STAFF_COOKIE_PREFIX :: string where
  "STAFF_COOKIE_PREFIX = ''assaybank''"

definition staffCookieName :: "string \<Rightarrow> bool \<Rightarrow> string" where
  "staffCookieName base secure =
     (if secure then ''__Host-'' @ STAFF_COOKIE_PREFIX @ ''.'' @ base else STAFF_COOKIE_PREFIX @ ''.'' @ base)"

definition sessionCookieName :: "bool \<Rightarrow> string" where
  "sessionCookieName secure = staffCookieName ''session_token'' secure"

fun readParts :: "string list \<Rightarrow> string \<Rightarrow> string option" where
  "readParts [] name = None"
| "readParts (part # parts) name =
     (let trimmed = trim part
      in case indexOf trimmed (CHR ''='') of
           None \<Rightarrow> readParts parts name
         | Some eq \<Rightarrow> if eq > 0 \<and> take eq trimmed = name then Some (drop (eq + 1) trimmed) else readParts parts name)"

definition readCookie :: "string option \<Rightarrow> string \<Rightarrow> string option" where
  "readCookie header name = (case header of None \<Rightarrow> None | Some h \<Rightarrow> readParts (splitOn (CHR '';'') h) name)"

text \<open>Joining with the two characters that separate the attributes of a cookie.\<close>

fun joinSemicolon :: "string list \<Rightarrow> string" where
  "joinSemicolon [] = []"
| "joinSemicolon [x] = x"
| "joinSemicolon (x # xs) = x @ ''; '' @ joinSemicolon xs"

subsection \<open>The CSRF token\<close>

definition CSRF_HEADER :: string where
  "CSRF_HEADER = ''x-csrf-token''"

definition CSRF_COOKIE_NAME :: string where
  "CSRF_COOKIE_NAME = ''__Host-assaybank.csrf_token''"

definition CSRF_COOKIE_NAME_INSECURE :: string where
  "CSRF_COOKIE_NAME_INSECURE = ''assaybank.csrf_token''"

definition SESSION_TTL_SECONDS :: nat where
  "SESSION_TTL_SECONDS = 8 * 60 * 60"

definition TOKEN_DOMAIN :: string where
  "TOKEN_DOMAIN = ''assaybank.csrf-token.v1''"

definition SEPARATOR :: char where
  "SEPARATOR = CHR 0x1F"

definition csrfCookieName :: "bool \<Rightarrow> string" where
  "csrfCookieName secure = (if secure then CSRF_COOKIE_NAME else CSRF_COOKIE_NAME_INSECURE)"

definition csrfSign :: "platform \<Rightarrow> string \<Rightarrow> string \<Rightarrow> string \<Rightarrow> string" where
  "csrfSign pf secret nonce sessionToken =
     hmacHex pf secret (TOKEN_DOMAIN @ [SEPARATOR] @ nonce @ [SEPARATOR] @ sessionToken)"

text \<open>The nonce, sixteen random bytes in hexadecimal, is an argument.\<close>

definition mintCsrfToken :: "platform \<Rightarrow> string \<Rightarrow> string \<Rightarrow> string \<Rightarrow> string" where
  "mintCsrfToken pf nonce secret sessionToken = nonce @ ''.'' @ csrfSign pf secret nonce sessionToken"

definition verifyCsrfToken :: "platform \<Rightarrow> string \<Rightarrow> string \<Rightarrow> string option \<Rightarrow> bool" where
  "verifyCsrfToken pf secret sessionToken token =
     (case token of None \<Rightarrow> False
      | Some t \<Rightarrow>
        (case indexOf t DOT of None \<Rightarrow> False
         | Some dot \<Rightarrow>
           if dot \<le> 0 then False
           else constantTimeEquals (csrfSign pf secret (take dot t) sessionToken) (drop (dot + 1) t)))"

definition csrfCookie :: "platform \<Rightarrow> string \<Rightarrow> string \<Rightarrow> string \<Rightarrow> bool \<Rightarrow> string" where
  "csrfCookie pf nonce secret sessionToken secure =
     joinSemicolon
       ([csrfCookieName secure @ ''='' @ mintCsrfToken pf nonce secret sessionToken,
         ''Max-Age='' @ decimal SESSION_TTL_SECONDS,
         ''Path=/''] @ (if secure then [''Secure''] else []) @ [''SameSite=Lax''])"

definition clearCsrfCookie :: "bool \<Rightarrow> string" where
  "clearCsrfCookie secure =
     joinSemicolon
       ([csrfCookieName secure @ ''='', ''Max-Age=0'', ''Path=/''] @ (if secure then [''Secure''] else []) @ [''SameSite=Lax''])"

subsection \<open>The cookie of the OIDC redirect\<close>

definition OIDC_CALLBACK_PATH :: string where
  "OIDC_CALLBACK_PATH = API_BASE_PATH @ ''/auth/oidc/callback''"

definition COOKIE_DOMAIN :: string where
  "COOKIE_DOMAIN = ''assaybank.oidc-org-cookie.v1''"

definition OIDC_ORG_COOKIE_NAME :: string where
  "OIDC_ORG_COOKIE_NAME = ''assaybank.oidc_org''"

definition OIDC_ORG_COOKIE_TTL_SECONDS :: nat where
  "OIDC_ORG_COOKIE_TTL_SECONDS = 600"

definition oidcSign :: "platform \<Rightarrow> string \<Rightarrow> string \<Rightarrow> string \<Rightarrow> string" where
  "oidcSign pf secret orgId state = hmacHex pf secret (COOKIE_DOMAIN @ [SEPARATOR] @ orgId @ [SEPARATOR] @ state)"

definition oidcCookieName :: "bool \<Rightarrow> string" where
  "oidcCookieName secure = (if secure then ''__Secure-'' @ OIDC_ORG_COOKIE_NAME else OIDC_ORG_COOKIE_NAME)"

definition oidcOrgCookie :: "platform \<Rightarrow> string \<Rightarrow> string \<Rightarrow> string \<Rightarrow> bool \<Rightarrow> string" where
  "oidcOrgCookie pf secret orgId state secure =
     joinSemicolon
       ([oidcCookieName secure @ ''='' @ orgId @ ''.'' @ oidcSign pf secret orgId state,
         ''Max-Age='' @ decimal OIDC_ORG_COOKIE_TTL_SECONDS,
         ''Path='' @ OIDC_CALLBACK_PATH,
         ''HttpOnly''] @ (if secure then [''Secure''] else []) @ [''SameSite=Lax''])"

definition clearOidcOrgCookie :: "bool \<Rightarrow> string" where
  "clearOidcOrgCookie secure =
     oidcCookieName secure @ ''=; Max-Age=0; Path='' @ OIDC_CALLBACK_PATH @ ''; HttpOnly''
       @ (if secure then ''; Secure'' else []) @ ''; SameSite=Lax''"

definition verifyOidcOrgCookie ::
  "platform \<Rightarrow> string \<Rightarrow> string option \<Rightarrow> string option \<Rightarrow> bool \<Rightarrow> string option"
where
  "verifyOidcOrgCookie pf secret cookieHeader state secure =
     (case state of None \<Rightarrow> None
      | Some st \<Rightarrow>
        if st = [] then None
        else (case readCookie cookieHeader (oidcCookieName secure) of
           None \<Rightarrow> None
         | Some raw \<Rightarrow>
           (case indexOf raw DOT of None \<Rightarrow> None
            | Some dot \<Rightarrow>
              if dot \<le> 0 then None
              else if \<not> isUuid pf (take dot raw) then None
              else if constantTimeEquals (oidcSign pf secret (take dot raw) st) (drop (dot + 1) raw)
                   then Some (take dot raw) else None)))"

subsection \<open>The cross-site check\<close>

definition STATE_CHANGING_METHODS :: "string list" where
  "STATE_CHANGING_METHODS = [''POST'', ''PUT'', ''PATCH'', ''DELETE'']"

definition SAFE_FETCH_SITES :: "string list" where
  "SAFE_FETCH_SITES = [''same-origin'', ''none'']"

datatype csrfReason = Csrf_origin | Csrf_fetch_site | Csrf_token

definition TOKEN_EXEMPT_PATHS :: "string list" where
  "TOKEN_EXEMPT_PATHS = [API_BASE_PATH @ ''/auth/login'', API_BASE_PATH @ ''/auth/oidc/start'']"

record csrfTokenOptions =
  ct_secret :: string
  ct_secure :: bool

record csrfOptions =
  allowedOrigins :: "string list"
  co_token :: "csrfTokenOptions option"

definition pathOf :: "request \<Rightarrow> string" where
  "pathOf rq = (case indexOf (rq_url rq) (CHR ''?'') of None \<Rightarrow> rq_url rq | Some query \<Rightarrow> take query (rq_url rq))"

definition csrfTokenRejection :: "platform \<Rightarrow> request \<Rightarrow> string \<Rightarrow> csrfTokenOptions \<Rightarrow> csrfReason option" where
  "csrfTokenRejection pf rq cookies tok =
     (case readCookie (Some cookies) (sessionCookieName (ct_secure tok)) of
        None \<Rightarrow> None
      | Some session \<Rightarrow>
        if pathOf rq \<in> set TOKEN_EXEMPT_PATHS then None
        else (let presented = headerOf rq CSRF_HEADER;
                  stored = readCookie (Some cookies) (csrfCookieName (ct_secure tok))
              in if presented = None \<or> stored = None \<or> presented \<noteq> stored then Some Csrf_token
                 else if \<not> verifyCsrfToken pf (ct_secret tok) session presented then Some Csrf_token
                 else None))"

definition csrfRejection :: "platform \<Rightarrow> request \<Rightarrow> csrfOptions \<Rightarrow> csrfReason option" where
  "csrfRejection pf rq opts =
     (if toUpperCase (rq_method rq) \<notin> set STATE_CHANGING_METHODS then None
      else case headerOf rq ''cookie'' of
        None \<Rightarrow> None
      | Some cookies \<Rightarrow>
        if (case headerOf rq ''origin'' of None \<Rightarrow> False | Some origin \<Rightarrow> origin \<notin> set (allowedOrigins opts))
        then Some Csrf_origin
        else if (case headerOf rq ''sec-fetch-site'' of None \<Rightarrow> False | Some site \<Rightarrow> site \<notin> set SAFE_FETCH_SITES)
        then Some Csrf_fetch_site
        else (case co_token opts of None \<Rightarrow> None | Some tok \<Rightarrow> csrfTokenRejection pf rq cookies tok))"

definition csrfHook :: "platform \<Rightarrow> csrfOptions \<Rightarrow> request \<Rightarrow> (errorCode, request) result" where
  "csrfHook pf opts rq = (case csrfRejection pf rq opts of None \<Rightarrow> Inr rq | Some _ \<Rightarrow> Inl E_forbidden)"

subsection \<open>Principals\<close>

text \<open>\<open>same\<close>: the argument is the very object the request already holds. A plain \<open>Error\<close> is answered
  as \<open>internal\<close>.\<close>

definition setPrincipal :: "bool \<Rightarrow> principal \<Rightarrow> request \<Rightarrow> (errorCode, request) result" where
  "setPrincipal same p rq =
     (if rq_principal rq \<noteq> None \<and> \<not> same then Inl E_internal else Inr (rq\<lparr> rq_principal := Some p \<rparr>))"

definition currentPrincipal :: "request \<Rightarrow> (errorCode, principal) result" where
  "currentPrincipal rq = (case rq_principal rq of None \<Rightarrow> Inl E_unauthenticated | Some p \<Rightarrow> Inr p)"

definition isStaff :: "principal \<Rightarrow> bool" where
  "isStaff p = (case p of StaffPrincipal _ _ _ \<Rightarrow> True | CandidatePrincipal _ _ \<Rightarrow> False)"

definition staffOnly :: "request \<Rightarrow> (errorCode, principal) result" where
  "staffOnly rq = bindResult (currentPrincipal rq) (\<lambda>p. if \<not> isStaff p then Inl E_forbidden else Inr p)"

text \<open>The candidate's hook: a token that does not verify leaves the request without a principal.\<close>

definition candidateHook :: "platform \<Rightarrow> string \<Rightarrow> int \<Rightarrow> request \<Rightarrow> (errorCode, request) result" where
  "candidateHook pf signingKey now rq =
     (case map_get (rq_headers rq) ''authorization'' of
        None \<Rightarrow> Inr rq
      | Some H_absent \<Rightarrow> Inr rq
      | Some header \<Rightarrow>
        (case authenticateAttempt pf header signingKey now None None of
           Inr p \<Rightarrow> setPrincipal False p rq
         | Inl _ \<Rightarrow> Inr rq))"

subsection \<open>Staff sessions\<close>

text \<open>\<open>Array.join(', ')\<close>.\<close>

fun joinComma :: "string list \<Rightarrow> string" where
  "joinComma [] = []"
| "joinComma [x] = x"
| "joinComma (x # xs) = x @ '', '' @ joinComma xs"

fun toWebHeaders :: "(string, headerValue) jsmap \<Rightarrow> (string, string) jsmap" where
  "toWebHeaders [] = []"
| "toWebHeaders ((name, value) # rest) =
     (case value of
        H_absent \<Rightarrow> toWebHeaders rest
      | H_one v \<Rightarrow> (name, v) # toWebHeaders rest
      | H_many vs \<Rightarrow> (name, joinComma vs) # toWebHeaders rest)"

record sessionUser =
  su_id :: string
  su_orgId :: string

text \<open>What the session library resolves the headers to: it may reject (\<open>None\<close>), find nothing, or give an
  object either of whose two parts may be missing or null.\<close>

datatype 'a part = P_undefined | P_null | P_value 'a

record resolvedSession =
  rs_session :: "string part"
  rs_user :: "sessionUser part"

record staffSessionSubject =
  ss_userId :: string
  ss_orgId :: string
  ss_token :: string

type_synonym session_library = "(string, string) jsmap \<Rightarrow> resolvedSession option option"

text \<open>\<open>None\<close> is an exception: the library's own, or reading a member of null.\<close>

definition resolveStaffSession ::
  "platform \<Rightarrow> session_library \<Rightarrow> (string, string) jsmap \<Rightarrow> staffSessionSubject option option"
where
  "resolveStaffSession pf getSession headers =
     (case getSession headers of
        None \<Rightarrow> None
      | Some None \<Rightarrow> Some None
      | Some (Some resolved) \<Rightarrow>
        if rs_session resolved = P_undefined \<or> rs_user resolved = P_undefined then Some None
        else
          (case rs_user resolved of
             P_value user \<Rightarrow>
               if \<not> isUuid pf (su_id user) \<or> \<not> isUuid pf (su_orgId user) then Some None
               else
                 (case rs_session resolved of
                    P_value token \<Rightarrow>
                      Some (Some \<lparr> ss_userId = su_id user, ss_orgId = su_orgId user, ss_token = token \<rparr>)
                  | _ \<Rightarrow> None)
           | _ \<Rightarrow> None))"

text \<open>The rows one organisation sees of the two tables of roles.\<close>

record rbacRows =
  userRoleAssignments :: "(string \<times> string) list"
  userRolePermissions :: "(string \<times> string) list"

definition resolvePermissions :: "rbacRows \<Rightarrow> string \<Rightarrow> string list" where
  "resolvePermissions tx user =
     uniq (concat (map (\<lambda>(u, role). if u = user then map snd (filter (\<lambda>(r, key). r = role) (userRolePermissions tx)) else [])
       (userRoleAssignments tx)))"

definition resolveStaffPrincipal ::
  "platform \<Rightarrow> session_library \<Rightarrow> (string \<Rightarrow> rbacRows) \<Rightarrow> request \<Rightarrow> principal option option"
where
  "resolveStaffPrincipal pf getSession rbac rq =
     (case resolveStaffSession pf getSession (toWebHeaders (rq_headers rq)) of
        None \<Rightarrow> None
      | Some None \<Rightarrow> Some None
      | Some (Some subject) \<Rightarrow>
        Some (Some (StaffPrincipal (ss_userId subject) (ss_orgId subject)
          (resolvePermissions (rbac (ss_orgId subject)) (ss_userId subject)))))"

definition staffHook ::
  "platform \<Rightarrow> session_library \<Rightarrow> (string \<Rightarrow> rbacRows) \<Rightarrow> request \<Rightarrow> (errorCode, request) result"
where
  "staffHook pf getSession rbac rq =
     (case rq_principal rq of
        Some existing \<Rightarrow>
          (case resolveStaffSession pf getSession (toWebHeaders (rq_headers rq)) of
             None \<Rightarrow> Inl E_internal
           | Some None \<Rightarrow> Inr rq
           | Some (Some subject) \<Rightarrow> Inl E_unauthenticated)
      | None \<Rightarrow>
        (case resolveStaffPrincipal pf getSession rbac rq of
           None \<Rightarrow> Inl E_internal
         | Some None \<Rightarrow> Inr rq
         | Some (Some p) \<Rightarrow> setPrincipal False p rq))"

subsection \<open>Per-route authorisation\<close>

record publicRoute =
  pr_method :: string
  pr_url :: string
  pr_credential :: publicCredential
  pr_reason :: string

text \<open>The reasons are the source's, its section sign written out.\<close>

definition PUBLIC_ROUTES :: "publicRoute list" where
  "PUBLIC_ROUTES =
     [\<lparr> pr_method = ''GET'', pr_url = ''/healthz'', pr_credential = Cred_none,
        pr_reason = ''Liveness, probed by the orchestrator, which holds no credential and must not need one.'' \<rparr>,
      \<lparr> pr_method = ''GET'', pr_url = ''/readyz'', pr_credential = Cred_none,
        pr_reason = ''Readiness, probed by the load balancer; it reports dependency status, never data.'' \<rparr>,
      \<lparr> pr_method = ''GET'', pr_url = ''/metrics'', pr_credential = Cred_none,
        pr_reason = ''Scraped by the collector on the pod network; the exposition is aggregate and cardinality-guarded, so it carries no tenant row (docs/12 section 6).'' \<rparr>,
      \<lparr> pr_method = ''GET'', pr_url = ''/openapi.json'', pr_credential = Cred_none,
        pr_reason = ''The published contract. It describes the API; it contains no organisation data.'' \<rparr>,
      \<lparr> pr_method = ''OPTIONS'', pr_url = ''*'', pr_credential = Cred_none,
        pr_reason = ''The CORS preflight registered by @fastify/cors. A browser sends it without credentials by definition, and it answers with headers rather than a body.'' \<rparr>,
      \<lparr> pr_method = ''POST'', pr_url = API_BASE_PATH @ ''/auth/login'', pr_credential = Cred_none,
        pr_reason = ''Issues the session. Requiring one would be circular (docs/03 section 1).'' \<rparr>,
      \<lparr> pr_method = ''POST'', pr_url = API_BASE_PATH @ ''/auth/oidc/start'', pr_credential = Cred_none,
        pr_reason = ''Begins the OIDC redirect, before any session exists (docs/03 section 1).'' \<rparr>,
      \<lparr> pr_method = ''GET'', pr_url = API_BASE_PATH @ ''/auth/oidc/callback'', pr_credential = Cred_none,
        pr_reason = ''The identity provider redirects the browser here carrying a code, not a session; the state parameter, not a permission, is what authorises it.'' \<rparr>,
      \<lparr> pr_method = ''POST'', pr_url = API_BASE_PATH @ ''/candidate/redeem'', pr_credential = Cred_none,
        pr_reason = ''A candidate has no account. Redeeming an invitation token is how they obtain the only credential they will ever hold (docs/03 section 1); it is rate limited per address.'' \<rparr>,
      \<lparr> pr_method = ''POST'', pr_url = API_BASE_PATH @ ''/auth/logout'', pr_credential = Cred_session,
        pr_reason = ''Ends the caller's own session. There is no other actor and no action to name.'' \<rparr>,
      \<lparr> pr_method = ''GET'', pr_url = API_BASE_PATH @ ''/auth/me'', pr_credential = Cred_session,
        pr_reason = ''Returns the caller's own user, organisation and permission set. The subject is the session itself, so a permission gating it would have to be held by everyone.'' \<rparr>]"

datatype denialReason = Undeclared | Denied_unauthenticated | Denied_permission | Denied_principal_kind

record routeRecord =
  rr_method :: string
  rr_url :: string
  rr_declaration :: "routeAuthorisation option"

definition routeKey :: "string \<Rightarrow> string \<Rightarrow> string" where
  "routeKey m url = (let upper = toUpperCase m in (if upper = ''HEAD'' then ''GET'' else upper) @ '' '' @ url)"

datatype registrationError = No_reason publicRoute | Listed_twice string | Declares_public string | Declared_and_listed string string

fun indexLoop :: "(string, publicRoute) jsmap \<Rightarrow> publicRoute list \<Rightarrow> (registrationError, (string, publicRoute) jsmap) result" where
  "indexLoop index [] = Inr index"
| "indexLoop index (route # routes) =
     (if trim (pr_reason route) = [] then Inl (No_reason route)
      else let key = routeKey (pr_method route) (pr_url route)
           in if map_get index key \<noteq> None then Inl (Listed_twice key)
              else indexLoop (map_set index key route) routes)"

definition indexPublicRoutes :: "publicRoute list \<Rightarrow> (registrationError, (string, publicRoute) jsmap) result" where
  "indexPublicRoutes routes = indexLoop [] routes"

definition publicAuthorisation :: "publicRoute \<Rightarrow> routeAuthorisation" where
  "publicAuthorisation entry = Public (pr_credential entry) (pr_reason entry)"

definition NO_ROUTE :: routeAuthorisation where
  "NO_ROUTE = Public Cred_none
     ''No route matched. The not-found handler reads nothing and answers everyone alike.''"

definition authorisationFor :: "request \<Rightarrow> (string, publicRoute) jsmap \<Rightarrow> routeAuthorisation option" where
  "authorisationFor rq publicRoutes =
     (if rq_is404 rq then Some NO_ROUTE
      else case rq_authorisation rq of
        Some declared \<Rightarrow> Some declared
      | None \<Rightarrow>
        (case map_get publicRoutes (routeKey (rq_method rq) (case rq_routeUrl rq of Some u \<Rightarrow> u | None \<Rightarrow> [])) of
           None \<Rightarrow> None
         | Some entry \<Rightarrow> Some (publicAuthorisation entry)))"

fun refuseRequest :: "denialReason \<Rightarrow> errorCode" where
  "refuseRequest Undeclared = E_forbidden"
| "refuseRequest Denied_unauthenticated = E_unauthenticated"
| "refuseRequest Denied_permission = E_forbidden"
| "refuseRequest Denied_principal_kind = E_forbidden"

definition enforce :: "request \<Rightarrow> routeAuthorisation option \<Rightarrow> (denialReason, unit) result" where
  "enforce rq declaration =
     (case declaration of
        None \<Rightarrow> Inl Undeclared
      | Some (Public Cred_none _) \<Rightarrow> Inr ()
      | Some (Public Cred_session _) \<Rightarrow>
        (case rq_principal rq of
           None \<Rightarrow> Inl Denied_unauthenticated
         | Some p \<Rightarrow> if \<not> isStaff p then Inl Denied_principal_kind else Inr ())
      | Some (Needs_permission permission) \<Rightarrow>
        (case rq_principal rq of
           None \<Rightarrow> Inl Denied_unauthenticated
         | Some p \<Rightarrow> if \<not> can p permission then Inl Denied_permission else Inr ()))"

text \<open>The \<open>onRoute\<close> hook, which runs for every route registered and may refuse it.\<close>

record routeOptions =
  ro_methods :: "string list"
  ro_url :: string
  ro_authorisation :: "routeAuthorisation option"

fun recordMethods ::
  "(string, publicRoute) jsmap \<Rightarrow> string \<Rightarrow> routeAuthorisation option \<Rightarrow> routeRecord list \<Rightarrow> string list
     \<Rightarrow> (registrationError, routeRecord list) result"
where
  "recordMethods publicRoutes url declared table [] = Inr table"
| "recordMethods publicRoutes url declared table (m # ms) =
     (let allowListed = map_get publicRoutes (routeKey m url)
      in if declared \<noteq> None \<and> allowListed \<noteq> None then Inl (Declared_and_listed m url)
         else recordMethods publicRoutes url declared
           (table @ [\<lparr> rr_method = m, rr_url = url,
              rr_declaration = (case declared of Some d \<Rightarrow> Some d | None \<Rightarrow> map_option publicAuthorisation allowListed) \<rparr>]) ms)"

definition onRoute ::
  "(string, publicRoute) jsmap \<Rightarrow> routeRecord list \<Rightarrow> routeOptions \<Rightarrow> (registrationError, routeRecord list) result"
where
  "onRoute publicRoutes table route =
     (case ro_authorisation route of
        Some (Public _ _) \<Rightarrow> Inl (Declares_public (ro_url route))
      | _ \<Rightarrow> recordMethods publicRoutes (ro_url route) (ro_authorisation route) table (ro_methods route))"

fun registerRoutes ::
  "(string, publicRoute) jsmap \<Rightarrow> routeRecord list \<Rightarrow> routeOptions list \<Rightarrow> (registrationError, routeRecord list) result"
where
  "registerRoutes publicRoutes table [] = Inr table"
| "registerRoutes publicRoutes table (r # rs) =
     bindResult (onRoute publicRoutes table r) (\<lambda>t. registerRoutes publicRoutes t rs)"

record routeReport =
  ar_routes :: "routeRecord list"
  ar_undeclared :: "routeRecord list"

definition authorisationReport :: "routeRecord list \<Rightarrow> routeReport" where
  "authorisationReport table = \<lparr> ar_routes = table, ar_undeclared = filter (\<lambda>r. rr_declaration r = None) table \<rparr>"

definition describeRoutes :: "routeRecord list \<Rightarrow> string" where
  "describeRoutes records = joinWith (CHR 0x0A) (map (\<lambda>r. rr_method r @ '' '' @ rr_url r) records)"

definition authorisationHook :: "(string, publicRoute) jsmap \<Rightarrow> request \<Rightarrow> (errorCode, request) result" where
  "authorisationHook publicRoutes rq =
     (case enforce rq (authorisationFor rq publicRoutes) of
        Inl reason \<Rightarrow> Inl (refuseRequest reason)
      | Inr _ \<Rightarrow> Inr rq)"

subsection \<open>The hooks in order\<close>

text \<open>
  The server registers the cross-site check, then the candidate hook where credentials are
  configured, then the staff hook where staff identity is, then the authorisation. The first two
  run on \<open>onRequest\<close>, the last two on \<open>preValidation\<close>, each in order of registration; the first to
  fail ends the request.
\<close>

record staffIdentity =
  si_sessionSecret :: string
  si_secureCookies :: bool
  si_getSession :: session_library
  si_db :: "string \<Rightarrow> rbacRows"

record gateConfig =
  gc_corsAllowedOrigins :: "string list"
  gc_attemptTokenKey :: "string option"
  gc_staffIdentity :: "staffIdentity option"
  gc_publicRoutes :: "(string, publicRoute) jsmap"

definition csrfOptionsOf :: "gateConfig \<Rightarrow> csrfOptions" where
  "csrfOptionsOf cfg =
     \<lparr> allowedOrigins = gc_corsAllowedOrigins cfg,
       co_token = map_option (\<lambda>si. \<lparr> ct_secret = si_sessionSecret si, ct_secure = si_secureCookies si \<rparr>)
         (gc_staffIdentity cfg) \<rparr>"

definition authenticate :: "platform \<Rightarrow> gateConfig \<Rightarrow> int \<Rightarrow> request \<Rightarrow> (errorCode, request) result" where
  "authenticate pf cfg now rq =
     bindResult (case gc_attemptTokenKey cfg of None \<Rightarrow> Inr rq | Some key \<Rightarrow> candidateHook pf key now rq)
       (\<lambda>rq1. case gc_staffIdentity cfg of None \<Rightarrow> Inr rq1 | Some si \<Rightarrow> staffHook pf (si_getSession si) (si_db si) rq1)"

definition gate :: "platform \<Rightarrow> gateConfig \<Rightarrow> int \<Rightarrow> request \<Rightarrow> (errorCode, request) result" where
  "gate pf cfg now rq =
     bindResult (csrfHook pf (csrfOptionsOf cfg) rq)
       (\<lambda>rq1. bindResult (authenticate pf cfg now rq1) (authorisationHook (gc_publicRoutes cfg)))"

subsection \<open>What the authentication hooks establish\<close>

lemma authenticateAttempt_candidate:
  "authenticateAttempt pf header key now e srf = Inr p
     \<Longrightarrow> \<exists>cred claims. bearerCredential header = Some cred
           \<and> verifyAttemptToken pf cred key (Some now) e = Inr claims
           \<and> p = CandidatePrincipal (attemptId claims) (token_orgId claims)"
  by (auto simp: authenticateAttempt_def Let_def split: option.splits sum.splits)

text \<open>Who a request speaks for: the staff member its session resolves to, or the attempt its bearer
  token names.\<close>

definition staff_session :: "platform \<Rightarrow> gateConfig \<Rightarrow> request \<Rightarrow> staffSessionSubject option" where
  "staff_session pf cfg rq =
     (case gc_staffIdentity cfg of None \<Rightarrow> None
      | Some si \<Rightarrow> Option.bind (resolveStaffSession pf (si_getSession si) (toWebHeaders (rq_headers rq))) id)"

definition session_fails :: "platform \<Rightarrow> gateConfig \<Rightarrow> request \<Rightarrow> bool" where
  "session_fails pf cfg rq =
     (case gc_staffIdentity cfg of None \<Rightarrow> False
      | Some si \<Rightarrow> resolveStaffSession pf (si_getSession si) (toWebHeaders (rq_headers rq)) = None)"

lemma staff_session_resolved: "staff_session pf cfg rq = Some subject \<Longrightarrow> \<not> session_fails pf cfg rq"
  by (auto simp: staff_session_def session_fails_def bind_eq_Some_conv split: option.splits)

definition candidate_of :: "platform \<Rightarrow> gateConfig \<Rightarrow> int \<Rightarrow> request \<Rightarrow> principal option" where
  "candidate_of pf cfg now rq =
     (case (gc_attemptTokenKey cfg, map_get (rq_headers rq) ''authorization'') of
        (Some key, Some header) \<Rightarrow>
          (case authenticateAttempt pf header key now None None of Inr p \<Rightarrow> Some p | Inl _ \<Rightarrow> None)
      | _ \<Rightarrow> None)"

definition staff_of :: "gateConfig \<Rightarrow> staffSessionSubject \<Rightarrow> principal" where
  "staff_of cfg subject =
     StaffPrincipal (ss_userId subject) (ss_orgId subject)
       (case gc_staffIdentity cfg of None \<Rightarrow> []
        | Some si \<Rightarrow> resolvePermissions (si_db si (ss_orgId subject)) (ss_userId subject))"

lemma candidate_of_not_staff: "candidate_of pf cfg now rq = Some p \<Longrightarrow> \<not> isStaff p"
  by (auto simp: candidate_of_def isStaff_def dest!: authenticateAttempt_candidate split: option.splits sum.splits)

lemma authenticateAttempt_absent [simp]: "authenticateAttempt pf H_absent key now e srf = Inr p \<longleftrightarrow> False"
  by (auto simp: authenticateAttempt_def Let_def)

text \<open>The two hooks together, as one function of the two credentials.\<close>

lemma authenticate_eq:
  assumes "rq_principal rq = None"
  shows "authenticate pf cfg now rq =
    (if session_fails pf cfg rq then Inl E_internal
     else case (candidate_of pf cfg now rq, staff_session pf cfg rq) of
       (None, None) \<Rightarrow> Inr rq
     | (Some p, None) \<Rightarrow> Inr (rq\<lparr> rq_principal := Some p \<rparr>)
     | (None, Some subject) \<Rightarrow> Inr (rq\<lparr> rq_principal := Some (staff_of cfg subject) \<rparr>)
     | (Some _, Some _) \<Rightarrow> Inl E_unauthenticated)"
  using assms
  by (auto simp: authenticate_def candidateHook_def staffHook_def resolveStaffPrincipal_def setPrincipal_def
      candidate_of_def staff_session_def session_fails_def staff_of_def split: option.splits sum.splits headerValue.splits)

lemma csrfHook_Inr: "csrfHook pf opts rq = Inr rq' \<longleftrightarrow> csrfRejection pf rq opts = None \<and> rq' = rq"
  by (auto simp: csrfHook_def split: option.splits)

lemma authorisationHook_Inr:
  "authorisationHook idx rq = Inr rq' \<longleftrightarrow> rq' = rq \<and> enforce rq (authorisationFor rq idx) = Inr ()"
  by (auto simp: authorisationHook_def split: sum.splits)

lemma authorisationFor_principal [simp]: "authorisationFor (rq\<lparr> rq_principal := p \<rparr>) idx = authorisationFor rq idx"
  by (simp add: authorisationFor_def split: option.split)

lemma in_resolvePermissions:
  "key \<in> set (resolvePermissions tx user) \<longleftrightarrow>
     (\<exists>role. (user, role) \<in> set (userRoleAssignments tx) \<and> (role, key) \<in> set (userRolePermissions tx))"
  by (auto simp: resolvePermissions_def image_iff split: if_splits)

text \<open>What lets a declaration through.\<close>

lemma enforce_Inr:
  "enforce rq declaration = Inr () \<longleftrightarrow>
     (\<exists>d. declaration = Some d
        \<and> (case d of
             Public Cred_none _ \<Rightarrow> True
           | Public Cred_session _ \<Rightarrow> (\<exists>p. rq_principal rq = Some p \<and> isStaff p)
           | Needs_permission key \<Rightarrow> (\<exists>p. rq_principal rq = Some p \<and> can p key)))"
  by (auto simp: enforce_def split: option.splits routeAuthorisation.splits publicCredential.splits)

lemma can_staff: "can p key \<Longrightarrow> isStaff p"
  by (cases p) (auto simp: isStaff_def split: if_splits)

lemma enforce_not_staff:
  "rq_principal rq = Some p \<Longrightarrow> \<not> isStaff p
     \<Longrightarrow> enforce rq declaration = Inr () \<longleftrightarrow> (\<exists>reason. declaration = Some (Public Cred_none reason))"
  using can_staff [of p]
  by (auto simp: enforce_def split: option.splits routeAuthorisation.splits publicCredential.splits simp del: can.simps)

text \<open>An admitted request, in terms of its two credentials.\<close>

lemma gate_Inr:
  assumes "rq_principal rq = None"
  shows "gate pf cfg now rq = Inr rq' \<longleftrightarrow>
    csrfRejection pf rq (csrfOptionsOf cfg) = None
    \<and> \<not> session_fails pf cfg rq
    \<and> (candidate_of pf cfg now rq = None \<or> staff_session pf cfg rq = None)
    \<and> rq' = rq\<lparr> rq_principal := (case candidate_of pf cfg now rq of Some p \<Rightarrow> Some p
          | None \<Rightarrow> map_option (staff_of cfg) (staff_session pf cfg rq)) \<rparr>
    \<and> enforce rq' (authorisationFor rq (gc_publicRoutes cfg)) = Inr ()"
proof -
  have keep: "rq\<lparr> rq_principal := None \<rparr> = rq" using assms by (cases rq) simp
  show ?thesis
    by (cases "candidate_of pf cfg now rq"; cases "staff_session pf cfg rq")
      (auto simp: gate_def bindResult_Inr_iff csrfHook_Inr authenticate_eq [OF assms] authorisationHook_Inr keep)
qed

subsection \<open>Complete mediation\<close>

text \<open>C7: no request reaches a handler without the authority its route declares. Whatever the headers,
  a request the hooks let through either matched no route, or a route whose declaration it meets:
  a public route that wants no credential; one that wants a session, with a staff session the session
  library resolves; or one that names a permission, which is in the catalogue and which a role of the
  signed-in user grants in the user's own organisation. A route that declares nothing admits nobody.\<close>

theorem gate_mediates:
  assumes "rq_principal rq = None" "gate pf cfg now rq = Inr rq'"
  shows "\<exists>d. authorisationFor rq (gc_publicRoutes cfg) = Some d \<and>
    (case d of
       Public Cred_none _ \<Rightarrow> True
     | Public Cred_session _ \<Rightarrow> (\<exists>subject. staff_session pf cfg rq = Some subject \<and> rq_principal rq' = Some (staff_of cfg subject))
     | Needs_permission key \<Rightarrow>
         isPermission key \<and>
         (\<exists>si subject role. gc_staffIdentity cfg = Some si \<and> staff_session pf cfg rq = Some subject
            \<and> rq_principal rq' = Some (staff_of cfg subject)
            \<and> (ss_userId subject, role) \<in> set (userRoleAssignments (si_db si (ss_orgId subject)))
            \<and> (role, key) \<in> set (userRolePermissions (si_db si (ss_orgId subject)))))"
proof -
  from gate_Inr [OF assms(1), THEN iffD1, OF assms(2)]
  have rq': "rq_principal rq' = (case candidate_of pf cfg now rq of Some p \<Rightarrow> Some p
          | None \<Rightarrow> map_option (staff_of cfg) (staff_session pf cfg rq))"
    and ok: "enforce rq' (authorisationFor rq (gc_publicRoutes cfg)) = Inr ()" by auto
  have staff: "\<exists>subject. staff_session pf cfg rq = Some subject \<and> p = staff_of cfg subject"
    if "rq_principal rq' = Some p" "isStaff p" for p
    using that rq' candidate_of_not_staff by (auto split: option.splits)
  have held: "\<exists>si role. gc_staffIdentity cfg = Some si \<and> isPermission key
       \<and> (ss_userId subject, role) \<in> set (userRoleAssignments (si_db si (ss_orgId subject)))
       \<and> (role, key) \<in> set (userRolePermissions (si_db si (ss_orgId subject)))"
    if "can (staff_of cfg subject) key" for subject key
    using that by (cases "gc_staffIdentity cfg") (auto simp: staff_of_def in_resolvePermissions split: if_splits)
  from ok [unfolded enforce_Inr] obtain d where d: "authorisationFor rq (gc_publicRoutes cfg) = Some d"
    and meets: "case d of Public Cred_none _ \<Rightarrow> True
           | Public Cred_session _ \<Rightarrow> (\<exists>p. rq_principal rq' = Some p \<and> isStaff p)
           | Needs_permission key \<Rightarrow> (\<exists>p. rq_principal rq' = Some p \<and> can p key)" by blast
  show ?thesis
  proof (cases d)
    case (Needs_permission key)
    with meets obtain p where p: "rq_principal rq' = Some p" "can p key" by auto
    from staff [OF p(1) can_staff [OF p(2)]] obtain subject
      where "staff_session pf cfg rq = Some subject" "p = staff_of cfg subject" by blast
    with held [of subject key] p d Needs_permission show ?thesis by (simp del: can.simps) blast
  next
    case (Public cred reason)
    with meets staff d show ?thesis by (cases cred) auto
  qed
qed

text \<open>The two credential domains never mix. A request whose bearer token verifies as an attempt
  token is let through only where no credential is wanted, speaks for that attempt alone, and only
  if it carries no staff session: with both credentials every request is refused, public route or
  not.\<close>

theorem candidate_confined:
  assumes "rq_principal rq = None" "candidate_of pf cfg now rq = Some p"
  shows "(staff_session pf cfg rq \<noteq> None \<longrightarrow> (\<exists>e. gate pf cfg now rq = Inl e \<and> e \<in> {E_unauthenticated, E_forbidden}))
    \<and> (\<forall>rq'. gate pf cfg now rq = Inr rq' \<longrightarrow>
          rq_principal rq' = Some p
          \<and> (\<exists>reason. authorisationFor rq (gc_publicRoutes cfg) = Some (Public Cred_none reason)))"
proof -
  have none: "\<not> isStaff p" by (rule candidate_of_not_staff [OF assms(2)])
  have "gate pf cfg now rq \<in> {Inl E_unauthenticated, Inl E_forbidden}" if "staff_session pf cfg rq \<noteq> None"
    using that assms staff_session_resolved [of pf cfg rq]
    by (auto simp: gate_def csrfHook_def authenticate_eq split: option.splits)
  moreover have "rq_principal rq' = Some p \<and> (\<exists>reason. authorisationFor rq (gc_publicRoutes cfg) = Some (Public Cred_none reason))"
    if "gate pf cfg now rq = Inr rq'" for rq'
    using gate_Inr [OF assms(1), THEN iffD1, OF that] assms(2) none enforce_not_staff [of rq' p] by auto
  ultimately show ?thesis by auto
qed

subsection \<open>Searching and cookies\<close>

lemma indexOf_append: "c \<notin> set s \<Longrightarrow> indexOf (s @ c # t) c = Some (length s)"
  by (induction s) auto

lemma indexOf_split: "indexOf s c = Some i \<Longrightarrow> s = take i s @ c # drop (Suc i) s"
  using indexOf_Some [of s c i] by (metis id_take_nth_drop)

lemma indexOf_takeWhile: "indexOf s c = Some i \<Longrightarrow> take i s = takeWhile (\<lambda>x. x \<noteq> c) s"
  by (induction s arbitrary: i) (auto split: if_splits)

lemma splitOn_joinSemicolon:
  "\<forall>x \<in> set (y # xs). CHR '';'' \<notin> set x
     \<Longrightarrow> splitOn (CHR '';'') (joinSemicolon (y # xs)) = y # map ((#) (CHR '' '')) xs"
proof (induction xs arbitrary: y)
  case Nil
  then show ?case by (simp add: splitOn_single)
next
  case (Cons x xs)
  have "splitOn (CHR '';'') (CHR '' '' # joinSemicolon (x # xs)) = map ((#) (CHR '' '')) (x # xs)"
    using Cons.IH [of x] Cons.prems by (simp split: list.splits)
  with Cons.prems show ?case by (simp add: splitOn_append)
qed

lemma readParts_skip:
  assumes "\<forall>x \<in> set xs. takeWhile (\<lambda>c. c \<noteq> CHR ''='') (trim x) \<noteq> name"
  shows "readParts (xs @ ys) name = readParts ys name"
  using assms by (induction xs) (auto simp: Let_def indexOf_takeWhile split: option.splits)

lemma trim_space [simp]: "trim (CHR '' '' # s) = trim s"
  using trim_prepend_ws [of "'' ''" s] by (simp add: is_ws_def)

text \<open>A cookie sent among others is read back.\<close>

lemma readCookie_among:
  assumes "\<forall>x \<in> set (before @ after). CHR '';'' \<notin> set x"
    and "\<forall>x \<in> set before. takeWhile (\<lambda>c. c \<noteq> CHR ''='') (trim x) \<noteq> name"
    and "name \<noteq> []" "CHR ''='' \<notin> set name" and "\<forall>c \<in> set name \<union> set v. \<not> is_ws c \<and> c \<noteq> CHR '';''"
  shows "readCookie (Some (joinSemicolon (before @ (name @ ''='' @ v) # after))) name = Some v"
proof -
  let ?kv = "name @ ''='' @ v"
  have own: "readParts (?kv # ps) name = Some v" "readParts ((CHR '' '' # ?kv) # ps) name = Some v" for ps
    using assms(3-5) by (simp_all add: trim_no_ws is_ws_def indexOf_append)
  have fine: "\<forall>x \<in> set (before @ ?kv # after). CHR '';'' \<notin> set x" using assms(1,5) by auto
  show ?thesis
  proof (cases before)
    case Nil
    with fine own splitOn_joinSemicolon [of ?kv after] show ?thesis by (simp add: readCookie_def)
  next
    case (Cons b bs)
    have "splitOn (CHR '';'') (joinSemicolon (before @ ?kv # after))
        = (b # map ((#) (CHR '' '')) bs) @ (CHR '' '' # ?kv) # map ((#) (CHR '' '')) after"
      using fine splitOn_joinSemicolon [of b "bs @ ?kv # after"] by (simp add: Cons)
    moreover have "readParts ((b # map ((#) (CHR '' '')) bs) @ ps) name = readParts ps name" for ps
      by (rule readParts_skip) (use assms(2) in \<open>auto simp: Cons\<close>)
    ultimately show ?thesis using own(2) by (simp only: readCookie_def option.case)
  qed
qed

subsection \<open>The CSRF token\<close>

lemma verifyCsrfToken_iff:
  "verifyCsrfToken pf secret session token \<longleftrightarrow>
     (\<exists>nonce. nonce \<noteq> [] \<and> DOT \<notin> set nonce \<and> token = Some (mintCsrfToken pf nonce secret session))"
proof
  assume "verifyCsrfToken pf secret session token"
  then obtain t dot where t: "token = Some t" "indexOf t DOT = Some dot" "dot > 0"
    and sig: "csrfSign pf secret (take dot t) session = drop (dot + 1) t"
    by (auto simp: verifyCsrfToken_def split: option.splits if_splits)
  have "t = mintCsrfToken pf (take dot t) secret session"
    using indexOf_split [OF t(2)] sig by (simp add: mintCsrfToken_def)
  moreover have "take dot t \<noteq> [] \<and> DOT \<notin> set (take dot t)" using indexOf_Some [OF t(2)] t(3) by auto
  ultimately show "\<exists>nonce. nonce \<noteq> [] \<and> DOT \<notin> set nonce \<and> token = Some (mintCsrfToken pf nonce secret session)"
    using t(1) by blast
qed (auto simp: verifyCsrfToken_def mintCsrfToken_def indexOf_append)

text \<open>C29: a state-changing request that carries a staff session was sent by a page that could read that
  session's token. Whatever origin it claims, the hooks let it through, outside the two paths that
  begin a session, only when the header and the cookie hold the same token, and that token is one the
  server minted for this very session under its secret.\<close>

theorem state_change_needs_token:
  assumes "rq_principal rq = None" "gate pf cfg now rq = Inr rq'"
    and "toUpperCase (rq_method rq) \<in> {''POST'', ''PUT'', ''PATCH'', ''DELETE''}"
    and "gc_staffIdentity cfg = Some si" "headerOf rq ''cookie'' = Some cookies"
    and "readCookie (Some cookies) (sessionCookieName (si_secureCookies si)) = Some session"
    and "pathOf rq \<notin> {''/api/v1/auth/login'', ''/api/v1/auth/oidc/start''}"
  shows "\<exists>nonce. nonce \<noteq> [] \<and> DOT \<notin> set nonce
    \<and> headerOf rq CSRF_HEADER = Some (mintCsrfToken pf nonce (si_sessionSecret si) session)
    \<and> readCookie (Some cookies) (csrfCookieName (si_secureCookies si)) = headerOf rq CSRF_HEADER
    \<and> (\<forall>origin. headerOf rq ''origin'' = Some origin \<longrightarrow> origin \<in> set (gc_corsAllowedOrigins cfg))"
proof -
  have "csrfRejection pf rq (csrfOptionsOf cfg) = None"
    using gate_Inr [OF assms(1)] assms(2) by blast
  then have tok: "csrfTokenRejection pf rq cookies \<lparr> ct_secret = si_sessionSecret si, ct_secure = si_secureCookies si \<rparr> = None"
    and origins: "\<forall>origin. headerOf rq ''origin'' = Some origin \<longrightarrow> origin \<in> set (gc_corsAllowedOrigins cfg)"
    using assms(3-5) by (auto simp: csrfRejection_def csrfOptionsOf_def STATE_CHANGING_METHODS_def split: if_splits option.splits)
  from tok have "headerOf rq CSRF_HEADER = readCookie (Some cookies) (csrfCookieName (si_secureCookies si))
      \<and> verifyCsrfToken pf (si_sessionSecret si) session (headerOf rq CSRF_HEADER)"
    using assms(6,7)
    by (simp add: csrfTokenRejection_def TOKEN_EXEMPT_PATHS_def API_BASE_PATH_def Let_def split: if_splits)
  then show ?thesis using origins by (auto simp: verifyCsrfToken_iff)
qed

text \<open>The cookie's first attribute is the pair a browser sends back.\<close>

lemma pair_of_cookie:
  "CHR '';'' \<notin> set kv \<Longrightarrow> takeWhile (\<lambda>c. c \<noteq> CHR '';'') (joinSemicolon (kv # x # xs)) = kv"
  by (simp, subst takeWhile_append2) auto

text \<open>A redirect to the identity provider comes back to the organisation it left from. The pair of
  the cookie set when the redirect starts, sent back among any other cookies, names that
  organisation under the same state; under a state whose signature differs, or none, it names
  nothing.\<close>

theorem oidc_cookie_round_trip:
  assumes "isUuid pf org" "DOT \<notin> set org" "org \<noteq> []" "state \<noteq> []"
    and "\<forall>c \<in> set org \<union> set (oidcSign pf secret org state). \<not> is_ws c \<and> c \<noteq> CHR '';''"
    and "\<forall>x \<in> set (before @ after). CHR '';'' \<notin> set x"
    and "\<forall>x \<in> set before. takeWhile (\<lambda>c. c \<noteq> CHR ''='') (trim x) \<noteq> oidcCookieName secure"
    and "header = joinSemicolon (before @ takeWhile (\<lambda>c. c \<noteq> CHR '';'') (oidcOrgCookie pf secret org state secure) # after)"
  shows "verifyOidcOrgCookie pf secret (Some header) (Some state) secure = Some org
    \<and> (\<forall>other. oidcSign pf secret org other \<noteq> oidcSign pf secret org state
         \<longrightarrow> verifyOidcOrgCookie pf secret (Some header) (Some other) secure = None)
    \<and> verifyOidcOrgCookie pf secret (Some header) None secure = None"
proof -
  let ?v = "org @ ''.'' @ oidcSign pf secret org state"
  have name: "oidcCookieName secure \<noteq> []" "CHR ''='' \<notin> set (oidcCookieName secure)"
      "\<forall>c \<in> set (oidcCookieName secure). \<not> is_ws c \<and> c \<noteq> CHR '';''"
    by (simp_all add: oidcCookieName_def OIDC_ORG_COOKIE_NAME_def is_ws_def)
  have v: "\<forall>c \<in> set ?v. \<not> is_ws c \<and> c \<noteq> CHR '';''" using assms(5) by (auto simp: is_ws_def)
  have "CHR '';'' \<notin> set (oidcCookieName secure @ ''='' @ ?v)" using name(3) v by auto
  then have "takeWhile (\<lambda>c. c \<noteq> CHR '';'') (oidcOrgCookie pf secret org state secure) = oidcCookieName secure @ ''='' @ ?v"
    unfolding oidcOrgCookie_def append_Cons by (rule pair_of_cookie)
  then have "readCookie (Some header) (oidcCookieName secure) = Some ?v"
    unfolding assms(8) using readCookie_among [of before after "oidcCookieName secure" ?v] assms(6,7) name v by auto
  then show ?thesis
    using assms(1-4) by (auto simp: verifyOidcOrgCookie_def indexOf_append)
qed

subsection \<open>The route table\<close>

lemma indexLoop_get:
  "indexLoop index routes = Inr index' \<Longrightarrow>
     map_get index' key = (case map_get index key of Some e \<Rightarrow> Some e
       | None \<Rightarrow> find (\<lambda>r. routeKey (pr_method r) (pr_url r) = key) routes)"
  by (induction routes arbitrary: index) (auto simp: Let_def split: if_splits option.splits)

lemma recordMethods_covers:
  "recordMethods idx url declared table ms = Inr table' \<Longrightarrow>
     set table \<subseteq> set table' \<and> (\<forall>m \<in> set ms.
       \<lparr> rr_method = m, rr_url = url,
         rr_declaration = (case declared of Some d \<Rightarrow> Some d | None \<Rightarrow> map_option publicAuthorisation (map_get idx (routeKey m url))) \<rparr> \<in> set table')"
proof (induction ms arbitrary: table)
  case (Cons m ms)
  let ?rec = "\<lparr> rr_method = m, rr_url = url,
    rr_declaration = (case declared of Some d \<Rightarrow> Some d | None \<Rightarrow> map_option publicAuthorisation (map_get idx (routeKey m url))) \<rparr>"
  from Cons.prems have "recordMethods idx url declared (table @ [?rec]) ms = Inr table'"
    by (simp add: Let_def split: if_splits)
  from Cons.IH [OF this] show ?case by auto
qed simp

lemma registerRoutes_covers:
  assumes "registerRoutes idx table routes = Inr table'"
  shows "set table \<subseteq> set table' \<and> (\<forall>r \<in> set routes. \<forall>m \<in> set (ro_methods r).
       \<lparr> rr_method = m, rr_url = ro_url r,
         rr_declaration = (case ro_authorisation r of Some d \<Rightarrow> Some d
           | None \<Rightarrow> map_option publicAuthorisation (map_get idx (routeKey m (ro_url r)))) \<rparr> \<in> set table')"
  using assms
proof (induction routes arbitrary: table)
  case (Cons r rs)
  then obtain t where t: "onRoute idx table r = Inr t" "registerRoutes idx t rs = Inr table'"
    by (auto simp: bindResult_Inr_iff)
  from t(1) have "recordMethods idx (ro_url r) (ro_authorisation r) table (ro_methods r) = Inr t"
    by (auto simp: onRoute_def split: option.splits routeAuthorisation.splits)
  from recordMethods_covers [OF this] Cons.IH [OF t(2)] show ?case by auto
qed simp

text \<open>The report says what is enforced. Once the routes are registered, the declaration the report
  shows for a method and path is the one the hook applies to every request dispatched there, \<open>HEAD\<close> as
  \<open>GET\<close>, and a route the report lists as undeclared refuses everyone, a staff member with every
  permission included.\<close>

theorem report_is_enforced:
  assumes "registerRoutes idx [] routes = Inr table" "r \<in> set routes" "m \<in> set (ro_methods r)"
    and "\<not> rq_is404 rq" "rq_routeUrl rq = Some (ro_url r)" "rq_authorisation rq = ro_authorisation r"
    and "toUpperCase (rq_method rq) = toUpperCase m \<or> toUpperCase (rq_method rq) = ''HEAD'' \<and> toUpperCase m = ''GET''"
  shows "\<exists>rec \<in> set (ar_routes (authorisationReport table)).
      rr_method rec = m \<and> rr_url rec = ro_url r \<and> rr_declaration rec = authorisationFor rq idx
      \<and> (rec \<in> set (ar_undeclared (authorisationReport table)) \<longrightarrow> authorisationHook idx rq = Inl E_forbidden)"
proof -
  have "routeKey (rq_method rq) (ro_url r) = routeKey m (ro_url r)"
    using assms(7) by (auto simp: routeKey_def Let_def)
  then have d: "authorisationFor rq idx = (case ro_authorisation r of Some d \<Rightarrow> Some d
      | None \<Rightarrow> map_option publicAuthorisation (map_get idx (routeKey m (ro_url r))))" (is "_ = ?d")
    using assms(4-6) by (simp add: authorisationFor_def split: option.split)
  let ?rec = "\<lparr> rr_method = m, rr_url = ro_url r, rr_declaration = ?d \<rparr>"
  have "?rec \<in> set table" using registerRoutes_covers [OF assms(1)] assms(2,3) by blast
  moreover have "authorisationHook idx rq = Inl E_forbidden" if "?d = None"
    using that d by (simp add: authorisationHook_def enforce_def)
  ultimately show ?thesis using d by (intro bexI [of _ ?rec]) (auto simp: authorisationReport_def)
qed

subsection \<open>A sample gate\<close>

definition sample_identity :: staffIdentity where
  "sample_identity =
     \<lparr> si_sessionSecret = ''k'', si_secureCookies = False,
       si_getSession = (\<lambda>headers. case map_get headers ''cookie'' of None \<Rightarrow> Some None
          | Some _ \<Rightarrow> Some (Some \<lparr> rs_session = P_value ''S'', rs_user = P_value \<lparr> su_id = ''u1'', su_orgId = ''o1'' \<rparr> \<rparr>)),
       si_db = (\<lambda>_. \<lparr> userRoleAssignments = [(''u1'', ''author'')],
          userRolePermissions = [(''author'', ''question.write''), (''lead'', ''org.admin'')] \<rparr>) \<rparr>"

definition sample_gate :: gateConfig where
  "sample_gate = \<lparr> gc_corsAllowedOrigins = [''https://app''], gc_attemptTokenKey = Some ''k'',
     gc_staffIdentity = Some sample_identity, gc_publicRoutes = unwrapOr (indexPublicRoutes PUBLIC_ROUTES) [] \<rparr>"

definition sample_staff_request :: request where
  "sample_staff_request =
     \<lparr> rq_method = ''post'', rq_url = ''/api/v1/questions?dry=1'',
       rq_headers = [(''origin'', H_one ''https://app''),
         (''cookie'', H_one ''assaybank.session_token=S; assaybank.csrf_token=n.5e''), (CSRF_HEADER, H_one ''n.5e'')],
       rq_is404 = False, rq_routeUrl = Some ''/api/v1/questions'',
       rq_authorisation = Some (Needs_permission ''question.write''), rq_principal = None \<rparr>"

definition sample_candidate_request :: request where
  "sample_candidate_request =
     \<lparr> rq_method = ''POST'', rq_url = ''/api/v1/candidate/redeem'', rq_headers = [(''authorization'', H_one ''Bearer abat1.eA.5e'')],
       rq_is404 = False, rq_routeUrl = Some ''/api/v1/candidate/redeem'',
       rq_authorisation = None, rq_principal = None \<rparr>"

lemmas sample_gate_defs = sample_identity_def sample_gate_def sample_staff_request_def sample_candidate_request_def

lemma sample_index: "map_get (gc_publicRoutes sample_gate) ''POST /api/v1/candidate/redeem''
  = Some (PUBLIC_ROUTES ! 8)"
  by code_simp

lemma sample_staff_admitted: "isOk (gate sample_red_platform sample_gate 1000 sample_staff_request)"
  by code_simp

lemma sample_candidate: "candidate_of sample_red_platform sample_gate 1000 sample_candidate_request = Some (CandidatePrincipal ''a1'' ''o1'')"
  by code_simp

lemma sample_requests: "rq_principal sample_staff_request = None" "rq_principal sample_candidate_request = None"
  by (simp_all add: sample_gate_defs)

theorem gate_mediates_witness:
  "isPermission ''question.write''
   \<and> (\<exists>subject. staff_session sample_red_platform sample_gate sample_staff_request = Some subject)"
proof -
  obtain rq' where "gate sample_red_platform sample_gate 1000 sample_staff_request = Inr rq'"
    using sample_staff_admitted by (auto simp: isOk_iff)
  from gate_mediates [OF sample_requests(1) this] show ?thesis
    by (auto simp: authorisationFor_def sample_staff_request_def)
qed

theorem candidate_confined_witness:
  "\<exists>rq'. gate sample_red_platform sample_gate 1000 sample_candidate_request = Inr rq'
     \<and> rq_principal rq' = Some (CandidatePrincipal ''a1'' ''o1'')"
proof -
  have "isOk (gate sample_red_platform sample_gate 1000 sample_candidate_request)" by code_simp
  then show ?thesis
    using candidate_confined [OF sample_requests(2) sample_candidate] by (auto simp: isOk_iff)
qed

theorem state_change_needs_token_witness:
  "\<exists>nonce. headerOf sample_staff_request CSRF_HEADER = Some (mintCsrfToken sample_red_platform nonce ''k'' ''S'')"
proof -
  obtain rq' where gate: "gate sample_red_platform sample_gate 1000 sample_staff_request = Inr rq'"
    using sample_staff_admitted by (auto simp: isOk_iff)
  have req: "toUpperCase (rq_method sample_staff_request) \<in> {''POST'', ''PUT'', ''PATCH'', ''DELETE''}"
    "pathOf sample_staff_request \<notin> {''/api/v1/auth/login'', ''/api/v1/auth/oidc/start''}"
    by code_simp+
  have cookie: "headerOf sample_staff_request ''cookie'' = Some ''assaybank.session_token=S; assaybank.csrf_token=n.5e''"
    "readCookie (Some ''assaybank.session_token=S; assaybank.csrf_token=n.5e'')
      (sessionCookieName (si_secureCookies sample_identity)) = Some ''S''"
    by code_simp+
  have si: "gc_staffIdentity sample_gate = Some sample_identity" "si_sessionSecret sample_identity = ''k''"
    by (simp_all add: sample_gate_defs)
  from state_change_needs_token [OF sample_requests(1) gate req(1) si(1) cookie req(2)] si(2) show ?thesis by auto
qed

theorem oidc_cookie_round_trip_witness:
  "verifyOidcOrgCookie sample_platform ''k''
     (Some (joinSemicolon ([''theme=dark''] @ takeWhile (\<lambda>c. c \<noteq> CHR '';'') (oidcOrgCookie sample_platform ''k'' ''o1'' ''st'' True) # [])))
     (Some ''st'') True = Some ''o1''"
proof -
  have "isUuid sample_platform ''o1''" "\<forall>c \<in> set ''o1'' \<union> set (oidcSign sample_platform ''k'' ''o1'' ''st''). \<not> is_ws c \<and> c \<noteq> CHR '';''"
    "\<forall>x \<in> set ([''theme=dark''] @ []). CHR '';'' \<notin> set x"
    "\<forall>x \<in> set [''theme=dark'']. takeWhile (\<lambda>c. c \<noteq> CHR ''='') (trim x) \<noteq> oidcCookieName True"
    by code_simp+
  from oidc_cookie_round_trip [OF this(1) _ _ _ this(2-4) refl] show ?thesis by simp
qed

theorem report_is_enforced_witness:
  "\<exists>table. registerRoutes (gc_publicRoutes sample_gate) []
       [\<lparr> ro_methods = [''GET''], ro_url = ''/api/v1/forgotten'', ro_authorisation = None \<rparr>] = Inr table
     \<and> (\<exists>rec \<in> set (ar_routes (authorisationReport table)). rr_declaration rec =
         authorisationFor (sample_staff_request\<lparr> rq_method := ''HEAD'', rq_routeUrl := Some ''/api/v1/forgotten'', rq_authorisation := None \<rparr>)
           (gc_publicRoutes sample_gate))"
proof -
  let ?r = "\<lparr> ro_methods = [''GET''], ro_url = ''/api/v1/forgotten'', ro_authorisation = None \<rparr>"
  let ?rq = "sample_staff_request\<lparr> rq_method := ''HEAD'', rq_routeUrl := Some ''/api/v1/forgotten'', rq_authorisation := None \<rparr>"
  obtain table where "registerRoutes (gc_publicRoutes sample_gate) [] [?r] = Inr table"
    by (auto simp: onRoute_def)
  moreover from report_is_enforced [OF this, of ?r "''GET''" ?rq]
  have "\<exists>rec \<in> set (ar_routes (authorisationReport table)). rr_declaration rec = authorisationFor ?rq (gc_publicRoutes sample_gate)"
    by (auto simp: sample_gate_defs toUpperCase_def upper_char_def is_lower_def)
  ultimately show ?thesis by blast
qed

end
