(* ===== verification/Collab_Protocol.thy ===== *)
theory Collab_Protocol
  imports Prelude "HOL-Library.Word" "HOL-Library.Sublist"
begin

text \<open>
  The wire format of the collaboration server (\<open>apps/collab/src/protocol.ts\<close>): variable-length
  unsigned integers, length-prefixed byte arrays, and the frames built of them.

  A byte is an \<open>8 word\<close>. The bitwise operations of the writer act on 32-bit integers, as they do
  in the language, while the value itself is divided in floating point, which is exact on safe
  integers. The reader adds \<open>7\<close>-bit groups; a sum that passes \<open>2^53\<close> is refused, so the sums it
  returns are exact integers.
\<close>

unbundle bit_operations_syntax

type_synonym bytes = "8 word list"

datatype protocolError =
    Not_safe_integer | Ended_inside_varUint | Exceeds_safe_range
  | Declared_too_long nat nat | Unknown_sync_step nat

definition MAX_SAFE :: nat where
  "MAX_SAFE = 2 ^ 53 - 1"

definition MESSAGE_SYNC :: nat where "MESSAGE_SYNC = 0"
definition MESSAGE_AWARENESS :: nat where "MESSAGE_AWARENESS = 1"
definition MESSAGE_AUTH :: nat where "MESSAGE_AUTH = 2"
definition MESSAGE_QUERY_AWARENESS :: nat where "MESSAGE_QUERY_AWARENESS = 3"
definition SYNC_STEP_1 :: nat where "SYNC_STEP_1 = 0"
definition SYNC_STEP_2 :: nat where "SYNC_STEP_2 = 1"
definition SYNC_UPDATE :: nat where "SYNC_UPDATE = 2"
definition BITS_7 :: nat where "BITS_7 = 127"
definition BIT_8 :: nat where "BIT_8 = 128"
definition BASE :: nat where "BASE = 128"

lemmas protocol_constants = MESSAGE_SYNC_def MESSAGE_AWARENESS_def MESSAGE_AUTH_def
  MESSAGE_QUERY_AWARENESS_def SYNC_STEP_1_def SYNC_STEP_2_def SYNC_UPDATE_def

lemmas base_constants = BITS_7_def BIT_8_def BASE_def

subsection \<open>Writing\<close>

text \<open>\<open>BITS_7 & remaining\<close>: both operands as 32-bit integers.\<close>

definition low7 :: "nat \<Rightarrow> 32 word" where
  "low7 n = (of_nat BITS_7 :: 32 word) AND of_nat n"

definition byte_of :: "32 word \<Rightarrow> 8 word" where
  "byte_of w = of_nat (unat w)"

function varBytes :: "nat \<Rightarrow> bytes" where
  "varBytes remaining =
     (if remaining > BITS_7
      then byte_of (of_nat BIT_8 OR low7 remaining) # varBytes (remaining div BASE)
      else [byte_of (low7 remaining)])"
  by pat_completeness auto
termination
  by (relation "measure id") (auto simp: base_constants)

declare varBytes.simps [simp del]

text \<open>\<open>writeVarUint\<close> on an integer; anything else the language could pass is refused alike.\<close>

definition writeVarUint :: "int \<Rightarrow> (protocolError, bytes) result" where
  "writeVarUint value =
     (if value < 0 \<or> value > int MAX_SAFE then Inl Not_safe_integer else Inr (varBytes (nat value)))"

definition concatBytes :: "bytes list \<Rightarrow> bytes" where
  "concatBytes parts = concat parts"

definition writeVarUint8Array :: "bytes \<Rightarrow> (protocolError, bytes) result" where
  "writeVarUint8Array bs =
     (case writeVarUint (int (length bs)) of Inl e \<Rightarrow> Inl e | Inr len \<Rightarrow> Inr (concatBytes [len, bs]))"

subsection \<open>Reading\<close>

record frameReader =
  frame :: bytes
  position :: nat

definition exhausted :: "frameReader \<Rightarrow> bool" where
  "exhausted r \<longleftrightarrow> position r \<ge> length (frame r)"

definition remaining :: "frameReader \<Rightarrow> nat" where
  "remaining r = length (frame r) - position r"

function readLoop :: "frameReader \<Rightarrow> nat \<Rightarrow> nat \<Rightarrow> (protocolError, nat \<times> frameReader) result" where
  "readLoop r acc multiplier =
     (if position r \<ge> length (frame r) then Inl Ended_inside_varUint
      else let byte = frame r ! position r;
               r' = r\<lparr> position := position r + 1 \<rparr>;
               acc' = acc + unat (byte AND of_nat BITS_7) * multiplier
           in if unat byte < BIT_8
              then if acc' > MAX_SAFE then Inl Exceeds_safe_range else Inr (acc', r')
              else if multiplier * BASE > MAX_SAFE then Inl Exceeds_safe_range
              else readLoop r' acc' (multiplier * BASE))"
  by pat_completeness auto
termination
  by (relation "measure (\<lambda>(r, _, _). length (frame r) - position r)") auto

declare readLoop.simps [simp del]

definition readVarUint :: "frameReader \<Rightarrow> (protocolError, nat \<times> frameReader) result" where
  "readVarUint r = readLoop r 0 1"

definition readVarUint8Array :: "frameReader \<Rightarrow> (protocolError, bytes \<times> frameReader) result" where
  "readVarUint8Array r =
     (case readVarUint r of Inl e \<Rightarrow> Inl e
      | Inr (len, r') \<Rightarrow>
        if len > remaining r' then Inl (Declared_too_long len (remaining r'))
        else Inr (take len (drop (position r') (frame r')), r'\<lparr> position := position r' + len \<rparr>))"

subsection \<open>Frames\<close>

definition sequenceBytes :: "(protocolError, bytes) result list \<Rightarrow> (protocolError, bytes) result" where
  "sequenceBytes parts = foldr (\<lambda>p acc. case p of Inl e \<Rightarrow> Inl e
     | Inr b \<Rightarrow> (case acc of Inl e \<Rightarrow> Inl e | Inr bs \<Rightarrow> Inr (concatBytes [b, bs]))) parts (Inr [])"

definition encodeSyncStep1 :: "bytes \<Rightarrow> (protocolError, bytes) result" where
  "encodeSyncStep1 stateVector = sequenceBytes
     [writeVarUint (int MESSAGE_SYNC), writeVarUint (int SYNC_STEP_1), writeVarUint8Array stateVector]"

definition encodeSyncStep2 :: "bytes \<Rightarrow> (protocolError, bytes) result" where
  "encodeSyncStep2 update = sequenceBytes
     [writeVarUint (int MESSAGE_SYNC), writeVarUint (int SYNC_STEP_2), writeVarUint8Array update]"

definition encodeSyncUpdate :: "bytes \<Rightarrow> (protocolError, bytes) result" where
  "encodeSyncUpdate update = sequenceBytes
     [writeVarUint (int MESSAGE_SYNC), writeVarUint (int SYNC_UPDATE), writeVarUint8Array update]"

definition encodeAwareness :: "bytes \<Rightarrow> (protocolError, bytes) result" where
  "encodeAwareness payload = sequenceBytes [writeVarUint (int MESSAGE_AWARENESS), writeVarUint8Array payload]"

datatype inboundFrame =
    Sync_step_1 bytes | Sync_step_2 bytes | Sync_update bytes | Awareness bytes
  | Query_awareness | Ignored nat

definition decodeFrame :: "bytes \<Rightarrow> (protocolError, inboundFrame) result" where
  "decodeFrame bs =
     (case readVarUint \<lparr> frame = bs, position = 0 \<rparr> of Inl e \<Rightarrow> Inl e
      | Inr (messageType, r) \<Rightarrow>
        if messageType = MESSAGE_SYNC then
          (case readVarUint r of Inl e \<Rightarrow> Inl e
           | Inr (step, r') \<Rightarrow>
             if step = SYNC_STEP_1 then map_sum id (\<lambda>(p, _). Sync_step_1 p) (readVarUint8Array r')
             else if step = SYNC_STEP_2 then map_sum id (\<lambda>(p, _). Sync_step_2 p) (readVarUint8Array r')
             else if step = SYNC_UPDATE then map_sum id (\<lambda>(p, _). Sync_update p) (readVarUint8Array r')
             else Inl (Unknown_sync_step step))
        else if messageType = MESSAGE_AWARENESS then
          map_sum id (\<lambda>(p, _). Awareness p) (readVarUint8Array r)
        else if messageType = MESSAGE_QUERY_AWARENESS then Inr Query_awareness
        else Inr (Ignored messageType))"

subsection \<open>Seven bits at a time\<close>

lemma unat_low7: "unat (low7 n) = n mod 128"
proof -
  have "low7 n = take_bit 7 (of_nat n :: 32 word)"
    by (simp add: low7_def BITS_7_def take_bit_eq_mask mask_eq_exp_minus_1 and.commute)
  then have "unat (low7 n) = take_bit 7 (take_bit 32 n)"
    by (simp add: unsigned_take_bit_eq unsigned_of_nat)
  then show ?thesis by (simp add: take_bit_eq_mod mod_mod_cancel)
qed

lemma or_128_table: "\<forall>k\<in>set [0..<128]. 128 OR k = 128 + (k :: nat)"
  by code_simp

lemma or_128: "k < 128 \<Longrightarrow> 128 OR k = 128 + (k :: nat)"
  using or_128_table by simp

lemma unat_low7_high: "unat (of_nat BIT_8 OR low7 n) = 128 + n mod 128"
  by (simp add: unsigned_or_eq unat_low7 BIT_8_def or_128)

lemma unat_byte_of:
  assumes "unat w < 256"
  shows "unat (byte_of w) = unat w"
proof -
  have "unat (of_nat m :: 8 word) = m" if "m < 256" for m
    using that by (simp add: unsigned_of_nat take_bit_nat_eq_self)
  then show ?thesis unfolding byte_of_def using assms .
qed

lemma last_byte: "unat (byte_of (low7 n)) = n mod 128"
  using pos_mod_bound [of 128 "int n"] by (subst unat_byte_of) (simp_all add: unat_low7 less_trans [of _ 128])

lemma more_byte: "unat (byte_of (of_nat BIT_8 OR low7 n)) = 128 + n mod 128"
  by (subst unat_byte_of) (simp_all add: unat_low7_high)

lemma read_bits: "unat (b AND of_nat BITS_7 :: 8 word) = unat b mod 128"
proof -
  have "b AND of_nat BITS_7 = take_bit 7 b"
    by (simp add: BITS_7_def take_bit_eq_mask mask_eq_exp_minus_1)
  then have "unat (b AND of_nat BITS_7) = take_bit 7 (unat b)" by (simp only: unsigned_take_bit_eq)
  then show ?thesis by (simp add: take_bit_eq_mod)
qed

subsection \<open>Round trips\<close>

text \<open>Reading resumes where the bytes of one number start; \<open>k\<close> groups have been read.\<close>

lemma readLoop_varBytes:
  assumes "frame r = pre @ varBytes n @ rest" "position r = length pre"
    "acc < multiplier" "acc + n * multiplier \<le> MAX_SAFE" "0 < multiplier"
  shows "readLoop r acc multiplier
     = Inr (acc + n * multiplier, \<lparr> frame = frame r, position = length pre + length (varBytes n) \<rparr>)"
  using assms
proof (induction n arbitrary: r pre acc multiplier rule: varBytes.induct)
  case (1 n)
  show ?case
  proof (cases "n > BITS_7")
    case True
    define b where "b = byte_of (of_nat BIT_8 OR low7 n)"
    have vb: "varBytes n = b # varBytes (n div 128)"
      using True by (subst varBytes.simps) (simp add: b_def BASE_def)
    have b: "unat b = 128 + n mod 128" by (simp add: b_def more_byte)
    define acc' where "acc' = acc + n mod 128 * multiplier"
    have split: "acc' + n div 128 * (multiplier * 128) = acc + n * multiplier"
    proof -
      have "n * multiplier = n div 128 * 128 * multiplier + n mod 128 * multiplier"
        by (simp only: div_mult_mod_eq flip: add_mult_distrib)
      then show ?thesis by (simp add: acc'_def ac_simps)
    qed
    have n: "128 \<le> n" using True by (simp add: BITS_7_def)
    have "multiplier * 128 \<le> n * multiplier" using n by simp
    then have fits: "multiplier * 128 \<le> MAX_SAFE" using "1.prems"(4) by linarith
    have small: "acc' < multiplier * 128"
    proof -
      have "n mod 128 * multiplier \<le> 127 * multiplier" by (intro mult_right_mono) (simp_all add: less_Suc_eq_le [symmetric])
      then show ?thesis using "1.prems"(3) unfolding acc'_def by linarith
    qed
    let ?r = "r\<lparr> position := position r + 1 \<rparr>"
    have step: "readLoop r acc multiplier = readLoop ?r acc' (multiplier * 128)"
      using "1.prems"(1,2) fits b
      by (subst readLoop.simps) (simp add: vb Let_def read_bits BIT_8_def BASE_def acc'_def)
    have "readLoop ?r acc' (multiplier * 128) = Inr (acc' + n div 128 * (multiplier * 128),
        \<lparr> frame = frame ?r, position = length (pre @ [b]) + length (varBytes (n div 128)) \<rparr>)"
      using "1.prems" small split True
      by (intro "1.IH" [unfolded BASE_def]) (simp_all add: vb)
    then show ?thesis using step split by (simp add: vb)
  next
    case False
    define b where "b = byte_of (low7 n)"
    have vb: "varBytes n = [b]" using False by (subst varBytes.simps) (simp add: b_def)
    have n: "n < 128" using False by (simp add: BITS_7_def)
    then have b: "unat b = n" by (simp add: b_def last_byte)
    show ?thesis
      using "1.prems" n b by (subst readLoop.simps) (cases r; simp add: vb Let_def read_bits BIT_8_def)
  qed
qed

lemma readVarUint_varBytes:
  assumes "n \<le> MAX_SAFE"
  shows "readVarUint \<lparr> frame = pre @ varBytes n @ rest, position = length pre \<rparr>
     = Inr (n, \<lparr> frame = pre @ varBytes n @ rest, position = length pre + length (varBytes n) \<rparr>)"
  using readLoop_varBytes [of _ pre n rest 0 1] assms by (simp add: readVarUint_def)

lemma readVarUint8Array_written:
  assumes "length p \<le> MAX_SAFE"
  shows "readVarUint8Array \<lparr> frame = pre @ varBytes (length p) @ p @ rest, position = length pre \<rparr>
     = Inr (p, \<lparr> frame = pre @ varBytes (length p) @ p @ rest,
                 position = length pre + length (varBytes (length p)) + length p \<rparr>)"
  using readVarUint_varBytes [OF assms, of pre "p @ rest"]
  by (simp add: readVarUint8Array_def remaining_def)

text \<open>A frame with two leading numbers and a payload, and one with a single leading number.\<close>

lemma readVarUint_at_start:
  "n \<le> MAX_SAFE \<Longrightarrow> readVarUint \<lparr> frame = varBytes n @ rest, position = 0 \<rparr>
     = Inr (n, \<lparr> frame = varBytes n @ rest, position = length (varBytes n) \<rparr>)"
  using readVarUint_varBytes [of n "[]" rest] by simp

lemma small_safe [simp]: "n \<le> 3 \<Longrightarrow> n \<le> MAX_SAFE" "n \<le> 2 \<Longrightarrow> n \<le> MAX_SAFE"
  by (simp_all add: MAX_SAFE_def)

lemma message_safe [simp]: "MESSAGE_SYNC \<le> MAX_SAFE" "MESSAGE_AWARENESS \<le> MAX_SAFE"
  by (simp_all add: MAX_SAFE_def protocol_constants)

lemma sync_frame_reads:
  assumes "length p \<le> MAX_SAFE" "step \<le> 2"
  defines "bs \<equiv> varBytes MESSAGE_SYNC @ varBytes step @ varBytes (length p) @ p"
  defines "r1 \<equiv> \<lparr> frame = bs, position = length (varBytes MESSAGE_SYNC) \<rparr>"
  defines "r2 \<equiv> \<lparr> frame = bs, position = length (varBytes MESSAGE_SYNC @ varBytes step) \<rparr>"
  shows "readVarUint \<lparr> frame = bs, position = 0 \<rparr> = Inr (MESSAGE_SYNC, r1)"
    and "readVarUint r1 = Inr (step, r2)"
    and "\<exists>r3. readVarUint8Array r2 = Inr (p, r3) \<and> exhausted r3"
proof -
  show "readVarUint \<lparr> frame = bs, position = 0 \<rparr> = Inr (MESSAGE_SYNC, r1)"
    unfolding bs_def r1_def by (rule readVarUint_at_start) (simp add: MESSAGE_SYNC_def)
  show "readVarUint r1 = Inr (step, r2)"
    using readVarUint_varBytes [of step "varBytes MESSAGE_SYNC" "varBytes (length p) @ p"] assms(2)
    by (simp add: bs_def r1_def r2_def)
  show "\<exists>r3. readVarUint8Array r2 = Inr (p, r3) \<and> exhausted r3"
    using readVarUint8Array_written [OF assms(1), of "varBytes MESSAGE_SYNC @ varBytes step" "[]"]
    by (simp add: bs_def r2_def exhausted_def)
qed

lemma awareness_frame_reads:
  assumes "length p \<le> MAX_SAFE"
  defines "bs \<equiv> varBytes MESSAGE_AWARENESS @ varBytes (length p) @ p"
  defines "r1 \<equiv> \<lparr> frame = bs, position = length (varBytes MESSAGE_AWARENESS) \<rparr>"
  shows "readVarUint \<lparr> frame = bs, position = 0 \<rparr> = Inr (MESSAGE_AWARENESS, r1)"
    and "\<exists>r2. readVarUint8Array r1 = Inr (p, r2) \<and> exhausted r2"
proof -
  show "readVarUint \<lparr> frame = bs, position = 0 \<rparr> = Inr (MESSAGE_AWARENESS, r1)"
    unfolding bs_def r1_def by (rule readVarUint_at_start) (simp add: MESSAGE_AWARENESS_def)
  show "\<exists>r2. readVarUint8Array r1 = Inr (p, r2) \<and> exhausted r2"
    using readVarUint8Array_written [OF assms(1), of "varBytes MESSAGE_AWARENESS" "[]"]
    by (simp add: bs_def r1_def exhausted_def)
qed

text \<open>What the encoders write.\<close>

lemma writeVarUint_safe: "n \<le> MAX_SAFE \<Longrightarrow> writeVarUint (int n) = Inr (varBytes n)"
  by (simp add: writeVarUint_def)

lemma sequence_sync:
  assumes "length p \<le> MAX_SAFE" "step \<le> 2"
  shows "sequenceBytes [writeVarUint (int MESSAGE_SYNC), writeVarUint (int step), writeVarUint8Array p]
     = Inr (varBytes MESSAGE_SYNC @ varBytes step @ varBytes (length p) @ p)"
  using assms by (simp add: sequenceBytes_def writeVarUint8Array_def writeVarUint_safe concatBytes_def)

lemma sequence_awareness:
  "length p \<le> MAX_SAFE \<Longrightarrow> encodeAwareness p
     = Inr (varBytes MESSAGE_AWARENESS @ varBytes (length p) @ p)"
  by (simp add: encodeAwareness_def sequenceBytes_def writeVarUint8Array_def writeVarUint_safe concatBytes_def)

lemma decode_sync:
  assumes "length p \<le> MAX_SAFE" "step \<le> 2"
  shows "decodeFrame (varBytes MESSAGE_SYNC @ varBytes step @ varBytes (length p) @ p)
     = Inr ((if step = SYNC_STEP_1 then Sync_step_1 else if step = SYNC_STEP_2 then Sync_step_2
             else Sync_update) p)"
proof -
  obtain r3 where "readVarUint8Array \<lparr> frame = varBytes MESSAGE_SYNC @ varBytes step @ varBytes (length p) @ p,
      position = length (varBytes MESSAGE_SYNC @ varBytes step) \<rparr> = Inr (p, r3)"
    using sync_frame_reads(3) [OF assms] by blast
  then have "decodeFrame (varBytes MESSAGE_SYNC @ varBytes step @ varBytes (length p) @ p)
     = (if step = SYNC_STEP_1 then Inr (Sync_step_1 p) else if step = SYNC_STEP_2 then Inr (Sync_step_2 p)
        else if step = SYNC_UPDATE then Inr (Sync_update p) else Inl (Unknown_sync_step step))"
    by (simp add: decodeFrame_def sync_frame_reads(1,2) [OF assms] del: length_append cong del: if_weak_cong split del: if_split)
  then show ?thesis using assms(2) by (simp add: protocol_constants)
qed

lemma decode_awareness:
  assumes "length p \<le> MAX_SAFE"
  shows "decodeFrame (varBytes MESSAGE_AWARENESS @ varBytes (length p) @ p) = Inr (Awareness p)"
proof -
  obtain r2 where "readVarUint8Array \<lparr> frame = varBytes MESSAGE_AWARENESS @ varBytes (length p) @ p,
      position = length (varBytes MESSAGE_AWARENESS) \<rparr> = Inr (p, r2)"
    using awareness_frame_reads(2) [OF assms] by blast
  then show ?thesis
    by (simp add: decodeFrame_def awareness_frame_reads(1) [OF assms]) (simp add: protocol_constants)
qed

text \<open>The frame codec is lossless. Whatever document state, update or presence payload the server
  encodes, decoding the frame returns the same kind of message with the same bytes.\<close>

theorem frame_round_trip:
  assumes "length p \<le> MAX_SAFE"
  shows "(\<exists>bs. encodeSyncStep1 p = Inr bs \<and> decodeFrame bs = Inr (Sync_step_1 p))
     \<and> (\<exists>bs. encodeSyncStep2 p = Inr bs \<and> decodeFrame bs = Inr (Sync_step_2 p))
     \<and> (\<exists>bs. encodeSyncUpdate p = Inr bs \<and> decodeFrame bs = Inr (Sync_update p))
     \<and> (\<exists>bs. encodeAwareness p = Inr bs \<and> decodeFrame bs = Inr (Awareness p))"
proof (intro conjI)
  note steps = SYNC_STEP_1_def SYNC_STEP_2_def SYNC_UPDATE_def
  show "\<exists>bs. encodeSyncStep1 p = Inr bs \<and> decodeFrame bs = Inr (Sync_step_1 p)"
    using sequence_sync [OF assms, of SYNC_STEP_1] decode_sync [OF assms, of SYNC_STEP_1]
    by (simp add: encodeSyncStep1_def steps)
  show "\<exists>bs. encodeSyncStep2 p = Inr bs \<and> decodeFrame bs = Inr (Sync_step_2 p)"
    using sequence_sync [OF assms, of SYNC_STEP_2] decode_sync [OF assms, of SYNC_STEP_2]
    by (simp add: encodeSyncStep2_def steps)
  show "\<exists>bs. encodeSyncUpdate p = Inr bs \<and> decodeFrame bs = Inr (Sync_update p)"
    using sequence_sync [OF assms, of SYNC_UPDATE] decode_sync [OF assms, of SYNC_UPDATE]
    by (simp add: encodeSyncUpdate_def steps)
  show "\<exists>bs. encodeAwareness p = Inr bs \<and> decodeFrame bs = Inr (Awareness p)"
    by (simp add: sequence_awareness [OF assms] decode_awareness [OF assms])
qed

theorem frame_round_trip_witness:
  "(\<exists>bs. encodeSyncStep1 [0, 255] = Inr bs \<and> decodeFrame bs = Inr (Sync_step_1 [0, 255]))
   \<and> (\<exists>bs. encodeAwareness [0, 255] = Inr bs \<and> decodeFrame bs = Inr (Awareness [0, 255]))"
  using frame_round_trip [of "[0, 255]"] by (simp add: MAX_SAFE_def)

end
