(* ===== verification/Collab_Rooms.thy ===== *)
theory Collab_Rooms
  imports Collab_Protocol
begin

text \<open>
  The room registry of the collaboration server (\<open>apps/collab/src/rooms.ts\<close>).

  Rooms are shared objects, so they live in a store and are named by their address: the registry
  maps a session to an address, connections and pending timers hold addresses too. A timer is an
  entry \<open>(id, room, due)\<close> of \<open>timers\<close>; \<open>clearTimeout\<close> removes it and \<open>fireReaper\<close> is its callback.
  The document library is the parameter \<open>'doc yjs\<close>; a call that may throw returns an option or a
  flag, and \<open>applyUpdate\<close> returns the document it leaves behind in either case.
\<close>

record 'doc yjs =
  newDoc :: "string \<Rightarrow> 'doc"
  encodeStateVector :: "'doc \<Rightarrow> bytes"
  encodeStateAsUpdate :: "'doc \<Rightarrow> bytes \<Rightarrow> bytes option"
  applyUpdate :: "'doc \<Rightarrow> bytes \<Rightarrow> 'doc \<times> bool"
  destroyDoc :: "'doc \<Rightarrow> 'doc"

record 'doc room =
  room_key :: string
  peers :: "nat list"
  lastAwareness :: "(nat, bytes) jsmap"
  doc :: 'doc
  joined :: bool
  reaper :: "nat option"

record 'doc registry =
  heap :: "nat \<Rightarrow> 'doc room"
  next_room :: nat
  rooms :: "(string, nat) jsmap"
  timers :: "(nat \<times> nat \<times> int) list"
  next_timer :: nat

definition DEFAULT_ROOM_RETENTION_MS :: int where
  "DEFAULT_ROOM_RETENTION_MS = 5 * 60 * 1000"

definition newRoom :: "'doc yjs \<Rightarrow> string \<Rightarrow> 'doc room" where
  "newRoom yj key = \<lparr> room_key = key, peers = [], lastAwareness = [], doc = newDoc yj key,
     joined = False, reaper = None \<rparr>"

definition emptyRegistry :: "'doc yjs \<Rightarrow> 'doc registry" where
  "emptyRegistry yj = \<lparr> heap = (\<lambda>_. newRoom yj []), next_room = 0, rooms = [], timers = [], next_timer = 0 \<rparr>"

definition upd_room :: "nat \<Rightarrow> ('doc room \<Rightarrow> 'doc room) \<Rightarrow> 'doc registry \<Rightarrow> 'doc registry" where
  "upd_room rid f st = st\<lparr> heap := (heap st)(rid := f (heap st rid)) \<rparr>"

subsection \<open>A room\<close>

definition cancelReaper :: "nat \<Rightarrow> 'doc registry \<Rightarrow> 'doc registry" where
  "cancelReaper rid st =
     (case reaper (heap st rid) of None \<Rightarrow> st
      | Some tid \<Rightarrow> upd_room rid (\<lambda>r. r\<lparr> reaper := None \<rparr>)
          (st\<lparr> timers := filter (\<lambda>t. fst t \<noteq> tid) (timers st) \<rparr>))"

definition scheduleReaper :: "int \<Rightarrow> int \<Rightarrow> nat \<Rightarrow> 'doc registry \<Rightarrow> 'doc registry" where
  "scheduleReaper delayMs now rid st =
     (let st1 = cancelReaper rid st; tid = next_timer st1
      in upd_room rid (\<lambda>r. r\<lparr> reaper := Some tid \<rparr>)
           (st1\<lparr> timers := timers st1 @ [(tid, rid, now + delayMs)], next_timer := tid + 1 \<rparr>))"

definition broadcast :: "'doc room \<Rightarrow> bytes \<Rightarrow> nat option \<Rightarrow> (nat \<times> bytes) list" where
  "broadcast r frm origin = map (\<lambda>peer. (peer, frm)) (filter (\<lambda>peer. Some peer \<noteq> origin) (peers r))"

definition destroyRoom :: "'doc yjs \<Rightarrow> nat \<Rightarrow> 'doc registry \<Rightarrow> 'doc registry" where
  "destroyRoom yj rid st =
     upd_room rid (\<lambda>r. r\<lparr> peers := [], lastAwareness := [], doc := destroyDoc yj (doc r) \<rparr>)
       (cancelReaper rid st)"

subsection \<open>The registry\<close>

definition acquire :: "'doc yjs \<Rightarrow> string \<Rightarrow> 'doc registry \<Rightarrow> nat \<times> 'doc registry" where
  "acquire yj key st =
     (case map_get (rooms st) key of
        Some rid \<Rightarrow> (rid, cancelReaper rid st)
      | None \<Rightarrow>
        (let rid = next_room st
         in (rid, st\<lparr> heap := (heap st)(rid := newRoom yj key), next_room := rid + 1,
                      rooms := map_set (rooms st) key rid \<rparr>)))"

definition set_add :: "'a list \<Rightarrow> 'a \<Rightarrow> 'a list" where
  "set_add xs x = (if x \<in> set xs then xs else xs @ [x])"

lemma set_set_add [simp]: "set (set_add xs x) = insert x (set xs)"
  by (auto simp: set_add_def)

definition attach :: "nat \<Rightarrow> nat \<Rightarrow> 'doc registry \<Rightarrow> bool \<times> 'doc registry" where
  "attach rid peer st =
     (joined (heap st rid),
      upd_room rid (\<lambda>r. r\<lparr> peers := set_add (peers r) peer, joined := True \<rparr>) (cancelReaper rid st))"

definition detach :: "int \<Rightarrow> int \<Rightarrow> nat \<Rightarrow> nat \<Rightarrow> 'doc registry \<Rightarrow> 'doc registry" where
  "detach retentionMs now rid peer st =
     (let st1 = upd_room rid (\<lambda>r. r\<lparr> peers := filter (\<lambda>q. q \<noteq> peer) (peers r),
                                     lastAwareness := map_delete (lastAwareness r) peer \<rparr>) st
      in if peers (heap st1 rid) \<noteq> [] then st1 else scheduleReaper retentionMs now rid st1)"

definition release :: "'doc yjs \<Rightarrow> string \<Rightarrow> 'doc registry \<Rightarrow> 'doc registry" where
  "release yj key st =
     (case map_get (rooms st) key of None \<Rightarrow> st
      | Some rid \<Rightarrow> destroyRoom yj rid (st\<lparr> rooms := map_delete (rooms st) key \<rparr>))"

text \<open>The callback of a reaper, run once when its timer is due.\<close>

definition fireReaper :: "'doc yjs \<Rightarrow> nat \<Rightarrow> 'doc registry \<Rightarrow> 'doc registry" where
  "fireReaper yj tid st =
     (case map_get (timers st) tid of None \<Rightarrow> st
      | Some (rid, due) \<Rightarrow>
        (let st1 = st\<lparr> timers := filter (\<lambda>t. fst t \<noteq> tid) (timers st) \<rparr>
         in if peers (heap st1 rid) = [] then release yj (room_key (heap st1 rid)) st1 else st1))"

definition clearRooms :: "'doc yjs \<Rightarrow> 'doc registry \<Rightarrow> 'doc registry" where
  "clearRooms yj st = (fold (\<lambda>(key, rid). destroyRoom yj rid) (rooms st) st)\<lparr> rooms := [] \<rparr>"

subsection \<open>Projections\<close>

lemma heap_upd_room [simp]:
  "heap (upd_room rid f st) = (heap st)(rid := f (heap st rid))" "rooms (upd_room rid f st) = rooms st"
  "next_room (upd_room rid f st) = next_room st" "timers (upd_room rid f st) = timers st"
  "next_timer (upd_room rid f st) = next_timer st"
  by (simp_all add: upd_room_def)

lemma cancelReaper_simps [simp]:
  "rooms (cancelReaper rid st) = rooms st" "next_room (cancelReaper rid st) = next_room st"
  "next_timer (cancelReaper rid st) = next_timer st"
  "heap (cancelReaper rid st) = (heap st)(rid := (heap st rid)\<lparr> reaper := None \<rparr>)"
  "timers (cancelReaper rid st) = filter (\<lambda>t. Some (fst t) \<noteq> reaper (heap st rid)) (timers st)"
  by (auto simp: cancelReaper_def fun_eq_iff split: option.splits)

subsection \<open>The invariant\<close>

text \<open>
  A room with peers is the one registered for its session, and so is a room with a pending timer
  unless the registry has been cleared for good; a timer is that of the reaper its room remembers
  and its room is empty; every registered empty room has a timer, so no room is kept for ever.
\<close>

definition rooms_ok :: "'doc registry \<Rightarrow> bool" where
  "rooms_ok st \<longleftrightarrow> map_wf (rooms st)
     \<and> (\<forall>key rid. map_get (rooms st) key = Some rid \<longrightarrow> rid < next_room st \<and> room_key (heap st rid) = key)
     \<and> (\<forall>rid < next_room st. peers (heap st rid) \<noteq> [] \<longrightarrow> map_get (rooms st) (room_key (heap st rid)) = Some rid)
     \<and> (\<forall>rid < next_room st. distinct (peers (heap st rid)))
     \<and> (\<forall>key rid. map_get (rooms st) key = Some rid
          \<longrightarrow> fst ` set (lastAwareness (heap st rid)) \<subseteq> set (peers (heap st rid)))"

definition timers_ok :: "bool \<Rightarrow> 'doc registry \<Rightarrow> bool" where
  "timers_ok stopping st \<longleftrightarrow> map_wf (timers st)
     \<and> (\<forall>rid < next_room st. \<forall>tid. reaper (heap st rid) = Some tid \<longrightarrow> tid < next_timer st)
     \<and> (\<forall>rid < next_room st. \<forall>rid' < next_room st.
          reaper (heap st rid) = reaper (heap st rid') \<and> reaper (heap st rid) \<noteq> None \<longrightarrow> rid = rid')
     \<and> (\<forall>tid rid due. (tid, rid, due) \<in> set (timers st) \<longrightarrow>
          rid < next_room st \<and> reaper (heap st rid) = Some tid \<and> peers (heap st rid) = []
          \<and> (map_get (rooms st) (room_key (heap st rid)) = Some rid \<or> (stopping \<and> rooms st = [])))"

definition no_orphans :: "'doc registry \<Rightarrow> bool" where
  "no_orphans st \<longleftrightarrow> (\<forall>key rid. map_get (rooms st) key = Some rid \<and> peers (heap st rid) = []
     \<longrightarrow> (\<exists>tid due. (tid, rid, due) \<in> set (timers st)))"

definition registry_ok :: "bool \<Rightarrow> 'doc registry \<Rightarrow> bool" where
  "registry_ok stopping st \<longleftrightarrow> rooms_ok st \<and> timers_ok stopping st \<and> no_orphans st"

lemma emptyRegistry_ok: "registry_ok stopping (emptyRegistry yj)"
  by (simp add: registry_ok_def rooms_ok_def timers_ok_def no_orphans_def emptyRegistry_def map_wf_def)


lemma rooms_okD:
  assumes "rooms_ok st"
  shows "map_wf (rooms st)"
    and "map_get (rooms st) key = Some rid \<Longrightarrow> rid < next_room st"
    and "map_get (rooms st) key = Some rid \<Longrightarrow> room_key (heap st rid) = key"
    and "rid < next_room st \<Longrightarrow> peers (heap st rid) \<noteq> [] \<Longrightarrow> map_get (rooms st) (room_key (heap st rid)) = Some rid"
    and "rid < next_room st \<Longrightarrow> distinct (peers (heap st rid))"
    and "map_get (rooms st) key = Some rid \<Longrightarrow> fst ` set (lastAwareness (heap st rid)) \<subseteq> set (peers (heap st rid))"
  using assms unfolding rooms_ok_def by blast+

lemma timers_okD:
  assumes "timers_ok stopping st"
  shows "map_wf (timers st)"
    and "rid < next_room st \<Longrightarrow> reaper (heap st rid) = Some tid \<Longrightarrow> tid < next_timer st"
    and "(tid, rid, due) \<in> set (timers st) \<Longrightarrow> rid < next_room st"
    and "(tid, rid, due) \<in> set (timers st) \<Longrightarrow> reaper (heap st rid) = Some tid"
    and "(tid, rid, due) \<in> set (timers st) \<Longrightarrow> peers (heap st rid) = []"
    and "(tid, rid, due) \<in> set (timers st) \<Longrightarrow>
        map_get (rooms st) (room_key (heap st rid)) = Some rid \<or> (stopping \<and> rooms st = [])"
    and "rid < next_room st \<Longrightarrow> rid' < next_room st \<Longrightarrow> reaper (heap st rid) = Some tid
        \<Longrightarrow> reaper (heap st rid') = Some tid \<Longrightarrow> rid = rid'"
  using assms unfolding timers_ok_def by (blast | metis option.distinct(1))+

lemma timers_okI:
  assumes "map_wf (timers st)"
    and "\<And>rid tid. rid < next_room st \<Longrightarrow> reaper (heap st rid) = Some tid \<Longrightarrow> tid < next_timer st"
    and "\<And>rid rid' tid. rid < next_room st \<Longrightarrow> rid' < next_room st \<Longrightarrow> reaper (heap st rid) = Some tid
        \<Longrightarrow> reaper (heap st rid') = Some tid \<Longrightarrow> rid = rid'"
    and "\<And>tid rid due. (tid, rid, due) \<in> set (timers st) \<Longrightarrow>
        rid < next_room st \<and> reaper (heap st rid) = Some tid \<and> peers (heap st rid) = []
        \<and> (map_get (rooms st) (room_key (heap st rid)) = Some rid \<or> (stopping \<and> rooms st = []))"
  shows "timers_ok stopping st"
  using assms unfolding timers_ok_def by (metis option.collapse)

lemma timers_ok_shrink:
  assumes "timers_ok stopping st" "heap st' = heap st" "next_room st' = next_room st" "next_timer st' = next_timer st"
    "map_wf (timers st')" "set (timers st') \<subseteq> set (timers st)" "rooms st' = rooms st \<or> (stopping \<and> rooms st' = [])"
  shows "timers_ok stopping st'"
  using timers_okD [OF assms(1)] assms(2-7) by (intro timers_okI) (auto, blast+)

text \<open>After the timer of a room is cancelled, the remaining timers are those of the other rooms.\<close>

lemma other_timers:
  assumes "timers_ok stopping st" "rid < next_room st"
  shows "(tid, r, due) \<in> set (timers st) \<and> Some tid \<noteq> reaper (heap st rid)
     \<longleftrightarrow> (tid, r, due) \<in> set (timers st) \<and> r \<noteq> rid"
  using assms timers_okD(3,4,7) [OF assms(1)] by metis

lemma cancelReaper_none:
  assumes "timers_ok stopping st" "rid < next_room st"
  shows "(tid, rid, due) \<notin> set (timers (cancelReaper rid st))"
  using other_timers [OF assms, of tid rid due] by auto

lemma cancelReaper_timers_ok:
  assumes "timers_ok stopping st" "rid < next_room st"
  shows "timers_ok stopping (cancelReaper rid st)"
proof (rule timers_okI)
  show "map_wf (timers (cancelReaper rid st))" using timers_okD(1) [OF assms(1)] by simp
  show "tid < next_timer (cancelReaper rid st)"
    if "r < next_room (cancelReaper rid st)" "reaper (heap (cancelReaper rid st) r) = Some tid" for r tid
    using timers_okD(2) [OF assms(1)] that by (simp split: if_splits)
  show "r = r'" if "r < next_room (cancelReaper rid st)" "r' < next_room (cancelReaper rid st)"
    "reaper (heap (cancelReaper rid st) r) = Some tid" "reaper (heap (cancelReaper rid st) r') = Some tid" for r r' tid
    using timers_okD(7) [OF assms(1), of r r' tid] that by (simp split: if_splits)
  show "r < next_room (cancelReaper rid st) \<and> reaper (heap (cancelReaper rid st) r) = Some tid
      \<and> peers (heap (cancelReaper rid st) r) = []
      \<and> (map_get (rooms (cancelReaper rid st)) (room_key (heap (cancelReaper rid st) r)) = Some r
          \<or> (stopping \<and> rooms (cancelReaper rid st) = []))"
    if "(tid, r, due) \<in> set (timers (cancelReaper rid st))" for tid r due
    using timers_okD(3-6) [OF assms(1), of tid r due] that other_timers [OF assms, of tid r due] by simp
qed

lemma timers_ok_upd:
  assumes "timers_ok stopping st"
    "\<And>tid due. (tid, rid, due) \<in> set (timers st)
       \<Longrightarrow> peers (f (heap st rid)) = [] \<and> room_key (f (heap st rid)) = room_key (heap st rid)"
    "\<And>r. reaper (f r) = reaper r"
  shows "timers_ok stopping (upd_room rid f st)"
proof (rule timers_okI)
  show "map_wf (timers (upd_room rid f st))" using timers_okD(1) [OF assms(1)] by simp
  show "tid < next_timer (upd_room rid f st)"
    if "r < next_room (upd_room rid f st)" "reaper (heap (upd_room rid f st) r) = Some tid" for r tid
    using timers_okD(2) [OF assms(1)] that assms(3) by (simp split: if_splits)
  show "r = r'" if "r < next_room (upd_room rid f st)" "r' < next_room (upd_room rid f st)"
    "reaper (heap (upd_room rid f st) r) = Some tid" "reaper (heap (upd_room rid f st) r') = Some tid" for r r' tid
    using timers_okD(7) [OF assms(1), of r r' tid] that assms(3) by (simp split: if_splits)
  show "r < next_room (upd_room rid f st) \<and> reaper (heap (upd_room rid f st) r) = Some tid
      \<and> peers (heap (upd_room rid f st) r) = []
      \<and> (map_get (rooms (upd_room rid f st)) (room_key (heap (upd_room rid f st) r)) = Some r
          \<or> (stopping \<and> rooms (upd_room rid f st) = []))"
    if "(tid, r, due) \<in> set (timers (upd_room rid f st))" for tid r due
    using timers_okD(3-6) [OF assms(1), of tid r due] that assms(2,3) by (cases "r = rid") auto
qed

text \<open>Joining: \<open>acquire\<close> followed by \<open>attach\<close>, as a connection is accepted.\<close>

definition joinRoom :: "'doc yjs \<Rightarrow> string \<Rightarrow> nat \<Rightarrow> 'doc registry \<Rightarrow> nat \<times> bool \<times> 'doc registry" where
  "joinRoom yj key peer st =
     (let (rid, st1) = acquire yj key st; (rejoined, st2) = attach rid peer st1 in (rid, rejoined, st2))"

lemma joinRoom_registered:
  assumes "map_get (rooms st) key = Some rid"
  shows "joinRoom yj key peer st = (rid, joined (heap st rid),
     upd_room rid (\<lambda>r. r\<lparr> peers := set_add (peers r) peer, joined := True \<rparr>)
       (cancelReaper rid (cancelReaper rid st)))"
  using assms by (simp add: joinRoom_def acquire_def attach_def)

lemma joinRoom_fresh:
  fixes yj :: "'doc yjs"
  assumes "map_get (rooms st) key = None"
  defines "rid \<equiv> next_room st"
  defines "st1 \<equiv> st\<lparr> heap := (heap st)(rid := newRoom yj key), next_room := rid + 1,
                     rooms := map_set (rooms st) key rid \<rparr>"
  shows "joinRoom yj key peer st = (rid, False,
     upd_room rid (\<lambda>r. r\<lparr> peers := [peer], joined := True \<rparr>) st1)"
  using assms(1) by (simp add: joinRoom_def acquire_def attach_def newRoom_def Let_def set_add_def
      cancelReaper_def upd_room_def rid_def st1_def)

lemma joinRoom_key:
  assumes "joinRoom yj key peer st = (rid, rejoined, st')"
  shows "map_get (rooms st') key = Some rid" "peer \<in> set (peers (heap st' rid))"
  using assms
  by (cases "map_get (rooms st) key"; auto simp: joinRoom_registered joinRoom_fresh set_add_def)+

lemma rooms_ok_joined:
  assumes "rooms_ok st" "map_get (rooms st) key = Some rid" "rid < next_room st"
  shows "rooms_ok (upd_room rid (\<lambda>r. r\<lparr> peers := set_add (peers r) peer, joined := True \<rparr>)
       (cancelReaper rid (cancelReaper rid st)))"
  using assms rooms_okD [OF assms(1)] unfolding rooms_ok_def by (auto simp: set_add_def subset_iff)

lemma joinRoom_ok:
  assumes "registry_ok False st" "joinRoom yj key peer st = (rid, rejoined, st')"
  shows "registry_ok False st'"
proof (cases "map_get (rooms st) key")
  case (Some rid')
  have ok: "rooms_ok st" "timers_ok False st" "no_orphans st" using assms(1) by (auto simp: registry_ok_def)
  have st': "rid' = rid" "st' = upd_room rid (\<lambda>r. r\<lparr> peers := set_add (peers r) peer, joined := True \<rparr>)
       (cancelReaper rid (cancelReaper rid st))"
    using assms(2) joinRoom_registered [OF Some] by auto
  have rid: "map_get (rooms st) key = Some rid" "rid < next_room st"
    using Some st' rooms_okD(2) [OF ok(1)] by auto
  have "timers_ok False st'"
    unfolding st'(2) using ok(2) rid(2) cancelReaper_none [OF cancelReaper_timers_ok [OF ok(2) rid(2)], of rid]
    by (intro timers_ok_upd cancelReaper_timers_ok) (auto simp del: cancelReaper_simps(5))
  moreover have "no_orphans st'"
    using ok(3) other_timers [OF ok(2) rid(2)] unfolding no_orphans_def by (auto simp: st' set_add_def)
  ultimately show ?thesis
    using rooms_ok_joined [OF ok(1) rid] by (simp add: registry_ok_def st')
next
  case None
  have ok: "rooms_ok st" "timers_ok False st" "no_orphans st" using assms(1) by (auto simp: registry_ok_def)
  note st' = assms(2) [unfolded joinRoom_fresh [OF None], symmetric]
  have fresh: "map_get (rooms st) k \<noteq> Some (next_room st)" for k
    using rooms_okD(2) [OF ok(1)] by blast
  have used: "peers (heap st r) = []" if "r < next_room st" "room_key (heap st r) = key" for r
    using rooms_okD(4) [OF ok(1) that(1)] None that(2) by auto
  have "rooms_ok st'"
    using None st' rooms_okD [OF ok(1)] fresh used unfolding rooms_ok_def by (auto simp: newRoom_def less_Suc_eq)
  moreover have "timers_ok False st'"
  proof (rule timers_okI)
    show "map_wf (timers st')" using timers_okD(1) [OF ok(2)] st' by simp
    show "tid < next_timer st'" if "r < next_room st'" "reaper (heap st' r) = Some tid" for r tid
      using timers_okD(2) [OF ok(2), of r tid] that st' by (auto simp: newRoom_def less_Suc_eq split: if_splits)
    show "r = r'" if "r < next_room st'" "r' < next_room st'" "reaper (heap st' r) = Some tid"
      "reaper (heap st' r') = Some tid" for r r' tid
      using timers_okD(7) [OF ok(2), of r r' tid] that st' by (auto simp: newRoom_def less_Suc_eq split: if_splits)
    show "r < next_room st' \<and> reaper (heap st' r) = Some tid \<and> peers (heap st' r) = []
        \<and> (map_get (rooms st') (room_key (heap st' r)) = Some r \<or> (False \<and> rooms st' = []))"
      if "(tid, r, due) \<in> set (timers st')" for tid r due
      using timers_okD(3-6) [OF ok(2), of tid r due] that st' None by auto
  qed
  moreover have "no_orphans st'"
    using st' ok(3) fresh rooms_okD(2) [OF ok(1)] unfolding no_orphans_def by (auto simp: newRoom_def)
  ultimately show ?thesis by (simp add: registry_ok_def)
qed

text \<open>Leaving: the peer is in its room, or the registry has been cleared.\<close>

abbreviation drop_peer :: "nat \<Rightarrow> 'doc room \<Rightarrow> 'doc room" where
  "drop_peer peer \<equiv> (\<lambda>r. r\<lparr> peers := filter (\<lambda>q. q \<noteq> peer) (peers r),
                          lastAwareness := map_delete (lastAwareness r) peer \<rparr>)"

lemma drop_peer_rooms_ok:
  assumes "rooms_ok st" "rid < next_room st"
  shows "rooms_ok (upd_room rid (drop_peer peer) st)"
proof -
  have "fst ` set (map_delete (lastAwareness (heap st rid)) peer) \<subseteq> set (filter (\<lambda>q. q \<noteq> peer) (peers (heap st rid)))"
    if "map_get (rooms st) key = Some rid" for key
    using rooms_okD(6) [OF assms(1) that] by (auto simp: map_delete_def)
  moreover have "map_get (rooms st) (room_key (heap st rid)) = Some rid"
    if "filter (\<lambda>q. q \<noteq> peer) (peers (heap st rid)) \<noteq> []"
    using that rooms_okD(4) [OF assms] by (cases "peers (heap st rid)") simp_all
  ultimately show ?thesis
    using rooms_okD [OF assms(1)] unfolding rooms_ok_def by simp
qed

lemma scheduleReaper_rooms_ok:
  assumes "rooms_ok st"
  shows "rooms_ok (scheduleReaper delay now rid st)"
  using assms unfolding rooms_ok_def scheduleReaper_def Let_def by simp

lemma scheduleReaper_timers:
  assumes "timers_ok stopping st" "rid < next_room st"
  shows "(tid, r, due) \<in> set (timers (scheduleReaper delay now rid st)) \<longleftrightarrow>
     ((tid, r, due) \<in> set (timers st) \<and> r \<noteq> rid) \<or> (tid, r, due) = (next_timer st, rid, now + delay)"
  using other_timers [OF assms, of tid r due] by (auto simp: scheduleReaper_def Let_def)

lemma scheduleReaper_timers_ok:
  assumes "timers_ok stopping st" "rid < next_room st" "peers (heap st rid) = []"
    "map_get (rooms st) (room_key (heap st rid)) = Some rid \<or> (stopping \<and> rooms st = [])"
  shows "timers_ok stopping (scheduleReaper delay now rid st)" (is "timers_ok stopping ?st")
proof (rule timers_okI)
  note ok = timers_okD [OF assms(1)]
  have older: "tid < next_timer st" if "(tid, r, due) \<in> set (timers st)" for tid r due
    using ok(2) [OF ok(3) [OF that] ok(4) [OF that]] .
  have shape: "next_room ?st = next_room st" "rooms ?st = rooms st" "next_timer ?st = next_timer st + 1"
    "heap ?st = (heap st)(rid := (heap st rid)\<lparr> reaper := Some (next_timer st) \<rparr>)"
    by (simp_all add: scheduleReaper_def Let_def fun_eq_iff)
  have "map_wf (timers (cancelReaper rid st))" using ok(1) by simp
  then show "map_wf (timers ?st)"
    using older by (fastforce simp: scheduleReaper_def Let_def map_wf_def)
  show "tid < next_timer ?st" if "r < next_room ?st" "reaper (heap ?st r) = Some tid" for r tid
    using ok(2) [of r tid] that by (auto simp: shape split: if_splits)
  show "r = r'" if "r < next_room ?st" "r' < next_room ?st" "reaper (heap ?st r) = Some tid"
    "reaper (heap ?st r') = Some tid" for r r' tid
    using ok(2) [of r tid] ok(2) [of r' tid] ok(7) [of r r' tid] that by (auto simp: shape split: if_splits)
  show "r < next_room ?st \<and> reaper (heap ?st r) = Some tid \<and> peers (heap ?st r) = []
      \<and> (map_get (rooms ?st) (room_key (heap ?st r)) = Some r \<or> (stopping \<and> rooms ?st = []))"
    if "(tid, r, due) \<in> set (timers ?st)" for tid r due
    using that ok(3-6) [of tid r due] assms(2-4)
    by (auto simp: shape scheduleReaper_timers [OF assms(1,2)])
qed

lemma detach_ok:
  assumes "registry_ok stopping st" "rid < next_room st"
    "peer \<in> set (peers (heap st rid)) \<or> (stopping \<and> rooms st = [])"
  shows "registry_ok stopping (detach retention now rid peer st)"
proof -
  have ok: "rooms_ok st" "timers_ok stopping st" "no_orphans st" using assms(1) by (auto simp: registry_ok_def)
  define st1 where "st1 = upd_room rid (drop_peer peer) st"
  have r1: "rooms_ok st1" unfolding st1_def by (rule drop_peer_rooms_ok [OF ok(1) assms(2)])
  have registered: "map_get (rooms st1) (room_key (heap st1 rid)) = Some rid \<or> (stopping \<and> rooms st1 = [])"
    using assms(3) rooms_okD(4) [OF ok(1) assms(2)] by (cases "peers (heap st rid)") (auto simp: st1_def)
  have t1: "timers_ok stopping st1"
    unfolding st1_def using ok(2) timers_okD(5) [OF ok(2), of _ rid] by (intro timers_ok_upd) auto
  have same: "next_room st1 = next_room st" "rooms st1 = rooms st" "timers st1 = timers st"
    "\<And>r. r \<noteq> rid \<Longrightarrow> heap st1 r = heap st r"
    by (simp_all add: st1_def)
  show ?thesis
  proof (cases "peers (heap st1 rid) = []")
    case False
    then have "no_orphans st1"
      using ok(3) unfolding no_orphans_def by (metis same(2-4))
    then show ?thesis using False r1 t1 by (simp add: detach_def st1_def registry_ok_def)
  next
    case True
    let ?st = "scheduleReaper retention now rid st1"
    have "timers_ok stopping ?st"
      using t1 assms(2) True registered by (intro scheduleReaper_timers_ok) (simp_all add: same)
    moreover have "no_orphans ?st"
      unfolding no_orphans_def
    proof (intro allI impI, elim conjE)
      fix key r
      assume r: "map_get (rooms ?st) key = Some r" "peers (heap ?st r) = []"
      show "\<exists>tid due. (tid, r, due) \<in> set (timers ?st)"
      proof (cases "r = rid")
        case False
        then have "map_get (rooms st) key = Some r \<and> peers (heap st r) = []"
          using r by (simp add: scheduleReaper_def Let_def same)
        then obtain tid due where "(tid, r, due) \<in> set (timers st1)"
          using ok(3) unfolding no_orphans_def same by blast
        then show ?thesis
          using False scheduleReaper_timers [OF t1, of rid] assms(2) by (auto simp: same)
      next
        case True
        then show ?thesis using scheduleReaper_timers [OF t1, of rid] assms(2) by (auto simp: same)
      qed
    qed
    ultimately show ?thesis
      using True scheduleReaper_rooms_ok [OF r1] by (simp add: detach_def st1_def registry_ok_def)
  qed
qed

text \<open>Releasing: the room destroyed is the registered one, and no other room changes.\<close>

lemma release_ok:
  assumes "rooms_ok st" "timers_ok stopping st" "map_get (rooms st) key = Some rid" "peers (heap st rid) = []"
    "\<And>k r. map_get (rooms st) k = Some r \<Longrightarrow> peers (heap st r) = [] \<Longrightarrow> r \<noteq> rid
       \<Longrightarrow> \<exists>tid due. (tid, r, due) \<in> set (timers st)"
  shows "registry_ok stopping (release yj key st)"
proof -
  have rid: "rid < next_room st" "room_key (heap st rid) = key"
    using rooms_okD(2,3) [OF assms(1) assms(3)] by auto
  have shape: "release yj key st = upd_room rid (\<lambda>r. r\<lparr> peers := [], lastAwareness := [], doc := destroyDoc yj (doc r) \<rparr>)
       (cancelReaper rid (st\<lparr> rooms := map_delete (rooms st) key \<rparr>))"
    using assms(3) by (simp add: release_def destroyRoom_def)
  let ?st = "release yj key st"
  have proj: "next_room ?st = next_room st" "rooms ?st = map_delete (rooms st) key" "next_timer ?st = next_timer st"
    "\<And>r. r \<noteq> rid \<Longrightarrow> heap ?st r = heap st r" "room_key (heap ?st rid) = key" "peers (heap ?st rid) = []"
    "reaper (heap ?st rid) = None" "lastAwareness (heap ?st rid) = []"
    using rid(2) by (simp_all add: shape)
  have left: "(tid, r, due) \<in> set (timers ?st) \<longleftrightarrow> (tid, r, due) \<in> set (timers st) \<and> r \<noteq> rid" for tid r due
    using other_timers [OF assms(2) rid(1), of tid r due] by (auto simp: shape)
  have keys: "room_key (heap st r) \<noteq> key" if "map_get (rooms st) (room_key (heap st r)) = Some r" "r \<noteq> rid" for r
    using that assms(3) by auto
  have "rooms_ok ?st"
    unfolding rooms_ok_def proj(1,2)
  proof (intro conjI allI impI)
    show "map_wf (map_delete (rooms st) key)" using rooms_okD(1) [OF assms(1)] by simp
    show "r < next_room st" "room_key (heap ?st r) = k" if "map_get (map_delete (rooms st) key) k = Some r" for k r
      using rooms_okD(2,3) [OF assms(1), of k r] that proj(4) [of r] proj(5) rid(2) by (cases "r = rid"; auto split: if_splits)+
    show "map_get (map_delete (rooms st) key) (room_key (heap ?st r)) = Some r"
      if "r < next_room st" "peers (heap ?st r) \<noteq> []" for r
    proof -
      have "r \<noteq> rid" using that(2) proj(6) by auto
      then show ?thesis using rooms_okD(4) [OF assms(1), of r] that proj(4) [of r] keys [of r] by simp
    qed
    show "distinct (peers (heap ?st r))" if "r < next_room st" for r
      using rooms_okD(5) [OF assms(1) that] proj(4,6) by (cases "r = rid") simp_all
    show "fst ` set (lastAwareness (heap ?st r)) \<subseteq> set (peers (heap ?st r))"
      if "map_get (map_delete (rooms st) key) k = Some r" for k r
      using rooms_okD(6) [OF assms(1), of k r] that proj(4,6,8) by (cases "r = rid"; simp split: if_splits)
  qed
  moreover have "timers_ok stopping ?st"
  proof (rule timers_okI)
    show "map_wf (timers ?st)" using timers_okD(1) [OF assms(2)] by (simp add: shape)
    show "tid < next_timer ?st" if "r < next_room ?st" "reaper (heap ?st r) = Some tid" for r tid
      using timers_okD(2) [OF assms(2), of r tid] that proj by (cases "r = rid") simp_all
    show "r = r'" if "r < next_room ?st" "r' < next_room ?st" "reaper (heap ?st r) = Some tid"
      "reaper (heap ?st r') = Some tid" for r r' tid
      using timers_okD(7) [OF assms(2), of r r' tid] that proj by (cases "r = rid"; cases "r' = rid") simp_all
    show "r < next_room ?st \<and> reaper (heap ?st r) = Some tid \<and> peers (heap ?st r) = []
        \<and> (map_get (rooms ?st) (room_key (heap ?st r)) = Some r \<or> (stopping \<and> rooms ?st = []))"
      if "(tid, r, due) \<in> set (timers ?st)" for tid r due
      using timers_okD(3-6) [OF assms(2), of tid r due] that keys [of r] assms(3)
      by (auto simp: left proj)
  qed
  moreover have "no_orphans ?st"
    unfolding no_orphans_def
  proof (intro allI impI, elim conjE)
    fix k r assume r: "map_get (rooms ?st) k = Some r" "peers (heap ?st r) = []"
    then have "k \<noteq> key" "map_get (rooms st) k = Some r" by (auto simp: proj(2) split: if_splits)
    then have "r \<noteq> rid" using rooms_okD(3) [OF assms(1)] rid(2) by blast
    then show "\<exists>tid due. (tid, r, due) \<in> set (timers ?st)"
      using assms(5) [OF \<open>map_get (rooms st) k = Some r\<close>] r(2) left proj(4) by auto
  qed
  ultimately show ?thesis by (simp add: registry_ok_def)
qed

lemma fireReaper_ok:
  assumes "registry_ok stopping st"
  shows "registry_ok stopping (fireReaper yj tid st)"
proof (cases "map_get (timers st) tid")
  case None
  then show ?thesis using assms by (simp add: fireReaper_def)
next
  case (Some entry)
  then obtain rid due where t: "map_get (timers st) tid = Some (rid, due)" by (cases entry) auto
  have ok: "rooms_ok st" "timers_ok stopping st" "no_orphans st" using assms by (auto simp: registry_ok_def)
  have mem: "(tid, rid, due) \<in> set (timers st)" using map_get_in_set [OF t] .
  define st1 where "st1 = st\<lparr> timers := filter (\<lambda>t. fst t \<noteq> tid) (timers st) \<rparr>"
  have r1: "rooms_ok st1" using ok(1) by (simp add: st1_def rooms_ok_def)
  have t1: "timers_ok stopping st1"
    using timers_okD(1) [OF ok(2)] by (intro timers_ok_shrink [OF ok(2)]) (auto simp: st1_def)
  have fired: "fireReaper yj tid st = release yj (room_key (heap st rid)) st1"
    using timers_okD(5) [OF ok(2) mem] t by (simp add: fireReaper_def st1_def Let_def)
  consider "map_get (rooms st) (room_key (heap st rid)) = Some rid" | "stopping \<and> rooms st = []"
    using timers_okD(6) [OF ok(2) mem] by blast
  then show ?thesis
  proof cases
    case 1
    have "\<exists>tid' due'. (tid', r, due') \<in> set (timers st1)"
      if r: "map_get (rooms st1) k = Some r" "peers (heap st1 r) = []" "r \<noteq> rid" for k r
    proof -
      obtain tid' due' where m: "(tid', r, due') \<in> set (timers st)"
        using r(1,2) ok(3) unfolding no_orphans_def st1_def by simp blast
      then have "tid' \<noteq> tid"
        using timers_okD(4,3,7) [OF ok(2)] mem r(3) by metis
      then show ?thesis using m by (auto simp: st1_def)
    qed
    then show ?thesis
      unfolding fired using r1 t1 1 timers_okD(5) [OF ok(2) mem]
      by (intro release_ok [of _ _ _ rid]) (simp_all add: st1_def)
  next
    case 2
    then show ?thesis
      using r1 t1 by (simp add: fired release_def st1_def registry_ok_def no_orphans_def)
  qed
qed

lemma destroyRoom_simps [simp]:
  "next_room (destroyRoom yj rid st) = next_room st" "rooms (destroyRoom yj rid st) = rooms st"
  "peers (heap (destroyRoom yj rid st) r) = (if r = rid then [] else peers (heap st r))"
  "lastAwareness (heap (destroyRoom yj rid st) r) = (if r = rid then [] else lastAwareness (heap st r))"
  by (simp_all add: destroyRoom_def)

lemma destroyRoom_timers_ok:
  assumes "timers_ok stopping st" "rid < next_room st"
  shows "timers_ok stopping (destroyRoom yj rid st)"
  unfolding destroyRoom_def using assms cancelReaper_none [OF assms]
  by (intro timers_ok_upd cancelReaper_timers_ok) (auto simp del: cancelReaper_simps(5))

lemma fold_destroy:
  "timers_ok stopping st \<Longrightarrow> \<forall>rid\<in>snd ` set m. rid < next_room st \<Longrightarrow>
   timers_ok stopping (fold (\<lambda>(key, rid). destroyRoom yj rid) m st)"
  "next_room (fold (\<lambda>(key, rid). destroyRoom yj rid) m st) = next_room st"
  "rooms (fold (\<lambda>(key, rid). destroyRoom yj rid) m st) = rooms st"
  "peers (heap (fold (\<lambda>(key, rid). destroyRoom yj rid) m st) r)
     = (if r \<in> snd ` set m then [] else peers (heap st r))"
  "lastAwareness (heap (fold (\<lambda>(key, rid). destroyRoom yj rid) m st) r)
     = (if r \<in> snd ` set m then [] else lastAwareness (heap st r))"
  by (induction m arbitrary: st) (auto simp: destroyRoom_timers_ok split: prod.splits)

lemma clearRooms_ok:
  assumes "registry_ok True st"
  shows "registry_ok True (clearRooms yj st)"
    and "rooms (clearRooms yj st) = []" "next_room (clearRooms yj st) = next_room st"
    and "r < next_room st \<Longrightarrow> peers (heap (clearRooms yj st) r) = []"
proof -
  have ok: "rooms_ok st" "timers_ok True st" using assms by (auto simp: registry_ok_def)
  let ?f = "fold (\<lambda>(key, rid). destroyRoom yj rid) (rooms st) st"
  have "\<forall>rid\<in>snd ` set (rooms st). rid < next_room st"
    using rooms_okD(1,2) [OF ok(1)] by (auto simp: map_get_eq_Some_iff)
  note f = fold_destroy(1) [OF ok(2) this, of yj] fold_destroy(2-5) [where m = "rooms st" and st = st and yj = yj]
  have empty: "peers (heap ?f r) = []" if "r < next_room st" for r
    using rooms_okD(4) [OF ok(1) that] f(4) [of r] map_get_in_set by force
  show "rooms (clearRooms yj st) = []" "next_room (clearRooms yj st) = next_room st"
    "r < next_room st \<Longrightarrow> peers (heap (clearRooms yj st) r) = []"
    using f(2) empty by (simp_all add: clearRooms_def)
  have "rooms_ok (clearRooms yj st)"
    using empty f(2) unfolding rooms_ok_def clearRooms_def by simp
  moreover have "timers_ok True (clearRooms yj st)"
    using timers_okD(1) [OF f(1)] by (intro timers_ok_shrink [OF f(1)]) (simp_all add: clearRooms_def)
  ultimately show "registry_ok True (clearRooms yj st)"
    by (simp add: registry_ok_def no_orphans_def clearRooms_def)
qed

text \<open>What the operations leave of the rooms they are not about.\<close>

lemma joinRoom_frame:
  assumes "rooms_ok st" "joinRoom yj key peer st = (rid, rejoined, st')"
  shows "rid < next_room st'" "next_room st \<le> next_room st'" "room_key (heap st' rid) = key"
    and "r < next_room st \<Longrightarrow> room_key (heap st' r) = room_key (heap st r)"
    and "r < next_room st' \<Longrightarrow> set (peers (heap st' r)) = (if r = rid then {peer} else {})
          \<union> (if r < next_room st then set (peers (heap st r)) else {})"
proof -
  have "rid < next_room st' \<and> next_room st \<le> next_room st' \<and> room_key (heap st' rid) = key
    \<and> (r < next_room st \<longrightarrow> room_key (heap st' r) = room_key (heap st r))
    \<and> (r < next_room st' \<longrightarrow> set (peers (heap st' r)) = (if r = rid then {peer} else {})
          \<union> (if r < next_room st then set (peers (heap st r)) else {}))"
  proof (cases "map_get (rooms st) key")
    case None
    note st' = assms(2) [unfolded joinRoom_fresh [OF None], symmetric]
    show ?thesis using st' by (auto simp: newRoom_def less_Suc_eq)
  next
    case (Some rid')
    then show ?thesis
      using assms(2) joinRoom_registered [OF Some] rooms_okD(2,3) [OF assms(1) Some] by auto
  qed
  then show "rid < next_room st'" "next_room st \<le> next_room st'" "room_key (heap st' rid) = key"
    "r < next_room st \<Longrightarrow> room_key (heap st' r) = room_key (heap st r)"
    "r < next_room st' \<Longrightarrow> set (peers (heap st' r)) = (if r = rid then {peer} else {})
          \<union> (if r < next_room st then set (peers (heap st r)) else {})" by blast+
qed

lemma detach_frame:
  "next_room (detach retention t rid peer st) = next_room st" "rooms (detach retention t rid peer st) = rooms st"
  "room_key (heap (detach retention t rid peer st) r) = room_key (heap st r)"
  "doc (heap (detach retention t rid peer st) r) = doc (heap st r)"
  "peers (heap (detach retention t rid peer st) r)
     = (if r = rid then filter (\<lambda>q. q \<noteq> peer) (peers (heap st r)) else peers (heap st r))"
  by (simp_all add: detach_def scheduleReaper_def Let_def)

lemma fireReaper_frame:
  assumes "registry_ok stopping st"
  shows "next_room (fireReaper yj tid st) = next_room st"
    and "room_key (heap (fireReaper yj tid st) r) = room_key (heap st r)"
    and "peers (heap (fireReaper yj tid st) r) = peers (heap st r)"
    and "rooms st = [] \<Longrightarrow> rooms (fireReaper yj tid st) = []"
proof -
  have ok: "rooms_ok st" "timers_ok stopping st" using assms by (auto simp: registry_ok_def)
  have "next_room (fireReaper yj tid st) = next_room st \<and> room_key (heap (fireReaper yj tid st) r) = room_key (heap st r)
    \<and> peers (heap (fireReaper yj tid st) r) = peers (heap st r)
    \<and> (rooms st = [] \<longrightarrow> rooms (fireReaper yj tid st) = [])"
  proof (cases "map_get (timers st) tid")
    case (Some entry)
    then obtain rid due where t: "map_get (timers st) tid = Some (rid, due)" by (cases entry) auto
    have mem: "(tid, rid, due) \<in> set (timers st)" using map_get_in_set [OF t] .
    show ?thesis
      using t timers_okD(5,6) [OF ok(2) mem]
      by (auto simp: fireReaper_def Let_def release_def destroyRoom_def split: option.splits)
  qed (simp add: fireReaper_def)
  then show "next_room (fireReaper yj tid st) = next_room st"
    "room_key (heap (fireReaper yj tid st) r) = room_key (heap st r)"
    "peers (heap (fireReaper yj tid st) r) = peers (heap st r)"
    "rooms st = [] \<Longrightarrow> rooms (fireReaper yj tid st) = []" by blast+
qed

text \<open>Changing a document, or the presence payload of an attached peer, keeps the invariant.\<close>

lemma upd_room_ok:
  assumes "registry_ok stopping st" "rid < next_room st"
    "\<And>r. reaper (f r) = reaper r" "\<And>r. peers (f r) = peers r" "\<And>r. room_key (f r) = room_key r"
    "fst ` set (lastAwareness (heap st rid)) \<subseteq> set (peers (heap st rid)) \<Longrightarrow> map_get (rooms st) (room_key (heap st rid)) = Some rid
       \<Longrightarrow> fst ` set (lastAwareness (f (heap st rid))) \<subseteq> set (peers (heap st rid))"
  shows "registry_ok stopping (upd_room rid f st)"
proof -
  have ok: "rooms_ok st" "timers_ok stopping st" "no_orphans st" using assms(1) by (auto simp: registry_ok_def)
  have "fst ` set (lastAwareness (f (heap st rid))) \<subseteq> set (peers (heap st rid))" if "map_get (rooms st) key = Some rid" for key
    using assms(6) rooms_okD(6) [OF ok(1) that] rooms_okD(3) [OF ok(1) that] that by simp
  then have "rooms_ok (upd_room rid f st)"
    using rooms_okD [OF ok(1)] assms(4,5) unfolding rooms_ok_def by auto
  moreover have "timers_ok stopping (upd_room rid f st)"
    using ok(2) timers_okD(5) [OF ok(2)] assms(3-5) by (intro timers_ok_upd) auto
  moreover have "no_orphans (upd_room rid f st)"
    using ok(3) assms(4) unfolding no_orphans_def by (simp add: fun_upd_def) blast
  ultimately show ?thesis by (simp add: registry_ok_def)
qed

lemma clearRooms_key: "room_key (heap (clearRooms yj st) r) = room_key (heap st r)"
proof -
  have "room_key (heap (fold (\<lambda>(key, rid). destroyRoom yj rid) m st') r) = room_key (heap st' r)" for m st'
    by (induction m arbitrary: st') (auto simp: destroyRoom_def split: prod.splits)
  then show ?thesis by (simp add: clearRooms_def)
qed

end
