(* ===== verification/Collab_Server.thy ===== *)
theory Collab_Server
  imports Collab_Rooms Single_Use Js_String
begin

text \<open>
  The collaboration server (\<open>apps/collab/src/server.ts\<close>): the handshake, the connection lifecycle,
  frames, heartbeat and shutdown, as handlers on one explicit state and as the transition system
  their interleavings form.

  The URL parser is a parameter of the configuration: \<open>None\<close> when \<open>new URL\<close> throws, otherwise the
  path and the query pairs. A connection is named by its number; \<open>open_sockets\<close> is the socket
  library's part of the state, the sockets whose \<open>close\<close> event has not fired, and whether a socket
  is \<open>OPEN\<close> when something is sent to it is an argument of the event. What a handler does to the
  outside is a list of effects, in order. Metrics and log lines are left out. Times are unbounded:
  \<open>roomRetentionMs\<close>, five minutes unless set otherwise, stands for a window \<open>setTimeout\<close> can wait, which is
  at most \<open>2^31 - 1\<close> milliseconds.
\<close>

record 'doc config =
  plat :: platform
  docs :: "'doc yjs"
  parseUrl :: "string \<Rightarrow> (string \<times> (string \<times> string) list) option"
  ticketSecret :: string
  ticketPepper :: string
  roomRetentionMs :: int

datatype lifecycle = Running | Draining | Cut_off | Stopped | Crashed

record peerConnection =
  alive :: bool
  peer_room :: nat

record 'doc collab =
  reg :: "'doc registry"
  tickets :: single_use_store
  connections :: "nat list"
  sockets :: "nat \<Rightarrow> peerConnection"
  next_peer :: nat
  open_sockets :: "nat list"
  phase :: lifecycle

definition draining :: "'doc collab \<Rightarrow> bool" where
  "draining s \<longleftrightarrow> phase s \<noteq> Running"

definition CLOSE_GOING_AWAY :: nat where "CLOSE_GOING_AWAY = 1001"
definition CLOSE_PROTOCOL_ERROR :: nat where "CLOSE_PROTOCOL_ERROR = 1002"
definition CLOSE_UNSUPPORTED_DATA :: nat where "CLOSE_UNSUPPORTED_DATA = 1003"

datatype jsonBody = Error_envelope refusalCode | Status_ok | Readiness bool "(string \<times> string) list" | No_body | Metrics_text

record httpResponse =
  rs_status :: nat
  rs_text :: string
  rs_body :: jsonBody
  rs_retryAfter :: bool

datatype effect =
    Send nat bytes | Close_socket nat nat | Terminate nat | Ping nat | Respond httpResponse

subsection \<open>HTTP\<close>

text \<open>A readiness check answers, or throws (\<open>None\<close>).\<close>

fun readyLoop :: "(string \<times> bool option) list \<Rightarrow> bool \<Rightarrow> (string, string) jsmap \<Rightarrow> bool \<times> (string, string) jsmap" where
  "readyLoop [] ready results = (ready, results)"
| "readyLoop ((name, answer) # checks) ready results =
     (let passed = (answer = Some True);
          results' = map_set results name (if passed then ''ok'' else ''failed'')
      in readyLoop checks (ready \<and> passed) results')"

definition readyState :: "'doc collab \<Rightarrow> (string \<times> bool option) list \<Rightarrow> bool \<times> (string, string) jsmap" where
  "readyState s checks =
     (if draining s then (False, [(''lifecycle'', ''draining'')]) else readyLoop checks True [])"

definition json :: "nat \<Rightarrow> jsonBody \<Rightarrow> httpResponse" where
  "json status body = \<lparr> rs_status = status, rs_text = [], rs_body = body, rs_retryAfter = False \<rparr>"

definition notFound :: httpResponse where
  "notFound = json 404 (Error_envelope Not_found)"

text \<open>\<open>None\<close> when the handler throws.\<close>

definition handleHttp ::
  "'doc config \<Rightarrow> 'doc collab \<Rightarrow> (string \<times> bool option) list \<Rightarrow> string \<Rightarrow> string \<Rightarrow> httpResponse option"
where
  "handleHttp cfg s checks verb url =
     (if verb \<noteq> ''GET'' \<and> verb \<noteq> ''HEAD'' then Some (json 405 No_body)
      else case parseUrl cfg url of None \<Rightarrow> None
      | Some (path, _) \<Rightarrow>
        if path = ''/healthz'' then Some (json 200 Status_ok)
        else if path = ''/readyz'' then
          (let (ready, results) = readyState s checks
           in Some (json (if ready then 200 else 503) (Readiness ready results)))
        else if path = ''/metrics'' then Some (json 200 Metrics_text)
        else Some notFound)"

subsection \<open>The handshake\<close>

definition COLLAB_PATH_PREFIX :: string where
  "COLLAB_PATH_PREFIX = ''/collab''"

definition is_alnum :: "char \<Rightarrow> bool" where
  "is_alnum c \<longleftrightarrow> is_alpha c \<or> is_digit c"

definition ROOM_CODE_PATTERN :: "string \<Rightarrow> bool" where
  "ROOM_CODE_PATTERN code = (case code of [] \<Rightarrow> False
     | c # cs \<Rightarrow> is_alnum c \<and> 2 \<le> length cs \<and> length cs \<le> 63
         \<and> list_all (\<lambda>d. is_alnum d \<or> d = CHR ''_'' \<or> d = CHR ''-'') cs)"

datatype rejectionReason =
    J_auth authErrorReason | J_no_ticket | J_replayed | J_unknown_path | J_shutting_down

datatype handshake = Authorised wsTicket string | Refusal nat rejectionReason

text \<open>\<open>authorise\<close>, with the store it leaves; \<open>None\<close> when the URL parser throws.\<close>

definition authorise ::
  "'doc config \<Rightarrow> 'doc collab \<Rightarrow> int \<Rightarrow> string \<Rightarrow> (handshake \<times> single_use_store) option"
where
  "authorise cfg s now url =
     (if draining s then Some (Refusal 503 J_shutting_down, tickets s)
      else case parseUrl cfg url of None \<Rightarrow> None
      | Some (pathname, params) \<Rightarrow>
        let segs = filter (\<lambda>segment. length segment > 0) (splitOn CHR ''/'' pathname)
        in if length segs \<noteq> 2 \<or> CHR ''/'' # segs ! 0 \<noteq> COLLAB_PATH_PREFIX \<or> \<not> ROOM_CODE_PATTERN (segs ! 1)
           then Some (Refusal 404 J_unknown_path, tickets s)
           else case map_of params ''ticket'' of
             None \<Rightarrow> Some (Refusal 401 J_no_ticket, tickets s)
           | Some presented \<Rightarrow>
             if presented = [] then Some (Refusal 401 J_no_ticket, tickets s)
             else case verifyWsTicket (plat cfg) presented (ticketSecret cfg) (Some now) of
               Inl e \<Rightarrow> Some (Refusal 401 (J_auth e), tickets s)
             | Inr verified \<Rightarrow>
               (case ticketStoreClaim (plat cfg) (ticketPepper cfg) REPLAY_RETENTION_MS (tickets s) now presented of
                  (Replayed, st) \<Rightarrow> Some (Refusal 401 J_replayed, st)
                | (Claimed, st) \<Rightarrow> Some (Authorised verified (segs ! 1), st)))"

definition STATUS_TEXT :: "nat \<Rightarrow> string" where
  "STATUS_TEXT status = (if status = 401 then ''Unauthorized'' else if status = 404 then ''Not Found''
     else if status = 503 then ''Service Unavailable'' else ''Error'')"

definition refuseUpgrade :: "nat \<Rightarrow> httpResponse" where
  "refuseUpgrade status =
     \<lparr> rs_status = status, rs_text = STATUS_TEXT status,
       rs_body = (if status = 404 then Error_envelope Not_found
                  else if status = 401 then Error_envelope Unauthenticated else No_body),
       rs_retryAfter = (status = 503) \<rparr>"

subsection \<open>The connection lifecycle\<close>

text \<open>\<open>send\<close> of a connection. The length of a byte array is always safe, so encoding does not throw
  here; a frame that did not encode would not be sent.\<close>

definition peerSend :: "(nat \<Rightarrow> bool) \<Rightarrow> nat \<Rightarrow> (protocolError, bytes) result \<Rightarrow> effect list" where
  "peerSend opened p encoded =
     (case encoded of Inl _ \<Rightarrow> [] | Inr frm \<Rightarrow> if opened p then [Send p frm] else [])"

definition sendAwareness :: "(nat \<Rightarrow> bool) \<Rightarrow> 'doc room \<Rightarrow> nat \<Rightarrow> effect list" where
  "sendAwareness opened r p =
     concat (map (\<lambda>(other, payload). if other \<noteq> p then peerSend opened p (encodeAwareness payload) else [])
       (lastAwareness r))"

definition accept ::
  "'doc config \<Rightarrow> (nat \<Rightarrow> bool) \<Rightarrow> wsTicket \<Rightarrow> 'doc collab \<Rightarrow> 'doc collab \<times> effect list"
where
  "accept cfg opened ticket s =
     (let p = next_peer s;
          (rid, rejoined, reg') = joinRoom (docs cfg) (sessionId ticket) p (reg s);
          r = heap reg' rid
      in (s\<lparr> reg := reg', sockets := (sockets s)(p := \<lparr> alive = True, peer_room = rid \<rparr>), next_peer := p + 1,
             connections := set_add (connections s) p, open_sockets := open_sockets s @ [p] \<rparr>,
          peerSend opened p (encodeSyncStep1 (encodeStateVector (docs cfg) (doc r))) @ sendAwareness opened r p))"

text \<open>
  The \<open>upgrade\<close> listener. \<open>completes\<close> says whether the library's \<open>handleUpgrade\<close> completes the handshake and
  calls back: it does not when the request lacks what the WebSocket protocol asks for or the socket has
  gone, and answers the peer itself. The ticket has been claimed by then and stays claimed.
\<close>

definition upgrade ::
  "'doc config \<Rightarrow> (nat \<Rightarrow> bool) \<Rightarrow> bool \<Rightarrow> int \<Rightarrow> string \<Rightarrow> 'doc collab \<Rightarrow> ('doc collab \<times> effect list) option"
where
  "upgrade cfg opened completes now url s =
     (case authorise cfg s now url of None \<Rightarrow> None
      | Some (Refusal status reason, st) \<Rightarrow> Some (s\<lparr> tickets := st \<rparr>, [Respond (refuseUpgrade status)])
      | Some (Authorised ticket roomCode, st) \<Rightarrow> 
          Some (if completes then accept cfg opened ticket (s\<lparr> tickets := st \<rparr>) else (s\<lparr> tickets := st \<rparr>, [])))"

definition socketClosed :: "'doc config \<Rightarrow> int \<Rightarrow> nat \<Rightarrow> 'doc collab \<Rightarrow> 'doc collab" where
  "socketClosed cfg now p s =
     s\<lparr> connections := filter (\<lambda>q. q \<noteq> p) (connections s),
        reg := detach (roomRetentionMs cfg) now (peer_room (sockets s p)) p (reg s),
        open_sockets := filter (\<lambda>q. q \<noteq> p) (open_sockets s) \<rparr>"

definition pong :: "nat \<Rightarrow> 'doc collab \<Rightarrow> 'doc collab" where
  "pong p s = s\<lparr> sockets := (sockets s)(p := (sockets s p)\<lparr> alive := True \<rparr>) \<rparr>"

datatype rawData = Whole bytes | Fragments "bytes list"

definition toBytes :: "rawData \<Rightarrow> bytes" where
  "toBytes data = (case data of Whole bs \<Rightarrow> bs | Fragments parts \<Rightarrow> concat parts)"

definition relay :: "(nat \<Rightarrow> bool) \<Rightarrow> 'doc room \<Rightarrow> bytes \<Rightarrow> nat \<Rightarrow> effect list" where
  "relay opened r frm origin = concat (map (\<lambda>(p, f). peerSend opened p (Inr f)) (broadcast r frm (Some origin)))"

definition frameFailed :: "nat \<Rightarrow> effect list" where
  "frameFailed p = [Close_socket p CLOSE_PROTOCOL_ERROR]"

definition handleFrame ::
  "'doc config \<Rightarrow> (nat \<Rightarrow> bool) \<Rightarrow> nat \<Rightarrow> rawData \<Rightarrow> bool \<Rightarrow> 'doc collab \<Rightarrow> 'doc collab \<times> effect list"
where
  "handleFrame cfg opened p data isBinary s =
     (if \<not> isBinary then (s, [Close_socket p CLOSE_UNSUPPORTED_DATA])
      else
        let rid = peer_room (sockets s p); r = heap (reg s) rid;
            setRoom = (\<lambda>f. s\<lparr> reg := upd_room rid f (reg s) \<rparr>);
            updated = (\<lambda>update.
              case applyUpdate (docs cfg) (doc r) update of (d, applied) \<Rightarrow>
                let s' = setRoom (\<lambda>r. r\<lparr> doc := d \<rparr>)
                in if \<not> applied then (s', frameFailed p)
                   else case encodeSyncUpdate update of
                     Inl _ \<Rightarrow> (s', frameFailed p)
                   | Inr frm \<Rightarrow> (s', relay opened r frm p))
        in case decodeFrame (toBytes data) of
             Inl _ \<Rightarrow> (s, frameFailed p)
           | Inr (Sync_step_1 stateVector) \<Rightarrow>
             (case encodeStateAsUpdate (docs cfg) (doc r) stateVector of
                None \<Rightarrow> (s, frameFailed p)
              | Some update \<Rightarrow>
                (case encodeSyncStep2 update of
                   Inl _ \<Rightarrow> (s, frameFailed p)
                 | Inr frm \<Rightarrow> (s, peerSend opened p (Inr frm))))
           | Inr (Sync_step_2 update) \<Rightarrow> updated update
           | Inr (Sync_update update) \<Rightarrow> updated update
           | Inr (Awareness payload) \<Rightarrow>
             (let s' = setRoom (\<lambda>r. r\<lparr> lastAwareness := map_set (lastAwareness r) p payload \<rparr>)
              in case encodeAwareness payload of
                   Inl _ \<Rightarrow> (s', frameFailed p)
                 | Inr frm \<Rightarrow> (s', relay opened r frm p))
           | Inr Query_awareness \<Rightarrow> (s, sendAwareness opened r p)
           | Inr (Ignored messageType) \<Rightarrow> (s, []))"

subsection \<open>Heartbeat and shutdown\<close>

fun beat :: "nat list \<Rightarrow> (nat \<Rightarrow> peerConnection) \<Rightarrow> (nat \<Rightarrow> peerConnection) \<times> effect list" where
  "beat [] socks = (socks, [])"
| "beat (p # ps) socks =
     (if \<not> alive (socks p) then (let (socks', es) = beat ps socks in (socks', Terminate p # es))
      else let (socks', es) = beat ps (socks(p := (socks p)\<lparr> alive := False \<rparr>)) in (socks', Ping p # es))"

definition heartbeat :: "'doc collab \<Rightarrow> 'doc collab \<times> effect list" where
  "heartbeat s = (let (socks, es) = beat (connections s) (sockets s) in (s\<lparr> sockets := socks \<rparr>, es))"

text \<open>\<open>close\<close>, in the three parts its awaits cut it into. \<open>isClosed\<close> says which sockets are \<open>CLOSED\<close>.\<close>

definition closeBegin :: "(nat \<Rightarrow> bool) \<Rightarrow> 'doc collab \<Rightarrow> 'doc collab \<times> effect list" where
  "closeBegin isClosed s =
     (if draining s then (s, [])
      else (s\<lparr> phase := Draining \<rparr>,
            map (\<lambda>p. Close_socket p CLOSE_GOING_AWAY) (filter (\<lambda>p. \<not> isClosed p) (connections s))))"

definition closeCut :: "'doc collab \<Rightarrow> 'doc collab \<times> effect list" where
  "closeCut s = (s\<lparr> connections := [], phase := Cut_off \<rparr>, map Terminate (connections s))"

definition closeFinish :: "'doc config \<Rightarrow> 'doc collab \<Rightarrow> 'doc collab" where
  "closeFinish cfg s = s\<lparr> reg := clearRooms (docs cfg) (reg s), tickets := emptyStore, phase := Stopped \<rparr>"

subsection \<open>The transition system\<close>

text \<open>
  One event at a time, as the event loop delivers them. \<open>grants\<close> is a history variable: every
  handshake that completed, with the text presented, what it verified to and when.
\<close>

datatype event =
    Tick int
  | Http string string "(string \<times> bool option) list"
  | Upgrade "nat \<Rightarrow> bool" bool string
  | Message "nat \<Rightarrow> bool" nat rawData bool
  | Socket_closed nat
  | Pong nat
  | Heartbeat
  | Reap nat
  | Close_begin "nat \<Rightarrow> bool"
  | Close_cut
  | Close_finish

record grant =
  g_peer :: nat
  g_text :: string
  g_ticket :: wsTicket
  g_at :: int

record 'doc system =
  server :: "'doc collab"
  now :: int
  grants :: "grant list"

definition initial :: "'doc config \<Rightarrow> int \<Rightarrow> 'doc system" where
  "initial cfg t =
     \<lparr> server = \<lparr> reg = emptyRegistry (docs cfg), tickets = emptyStore, connections = [],
         sockets = (\<lambda>_. \<lparr> alive = False, peer_room = 0 \<rparr>), next_peer = 0, open_sockets = [], phase = Running \<rparr>,
       now = t, grants = [] \<rparr>"

definition granted :: "'doc config \<Rightarrow> bool \<Rightarrow> 'doc system \<Rightarrow> string \<Rightarrow> grant list" where
  "granted cfg completes y url =
     (if \<not> completes then []
      else case (authorise cfg (server y) (now y) url, parseUrl cfg url) of
        (Some (Authorised ticket code, st), Some (path, params)) \<Rightarrow>
          (case map_of params ''ticket'' of
             Some presented \<Rightarrow> [\<lparr> g_peer = next_peer (server y), g_text = presented, g_ticket = ticket, g_at = now y \<rparr>]
           | None \<Rightarrow> [])
      | _ \<Rightarrow> [])"

definition enabled :: "'doc system \<Rightarrow> event \<Rightarrow> bool" where
  "enabled y ev \<longleftrightarrow> phase (server y) \<noteq> Crashed \<and>
     (case ev of
        Tick d \<Rightarrow> 0 \<le> d
      | Http verb url checks \<Rightarrow> phase (server y) \<noteq> Stopped
      | Upgrade opened completes url \<Rightarrow> phase (server y) \<noteq> Stopped
      | Message opened p data isBinary \<Rightarrow> p \<in> set (open_sockets (server y))
      | Socket_closed p \<Rightarrow> p \<in> set (open_sockets (server y))
      | Pong p \<Rightarrow> p \<in> set (open_sockets (server y))
      | Heartbeat \<Rightarrow> phase (server y) = Running
      | Reap tid \<Rightarrow> (case map_get (timers (reg (server y))) tid of Some (rid, due) \<Rightarrow> due \<le> now y | None \<Rightarrow> False)
      | Close_begin isClosed \<Rightarrow> True
      | Close_cut \<Rightarrow> phase (server y) = Draining
      | Close_finish \<Rightarrow> phase (server y) = Cut_off)"

text \<open>
  The listener of each event: what it leaves and what it does to the outside, or \<open>None\<close> when an
  exception leaves it. Only the readiness checks and the decoding of a frame are inside a \<open>try\<close> of their
  own (\<open>readyLoop\<close>, \<open>handleFrame\<close>), so the exceptions are those of \<open>handleHttp\<close> and \<open>authorise\<close>.
\<close>

definition listener :: "'doc config \<Rightarrow> 'doc system \<Rightarrow> event \<Rightarrow> ('doc system \<times> effect list) option" where
  "listener cfg y ev =
     (let s = server y in
      case ev of
        Tick d \<Rightarrow> Some (y\<lparr> now := now y + d \<rparr>, [])
      | Http verb url checks \<Rightarrow>
        map_option (\<lambda>rsp. (y, [Respond rsp])) (handleHttp cfg s checks verb url)
      | Upgrade opened completes url \<Rightarrow>
        map_option (\<lambda>(s', es). (y\<lparr> server := s', grants := grants y @ granted cfg completes y url \<rparr>, es))
          (upgrade cfg opened completes (now y) url s)
      | Message opened p data isBinary \<Rightarrow>
        (let (s', es) = handleFrame cfg opened p data isBinary s in Some (y\<lparr> server := s' \<rparr>, es))
      | Socket_closed p \<Rightarrow> Some (y\<lparr> server := socketClosed cfg (now y) p s \<rparr>, [])
      | Pong p \<Rightarrow> Some (y\<lparr> server := pong p s \<rparr>, [])
      | Heartbeat \<Rightarrow> (let (s', es) = heartbeat s in Some (y\<lparr> server := s' \<rparr>, es))
      | Reap tid \<Rightarrow> Some (y\<lparr> server := s\<lparr> reg := fireReaper (docs cfg) tid (reg s) \<rparr> \<rparr>, [])
      | Close_begin isClosed \<Rightarrow> (let (s', es) = closeBegin isClosed s in Some (y\<lparr> server := s' \<rparr>, es))
      | Close_cut \<Rightarrow> (let (s', es) = closeCut s in Some (y\<lparr> server := s' \<rparr>, es))
      | Close_finish \<Rightarrow> Some (y\<lparr> server := closeFinish cfg s \<rparr>, []))"

text \<open>The event loop: an exception no one catches ends the process.\<close>

definition crash :: "'doc system \<Rightarrow> 'doc system" where
  "crash y = y\<lparr> server := (server y)\<lparr> phase := Crashed \<rparr> \<rparr>"

definition deliver :: "'doc config \<Rightarrow> 'doc system \<Rightarrow> event \<Rightarrow> 'doc system \<times> effect list" where
  "deliver cfg y ev = (case listener cfg y ev of None \<Rightarrow> (crash y, []) | Some outcome \<Rightarrow> outcome)"

lemmas deliver_unfold = deliver_def listener_def

inductive reachable :: "'doc config \<Rightarrow> 'doc system \<Rightarrow> bool" for cfg where
  start: "reachable cfg (initial cfg t)"
| event: "reachable cfg y \<Longrightarrow> enabled y ev \<Longrightarrow> reachable cfg (fst (deliver cfg y ev))"

subsection \<open>The invariant\<close>

definition attached :: "'doc collab \<Rightarrow> nat \<Rightarrow> bool" where
  "attached s p \<longleftrightarrow> peer_room (sockets s p) < next_room (reg s)
     \<and> (p \<in> set (peers (heap (reg s) (peer_room (sockets s p)))) \<or> (draining s \<and> rooms (reg s) = []))"

definition peers_ok :: "'doc collab \<Rightarrow> bool" where
  "peers_ok s \<longleftrightarrow> registry_ok (draining s) (reg s)
     \<and> (\<forall>p \<in> set (open_sockets s). p < next_peer s \<and> attached s p)
     \<and> (\<forall>rid < next_room (reg s). \<forall>p \<in> set (peers (heap (reg s) rid)).
          p \<in> set (open_sockets s) \<and> peer_room (sockets s p) = rid)"

definition keys_ok :: "'doc system \<Rightarrow> bool" where
  "keys_ok y \<longleftrightarrow> (\<forall>p \<in> set (open_sockets (server y)). \<exists>g \<in> set (grants y). g_peer g = p
     \<and> room_key (heap (reg (server y)) (peer_room (sockets (server y) p))) = sessionId (g_ticket g))"

lemma peers_okD:
  assumes "peers_ok s"
  shows "registry_ok (draining s) (reg s)"
    and "p \<in> set (open_sockets s) \<Longrightarrow> p < next_peer s"
    and "p \<in> set (open_sockets s) \<Longrightarrow> peer_room (sockets s p) < next_room (reg s)"
    and "p \<in> set (open_sockets s) \<Longrightarrow>
          p \<in> set (peers (heap (reg s) (peer_room (sockets s p)))) \<or> (draining s \<and> rooms (reg s) = [])"
    and "rid < next_room (reg s) \<Longrightarrow> p \<in> set (peers (heap (reg s) rid)) \<Longrightarrow> p \<in> set (open_sockets s)"
    and "rid < next_room (reg s) \<Longrightarrow> p \<in> set (peers (heap (reg s) rid)) \<Longrightarrow> peer_room (sockets s p) = rid"
  using assms unfolding peers_ok_def attached_def by blast+

lemma peers_okI:
  assumes "registry_ok (draining s) (reg s)"
    and "\<And>p. p \<in> set (open_sockets s) \<Longrightarrow> p < next_peer s"
    and "\<And>p. p \<in> set (open_sockets s) \<Longrightarrow> peer_room (sockets s p) < next_room (reg s)"
    and "\<And>p. p \<in> set (open_sockets s) \<Longrightarrow>
          p \<in> set (peers (heap (reg s) (peer_room (sockets s p)))) \<or> (draining s \<and> rooms (reg s) = [])"
    and "\<And>rid p. rid < next_room (reg s) \<Longrightarrow> p \<in> set (peers (heap (reg s) rid))
          \<Longrightarrow> p \<in> set (open_sockets s) \<and> peer_room (sockets s p) = rid"
  shows "peers_ok s"
  using assms unfolding peers_ok_def attached_def by blast

lemma accept_shape:
  assumes "accept cfg opened ticket s = (s', es)"
  obtains rid rejoined reg' where "joinRoom (docs cfg) (sessionId ticket) (next_peer s) (reg s) = (rid, rejoined, reg')"
    "s' = s\<lparr> reg := reg', sockets := (sockets s)(next_peer s := \<lparr> alive = True, peer_room = rid \<rparr>),
             next_peer := next_peer s + 1, connections := set_add (connections s) (next_peer s),
             open_sockets := open_sockets s @ [next_peer s] \<rparr>"
  using assms by (auto simp: accept_def Let_def split: prod.splits)

lemma accept_ok:
  assumes "peers_ok s" "\<not> draining s" "accept cfg opened ticket s = (s', es)"
  shows "peers_ok s'"
proof -
  obtain rid rejoined reg' where j: "joinRoom (docs cfg) (sessionId ticket) (next_peer s) (reg s) = (rid, rejoined, reg')"
    and s': "s' = s\<lparr> reg := reg', sockets := (sockets s)(next_peer s := \<lparr> alive = True, peer_room = rid \<rparr>),
             next_peer := next_peer s + 1, connections := set_add (connections s) (next_peer s),
             open_sockets := open_sockets s @ [next_peer s] \<rparr>"
    by (rule accept_shape [OF assms(3)])
  note ok = peers_okD [OF assms(1)]
  have reg: "registry_ok False (reg s)" using ok(1) assms(2) by simp
  then have rooms: "rooms_ok (reg s)" by (simp add: registry_ok_def)
  note frame = joinRoom_frame [OF rooms j]
  have fresh: "p \<in> set (open_sockets s) \<Longrightarrow> p \<noteq> next_peer s" for p using ok(2) by auto
  have proj: "draining s' = False" "reg s' = reg'" "open_sockets s' = open_sockets s @ [next_peer s]"
    "next_peer s' = next_peer s + 1" "sockets s' = (sockets s)(next_peer s := \<lparr> alive = True, peer_room = rid \<rparr>)"
    using assms(2) by (simp_all add: s' draining_def)
  show ?thesis
  proof (rule peers_okI)
    show "registry_ok (draining s') (reg s')" using joinRoom_ok [OF reg j] by (simp add: proj)
    show "p < next_peer s'" if "p \<in> set (open_sockets s')" for p using that ok(2) by (auto simp: proj less_Suc_eq)
    show "peer_room (sockets s' p) < next_room (reg s')" if "p \<in> set (open_sockets s')" for p
      using that ok(3) frame(1,2) by (auto simp: proj intro: less_le_trans)
    show "p \<in> set (peers (heap (reg s') (peer_room (sockets s' p)))) \<or> draining s' \<and> rooms (reg s') = []"
      if "p \<in> set (open_sockets s')" for p
      using that ok(3,4) [of p] assms(2) frame(1,2) frame(5) [of "peer_room (sockets s' p)"] fresh [of p]
      by (auto simp: proj)
    show "p \<in> set (open_sockets s') \<and> peer_room (sockets s' p) = r"
      if "r < next_room (reg s')" "p \<in> set (peers (heap (reg s') r))" for r p
      using that ok(5,6) [of r p] frame(5) [of r] fresh [of p] by (auto simp: proj split: if_splits)
  qed
qed

lemma socketClosed_ok:
  assumes "peers_ok s" "p \<in> set (open_sockets s)"
  shows "peers_ok (socketClosed cfg t p s)"
proof -
  note ok = peers_okD [OF assms(1)]
  let ?s = "socketClosed cfg t p s" and ?rid = "peer_room (sockets s p)"
  have proj: "draining ?s = draining s" "reg ?s = detach (roomRetentionMs cfg) t ?rid p (reg s)"
    "open_sockets ?s = filter (\<lambda>q. q \<noteq> p) (open_sockets s)" "next_peer ?s = next_peer s" "sockets ?s = sockets s"
    by (simp_all add: socketClosed_def draining_def)
  show ?thesis
  proof (rule peers_okI)
    show "registry_ok (draining ?s) (reg ?s)"
      unfolding proj using ok(1,3,4) assms(2) by (intro detach_ok) auto
    show "q < next_peer ?s" if "q \<in> set (open_sockets ?s)" for q using that ok(2) by (simp add: proj)
    show "peer_room (sockets ?s q) < next_room (reg ?s)" if "q \<in> set (open_sockets ?s)" for q
      using that ok(3) by (simp add: proj detach_frame)
    show "q \<in> set (peers (heap (reg ?s) (peer_room (sockets ?s q)))) \<or> draining ?s \<and> rooms (reg ?s) = []"
      if "q \<in> set (open_sockets ?s)" for q
      using that ok(4) [of q] by (auto simp: proj detach_frame)
    show "q \<in> set (open_sockets ?s) \<and> peer_room (sockets ?s q) = r"
      if "r < next_room (reg ?s)" "q \<in> set (peers (heap (reg ?s) r))" for r q
      using that ok(5,6) [of r q] by (auto simp: proj detach_frame split: if_splits)
  qed
qed

text \<open>A change of the registry that keeps every room's peers.\<close>

lemma peers_ok_reg:
  assumes "peers_ok s" "registry_ok (draining s) st" "next_room st = next_room (reg s)"
    "\<And>r. peers (heap st r) = peers (heap (reg s) r)" "rooms (reg s) = [] \<Longrightarrow> rooms st = []"
  shows "peers_ok (s\<lparr> reg := st \<rparr>)"
proof -
  have "draining (s\<lparr> reg := st \<rparr>) = draining s" by (simp add: draining_def)
  then show ?thesis
    using peers_okD [OF assms(1)] assms(2-5) by (intro peers_okI) auto
qed

lemma fireReaper_peers_ok:
  "peers_ok s \<Longrightarrow> peers_ok (s\<lparr> reg := fireReaper yj tid (reg s) \<rparr>)"
  using peers_okD(1) [of s] fireReaper_frame [of "draining s" "reg s"] fireReaper_ok [of "draining s" "reg s"]
  by (intro peers_ok_reg) auto

lemma frameFailed_no_send [simp]: "Send q f \<notin> set (frameFailed p)"
  by (simp add: frameFailed_def)

lemma peerSend_target: "Send q f \<in> set (peerSend opened p e) \<Longrightarrow> q = p"
  by (auto simp: peerSend_def split: sum.splits if_splits)

lemma sendAwareness_target: "Send q f \<in> set (sendAwareness opened r p) \<Longrightarrow> q = p"
  by (auto simp: sendAwareness_def split: if_splits dest: peerSend_target)

lemma relay_target: "Send q f \<in> set (relay opened r frm p) \<Longrightarrow> q \<in> set (peers r) \<and> q \<noteq> p \<and> f = frm"
  by (auto simp: relay_def broadcast_def peerSend_def split: if_splits)

text \<open>A frame changes at most the document or the sender's presence of the sender's own room, and is
  sent to the sender or to the peers of that room.\<close>

lemma handleFrame_cases:
  assumes "handleFrame cfg opened p data isBinary s = (s', es)"
  defines "rid \<equiv> peer_room (sockets s p)"
  shows "s' = s \<or> (\<exists>d. s' = s\<lparr> reg := upd_room rid (\<lambda>r. r\<lparr> doc := d \<rparr>) (reg s) \<rparr>)
     \<or> (\<exists>a. s' = s\<lparr> reg := upd_room rid (\<lambda>r. r\<lparr> lastAwareness := map_set (lastAwareness r) p a \<rparr>) (reg s) \<rparr>)"
    and "Send q f \<in> set es \<Longrightarrow> q = p \<or> q \<in> set (peers (heap (reg s) rid))"
  using assms
  by (auto simp: handleFrame_def Let_def split: if_splits sum.splits inboundFrame.splits option.splits prod.splits
      dest: peerSend_target sendAwareness_target relay_target)

lemma handleFrame_ok:
  assumes "peers_ok s" "p \<in> set (open_sockets s)" "handleFrame cfg opened p data isBinary s = (s', es)"
  shows "peers_ok s'"
    and "open_sockets s' = open_sockets s" "sockets s' = sockets s" "tickets s' = tickets s"
      "phase s' = phase s" "next_peer s' = next_peer s"
    and "room_key (heap (reg s') r) = room_key (heap (reg s) r)"
proof -
  note ok = peers_okD [OF assms(1)]
  let ?rid = "peer_room (sockets s p)"
  have reg: "registry_ok (draining s) (reg s)" "?rid < next_room (reg s)" using ok(1,3) assms(2) by auto
  have in_room: "p \<in> set (peers (heap (reg s) ?rid))"
    if "map_get (rooms (reg s)) (room_key (heap (reg s) ?rid)) = Some ?rid"
    using ok(4) [OF assms(2)] that by auto
  have "registry_ok (draining s) (upd_room ?rid (\<lambda>r. r\<lparr> doc := d \<rparr>) (reg s))" for d
    using reg by (rule upd_room_ok) auto
  moreover have "registry_ok (draining s)
      (upd_room ?rid (\<lambda>r. r\<lparr> lastAwareness := map_set (lastAwareness r) p a \<rparr>) (reg s))" for a
    using reg in_room by (rule_tac upd_room_ok) (auto simp: keys_map_set)
  ultimately show "peers_ok s'"
    using handleFrame_cases(1) [OF assms(3)] assms(1) peers_ok_reg [OF assms(1)] by auto
  show "open_sockets s' = open_sockets s" "sockets s' = sockets s" "tickets s' = tickets s"
    "phase s' = phase s" "next_peer s' = next_peer s" "room_key (heap (reg s') r) = room_key (heap (reg s) r)"
    using handleFrame_cases(1) [OF assms(3)] by auto
qed

lemma registry_ok_stopping: "registry_ok b st \<Longrightarrow> registry_ok True st"
  unfolding registry_ok_def using timers_okD [of b st] timers_okI [of st True] by blast

lemma peers_ok_phase:
  assumes "peers_ok s" "ph \<noteq> Running"
  shows "peers_ok (s\<lparr> phase := ph \<rparr>)"
  using peers_okD [OF assms(1)] assms(2) registry_ok_stopping
  by (intro peers_okI) (auto simp: draining_def)

lemma peers_ok_cong:
  assumes "peers_ok s" "reg s' = reg s" "open_sockets s' = open_sockets s" "next_peer s' = next_peer s"
    "\<And>p. peer_room (sockets s' p) = peer_room (sockets s p)" "phase s' = phase s"
  shows "peers_ok s'"
  using assms unfolding peers_ok_def attached_def draining_def by simp

lemma closeFinish_ok:
  assumes "peers_ok s" "phase s = Cut_off"
  shows "peers_ok (closeFinish cfg s)"
proof -
  note ok = peers_okD [OF assms(1)]
  have reg: "registry_ok True (reg s)" using registry_ok_stopping ok(1) .
  note c = clearRooms_ok [OF reg, where yj = "docs cfg"]
  show ?thesis
    using ok(2,3) c by (intro peers_okI) (auto simp: closeFinish_def draining_def)
qed

lemma beat_room: "peer_room (fst (beat ps socks) p) = peer_room (socks p)"
  by (induction ps arbitrary: socks) (auto simp: Let_def case_prod_beta)

lemma authorise_authorised:
  assumes "authorise cfg s t url = Some (Authorised ticket code, st)"
  obtains path params presented where "parseUrl cfg url = Some (path, params)" "map_of params ''ticket'' = Some presented"
    "verifyWsTicket (plat cfg) presented (ticketSecret cfg) (Some t) = Inr ticket"
    "ticketStoreClaim (plat cfg) (ticketPepper cfg) REPLAY_RETENTION_MS (tickets s) t presented = (Claimed, st)"
    "\<not> draining s"
  using assms
  by (auto simp: authorise_def Let_def split: if_splits option.splits sum.splits prod.splits claimOutcome.splits)

lemma authorise_refused:
  assumes "authorise cfg s t url = Some (Refusal status reason, st)"
  shows "st = tickets s \<or> (\<exists>presented. st = snd (ticketStoreClaim (plat cfg) (ticketPepper cfg) REPLAY_RETENTION_MS (tickets s) t presented))"
  using assms
  by (auto simp: authorise_def Let_def split: if_splits option.splits sum.splits prod.splits claimOutcome.splits)
     (metis snd_conv)+

lemma upgrade_cases:
  assumes "upgrade cfg opened completes t url s = Some (s', es)"
  obtains (refused) status reason st where "authorise cfg s t url = Some (Refusal status reason, st)"
      "s' = s\<lparr> tickets := st \<rparr>" "es = [Respond (refuseUpgrade status)]"
  | (unfinished) ticket code st where "authorise cfg s t url = Some (Authorised ticket code, st)" "\<not> completes"
      "s' = s\<lparr> tickets := st \<rparr>" "es = []"
  | (accepted) ticket code st where "authorise cfg s t url = Some (Authorised ticket code, st)" "completes"
      "accept cfg opened ticket (s\<lparr> tickets := st \<rparr>) = (s', es)"
  using assms by (auto simp: upgrade_def split: option.splits prod.splits handshake.splits if_splits)

lemma upgrade_ok:
  assumes "peers_ok s" "upgrade cfg opened completes t url s = Some (s', es)"
  shows "peers_ok s'"
  using assms(2)
proof (cases rule: upgrade_cases)
  case refused
  then show ?thesis using assms(1) by (auto intro: peers_ok_cong)
next
  case unfinished
  then show ?thesis using assms(1) by (auto intro: peers_ok_cong)
next
  case (accepted ticket code st)
  have "\<not> draining s" by (rule authorise_authorised [OF accepted(1)])
  then have "\<not> draining (s\<lparr> tickets := st \<rparr>)" by (simp add: draining_def)
  moreover have "peers_ok (s\<lparr> tickets := st \<rparr>)" by (rule peers_ok_cong [OF assms(1)]) auto
  ultimately show ?thesis using accept_ok accepted(3) by blast
qed

lemma deliver_peers_ok:
  assumes "peers_ok (server y)" "enabled y ev"
  shows "peers_ok (server (fst (deliver cfg y ev)))"
proof (cases ev)
  case (Http verb url checks)
  then show ?thesis
    using assms(1) by (auto simp: deliver_unfold crash_def Let_def intro: peers_ok_phase split: option.splits)
next
  case (Upgrade opened completes url)
  then show ?thesis
    using assms(1) upgrade_ok [OF assms(1)]
    by (auto simp: deliver_unfold crash_def Let_def intro: peers_ok_phase split: option.splits)
next
  case (Message opened p data isBinary)
  then show ?thesis
    using assms handleFrame_ok(1) [OF assms(1), of p cfg opened data isBinary]
    by (auto simp: deliver_unfold enabled_def Let_def split: prod.splits)
next
  case (Socket_closed p)
  then show ?thesis using assms socketClosed_ok by (auto simp: deliver_unfold enabled_def Let_def)
next
  case (Pong p)
  then show ?thesis using assms(1) by (auto simp: deliver_unfold Let_def pong_def intro: peers_ok_cong)
next
  case Heartbeat
  then show ?thesis
    using assms(1) beat_room [of "connections (server y)" "sockets (server y)"]
    by (auto simp: deliver_unfold Let_def heartbeat_def case_prod_beta intro: peers_ok_cong)
next
  case (Close_begin isClosed)
  then show ?thesis using assms(1) by (auto simp: deliver_unfold Let_def closeBegin_def intro: peers_ok_phase)
next
  case Close_cut
  have "peers_ok ((server y)\<lparr> phase := Cut_off \<rparr>)" using assms(1) by (rule peers_ok_phase) simp
  then show ?thesis using Close_cut by (auto simp: deliver_unfold Let_def closeCut_def intro: peers_ok_cong)
next
  case Close_finish
  then show ?thesis using assms closeFinish_ok by (auto simp: deliver_unfold Let_def enabled_def)
qed (use assms(1) fireReaper_peers_ok in \<open>auto simp: deliver_unfold Let_def\<close>)

lemma reachable_peers_ok: "reachable cfg y \<Longrightarrow> peers_ok (server y)"
proof (induction rule: reachable.induct)
  case (start t)
  show ?case by (intro peers_okI) (simp_all add: initial_def emptyRegistry_ok, simp_all add: emptyRegistry_def)
next
  case (event y ev)
  then show ?case using deliver_peers_ok by blast
qed

text \<open>Connections keep the session their ticket named.\<close>

lemma keys_ok_keep:
  assumes "keys_ok y" "set (open_sockets (server y')) \<subseteq> set (open_sockets (server y))"
    "set (grants y) \<subseteq> set (grants y')"
    "\<And>p. p \<in> set (open_sockets (server y)) \<Longrightarrow>
       room_key (heap (reg (server y')) (peer_room (sockets (server y') p)))
       = room_key (heap (reg (server y)) (peer_room (sockets (server y) p)))"
  shows "keys_ok y'"
  using assms unfolding keys_ok_def by (metis subsetD)

lemma keys_ok_upgrade:
  assumes "peers_ok (server y)" "keys_ok y" "upgrade cfg opened completes (now y) url (server y) = Some (s', es)"
  shows "keys_ok (y\<lparr> server := s', grants := grants y @ granted cfg completes y url \<rparr>)"
  using assms(3)
proof (cases rule: upgrade_cases)
  case refused
  then show ?thesis using assms(2) by (auto intro: keys_ok_keep)
next
  case unfinished
  then show ?thesis using assms(2) by (auto intro: keys_ok_keep)
next
  case (accepted ticket code st)
  let ?s = "(server y)\<lparr> tickets := st \<rparr>"
  obtain path params presented where p: "parseUrl cfg url = Some (path, params)" "map_of params ''ticket'' = Some presented"
    by (rule authorise_authorised [OF accepted(1)])
  obtain rid rejoined reg' where j: "joinRoom (docs cfg) (sessionId ticket) (next_peer ?s) (reg ?s) = (rid, rejoined, reg')"
    and s': "s' = ?s\<lparr> reg := reg', sockets := (sockets ?s)(next_peer ?s := \<lparr> alive = True, peer_room = rid \<rparr>),
             next_peer := next_peer ?s + 1, connections := set_add (connections ?s) (next_peer ?s),
             open_sockets := open_sockets ?s @ [next_peer ?s] \<rparr>"
    by (rule accept_shape [OF accepted(3)])
  have rooms: "rooms_ok (reg ?s)" using peers_okD(1) [OF assms(1)] by (simp add: registry_ok_def)
  note frame = joinRoom_frame [OF rooms j]
  have g: "granted cfg completes y url = [\<lparr> g_peer = next_peer (server y), g_text = presented, g_ticket = ticket, g_at = now y \<rparr>]"
    using accepted(1,2) p by (simp add: granted_def)
  show ?thesis
    unfolding keys_ok_def
  proof
    fix q assume q: "q \<in> set (open_sockets (server (y\<lparr> server := s', grants := grants y @ granted cfg completes y url \<rparr>)))"
    show "\<exists>h \<in> set (grants (y\<lparr> server := s', grants := grants y @ granted cfg completes y url \<rparr>)). g_peer h = q
      \<and> room_key (heap (reg (server (y\<lparr> server := s', grants := grants y @ granted cfg completes y url \<rparr>)))
          (peer_room (sockets (server (y\<lparr> server := s', grants := grants y @ granted cfg completes y url \<rparr>)) q)))
        = sessionId (g_ticket h)"
    proof (cases "q = next_peer (server y)")
      case True
      then show ?thesis using frame(3) by (simp add: s' g)
    next
      case False
      then have "q \<in> set (open_sockets (server y))" using q by (simp add: s')
      then obtain h where "h \<in> set (grants y)" "g_peer h = q"
        "room_key (heap (reg (server y)) (peer_room (sockets (server y) q))) = sessionId (g_ticket h)"
        using assms(2) unfolding keys_ok_def by blast
      then show ?thesis
        using False frame(4) peers_okD(3) [OF assms(1) \<open>q \<in> set (open_sockets (server y))\<close>]
        by (intro bexI [of _ h]) (simp_all add: s')
    qed
  qed
qed

lemma deliver_keys_ok:
  assumes "peers_ok (server y)" "keys_ok y" "enabled y ev"
  shows "keys_ok (fst (deliver cfg y ev))"
proof (cases ev)
  case (Http verb url checks)
  then show ?thesis
    using assms(2) by (auto simp: deliver_unfold crash_def Let_def intro: keys_ok_keep split: option.splits)
next
  case (Upgrade opened completes url)
  then show ?thesis
    using assms keys_ok_upgrade [OF assms(1,2)]
    by (auto simp: deliver_unfold crash_def Let_def intro: keys_ok_keep split: option.splits)
next
  case (Message opened p data isBinary)
  obtain s' es where h: "handleFrame cfg opened p data isBinary (server y) = (s', es)" by fastforce
  have "p \<in> set (open_sockets (server y))" using assms(3) Message by (simp add: enabled_def)
  from handleFrame_ok [OF assms(1) this h] have "keys_ok (y\<lparr> server := s' \<rparr>)"
    by (intro keys_ok_keep [OF assms(2)]) simp_all
  then show ?thesis using Message h by (simp add: deliver_unfold)
next
  case (Socket_closed p)
  then show ?thesis
    using assms(2) by (auto simp: deliver_unfold Let_def socketClosed_def detach_frame intro: keys_ok_keep)
next
  case (Pong p)
  then show ?thesis using assms(2) by (auto simp: deliver_unfold Let_def pong_def intro: keys_ok_keep)
next
  case Heartbeat
  then show ?thesis
    using assms(2) beat_room [of "connections (server y)" "sockets (server y)"]
    by (auto simp: deliver_unfold Let_def heartbeat_def case_prod_beta intro!: keys_ok_keep [OF assms(2)])
next
  case (Reap tid)
  then show ?thesis
    using fireReaper_frame(2) [OF peers_okD(1) [OF assms(1)]]
    by (auto simp: deliver_unfold Let_def intro!: keys_ok_keep [OF assms(2)])
next
  case Close_finish
  then show ?thesis
    by (auto simp: deliver_unfold Let_def closeFinish_def clearRooms_key intro!: keys_ok_keep [OF assms(2)])
qed (auto simp: deliver_unfold Let_def closeBegin_def closeCut_def intro!: keys_ok_keep [OF assms(2)])

lemma reachable_keys_ok: "reachable cfg y \<Longrightarrow> keys_ok y"
proof (induction rule: reachable.induct)
  case (start t)
  show ?case by (simp add: initial_def keys_ok_def)
next
  case (event y ev)
  then show ?case using deliver_keys_ok reachable_peers_ok by blast
qed

text \<open>The redeemed tickets: each grant's ticket verified when it was presented, is remembered by the
  store for the retention, and names the session once.\<close>

definition remembered :: "'doc config \<Rightarrow> 'doc system \<Rightarrow> grant \<Rightarrow> bool" where
  "remembered cfg y g \<longleftrightarrow> g_at g \<le> now y \<and> g_peer g < next_peer (server y)
     \<and> verifyWsTicket (plat cfg) (g_text g) (ticketSecret cfg) (Some (g_at g)) = Inr (g_ticket g)
     \<and> (phase (server y) = Running \<longrightarrow> (\<forall>t. now y \<le> t \<and> t < g_at g + REPLAY_RETENTION_MS
          \<longrightarrow> store_live (tickets (server y)) t (hashToken (plat cfg) (g_text g) (ticketPepper cfg))))"

definition tickets_ok :: "'doc config \<Rightarrow> 'doc system \<Rightarrow> bool" where
  "tickets_ok cfg y \<longleftrightarrow> store_wf (tickets (server y)) \<and> (\<forall>g \<in> set (grants y). remembered cfg y g)
     \<and> (\<forall>g \<in> set (grants y). \<forall>h \<in> set (grants y).
          g_text g = g_text h \<and> issuedAt (g_ticket g) \<noteq> None \<longrightarrow> g_peer g = g_peer h)"

lemma tickets_ok_keep:
  assumes "tickets_ok cfg y" "grants y' = grants y" "now y \<le> now y'" "next_peer (server y) \<le> next_peer (server y')"
    "store_wf (tickets (server y'))"
    "phase (server y') = Running \<Longrightarrow> phase (server y) = Running"
    "\<And>t text'. phase (server y') = Running \<Longrightarrow> now y' \<le> t
       \<Longrightarrow> store_live (tickets (server y)) t (hashToken (plat cfg) text' (ticketPepper cfg))
       \<Longrightarrow> store_live (tickets (server y')) t (hashToken (plat cfg) text' (ticketPepper cfg))"
  shows "tickets_ok cfg y'"
proof -
  have "remembered cfg y' g" if "g \<in> set (grants y)" for g
    using assms(1) that assms(3,4,6,7) unfolding tickets_ok_def remembered_def by force
  then show ?thesis using assms(1,2,5) unfolding tickets_ok_def by simp
qed

lemma tickets_ok_upgrade:
  assumes "tickets_ok cfg y" "upgrade cfg opened completes (now y) url (server y) = Some (s', es)"
  shows "tickets_ok cfg (y\<lparr> server := s', grants := grants y @ granted cfg completes y url \<rparr>)"
  using assms(2)
proof (cases rule: upgrade_cases)
  case (refused status reason st)
  have wf: "store_wf (tickets (server y))" using assms(1) by (simp add: tickets_ok_def)
  have g: "granted cfg completes y url = []" using refused(1) by (simp add: granted_def)
  show ?thesis
    using authorise_refused [OF refused(1)]
  proof
    assume "st = tickets (server y)"
    then show ?thesis using assms(1) refused(2) g wf by (intro tickets_ok_keep [OF assms(1)]) auto
  next
    assume "\<exists>presented. st = snd (ticketStoreClaim (plat cfg) (ticketPepper cfg) REPLAY_RETENTION_MS
      (tickets (server y)) (now y) presented)"
    then show ?thesis
      using refused(2) g wf collab_store.claim_wf [OF wf] collab_store.claim_keeps [OF wf]
      by (intro tickets_ok_keep [OF assms(1)]) auto
  qed
next
  case (unfinished ticket code st)
  have wf: "store_wf (tickets (server y))" using assms(1) by (simp add: tickets_ok_def)
  have g: "granted cfg completes y url = []" using unfinished(2) by (simp add: granted_def)
  obtain presented where claim: "ticketStoreClaim (plat cfg) (ticketPepper cfg) REPLAY_RETENTION_MS
      (tickets (server y)) (now y) presented = (Claimed, st)"
    by (rule authorise_authorised [OF unfinished(1)])
  then have "st = snd (ticketStoreClaim (plat cfg) (ticketPepper cfg) REPLAY_RETENTION_MS
      (tickets (server y)) (now y) presented)" by simp
  then show ?thesis
    using unfinished(3) g wf collab_store.claim_wf [OF wf] collab_store.claim_keeps [OF wf]
    by (intro tickets_ok_keep [OF assms(1)]) auto
next
  case (accepted ticket code st)
  obtain path params presented where p: "parseUrl cfg url = Some (path, params)" "map_of params ''ticket'' = Some presented"
    and v: "verifyWsTicket (plat cfg) presented (ticketSecret cfg) (Some (now y)) = Inr ticket"
    and claim: "ticketStoreClaim (plat cfg) (ticketPepper cfg) REPLAY_RETENTION_MS (tickets (server y)) (now y) presented
        = (Claimed, st)" and running: "\<not> draining (server y)"
    by (rule authorise_authorised [OF accepted(1)])
  let ?new = "\<lparr> g_peer = next_peer (server y), g_text = presented, g_ticket = ticket, g_at = now y \<rparr>"
  let ?y = "y\<lparr> server := s', grants := grants y @ granted cfg completes y url \<rparr>"
  let ?key = "hashToken (plat cfg) presented (ticketPepper cfg)"
  have g: "granted cfg completes y url = [?new]" using accepted(1,2) p by (simp add: granted_def)
  have wf: "store_wf (tickets (server y))" using assms(1) by (simp add: tickets_ok_def)
  have s': "tickets s' = st" "phase s' = phase (server y)" "next_peer s' = next_peer (server y) + 1"
    by (rule accept_shape [OF accepted(3)], simp)+
  have st: "st = snd (ticketStoreClaim (plat cfg) (ticketPepper cfg) REPLAY_RETENTION_MS (tickets (server y)) (now y) presented)"
    using claim by simp
  have live: "store_live st t k" if "store_live (tickets (server y)) t (hashToken (plat cfg) z (ticketPepper cfg))"
    "k = hashToken (plat cfg) z (ticketPepper cfg)" "now y \<le> t" for t z k
    unfolding st that(2) using collab_store.claim_keeps [OF wf that(1,3)] .
  have wf': "store_wf st" unfolding st by (rule collab_store.claim_wf [OF wf])
  have "tickets_ok cfg (y\<lparr> server := s' \<rparr>)"
    using wf' live by (intro tickets_ok_keep [OF assms(1)]) (auto simp: s')
  moreover have "store_live st t ?key" if "now y \<le> t" "t < now y + REPLAY_RETENTION_MS" for t
    unfolding st by (rule collab_store.claim_live [OF wf _ that]) (simp add: claim)
  then have new: "remembered cfg ?y ?new"
    using v by (simp add: remembered_def s')
  moreover have "\<not> (g_text h = presented \<and> issuedAt (g_ticket h) \<noteq> None)" if "h \<in> set (grants y)" for h
  proof
    assume same: "g_text h = presented \<and> issuedAt (g_ticket h) \<noteq> None"
    then obtain i where i: "issuedAt (g_ticket h) = Some i" by auto
    have r: "remembered cfg y h" using assms(1) that by (simp add: tickets_ok_def)
    then have vh: "verifyWsTicket (plat cfg) presented (ticketSecret cfg) (Some (g_at h)) = Inr (g_ticket h)"
      using same by (simp add: remembered_def)
    have "issuedAt ticket = issuedAt (g_ticket h)"
      using v vh by (auto simp: verifyWsTicket_def Let_def split: sum.splits option.splits if_splits)
    then have "now y < g_at h + REPLAY_RETENTION_MS"
      using ws_ticket_window [OF v] ws_ticket_window [OF vh i] i
      by (simp add: REPLAY_RETENTION_MS_def WS_TICKET_TTL_SECONDS_def WS_TICKET_CLOCK_SKEW_SECONDS_def)
    then have "store_live (tickets (server y)) (now y) ?key"
      using r same running by (simp add: remembered_def draining_def)
    then show False using collab_store.claim_iff [OF wf] claim by (metis fst_conv)
  qed
  moreover have "issuedAt (g_ticket h) = issuedAt ticket" if "h \<in> set (grants y)" "g_text h = presented" for h
  proof -
    have "verifyWsTicket (plat cfg) presented (ticketSecret cfg) (Some (g_at h)) = Inr (g_ticket h)"
      using assms(1) that by (auto simp: tickets_ok_def remembered_def)
    then show ?thesis using v by (auto simp: verifyWsTicket_def Let_def split: sum.splits option.splits if_splits)
  qed
  ultimately have all: "remembered cfg (y\<lparr> server := s' \<rparr>) h" "remembered cfg ?y ?new"
    "g_text h = presented \<Longrightarrow> issuedAt (g_ticket h) = None \<and> issuedAt ticket = None" if "h \<in> set (grants y)" for h
    using that unfolding tickets_ok_def by auto
  have old: "remembered cfg ?y h" if "h \<in> set (grants y)" for h
    using all(1) [OF that] by (simp add: remembered_def)
  have "remembered cfg ?y h" if "h \<in> set (grants ?y)" for h
    using that old new by (auto simp: g)
  moreover have "g_peer a = g_peer b"
    if "a \<in> set (grants ?y)" "b \<in> set (grants ?y)" "g_text a = g_text b" "issuedAt (g_ticket a) \<noteq> None" for a b
  proof -
    have old_pair: "a \<in> set (grants y) \<Longrightarrow> b \<in> set (grants y) \<Longrightarrow> g_peer a = g_peer b"
      using assms(1) that(3,4) unfolding tickets_ok_def by blast
    have "a \<in> set (grants y) \<or> a = ?new" "b \<in> set (grants y) \<or> b = ?new" using that(1,2) by (auto simp: g)
    then consider "a \<in> set (grants y)" "b \<in> set (grants y)" | "a = ?new" "b = ?new"
      | "a = ?new" "b \<in> set (grants y)" | "b = ?new" "a \<in> set (grants y)" by blast
    then show ?thesis
    proof cases
      case 1
      then show ?thesis by (rule old_pair)
    next
      case 2
      then show ?thesis by simp
    next
      case 3
      then show ?thesis using all(3) [of b] that(3,4) by simp
    next
      case 4
      then show ?thesis using all(3) [of a] that(3,4) by simp
    qed
  qed
  moreover have "store_wf (tickets (server ?y))"
    using wf' by (simp add: s')
  ultimately show ?thesis unfolding tickets_ok_def by blast
qed

lemma deliver_tickets_ok:
  assumes "tickets_ok cfg y" "enabled y ev"
  shows "tickets_ok cfg (fst (deliver cfg y ev))"
proof (cases "\<exists>opened completes url. ev = Upgrade opened completes url")
  case True
  then obtain opened completes url where "ev = Upgrade opened completes url" by blast
  then show ?thesis
    using tickets_ok_upgrade [OF assms(1)] tickets_ok_keep [OF assms(1), of "crash y"] assms(1)
    by (auto simp: deliver_unfold crash_def tickets_ok_def split: option.splits)
next
  case False
  let ?y = "fst (deliver cfg y ev)"
  have wf: "store_wf (tickets (server y))" "store_wf emptyStore"
    using assms(1) by (simp_all add: tickets_ok_def store_wf_def emptyStore_def)
  have h: "tickets (fst (handleFrame cfg opened p data b s)) = tickets s"
    "phase (fst (handleFrame cfg opened p data b s)) = phase s"
    "next_peer (fst (handleFrame cfg opened p data b s)) = next_peer s" for opened p data b and s :: "'a collab"
    using handleFrame_cases(1) [of cfg opened p data b s "fst (handleFrame cfg opened p data b s)"
        "snd (handleFrame cfg opened p data b s)"] by auto
  have frame: "grants ?y = grants y" "now y \<le> now ?y" "next_peer (server ?y) = next_peer (server y)"
    "phase (server ?y) = Running \<Longrightarrow> phase (server y) = Running"
    "tickets (server ?y) = tickets (server y) \<or> (phase (server ?y) \<noteq> Running \<and> tickets (server ?y) = emptyStore)"
    using False assms(2)
    by (cases ev; auto simp: deliver_unfold Let_def crash_def enabled_def case_prod_beta h socketClosed_def pong_def
        heartbeat_def closeBegin_def closeCut_def closeFinish_def split: option.splits if_splits)+
  show ?thesis
    using frame wf by (intro tickets_ok_keep [OF assms(1)]) auto
qed

lemma reachable_tickets_ok: "reachable cfg y \<Longrightarrow> tickets_ok cfg y"
proof (induction rule: reachable.induct)
  case (start t)
  show ?case by (simp add: initial_def tickets_ok_def store_wf_def emptyStore_def)
next
  case (event y ev)
  then show ?case using deliver_tickets_ok by blast
qed

subsection \<open>What the server guarantees\<close>

text \<open>C3: interviews are isolated from each other. In every reachable state, whatever frame a peer sends,
  everything the server sends in response goes to connections whose tickets named the same session
  as the sender's ticket; the room code in the path plays no part.\<close>

theorem frames_stay_in_session:
  assumes "reachable cfg y" "enabled y (Message opened p data isBinary)"
    "Send q f \<in> set (snd (deliver cfg y (Message opened p data isBinary)))"
  shows "\<exists>g \<in> set (grants y). \<exists>h \<in> set (grants y).
     g_peer g = p \<and> g_peer h = q \<and> sessionId (g_ticket g) = sessionId (g_ticket h)"
proof -
  let ?s = "server y" and ?rid = "peer_room (sockets (server y) p)"
  note ok = peers_okD [OF reachable_peers_ok [OF assms(1)]]
  have p: "p \<in> set (open_sockets ?s)" using assms(2) by (simp add: enabled_def)
  obtain s' es where h: "handleFrame cfg opened p data isBinary ?s = (s', es)" by fastforce
  have "Send q f \<in> set es" using assms(3) h by (simp add: deliver_unfold)
  then have "q \<in> set (open_sockets ?s) \<and> peer_room (sockets ?s q) = ?rid"
    using handleFrame_cases(2) [OF h] p ok(3) [OF p] ok(5,6) [of ?rid q] by auto
  then show ?thesis using reachable_keys_ok [OF assms(1)] p unfolding keys_ok_def by metis
qed

text \<open>C32: everyone in one interview edits one document. While the server is running, the room every open
  connection holds is the room the registry has for the session its ticket named, so two
  connections to the same session share it, and it cannot be collected while either is open.\<close>

theorem session_shares_document:
  assumes "reachable cfg y" "phase (server y) = Running" "p \<in> set (open_sockets (server y))"
  shows "\<exists>g \<in> set (grants y). g_peer g = p
     \<and> map_get (rooms (reg (server y))) (sessionId (g_ticket g)) = Some (peer_room (sockets (server y) p))
     \<and> p \<in> set (peers (heap (reg (server y)) (peer_room (sockets (server y) p))))"
proof -
  let ?rid = "peer_room (sockets (server y) p)"
  note ok = peers_okD [OF reachable_peers_ok [OF assms(1)]]
  have rooms: "rooms_ok (reg (server y))" using ok(1) by (simp add: registry_ok_def)
  have p: "p \<in> set (peers (heap (reg (server y)) ?rid))" using ok(4) [OF assms(3)] assms(2) by (simp add: draining_def)
  then have "peers (heap (reg (server y)) ?rid) \<noteq> []" by auto
  then have "map_get (rooms (reg (server y))) (room_key (heap (reg (server y)) ?rid)) = Some ?rid"
    by (rule rooms_okD(4) [OF rooms ok(3) [OF assms(3)]])
  then show ?thesis using reachable_keys_ok [OF assms(1)] assms(3) p unfolding keys_ok_def by metis
qed

text \<open>C33: a ticket opens one connection. In every reachable state two completed handshakes with the same
  ticket are one and the same, provided the ticket carries a representable issue date.\<close>

theorem one_connection_per_ticket:
  assumes "reachable cfg y" "g \<in> set (grants y)" "h \<in> set (grants y)" "g_text g = g_text h"
    "issuedAt (g_ticket g) \<noteq> None"
  shows "g_peer g = g_peer h"
  using reachable_tickets_ok [OF assms(1)] assms(2-5) unfolding tickets_ok_def by blast

subsection \<open>Retention\<close>

fun run_events :: "'doc config \<Rightarrow> 'doc system \<Rightarrow> event list \<Rightarrow> 'doc system option" where
  "run_events cfg y [] = Some y"
| "run_events cfg y (ev # evs) = (if enabled y ev then run_events cfg (fst (deliver cfg y ev)) evs else None)"

definition kept :: "nat \<Rightarrow> string \<Rightarrow> int \<Rightarrow> 'doc registry \<Rightarrow> bool" where
  "kept rid key t0 st \<longleftrightarrow> map_get (rooms st) key = Some rid
     \<and> (\<forall>tid due. (tid, rid, due) \<in> set (timers st) \<longrightarrow> t0 \<le> due)"

lemma kept_join:
  assumes "kept rid key t0 st" "joinRoom yj k peer st = (r, rejoined, st')"
  shows "kept rid key t0 st'"
proof (cases "map_get (rooms st) k")
  case None
  then have "k \<noteq> key" using assms(1) by (auto simp: kept_def)
  then show ?thesis using assms(1) assms(2) [unfolded joinRoom_fresh [OF None], symmetric] by (auto simp: kept_def)
next
  case (Some r')
  then show ?thesis using assms joinRoom_registered [OF Some] by (auto simp: kept_def)
qed

lemma kept_detach:
  assumes "kept rid key t0 st" "t0 \<le> t + retention"
  shows "kept rid key t0 (detach retention t r peer st)"
  using assms by (auto simp: kept_def detach_def scheduleReaper_def Let_def)

lemma kept_fire:
  assumes "kept rid key t0 st" "registry_ok stopping st" "map_get (timers st) tid = Some (r, due)" "due < t0"
  shows "kept rid key t0 (fireReaper yj tid st)"
proof -
  have ok: "timers_ok stopping st" "rooms_ok st" using assms(2) by (auto simp: registry_ok_def)
  have mem: "(tid, r, due) \<in> set (timers st)" using map_get_in_set [OF assms(3)] .
  have ne: "r \<noteq> rid" using assms(1,4) mem unfolding kept_def by fastforce
  have reg: "map_get (rooms st) (room_key (heap st r)) = Some r"
    using timers_okD(6) [OF ok(1) mem] assms(1) by (auto simp: kept_def)
  then have "room_key (heap st r) \<noteq> key" using ne assms(1) by (auto simp: kept_def)
  then show ?thesis
    using assms(1,3) reg timers_okD(5) [OF ok(1) mem]
    by (auto simp: kept_def fireReaper_def Let_def release_def destroyRoom_def)
qed

lemma kept_deliver:
  assumes "kept rid key t0 (reg (server y))" "peers_ok (server y)" "enabled y ev" "ev \<noteq> Close_finish"
    "now y < t0" "t0 \<le> now y + roomRetentionMs cfg"
  shows "kept rid key t0 (reg (server (fst (deliver cfg y ev))))"
proof (cases ev)
  case (Upgrade opened completes url)
  show ?thesis
  proof (cases "upgrade cfg opened completes (now y) url (server y)")
    case (Some r)
    then obtain s' es where u: "upgrade cfg opened completes (now y) url (server y) = Some (s', es)" by (cases r) auto
    then have "kept rid key t0 (reg s')"
    proof (cases rule: upgrade_cases)
      case (accepted ticket code st)
      obtain r rejoined reg' where "joinRoom (docs cfg) (sessionId ticket) (next_peer ((server y)\<lparr> tickets := st \<rparr>))
          (reg ((server y)\<lparr> tickets := st \<rparr>)) = (r, rejoined, reg')" "reg s' = reg'"
        by (rule accept_shape [OF accepted(3)]) auto
      then show ?thesis using kept_join [OF assms(1)] by simp
    qed (use assms(1) in simp_all)
    then show ?thesis using Upgrade u by (simp add: deliver_unfold)
  qed (use assms(1) Upgrade in \<open>simp add: deliver_unfold crash_def\<close>)
next
  case (Message opened p data isBinary)
  obtain s' es where h: "handleFrame cfg opened p data isBinary (server y) = (s', es)" by fastforce
  have "kept rid key t0 (reg s')"
    using handleFrame_cases(1) [OF h] assms(1) by (auto simp: kept_def)
  then show ?thesis using Message h by (simp add: deliver_unfold)
next
  case (Socket_closed p)
  then show ?thesis using kept_detach [OF assms(1,6)] by (simp add: deliver_unfold socketClosed_def Let_def)
next
  case (Reap tid)
  then obtain r due where "map_get (timers (reg (server y))) tid = Some (r, due)" "due \<le> now y"
    using assms(3) by (auto simp: enabled_def split: option.splits)
  then show ?thesis
    using Reap kept_fire [OF assms(1) peers_okD(1) [OF assms(2)]] assms(5) by (simp add: deliver_unfold Let_def)
qed (use assms in \<open>auto simp: deliver_unfold crash_def Let_def pong_def heartbeat_def case_prod_beta closeBegin_def
        closeCut_def split: option.splits\<close>)

lemma deliver_now: "enabled y ev \<Longrightarrow> now y \<le> now (fst (deliver cfg y ev))"
  by (cases ev) (auto simp: deliver_unfold Let_def enabled_def crash_def case_prod_beta split: option.splits)

lemma run_events_now: "run_events cfg y evs = Some z \<Longrightarrow> now y \<le> now z"
  by (induction evs arbitrary: y) (auto split: if_splits dest: deliver_now order_trans)

lemma kept_run:
  assumes "run_events cfg y evs = Some z" "reachable cfg y" "kept rid key t0 (reg (server y))"
    "Close_finish \<notin> set evs" "now z < t0" "t0 \<le> now y + roomRetentionMs cfg"
  shows "kept rid key t0 (reg (server z))"
  using assms
proof (induction evs arbitrary: y)
  case (Cons ev evs)
  let ?y = "fst (deliver cfg y ev)"
  have en: "enabled y ev" and run: "run_events cfg ?y evs = Some z" using Cons.prems(1) by (auto split: if_splits)
  have mono: "now y \<le> now ?y" "now ?y \<le> now z" using deliver_now [OF en] run_events_now [OF run] by auto
  have "kept rid key t0 (reg (server ?y))"
    using Cons.prems mono en reachable_peers_ok [OF Cons.prems(2)] by (intro kept_deliver) auto
  then show ?case using Cons.IH [OF run] Cons.prems mono reachable.event [OF Cons.prems(2) en] by auto
qed simp

text \<open>C34: a blinking network does not lose the document. When a connection closes, the room it held stays
  registered for the whole retention window, whatever else happens in between short of the server
  finishing its shutdown: whoever joins that session in time is given the same room.\<close>

theorem room_survives_disconnect:
  assumes "reachable cfg y" "phase (server y) = Running" "p \<in> set (open_sockets (server y))"
    "run_events cfg (fst (deliver cfg y (Socket_closed p))) evs = Some z" "Close_finish \<notin> set evs"
    "now z < now y + roomRetentionMs cfg"
  shows "fst (joinRoom (docs cfg) (room_key (heap (reg (server y)) (peer_room (sockets (server y) p)))) q
     (reg (server z))) = peer_room (sockets (server y) p)"
proof -
  let ?rid = "peer_room (sockets (server y) p)" and ?st = "reg (server y)"
  let ?key = "room_key (heap ?st ?rid)" and ?y1 = "fst (deliver cfg y (Socket_closed p))"
  let ?t0 = "now y + roomRetentionMs cfg"
  note ok = peers_okD [OF reachable_peers_ok [OF assms(1)]]
  have rooms: "rooms_ok ?st" and timers: "timers_ok (draining (server y)) ?st" using ok(1) by (auto simp: registry_ok_def)
  have p: "p \<in> set (peers (heap ?st ?rid))" using ok(4) [OF assms(3)] assms(2) by (simp add: draining_def)
  have "map_get (rooms ?st) ?key = Some ?rid" using p rooms_okD(4) [OF rooms ok(3) [OF assms(3)]] by fastforce
  moreover have "(tid, ?rid, due) \<notin> set (timers ?st)" for tid due using timers_okD(5) [OF timers] p by fastforce
  ultimately have "kept ?rid ?key ?t0 ?st" by (simp add: kept_def)
  then have k: "kept ?rid ?key ?t0 (reg (server ?y1))"
    using kept_detach [of ?rid ?key ?t0 ?st "now y" "roomRetentionMs cfg"] by (simp add: deliver_unfold socketClosed_def Let_def)
  have en: "enabled y (Socket_closed p)" using assms(2,3) by (simp add: enabled_def)
  have "kept ?rid ?key ?t0 (reg (server z))"
    using kept_run [OF assms(4) reachable.event [OF assms(1) en] k assms(5,6)] deliver_now [OF en, of cfg] by auto
  then show ?thesis by (simp add: kept_def joinRoom_registered)
qed

subsection \<open>A sample run\<close>

text \<open>Two tickets of one session redeemed one after the other.\<close>

definition sample_config :: "unit config" where
  "sample_config =
     \<lparr> plat = sample_ws_platform\<lparr> hmacHex := (\<lambda>k m. if k = ''p'' then m else ''5e'') \<rparr>,
       docs = \<lparr> newDoc = (\<lambda>_. ()), encodeStateVector = (\<lambda>_. []), encodeStateAsUpdate = (\<lambda>_ _. Some []),
                applyUpdate = (\<lambda>_ _. ((), True)), destroyDoc = id \<rparr>,
       parseUrl = (\<lambda>url. Some (''/collab/abc'', [(''ticket'', url)])),
       ticketSecret = ''k'', ticketPepper = ''p'', roomRetentionMs = 300000 \<rparr>"

abbreviation sample1 :: "unit system" where
  "sample1 \<equiv> fst (deliver sample_config (initial sample_config 8000) (Upgrade (\<lambda>_. True) True ''abwt1.eA.5e''))"

abbreviation sample2 :: "unit system" where
  "sample2 \<equiv> fst (deliver sample_config sample1 (Upgrade (\<lambda>_. True) True ''abwt1.eB.5e''))"

lemma sample_verified:
  "verifyWsTicket (plat sample_config) ''abwt1.eA.5e'' ''k'' (Some 8000) = Inr \<lparr> sessionId = ''s1'', issuedAt = Some 9000 \<rparr>"
  "verifyWsTicket (plat sample_config) ''abwt1.eB.5e'' ''k'' (Some 8000) = Inr \<lparr> sessionId = ''s1'', issuedAt = Some 9000 \<rparr>"
  by (simp_all add: verifyWsTicket_def openEnvelope_def MAX_CREDENTIAL_LENGTH_def WS_TICKET_PREFIX_def sample_config_def
      sample_ws_platform_def sample_platform_def parseWsTicketClaims_def literalNumber_def literalString_def
      uuidField_def instantField_def nonceField_def js_int_def MAX_SAFE_INTEGER_def MAX_TIME_def ageMs_def
      WS_TICKET_CLOCK_SKEW_SECONDS_def WS_TICKET_TTL_SECONDS_def)

lemma sample_authorised:
  "tickets s = emptyStore \<Longrightarrow> phase s = Running \<Longrightarrow> \<exists>st. map_get (claimed st) (hashToken (plat sample_config) ''abwt1.eB.5e'' ''p'') = None
     \<and> lastSweep st = 0 \<and>
   authorise sample_config s 8000 ''abwt1.eA.5e'' = Some (Authorised \<lparr> sessionId = ''s1'', issuedAt = Some 9000 \<rparr> ''abc'', st)"
  "map_get (claimed (tickets s)) (hashToken (plat sample_config) ''abwt1.eB.5e'' ''p'') = None \<Longrightarrow> lastSweep (tickets s) = 0
     \<Longrightarrow> phase s = Running \<Longrightarrow> \<exists>st. authorise sample_config s 8000 ''abwt1.eB.5e'' = Some (Authorised \<lparr> sessionId = ''s1'', issuedAt = Some 9000 \<rparr> ''abc'', st)"
  using sample_verified
  by (simp_all add: authorise_def sample_config_def Let_def COLLAB_PATH_PREFIX_def ROOM_CODE_PATTERN_def is_alnum_def
      string_simps ticketStoreClaim_def emptyStore_def sweep_def SWEEP_INTERVAL_MS_def hashToken_def draining_def map_get_def)

lemma sample1_facts:
  "open_sockets (server sample1) = [0]" "phase (server sample1) = Running" "now sample1 = 8000"
  "next_peer (server sample1) = 1" "peer_room (sockets (server sample1) 0) = 0"
  "map_get (rooms (reg (server sample1))) ''s1'' = Some 0" "peers (heap (reg (server sample1)) 0) = [0]"
  "map_get (claimed (tickets (server sample1))) (hashToken (plat sample_config) ''abwt1.eB.5e'' ''p'') = None"
  "lastSweep (tickets (server sample1)) = 0"
  "grants sample1 = [\<lparr> g_peer = 0, g_text = ''abwt1.eA.5e'', g_ticket = \<lparr> sessionId = ''s1'', issuedAt = Some 9000 \<rparr>, g_at = 8000 \<rparr>]"
  "reaper (heap (reg (server sample1)) 0) = None"
proof -
  let ?s = "server (initial sample_config 8000)"
  obtain st where st: "map_get (claimed st) (hashToken (plat sample_config) ''abwt1.eB.5e'' ''p'') = None" "lastSweep st = 0"
    "authorise sample_config ?s 8000 ''abwt1.eA.5e'' = Some (Authorised \<lparr> sessionId = ''s1'', issuedAt = Some 9000 \<rparr> ''abc'', st)"
    using sample_authorised(1) [of ?s] by (auto simp: initial_def)
  have p: "parseUrl sample_config ''abwt1.eA.5e'' = Some (''/collab/abc'', [(''ticket'', ''abwt1.eA.5e'')])"
    by (simp add: sample_config_def)
  show "open_sockets (server sample1) = [0]" "phase (server sample1) = Running" "now sample1 = 8000"
    "next_peer (server sample1) = 1" "peer_room (sockets (server sample1) 0) = 0"
    "map_get (rooms (reg (server sample1))) ''s1'' = Some 0" "peers (heap (reg (server sample1)) 0) = [0]"
    "map_get (claimed (tickets (server sample1))) (hashToken (plat sample_config) ''abwt1.eB.5e'' ''p'') = None"
    "lastSweep (tickets (server sample1)) = 0"
    "grants sample1 = [\<lparr> g_peer = 0, g_text = ''abwt1.eA.5e'', g_ticket = \<lparr> sessionId = ''s1'', issuedAt = Some 9000 \<rparr>, g_at = 8000 \<rparr>]"
    "reaper (heap (reg (server sample1)) 0) = None"
    using st p by (simp_all add: deliver_unfold Let_def upgrade_def granted_def accept_def initial_def joinRoom_fresh
        emptyRegistry_def newRoom_def map_get_def)
qed

lemma sample2_facts:
  "open_sockets (server sample2) = [0, 1]" "phase (server sample2) = Running" "now sample2 = 8000"
  "peer_room (sockets (server sample2) 0) = 0" "peer_room (sockets (server sample2) 1) = 0"
  "peers (heap (reg (server sample2)) 0) = [0, 1]"
  "grants sample2 = [\<lparr> g_peer = 0, g_text = ''abwt1.eA.5e'', g_ticket = \<lparr> sessionId = ''s1'', issuedAt = Some 9000 \<rparr>, g_at = 8000 \<rparr>,
     \<lparr> g_peer = 1, g_text = ''abwt1.eB.5e'', g_ticket = \<lparr> sessionId = ''s1'', issuedAt = Some 9000 \<rparr>, g_at = 8000 \<rparr>]"
proof -
  note one = sample1_facts
  obtain st where st: "authorise sample_config (server sample1) 8000 ''abwt1.eB.5e''
      = Some (Authorised \<lparr> sessionId = ''s1'', issuedAt = Some 9000 \<rparr> ''abc'', st)"
    using sample_authorised(2) [of "server sample1"] one by auto
  have p: "parseUrl sample_config ''abwt1.eB.5e'' = Some (''/collab/abc'', [(''ticket'', ''abwt1.eB.5e'')])"
    by (simp add: sample_config_def)
  define y where "y = sample1"
  note one' = one [folded y_def] st [folded y_def]
  show "open_sockets (server sample2) = [0, 1]" "phase (server sample2) = Running" "now sample2 = 8000"
    "peer_room (sockets (server sample2) 0) = 0" "peer_room (sockets (server sample2) 1) = 0"
    "peers (heap (reg (server sample2)) 0) = [0, 1]"
    "grants sample2 = [\<lparr> g_peer = 0, g_text = ''abwt1.eA.5e'', g_ticket = \<lparr> sessionId = ''s1'', issuedAt = Some 9000 \<rparr>, g_at = 8000 \<rparr>,
     \<lparr> g_peer = 1, g_text = ''abwt1.eB.5e'', g_ticket = \<lparr> sessionId = ''s1'', issuedAt = Some 9000 \<rparr>, g_at = 8000 \<rparr>]"
    unfolding y_def [symmetric] using one' p
    by (simp_all add: deliver_unfold Let_def upgrade_def granted_def accept_def joinRoom_registered set_add_def)
qed

lemma sample_reachable: "reachable sample_config sample1" "reachable sample_config sample2"
proof -
  show one: "reachable sample_config sample1"
    by (rule reachable.event [OF reachable.start]) (simp add: enabled_def initial_def)
  show "reachable sample_config sample2"
    by (rule reachable.event [OF one]) (simp add: enabled_def sample1_facts)
qed

text \<open>An awareness frame of the first peer, relayed to the second.\<close>

abbreviation sample_frame :: bytes where
  "sample_frame \<equiv> varBytes MESSAGE_AWARENESS @ varBytes (Suc 0) @ [7]"

abbreviation sample_message :: event where
  "sample_message \<equiv> Message (\<lambda>_. True) 0 (Whole sample_frame) True"

lemma sample_frame_codec: "decodeFrame sample_frame = Inr (Awareness [7])" "encodeAwareness [7] = Inr sample_frame"
  using decode_awareness [of "[7]"] sequence_awareness [of "[7]"] by (simp_all add: MAX_SAFE_def)

lemma sample_relayed: "Send 1 sample_frame \<in> set (snd (deliver sample_config sample2 sample_message))"
proof -
  define y where "y = sample2"
  show ?thesis
    unfolding y_def [symmetric] using sample2_facts [folded y_def]
    by (simp add: deliver_unfold handleFrame_def Let_def toBytes_def sample_frame_codec relay_def broadcast_def peerSend_def
        del: append_assoc)
qed

theorem frames_stay_in_session_witness:
  "\<exists>g \<in> set (grants sample2). \<exists>h \<in> set (grants sample2).
     g_peer g = 0 \<and> g_peer h = 1 \<and> sessionId (g_ticket g) = sessionId (g_ticket h)"
  by (rule frames_stay_in_session [OF sample_reachable(2) _ sample_relayed])
     (simp add: enabled_def sample2_facts)

theorem session_shares_document_witness:
  "\<exists>g \<in> set (grants sample2). g_peer g = 1
     \<and> map_get (rooms (reg (server sample2))) (sessionId (g_ticket g)) = Some (peer_room (sockets (server sample2) 1))
     \<and> 1 \<in> set (peers (heap (reg (server sample2)) (peer_room (sockets (server sample2) 1))))"
  by (rule session_shares_document [OF sample_reachable(2)]) (simp_all only: sample2_facts set_simps insert_iff simp_thms)

theorem one_connection_per_ticket_witness:
  "g_peer ` set (filter (\<lambda>h. g_text h = ''abwt1.eA.5e'') (grants sample2)) \<subseteq> {0}"
proof -
  let ?g = "\<lparr> g_peer = 0, g_text = ''abwt1.eA.5e'', g_ticket = \<lparr> sessionId = ''s1'', issuedAt = Some 9000 \<rparr>, g_at = 8000 \<rparr>"
  have "?g \<in> set (grants sample2)" by (simp add: sample2_facts)
  then show ?thesis using one_connection_per_ticket [OF sample_reachable(2), of ?g] by auto
qed

theorem room_survives_disconnect_witness:
  "fst (joinRoom (docs sample_config) (room_key (heap (reg (server sample1)) (peer_room (sockets (server sample1) 0)))) 7
     (reg (server (fst (deliver sample_config sample1 (Socket_closed 0)))))) = peer_room (sockets (server sample1) 0)"
proof -
  have "now (fst (deliver sample_config y (Socket_closed 0))) = now y" for y
    by (simp add: deliver_unfold Let_def)
  moreover have "roomRetentionMs sample_config = 300000" by (simp add: sample_config_def)
  ultimately show ?thesis
    by (intro room_survives_disconnect [OF sample_reachable(1), of 0 "[]"]) (simp_all add: sample1_facts)
qed

end
