(* ===== verification/Markdown_Url.thy ===== *)
theory Markdown_Url
  imports Prelude
begin

text \<open>
  The text of a question prompt as UTF-16 code units, and the destinations a prompt may link to
  (\<open>packages/markdown/src/url.ts\<close>). A string literal \<open>s\<close> of the source is \<open>u s\<close>, its character \<open>c\<close> is
  \<open>cu c\<close>.
\<close>

subsection \<open>Code units\<close>

type_synonym ustring = "nat list"

definition cu :: "char \<Rightarrow> nat" where
  [simp]: "cu c = of_char c"

definition u :: "string \<Rightarrow> ustring" where
  [simp]: "u s = map cu s"

definition NEWLINE :: nat where
  [simp]: "NEWLINE = 10"

text \<open>\<open>\s\<close>, which is also what \<open>trim\<close> removes.\<close>

definition is_space :: "nat \<Rightarrow> bool" where
  "is_space c \<longleftrightarrow> c \<in> {9, 10, 11, 12, 13, 32, 160, 5760, 8232, 8233, 8239, 8287, 12288, 65279} \<or> 8192 \<le> c \<and> c \<le> 8202"

definition uTrimStart :: "ustring \<Rightarrow> ustring" where
  "uTrimStart s = dropWhile is_space s"

definition uTrim :: "ustring \<Rightarrow> ustring" where
  "uTrim s = rev (dropWhile is_space (rev (uTrimStart s)))"

definition is_udigit :: "nat \<Rightarrow> bool" where
  "is_udigit c \<longleftrightarrow> 48 \<le> c \<and> c \<le> 57"

definition is_ualpha :: "nat \<Rightarrow> bool" where
  "is_ualpha c \<longleftrightarrow> 65 \<le> c \<and> c \<le> 90 \<or> 97 \<le> c \<and> c \<le> 122"

definition is_uhex :: "nat \<Rightarrow> bool" where
  "is_uhex c \<longleftrightarrow> is_udigit c \<or> 65 \<le> c \<and> c \<le> 70 \<or> 97 \<le> c \<and> c \<le> 102"

definition hex_value :: "nat \<Rightarrow> nat" where
  "hex_value c = (if is_udigit c then c - 48 else if 97 \<le> c then c - 87 else c - 55)"

text \<open>\<open>Number.parseInt(s, b)\<close> on a string of digits of the base.\<close>

definition parse_digits :: "nat \<Rightarrow> ustring \<Rightarrow> nat" where
  "parse_digits b s = foldl (\<lambda>acc c. acc * b + hex_value c) 0 s"

text \<open>\<open>s.split(pat).join(rep)\<close> for a pattern that is not empty.\<close>

function replaceAll :: "ustring \<Rightarrow> ustring \<Rightarrow> ustring \<Rightarrow> ustring" where
  "replaceAll pat rep [] = []"
| "replaceAll pat rep (c # cs) =
     (if pat \<noteq> [] \<and> take (length pat) (c # cs) = pat then rep @ replaceAll pat rep (drop (length pat - 1) cs)
      else c # replaceAll pat rep cs)"
  by pat_completeness auto

termination
  by (relation "measure (\<lambda>(_, _, s). length s)") auto

subsection \<open>Character references\<close>

text \<open>The code units of a code point.\<close>

definition fromCodePoint :: "nat \<Rightarrow> ustring" where
  "fromCodePoint n = (if n < 65536 then [n] else [55296 + (n - 65536) div 1024, 56320 + (n - 65536) mod 1024])"

text \<open>A numeric reference at the head: its number and its length.\<close>

definition numericEntity :: "ustring \<Rightarrow> (nat \<times> nat) option" where
  "numericEntity s =
     (if take 2 s \<noteq> u ''&#'' then None
      else let dec = takeWhile is_udigit (drop 2 s)
           in if 1 \<le> length dec \<and> length dec \<le> 7 \<and> take 1 (drop (2 + length dec) s) = u '';''
              then Some (parse_digits 10 dec, 3 + length dec)
              else if take 1 (drop 2 s) \<in> {u ''x'', u ''X''}
              then (let hex = takeWhile is_uhex (drop 3 s)
                    in if 1 \<le> length hex \<and> length hex \<le> 6 \<and> take 1 (drop (3 + length hex) s) = u '';''
                       then Some (parse_digits 16 hex, 4 + length hex) else None)
              else None)"

function decodeNumeric :: "ustring \<Rightarrow> ustring" where
  "decodeNumeric [] = []"
| "decodeNumeric (c # cs) =
     (case numericEntity (c # cs) of
        None \<Rightarrow> c # decodeNumeric cs
      | Some (code, len) \<Rightarrow>
          (if code \<le> 0 \<or> code > 1114111 then take len (c # cs) else fromCodePoint code)
            @ decodeNumeric (drop (len - 1) cs))"
  by pat_completeness auto

termination
  by (relation "measure length") auto

definition NAMED_ENTITIES :: "(ustring \<times> ustring) list" where
  "NAMED_ENTITIES =
     [(u ''&amp;'', u ''&''), (u ''&lt;'', u ''<''), (u ''&gt;'', u ''>''), (u ''&quot;'', [34]), (u ''&apos;'', [39]),
      (u ''&colon;'', u '':''), (u ''&NewLine;'', [10]), (u ''&Tab;'', [9])]"

definition decodeEntities :: "ustring \<Rightarrow> ustring" where
  "decodeEntities input = fold (\<lambda>(entity, char). replaceAll entity char) NAMED_ENTITIES (decodeNumeric input)"

subsection \<open>The scheme check\<close>

definition ALLOWED_SCHEMES :: "ustring list" where
  "ALLOWED_SCHEMES = [u ''http:'', u ''https:'', u ''mailto:'']"

definition normaliseUrl :: "ustring \<Rightarrow> ustring" where
  "normaliseUrl input =
     (let stripped = filter (\<lambda>c. c \<noteq> 9 \<and> c \<noteq> 10 \<and> c \<noteq> 13) input
      in rev (dropWhile (\<lambda>c. c \<le> 32) (rev (dropWhile (\<lambda>c. c \<le> 32) stripped))))"

definition scheme_char :: "nat \<Rightarrow> bool" where
  "scheme_char c \<longleftrightarrow> is_ualpha c \<or> is_udigit c \<or> c \<in> {cu (CHR ''+''), cu (CHR ''-''), cu (CHR ''.'')}"

text \<open>The group of \<open>SCHEME\<close> on a string.\<close>

fun SCHEME :: "ustring \<Rightarrow> ustring option" where
  "SCHEME [] = None"
| "SCHEME (c # cs) =
     (if is_ualpha c \<and> take 1 (dropWhile scheme_char cs) = u '':'' then Some (c # takeWhile scheme_char cs) else None)"

definition lower_unit :: "nat \<Rightarrow> nat" where
  "lower_unit c = (if 65 \<le> c \<and> c \<le> 90 then c + 32 else c)"

definition safeUrl :: "ustring \<Rightarrow> ustring option" where
  "safeUrl raw =
     (let url = normaliseUrl (decodeEntities raw)
      in if url = [] then None
         else case SCHEME url of
           None \<Rightarrow> if take 1 url = [92] then None else Some url
         | Some s \<Rightarrow> if map lower_unit s @ u '':'' \<in> set ALLOWED_SCHEMES then Some url else None)"

subsection \<open>What a browser makes of a destination\<close>

text \<open>
  The scheme the URL standard's basic parser finds: C0 controls and spaces are removed from both
  ends, tabs and newlines everywhere, and the scheme states then read a letter and letters, digits,
  plus, minus or dot up to a colon, in lower case. Anything else has no scheme.
\<close>

fun scheme_state :: "ustring \<Rightarrow> ustring \<Rightarrow> ustring option" where
  "scheme_state buffer [] = None"
| "scheme_state buffer (c # cs) =
     (if is_ualpha c \<or> buffer \<noteq> [] \<and> (is_udigit c \<or> c = 43 \<or> c = 45 \<or> c = 46)
      then scheme_state (buffer @ [lower_unit c]) cs
      else if c = 58 \<and> buffer \<noteq> [] then Some buffer else None)"

definition url_input :: "ustring \<Rightarrow> ustring" where
  "url_input s = filter (\<lambda>c. c \<noteq> 9 \<and> c \<noteq> 10 \<and> c \<noteq> 13)
     (rev (dropWhile (\<lambda>c. c \<le> 32) (rev (dropWhile (\<lambda>c. c \<le> 32) s))))"

definition browser_scheme :: "ustring \<Rightarrow> ustring option" where
  "browser_scheme s = scheme_state [] (url_input s)"

text \<open>A destination that runs nothing: its scheme is one of the three, or it has none and does not
  start with a backslash.\<close>

definition safe_href :: "ustring \<Rightarrow> bool" where
  "safe_href url \<longleftrightarrow> url \<noteq> [] \<and>
     (case browser_scheme url of
        None \<Rightarrow> take 1 url \<noteq> [92]
      | Some s \<Rightarrow> s \<in> {u ''http'', u ''https'', u ''mailto''})"

lemma scheme_state_some:
  "buffer \<noteq> [] \<Longrightarrow> scheme_state buffer cs =
     (if take 1 (dropWhile scheme_char cs) = [58] then Some (buffer @ map lower_unit (takeWhile scheme_char cs)) else None)"
  by (induction buffer cs rule: scheme_state.induct) (auto simp: scheme_char_def is_ualpha_def is_udigit_def)

lemma scheme_state_SCHEME: "scheme_state [] s = map_option (map lower_unit) (SCHEME s)"
  by (cases s) (auto simp: scheme_state_some)

lemma dropWhile_idem_ends:
  assumes "xs = rev (dropWhile P (rev (dropWhile P ys)))"
  shows "dropWhile P xs = xs" "dropWhile P (rev xs) = rev xs"
proof -
  show "dropWhile P (rev xs) = rev xs" by (simp add: assms)
  show "dropWhile P xs = xs"
  proof (cases xs)
    case (Cons a as)
    have "dropWhile P ys = xs @ rev (takeWhile P (rev (dropWhile P ys)))" unfolding assms
      by (metis rev_append rev_rev_ident takeWhile_dropWhile_id)
    then have "hd (dropWhile P ys) = a \<and> dropWhile P ys \<noteq> []" by (metis Cons append_Cons list.sel(1) list.distinct(1))
    then have "\<not> P a" using hd_dropWhile by blast
    then show ?thesis by (simp add: Cons)
  qed simp
qed

lemma dropWhile_filter:
  "(\<And>c. \<not> Q c \<Longrightarrow> P c) \<Longrightarrow> dropWhile P (filter Q s) = filter Q (dropWhile P s)"
  by (induction s) auto

text \<open>The source strips before it trims, the standard trims before it strips.\<close>

lemma normaliseUrl_eq: "normaliseUrl s = url_input s"
proof -
  have ws: "(c::nat) \<le> 32" if "\<not> (c \<noteq> 9 \<and> c \<noteq> 10 \<and> c \<noteq> 13)" for c using that by auto
  show ?thesis
    by (simp add: normaliseUrl_def url_input_def rev_filter dropWhile_filter [OF ws] del: filter_filter)
qed

lemma normaliseUrl_fixed: "url_input (normaliseUrl s) = normaliseUrl s"
proof -
  let ?t = "filter (\<lambda>c. c \<noteq> 9 \<and> c \<noteq> 10 \<and> c \<noteq> 13) s"
  have n: "normaliseUrl s = rev (dropWhile (\<lambda>c. c \<le> 32) (rev (dropWhile (\<lambda>c. c \<le> 32) ?t)))"
    by (simp add: normaliseUrl_def)
  have "set (normaliseUrl s) \<subseteq> set ?t"
    unfolding n by (auto dest!: set_dropWhileD)
  then have "filter (\<lambda>c. c \<noteq> 9 \<and> c \<noteq> 10 \<and> c \<noteq> 13) (normaliseUrl s) = normaliseUrl s"
    by (auto simp: filter_id_conv)
  then show ?thesis
    using dropWhile_idem_ends [OF n] by (simp add: url_input_def)
qed

text \<open>C13: the scheme check looks at what the browser will. A destination is kept exactly when the
  URL standard's own parser, run on it, finds \<open>http\<close>, \<open>https\<close> or \<open>mailto\<close>, or no scheme and no
  leading backslash; what is kept is the string that parser reads, so that resolving it again finds
  the same scheme. Entities, tabs and controls wedged into a scheme hide nothing.\<close>

theorem safeUrl_exact:
  "safeUrl raw = Some url \<longleftrightarrow> url = url_input (decodeEntities raw) \<and> url_input url = url \<and> safe_href url"
  using normaliseUrl_fixed [of "decodeEntities raw"] unfolding normaliseUrl_eq
  by (auto simp: safeUrl_def safe_href_def browser_scheme_def scheme_state_SCHEME ALLOWED_SCHEMES_def Let_def
      normaliseUrl_eq split: if_splits option.splits)

lemma safeUrl_safe: "safeUrl raw = Some url \<Longrightarrow> safe_href url"
  using normaliseUrl_fixed [of "decodeEntities raw"]
  by (auto simp: safeUrl_def safe_href_def browser_scheme_def scheme_state_SCHEME ALLOWED_SCHEMES_def Let_def
      split: if_splits option.splits)

end
