(* ===== verification/Markdown_Inline.thy ===== *)
theory Markdown_Inline
  imports Markdown_Url
begin

text \<open>
  Inline markdown: the tree (\<open>packages/markdown/src/ast.ts\<close>) and its parser (\<open>inline.ts\<close>). The
  classes \<open>\p{L}\<close> and \<open>\p{N}\<close> are the argument \<open>wc\<close>. The branches of the parser's loop are the
  constructors of \<open>token\<close>, read by \<open>tokenAt\<close> at a position of the source and acted on by
  \<open>parseLoop\<close>.
\<close>

datatype inline =
    Text ustring | Code ustring | Strong "inline list" | Emphasis "inline list"
  | Link ustring "inline list" | Image ustring ustring | Break

record rejectedUrl =
  ru_url :: ustring
  ru_label :: ustring

definition ESCAPABLE :: "nat set" where
  "ESCAPABLE = set ([92, 39] @ u ''`*_{}[]()#+-.!|<>~'' @ [34] @ u ''&$%,/:;=?@^'')"

fun textOf1 :: "inline \<Rightarrow> ustring" where
  "textOf1 (Text v) = v"
| "textOf1 (Code v) = v"
| "textOf1 (Strong children) = concat (map textOf1 children)"
| "textOf1 (Emphasis children) = concat (map textOf1 children)"
| "textOf1 (Link href children) = concat (map textOf1 children)"
| "textOf1 (Image src alt) = alt"
| "textOf1 Break = [32]"

definition textOf :: "inline list \<Rightarrow> ustring" where
  "textOf nodes = concat (map textOf1 nodes)"

definition pushText :: "inline list \<Rightarrow> ustring \<Rightarrow> inline list" where
  "pushText out v =
     (if v = [] then out
      else case rev out of Text w # rest \<Rightarrow> rev rest @ [Text (w @ v)] | _ \<Rightarrow> out @ [Text v])"

subsection \<open>Scanning\<close>

definition unit_at :: "ustring \<Rightarrow> nat \<Rightarrow> nat option" where
  "unit_at src i = (if i < length src then Some (src ! i) else None)"

definition slice :: "ustring \<Rightarrow> nat \<Rightarrow> nat \<Rightarrow> ustring" where
  "slice src i j = take (j - i) (drop i src)"

text \<open>\<open>src.indexOf(pat, i)\<close>.\<close>

function findFrom :: "ustring \<Rightarrow> ustring \<Rightarrow> nat \<Rightarrow> nat option" where
  "findFrom src pat i =
     (if i + length pat \<le> length src
      then if take (length pat) (drop i src) = pat then Some i else findFrom src pat (Suc i)
      else None)"
  by pat_completeness auto

termination
  by (relation "measure (\<lambda>(src, pat, i). Suc (length src) - i)") auto

declare findFrom.simps [simp del]

text \<open>The length of a run of one unit from a position.\<close>

definition runLength :: "ustring \<Rightarrow> nat \<Rightarrow> nat \<Rightarrow> nat" where
  "runLength src i c = length (takeWhile (\<lambda>x. x = c) (drop i src))"

function bracketLoop :: "ustring \<Rightarrow> nat \<Rightarrow> int \<Rightarrow> nat option" where
  "bracketLoop src i depth =
     (if i < length src then
        (let c = src ! i
         in if c = 92 then bracketLoop src (i + 2) depth
            else if c = cu (CHR ''['') then bracketLoop src (i + 1) (depth + 1)
            else if c = cu (CHR '']'')
                 then (if depth - 1 = 0 then Some i else bracketLoop src (i + 1) (depth - 1))
            else bracketLoop src (i + 1) depth)
      else None)"
  by pat_completeness auto

termination
  by (relation "measure (\<lambda>(src, i, depth). length src - i)") auto

declare bracketLoop.simps [simp del]

definition closingBracket :: "ustring \<Rightarrow> nat \<Rightarrow> nat option" where
  "closingBracket src open = bracketLoop src open 0"

text \<open>\<open>inTitle\<close> holds the quote that opened the title.\<close>

function destLoop :: "ustring \<Rightarrow> nat \<Rightarrow> nat \<Rightarrow> ustring \<Rightarrow> nat option \<Rightarrow> (ustring \<times> nat) option" where
  "destLoop src i depth dest inTitle =
     (if i < length src then
        (let c = src ! i
         in if c = 92 \<and> i + 1 < length src
            then (let next = src ! (i + 1)
                  in destLoop src (i + 2) depth
                       (if inTitle = None then dest @ (if next \<in> ESCAPABLE then [next] else [92, next]) else dest) inTitle)
            else if inTitle \<noteq> None then destLoop src (i + 1) depth dest (if inTitle = Some c then None else inTitle)
            else if c = 34 \<or> c = 39 then destLoop src (i + 1) depth dest (Some c)
            else if c = cu (CHR ''('') then destLoop src (i + 1) (depth + 1) (dest @ [c]) None
            else if c = cu (CHR '')'') \<and> depth - 1 = 0 then Some (uTrim dest, i + 1)
            else if c = NEWLINE then None
            else destLoop src (i + 1) (if c = cu (CHR '')'') then depth - 1 else depth) (dest @ [c]) None)
      else None)"
  by pat_completeness auto

termination
  by (relation "measure (\<lambda>(src, i, _). length src - i)") auto

declare destLoop.simps [simp del]

definition readDestination :: "ustring \<Rightarrow> nat \<Rightarrow> (ustring \<times> nat) option" where
  "readDestination src from =
     (if unit_at src from \<noteq> Some (cu (CHR ''('')) then None else destLoop src (from + 1) 1 [] None)"

lemma findFrom_Some:
  "findFrom src pat i = Some j \<Longrightarrow> i \<le> j \<and> j + length pat \<le> length src \<and> take (length pat) (drop j src) = pat"
  by (induction src pat i rule: findFrom.induct) (subst (asm) (2) findFrom.simps, auto split: if_splits)

text \<open>The end of an emphasis run; \<open>dbl\<close> when the run is of two markers, else of one. The search starts
  past the opening run, so that \<open>found - 1\<close> is a position.\<close>

definition runWidth :: "bool \<Rightarrow> nat" where
  "runWidth dbl = (if dbl then 2 else 1)"

function emphasisLoop :: "(nat \<Rightarrow> bool) \<Rightarrow> ustring \<Rightarrow> nat \<Rightarrow> bool \<Rightarrow> nat \<Rightarrow> nat option" where
  "emphasisLoop wc src marker dbl i =
     (if i < length src then
        (case findFrom src (replicate (runWidth dbl) marker) i of
           None \<Rightarrow> None
         | Some found \<Rightarrow>
           let len = runWidth dbl; prior = src ! (found - 1); after = unit_at src (found + len)
           in if after = Some marker \<and> marker \<noteq> cu (CHR ''_'') then emphasisLoop wc src marker dbl (found + len + 1)
              else if \<not> is_space prior \<and> prior \<noteq> marker
                 \<and> (marker \<noteq> cu (CHR ''_'') \<or> after = None \<or> \<not> wc (the after)) then Some found
              else emphasisLoop wc src marker dbl (found + len))
      else None)"
  by pat_completeness auto

termination
  by (relation "measure (\<lambda>(wc, src, marker, dbl, i). length src - i)")
    (auto dest!: findFrom_Some simp: runWidth_def)

declare emphasisLoop.simps [simp del]

definition emphasisRun :: "(nat \<Rightarrow> bool) \<Rightarrow> ustring \<Rightarrow> nat \<Rightarrow> nat \<Rightarrow> bool \<Rightarrow> nat option" where
  "emphasisRun wc src start marker dbl =
     (case unit_at src (start + runWidth dbl) of
        None \<Rightarrow> None
      | Some opensWith \<Rightarrow>
        if is_space opensWith then None
        else if marker = cu (CHR ''_'') \<and> 0 < start \<and> wc (src ! (start - 1)) then None
        else emphasisLoop wc src marker dbl (start + runWidth dbl))"

text \<open>The closing run of a code span opened by \<open>len\<close> backticks.\<close>

function codeClose :: "ustring \<Rightarrow> nat \<Rightarrow> nat \<Rightarrow> nat option" where
  "codeClose src len search =
     (if search < length src then
        (case findFrom src (replicate (Suc len) 96) search of
           None \<Rightarrow> None
         | Some found \<Rightarrow>
           if unit_at src (found + Suc len) = Some 96
           then codeClose src len (found + Suc len + runLength src (found + Suc len) 96)
           else Some found)
      else None)"
  by pat_completeness auto

termination
  by (relation "measure (\<lambda>(src, len, search). length src - search)") (auto dest!: findFrom_Some)

declare codeClose.simps [simp del]

definition codeValue :: "ustring \<Rightarrow> ustring" where
  "codeValue raw =
     (let v = (if length raw > 2 \<and> hd raw = 32 \<and> last raw = 32 \<and> uTrim raw \<noteq> [] then slice raw 1 (length raw - 1) else raw)
      in map (\<lambda>c. if c = NEWLINE then 32 else c) v)"

subsection \<open>The branches of the parser\<close>

text \<open>What the parser finds at a position, with where it goes on.\<close>

datatype token =
    Hard_break nat
  | Literal ustring nat
  | Code_span ustring nat
  | Link_to ustring ustring bool nat
  | Autolink ustring nat
  | Emphasised bool ustring nat
  | Line_end

definition linkAt :: "ustring \<Rightarrow> nat \<Rightarrow> nat \<Rightarrow> bool \<Rightarrow> token option" where
  "linkAt src open labelStart isImage =
     (case closingBracket src open of
        None \<Rightarrow> None
      | Some close \<Rightarrow>
        (case readDestination src (close + 1) of
           None \<Rightarrow> None
         | Some (dest, end_) \<Rightarrow> Some (Link_to (slice src labelStart close) dest isImage end_)))"

definition autolinkAt :: "ustring \<Rightarrow> nat \<Rightarrow> token option" where
  "autolinkAt src i =
     (case findFrom src [cu (CHR ''>'')] i of
        None \<Rightarrow> None
      | Some close \<Rightarrow>
        let body = slice src (i + 1) close
        in if body \<noteq> [] \<and> \<not> list_ex (\<lambda>c. is_space c \<or> c = cu (CHR ''<'')) body \<and> SCHEME body \<noteq> None
           then Some (Autolink body (close + 1)) else None)"

definition tokenAt :: "(nat \<Rightarrow> bool) \<Rightarrow> ustring \<Rightarrow> nat \<Rightarrow> token" where
  "tokenAt wc src i =
     (let c = src ! i
      in if c = 92 then
           (case unit_at src (i + 1) of
              None \<Rightarrow> Literal [c] (i + 1)
            | Some next \<Rightarrow>
                if next = NEWLINE then Hard_break (i + 2)
                else if next \<in> ESCAPABLE then Literal [next] (i + 2)
                else Literal [c] (i + 1))
         else if c = 96 then
           (let len = runLength src i 96
            in case codeClose src (len - 1) (i + len) of
                 Some close \<Rightarrow> Code_span (codeValue (slice src (i + len) close)) (close + len)
               | None \<Rightarrow> Literal (replicate len 96) (i + len))
         else if c = cu (CHR ''!'') \<and> unit_at src (i + 1) = Some (cu (CHR ''['')) then
           (case linkAt src (i + 1) (i + 2) True of Some t \<Rightarrow> t | None \<Rightarrow> Literal [c] (i + 1))
         else if c = cu (CHR ''['') then
           (case linkAt src i (i + 1) False of Some t \<Rightarrow> t | None \<Rightarrow> Literal [c] (i + 1))
         else if c = cu (CHR ''<'') then
           (case autolinkAt src i of Some t \<Rightarrow> t | None \<Rightarrow> Literal [c] (i + 1))
         else if c = cu (CHR ''*'') \<or> c = cu (CHR ''_'') then
           (let len = runLength src i c; dbl = (len \<ge> 2)
            in case emphasisRun wc src i c dbl of
                 Some close \<Rightarrow> Emphasised dbl (slice src (i + runWidth dbl) close) (close + runWidth dbl)
               | None \<Rightarrow> Literal (replicate len c) (i + len))
         else if c = NEWLINE then Line_end
         else Literal [c] (i + 1))"

subsection \<open>The parser\<close>

text \<open>A hard break drops the spaces before it from the text already out.\<close>

fun dropSpaces :: "inline list \<Rightarrow> inline list" where
  "dropSpaces (Text v # rest) =
     (let trimmed = rev (dropWhile (\<lambda>c. c = 32) (rev v))
      in if trimmed = [] then dropSpaces rest else Text trimmed # rest)"
| "dropSpaces out = out"

definition lineEnd :: "ustring \<Rightarrow> nat \<Rightarrow> inline list \<Rightarrow> inline list" where
  "lineEnd src i out =
     (if 2 \<le> i \<and> slice src (i - 2) i = [32, 32] then rev (dropSpaces (rev out)) @ [Break] else pushText out [32])"

definition pushImage :: "ustring \<Rightarrow> ustring \<Rightarrow> inline list \<Rightarrow> rejectedUrl list \<Rightarrow> inline list \<times> rejectedUrl list" where
  "pushImage label dest out rej =
     (case safeUrl dest of
        None \<Rightarrow> (pushText out label, rej @ [\<lparr> ru_url = dest, ru_label = label \<rparr>])
      | Some href \<Rightarrow> (out @ [Image href label], rej))"

definition pushLink :: "inline list \<Rightarrow> ustring \<Rightarrow> inline list \<Rightarrow> rejectedUrl list \<Rightarrow> inline list \<times> rejectedUrl list" where
  "pushLink children dest out rej =
     (case safeUrl dest of
        None \<Rightarrow> (out @ children, rej @ [\<lparr> ru_url = dest, ru_label = textOf children \<rparr>])
      | Some href \<Rightarrow> (out @ [Link href children], rej))"

definition pushAutolink :: "ustring \<Rightarrow> inline list \<Rightarrow> rejectedUrl list \<Rightarrow> inline list \<times> rejectedUrl list" where
  "pushAutolink body out rej =
     (case safeUrl body of
        None \<Rightarrow> (pushText out body, rej @ [\<lparr> ru_url = body, ru_label = body \<rparr>])
      | Some href \<Rightarrow> (out @ [Link href [Text body]], rej))"

text \<open>Every token leads further, and what it holds to be parsed is shorter than the source.\<close>

lemma bracketLoop_Some: "bracketLoop src i d = Some j \<Longrightarrow> i \<le> j \<and> j < length src"
proof (induction src i d rule: bracketLoop.induct)
  case (1 src i d)
  note step = "1.prems" [unfolded bracketLoop.simps [of src i d]]
  show ?case
  proof (cases "i < length src")
    case True
    with step "1.IH" [OF True refl] show ?thesis by (auto simp: Let_def split: if_splits)
  qed (use step in simp)
qed

lemma destLoop_Some: "destLoop src i d dest t = Some (r, j) \<Longrightarrow> i < j \<and> j \<le> length src"
proof (induction src i d dest t rule: destLoop.induct)
  case (1 src i d dest t)
  note step = "1.prems" [unfolded destLoop.simps [of src i d dest t]]
  show ?case
  proof (cases "i < length src")
    case True
    note IH = "1.IH" [OF True refl]
    show ?thesis
    proof (cases "src ! i = 92 \<and> i + 1 < length src")
      case esc: True
      from step True esc have "destLoop src (i + 2) d
          (if t = None then dest @ (if src ! (i + 1) \<in> ESCAPABLE then [src ! (i + 1)] else [92, src ! (i + 1)]) else dest) t
          = Some (r, j)"
        by (simp only: Let_def if_True simp_thms)
      from IH(1) [OF esc refl this] show ?thesis by simp
    next
      case False
      with step True IH(2-) show ?thesis by (auto simp: Let_def simp del: cu_def NEWLINE_def split: if_splits)
    qed
  qed (use step in simp)
qed

lemma readDestination_Some: "readDestination src i = Some (r, j) \<Longrightarrow> i < j \<and> j \<le> length src"
  by (auto simp: readDestination_def dest!: destLoop_Some split: if_splits)

lemma emphasisLoop_Some: "emphasisLoop wc src m dbl i = Some j \<Longrightarrow> i \<le> j \<and> j + runWidth dbl \<le> length src"
proof (induction wc src m dbl i rule: emphasisLoop.induct)
  case (1 wc src m dbl i)
  note step = "1.prems" [unfolded emphasisLoop.simps [of wc src m dbl i]]
  then obtain found where i: "i < length src" and f: "findFrom src (replicate (runWidth dbl) m) i = Some found"
    by (auto split: if_splits option.splits)
  from findFrom_Some [OF f] step i f "1.IH" [OF i f refl refl refl] show ?case
    by (auto simp: Let_def simp del: cu_def split: if_splits)
qed

lemma codeClose_Some: "codeClose src len i = Some j \<Longrightarrow> i \<le> j \<and> j + Suc len \<le> length src"
proof (induction src len i rule: codeClose.induct)
  case (1 src len i)
  note step = "1.prems" [unfolded codeClose.simps [of src len i]]
  then obtain found where i: "i < length src" and f: "findFrom src (replicate (Suc len) 96) i = Some found"
    by (auto split: if_splits option.splits)
  from findFrom_Some [OF f] step i f "1.IH" [OF i f] show ?case by (auto split: if_splits)
qed

lemma runLength_pos: "i < length src \<Longrightarrow> src ! i = c \<Longrightarrow> 0 < runLength src i c"
  by (simp add: runLength_def Cons_nth_drop_Suc [symmetric])

lemma slice_shorter: "i < length src \<Longrightarrow> 0 < i \<Longrightarrow> length (slice src i j) < length src"
  by (simp add: slice_def)

text \<open>What a token promises the loop.\<close>

fun advances :: "ustring \<Rightarrow> nat \<Rightarrow> token \<Rightarrow> bool" where
  "advances src i (Hard_break j) \<longleftrightarrow> i < j"
| "advances src i (Literal v j) \<longleftrightarrow> i < j"
| "advances src i (Code_span v j) \<longleftrightarrow> i < j"
| "advances src i (Link_to label dest img j) \<longleftrightarrow> i < j \<and> length label < length src"
| "advances src i (Autolink body j) \<longleftrightarrow> i < j"
| "advances src i (Emphasised dbl inner j) \<longleftrightarrow> i < j \<and> length inner < length src"
| "advances src i Line_end \<longleftrightarrow> True"

lemma linkAt_advances:
  assumes "linkAt src open labelStart img = Some t" "i \<le> open" "0 < labelStart"
  shows "advances src i t"
proof -
  from assms(1) obtain close dest j where c: "closingBracket src open = Some close"
    and d: "readDestination src (close + 1) = Some (dest, j)" and t: "t = Link_to (slice src labelStart close) dest img j"
    by (auto simp: linkAt_def split: option.splits)
  from bracketLoop_Some [OF c [unfolded closingBracket_def]] readDestination_Some [OF d] assms(2,3) t
  show ?thesis by (auto simp: slice_def)
qed

lemma autolinkAt_advances: "autolinkAt src i = Some t \<Longrightarrow> advances src i t"
  by (auto simp: autolinkAt_def Let_def dest!: findFrom_Some split: option.splits if_splits)

lemma advances_cases:
  "(b \<Longrightarrow> advances src i x) \<Longrightarrow> (\<not> b \<Longrightarrow> advances src i y) \<Longrightarrow> advances src i (if b then x else y)"
  "(opt = None \<Longrightarrow> advances src i n) \<Longrightarrow> (\<And>v. opt = Some v \<Longrightarrow> advances src i (f v))
     \<Longrightarrow> advances src i (case opt of None \<Rightarrow> n | Some v \<Rightarrow> f v)"
  by (auto split: option.split)

lemma tokenAt_advances:
  assumes "i < length src"
  shows "advances src i (tokenAt wc src i)"
proof -
  have code: "advances src i (Code_span v (close + len))"
    if "codeClose src l (i + len) = Some close" "0 < len" for l close len v
    using codeClose_Some [OF that(1)] that(2) by simp
  have emph: "advances src i (Emphasised dbl (slice src (i + runWidth dbl) close) (close + runWidth dbl))"
    if "emphasisRun wc src i c dbl = Some close" for dbl close c
    using that emphasisLoop_Some [of wc src c dbl "i + runWidth dbl" close] assms
    by (auto simp: emphasisRun_def slice_def runWidth_def split: option.splits if_splits)
  have run: "0 < runLength src i (src ! i)" using assms by (simp add: runLength_pos)
  show ?thesis
    unfolding tokenAt_def Let_def
    by (intro advances_cases)
      (use run code emph linkAt_advances [of src _ _ _ _ i] autolinkAt_advances [of src i] in \<open>simp_all del: cu_def\<close>)
qed

lemma tokenAt_next: "i < length src \<Longrightarrow> tokenAt wc src i = t \<Longrightarrow> advances src i t"
  using tokenAt_advances by blast

function parseLoop ::
  "(nat \<Rightarrow> bool) \<Rightarrow> ustring \<Rightarrow> nat \<Rightarrow> inline list \<Rightarrow> rejectedUrl list \<Rightarrow> inline list \<times> rejectedUrl list"
where
  "parseLoop wc src i out rej =
     (if i < length src then
        (case tokenAt wc src i of
           Hard_break j \<Rightarrow> parseLoop wc src j (out @ [Break]) rej
         | Literal v j \<Rightarrow> parseLoop wc src j (pushText out v) rej
         | Code_span v j \<Rightarrow> parseLoop wc src j (out @ [Code v]) rej
         | Link_to label dest img j \<Rightarrow>
             if img then (case pushImage label dest out rej of (out1, rej1) \<Rightarrow> parseLoop wc src j out1 rej1)
             else (case parseLoop wc label 0 [] rej of (children, rej1) \<Rightarrow>
                   case pushLink children dest out rej1 of (out1, rej2) \<Rightarrow> parseLoop wc src j out1 rej2)
         | Autolink body j \<Rightarrow> (case pushAutolink body out rej of (out1, rej1) \<Rightarrow> parseLoop wc src j out1 rej1)
         | Emphasised dbl inner j \<Rightarrow>
             (case parseLoop wc inner 0 [] rej of (children, rej1) \<Rightarrow>
              parseLoop wc src j (out @ [if dbl then Strong children else Emphasis children]) rej1)
         | Line_end \<Rightarrow> parseLoop wc src (i + 1) (lineEnd src i out) rej)
      else (out, rej))"
  by pat_completeness auto

termination
proof (relation "measures [\<lambda>(wc, src, i, out, rej). length src, \<lambda>(wc, src, i, out, rej). length src - i]", goal_cases)
  case 1
  then show ?case by simp
qed (frule (1) tokenAt_next, force)+

declare parseLoop.simps [simp del]

definition parseInline :: "(nat \<Rightarrow> bool) \<Rightarrow> ustring \<Rightarrow> rejectedUrl list \<Rightarrow> inline list \<times> rejectedUrl list" where
  "parseInline wc src rej = parseLoop wc src 0 [] rej"

subsection \<open>Only safe destinations\<close>

fun urls :: "inline \<Rightarrow> ustring list" where
  "urls (Strong children) = concat (map urls children)"
| "urls (Emphasis children) = concat (map urls children)"
| "urls (Link href children) = href # concat (map urls children)"
| "urls (Image src alt) = [src]"
| "urls _ = []"

definition destinations :: "inline list \<Rightarrow> ustring list" where
  "destinations nodes = concat (map urls nodes)"

definition safe_nodes :: "inline list \<Rightarrow> bool" where
  "safe_nodes nodes \<longleftrightarrow> (\<forall>v \<in> set (destinations nodes). safe_href v)"

definition refused :: "rejectedUrl list \<Rightarrow> bool" where
  "refused rej \<longleftrightarrow> (\<forall>r \<in> set rej. safeUrl (ru_url r) = None)"

definition clean :: "inline list \<times> rejectedUrl list \<Rightarrow> bool" where
  [simp]: "clean p \<longleftrightarrow> safe_nodes (fst p) \<and> refused (snd p)"

lemma safe_nodes_simps [simp]:
  "safe_nodes []"
  "safe_nodes (out @ nodes) \<longleftrightarrow> safe_nodes out \<and> safe_nodes nodes"
  "safe_nodes (rev out) \<longleftrightarrow> safe_nodes out"
  "safe_nodes (Break # ns) \<longleftrightarrow> safe_nodes ns" "safe_nodes (Code v # ns) \<longleftrightarrow> safe_nodes ns"
  "safe_nodes (Text v # ns) \<longleftrightarrow> safe_nodes ns"
  "safe_nodes (Strong cs # ns) \<longleftrightarrow> safe_nodes cs \<and> safe_nodes ns"
  "safe_nodes (Emphasis cs # ns) \<longleftrightarrow> safe_nodes cs \<and> safe_nodes ns"
  "safe_nodes (Link href cs # ns) \<longleftrightarrow> safe_href href \<and> safe_nodes cs \<and> safe_nodes ns"
  "safe_nodes (Image href alt # ns) \<longleftrightarrow> safe_href href \<and> safe_nodes ns"
  by (auto simp: safe_nodes_def destinations_def)

lemma refused_simps [simp]:
  "refused []" "refused (rej @ [r]) \<longleftrightarrow> refused rej \<and> safeUrl (ru_url r) = None"
  by (auto simp: refused_def)

lemma safe_pushText [simp]: "safe_nodes (pushText out v) \<longleftrightarrow> safe_nodes out"
proof -
  have "safe_nodes (rev rest @ [Text (w @ v)]) \<longleftrightarrow> safe_nodes out" if "rev out = Text w # rest" for w rest
    using arg_cong [OF that, of rev] by simp
  then show ?thesis by (auto simp: pushText_def split: list.splits inline.splits)
qed

lemma destinations_dropSpaces: "destinations (dropSpaces out) = destinations out"
  by (induction out rule: dropSpaces.induct) (auto simp: destinations_def Let_def)

lemma safe_lineEnd [simp]: "safe_nodes (lineEnd src i out) \<longleftrightarrow> safe_nodes out"
proof -
  have "safe_nodes (dropSpaces (rev out)) \<longleftrightarrow> safe_nodes (rev out)"
    by (simp only: safe_nodes_def destinations_dropSpaces)
  then show ?thesis by (simp add: lineEnd_def)
qed

lemma clean_push:
  "clean (out, rej) \<Longrightarrow> clean (pushImage label dest out rej)"
  "clean (out, rej) \<Longrightarrow> clean (children, rej) \<Longrightarrow> clean (pushLink children dest out rej)"
  "clean (out, rej) \<Longrightarrow> clean (pushAutolink dest out rej)"
  by (auto simp: pushImage_def pushLink_def pushAutolink_def safeUrl_safe split: option.split)

text \<open>The refused destinations of a parse are added to those already there.\<close>

lemma clean_grow: "clean (out, rej) \<Longrightarrow> clean (out', rej') \<Longrightarrow> clean (out, rej')"
  by simp

lemma parseLoop_clean: "clean (out, rej) \<Longrightarrow> clean (parseLoop wc src i out rej)"
proof (induction wc src i out rej rule: parseLoop.induct)
  case (1 wc src i out rej)
  show ?case
  proof (cases "i < length src")
    case i: True
    have start: "clean ([], rej)" using "1.prems" by simp
    show ?thesis
    proof (cases "tokenAt wc src i")
      case t: (Hard_break j)
      from "1.IH"(1) [OF i t] "1.prems" i t show ?thesis by (subst parseLoop.simps) simp
    next
      case t: (Literal v j)
      from "1.IH"(2) [OF i t] "1.prems" i t show ?thesis by (subst parseLoop.simps) simp
    next
      case t: (Code_span v j)
      from "1.IH"(3) [OF i t] "1.prems" i t show ?thesis by (subst parseLoop.simps) simp
    next
      case t: (Link_to label dest img j)
      show ?thesis
      proof (cases img)
        case True
        obtain o1 r1 where p: "pushImage label dest out rej = (o1, r1)" by fastforce
        from "1.IH"(4) [OF i t True p [symmetric]] clean_push(1) [OF "1.prems", of label dest] i t True p
        show ?thesis by (subst parseLoop.simps) simp
      next
        case False
        obtain cs r1 where c: "parseLoop wc label 0 [] rej = (cs, r1)" by fastforce
        obtain o1 r2 where p: "pushLink cs dest out r1 = (o1, r2)" by fastforce
        have cs: "clean (cs, r1)" using "1.IH"(5) [OF i t False start] c by simp
        from clean_push(2) [OF clean_grow [OF "1.prems" cs] cs, of dest]
        have "clean (o1, r2)" by (simp add: p)
        from "1.IH"(6) [OF i t False c [symmetric] p [symmetric] this] i t False c p
        show ?thesis by (subst parseLoop.simps) simp
      qed
    next
      case t: (Autolink body j)
      obtain o1 r1 where p: "pushAutolink body out rej = (o1, r1)" by fastforce
      from "1.IH"(7) [OF i t p [symmetric]] clean_push(3) [OF "1.prems", of body] i t p
      show ?thesis by (subst parseLoop.simps) simp
    next
      case t: (Emphasised dbl inner j)
      obtain cs r1 where c: "parseLoop wc inner 0 [] rej = (cs, r1)" by fastforce
      have cs: "clean (cs, r1)" using "1.IH"(8) [OF i t start] c by simp
      have "clean (out @ [if dbl then Strong cs else Emphasis cs], r1)"
        using cs clean_grow [OF "1.prems" cs] by simp
      from "1.IH"(9) [OF i t c [symmetric] this] i t c show ?thesis by (subst parseLoop.simps) simp
    next
      case t: Line_end
      from "1.IH"(10) [OF i t] "1.prems" i t show ?thesis by (subst parseLoop.simps) simp
    qed
  next
    case False
    with "1.prems" show ?thesis by (subst parseLoop.simps) simp
  qed
qed

lemma parseInline_clean: "clean ([], rej) \<Longrightarrow> clean (parseInline wc src rej)"
  using parseLoop_clean [of "[]" rej] by (simp add: parseInline_def)

subsection \<open>Escaping\<close>

text \<open>Every escapable character written with a backslash.\<close>

definition escapeUnit :: "nat \<Rightarrow> ustring" where
  "escapeUnit c = (if c \<in> ESCAPABLE then [92, c] else [c])"

definition escapeText :: "ustring \<Rightarrow> ustring" where
  "escapeText s = concat (map escapeUnit s)"

lemma ESCAPABLE_markup: "{92, 96, 33, 91, 60, 42, 95} \<subseteq> ESCAPABLE" and "NEWLINE \<notin> ESCAPABLE"
  by (simp_all add: ESCAPABLE_def)

lemma tokenAt_escaped:
  assumes "c \<in> ESCAPABLE"
  shows "tokenAt wc (pre @ 92 # c # s) (length pre) = Literal [c] (length pre + 2)"
proof -
  have "c \<noteq> NEWLINE" using assms by (auto simp: ESCAPABLE_def)
  then show ?thesis using assms by (simp add: tokenAt_def unit_at_def nth_append)
qed

lemma tokenAt_plain:
  assumes "c \<notin> ESCAPABLE" "c \<noteq> NEWLINE"
  shows "tokenAt wc (pre @ c # s) (length pre) = Literal [c] (length pre + 1)"
proof -
  have "c \<notin> {92, 96, 33, 91, 60, 42, 95}" using assms(1) ESCAPABLE_markup by blast
  then show ?thesis using assms(2) by (simp add: tokenAt_def)
qed

definition textNode :: "ustring \<Rightarrow> inline list" where
  "textNode t = (if t = [] then [] else [Text t])"

lemma pushText_textNode [simp]: "v \<noteq> [] \<Longrightarrow> pushText (textNode t) v = textNode (t @ v)"
  by (simp add: pushText_def textNode_def)

lemma parseLoop_escaped:
  "NEWLINE \<notin> set s \<Longrightarrow> parseLoop wc (pre @ escapeText s) (length pre) (textNode t) rej = (textNode (t @ s), rej)"
proof (induction s arbitrary: pre t)
  case Nil
  then show ?case by (subst parseLoop.simps) (simp add: escapeText_def)
next
  case (Cons c s)
  have esc: "escapeText (c # s) = escapeUnit c @ escapeText s" by (simp add: escapeText_def)
  from Cons.IH [of "pre @ escapeUnit c" "t @ [c]"] Cons.prems
  have IH: "parseLoop wc (pre @ escapeUnit c @ escapeText s) (length pre + length (escapeUnit c)) (textNode (t @ [c])) rej
      = (textNode (t @ c # s), rej)" by simp
  show ?case
  proof (cases "c \<in> ESCAPABLE")
    case True
    with IH tokenAt_escaped [OF True, of wc pre "escapeText s"] show ?thesis
      by (subst parseLoop.simps) (simp add: esc escapeUnit_def)
  next
    case False
    with IH Cons.prems tokenAt_plain [OF False, of wc pre "escapeText s"] show ?thesis
      by (subst parseLoop.simps) (simp add: esc escapeUnit_def)
  qed
qed

text \<open>C14: anything can be written literally. A line in which every escapable character carries a
  backslash parses to exactly that text, one text node, with no link, image, emphasis or code in
  it, and refuses nothing; so no markup character is beyond the reach of an escape.\<close>

theorem escaped_text_is_literal:
  assumes "NEWLINE \<notin> set s"
  shows "parseInline wc (escapeText s) rej = (textNode s, rej) \<and> textOf (fst (parseInline wc (escapeText s) rej)) = s"
  using parseLoop_escaped [OF assms, of wc "[]" "[]" rej]
  by (simp add: parseInline_def textNode_def textOf_def)

theorem escaped_text_is_literal_witness:
  "parseInline (\<lambda>_. False) (escapeText (u ''[a](javascript:x) *b* <c>'')) []
     = ([Text (u ''[a](javascript:x) *b* <c>'')], [])"
  using escaped_text_is_literal [of "u ''[a](javascript:x) *b* <c>''" "\<lambda>_. False" "[]"] by (simp add: textNode_def)

end
