(* ===== verification/Markdown_Block.thy ===== *)
theory Markdown_Block
  imports Markdown_Inline
begin

text \<open>
  Block markdown (\<open>packages/markdown/src/block.ts\<close>, \<open>index.ts\<close>). Each regular expression of the source
  is a function to what its groups capture, \<open>None\<close> when it does not match; a dot matches no line
  terminator. \<open>lc\<close> is \<open>toLowerCase\<close> beyond ASCII, \<open>wc\<close> the class of letters and numbers. The block loop
  runs on fuel, because there are prompts on which it does not end.
\<close>

datatype columnAlign = Align_left | Align_center | Align_right

datatype block =
    Heading nat "inline list"
  | Paragraph "inline list"
  | Code_block "ustring option" ustring
  | List_block bool nat "block list list"
  | Quote "block list"
  | Rule
  | Table "columnAlign option list" "inline list list" "inline list list list"

subsection \<open>Lines\<close>

definition is_blank_unit :: "nat \<Rightarrow> bool" where
  "is_blank_unit c \<longleftrightarrow> c = 32 \<or> c = 9"

definition line_terminators :: "nat set" where
  "line_terminators = {10, 13, 8232, 8233}"

text \<open>What \<open>.*\<close> matches up to the end.\<close>

definition dots :: "ustring \<Rightarrow> bool" where
  "dots s \<longleftrightarrow> list_all (\<lambda>c. c \<notin> line_terminators) s"

definition lstrip :: "ustring \<Rightarrow> ustring" where
  "lstrip s = dropWhile is_blank_unit s"

definition rstrip :: "ustring \<Rightarrow> ustring" where
  "rstrip s = rev (dropWhile is_blank_unit (rev s))"

definition BLANK :: "ustring \<Rightarrow> bool" where
  "BLANK line \<longleftrightarrow> list_all is_blank_unit line"

text \<open>The start \<open>^ {0,3}\<close> of most of the expressions: the number of spaces and what follows.\<close>

definition indented :: "ustring \<Rightarrow> (nat \<times> ustring) option" where
  "indented line =
     (let n = length (takeWhile (\<lambda>c. c = 32) line)
      in if n \<le> 3 then Some (n, drop n line) else None)"

definition FENCE :: "ustring \<Rightarrow> (nat \<times> ustring) option" where
  "FENCE line =
     (case indented line of
        None \<Rightarrow> None
      | Some (n, s) \<Rightarrow>
        (case s of [] \<Rightarrow> None
         | c # _ \<Rightarrow>
           let info = lstrip (dropWhile (\<lambda>x. x = c) s)
           in if c \<in> {96, cu (CHR ''~'')} \<and> 3 \<le> length (takeWhile (\<lambda>x. x = c) s) \<and> 96 \<notin> set info \<and> 10 \<notin> set info
              then Some (c, info) else None))"

definition HEADING :: "ustring \<Rightarrow> (nat \<times> ustring) option" where
  "HEADING line =
     (case indented line of
        None \<Rightarrow> None
      | Some (n, s) \<Rightarrow>
        let level = length (takeWhile (\<lambda>x. x = cu (CHR ''#'')) s); r = drop level s; body = rstrip (lstrip r)
        in if 1 \<le> level \<and> level \<le> 6 \<and> (r = [] \<or> is_blank_unit (hd r)) \<and> dots body
           then Some (level, body) else None)"

definition RULE :: "ustring \<Rightarrow> bool" where
  "RULE line =
     (case indented line of
        None \<Rightarrow> False
      | Some (n, s) \<Rightarrow>
        (case s of [] \<Rightarrow> False
         | c # cs \<Rightarrow> c \<in> set (u ''-*_'') \<and> list_all (\<lambda>x. x = c \<or> is_blank_unit x) cs
             \<and> 2 \<le> length (filter (\<lambda>x. x = c) cs)))"

definition QUOTE :: "ustring \<Rightarrow> ustring option" where
  "QUOTE line =
     (case indented line of
        None \<Rightarrow> None
      | Some (n, s) \<Rightarrow>
        (case s of [] \<Rightarrow> None
         | c # cs \<Rightarrow>
           let r = (if cs \<noteq> [] \<and> hd cs = 32 then tl cs else cs)
           in if c = cu (CHR ''>'') \<and> dots r then Some r else None))"

text \<open>A marker of a list: its indent, the number it carries, its width with the blanks after it, and
  the rest of the line.\<close>

record marker =
  mk_indent :: nat
  mk_number :: nat
  mk_width :: nat
  mk_rest :: ustring

definition BULLET :: "ustring \<Rightarrow> marker option" where
  "BULLET line =
     (case indented line of
        None \<Rightarrow> None
      | Some (n, s) \<Rightarrow>
        (case s of [] \<Rightarrow> None
         | c # cs \<Rightarrow>
           let blanks = length (takeWhile is_blank_unit cs)
           in if c \<in> set (u ''-*+'') \<and> 1 \<le> blanks \<and> dots (drop blanks cs)
              then Some \<lparr> mk_indent = n, mk_number = 1, mk_width = 1 + blanks, mk_rest = drop blanks cs \<rparr>
              else None))"

definition ORDERED :: "ustring \<Rightarrow> marker option" where
  "ORDERED line =
     (case indented line of
        None \<Rightarrow> None
      | Some (n, s) \<Rightarrow>
        let digits = takeWhile is_udigit s
        in (case drop (length digits) s of [] \<Rightarrow> None
            | c # cs \<Rightarrow>
              let blanks = length (takeWhile is_blank_unit cs)
              in if 1 \<le> length digits \<and> length digits \<le> 9 \<and> c \<in> set (u ''.)'') \<and> 1 \<le> blanks \<and> dots (drop blanks cs)
                 then Some \<lparr> mk_indent = n, mk_number = parse_digits 10 digits,
                   mk_width = length digits + 1 + blanks, mk_rest = drop blanks cs \<rparr>
                 else None))"

definition startsOne :: "ustring \<Rightarrow> bool" where
  "startsOne line =
     (case indented line of
        None \<Rightarrow> False
      | Some (n, s) \<Rightarrow> (case s of c # d # e # _ \<Rightarrow> c = cu (CHR ''1'') \<and> d \<in> set (u ''.)'') \<and> is_blank_unit e | _ \<Rightarrow> False))"

definition interruptsParagraph :: "ustring \<Rightarrow> bool" where
  "interruptsParagraph line \<longleftrightarrow>
     FENCE line \<noteq> None \<or> HEADING line \<noteq> None \<or> RULE line \<or> QUOTE line \<noteq> None \<or> BULLET line \<noteq> None \<or> startsOne line"

text \<open>Splitting on a unit.\<close>

fun splitUnit :: "nat \<Rightarrow> ustring \<Rightarrow> ustring list" where
  "splitUnit d [] = [[]]"
| "splitUnit d (c # cs) =
     (if c = d then [] # splitUnit d cs
      else case splitUnit d cs of [] \<Rightarrow> [[c]] | w # ws \<Rightarrow> (c # w) # ws)"

abbreviation PIPE :: nat where "PIPE \<equiv> 124"
abbreviation COLON :: nat where "COLON \<equiv> 58"
abbreviation DASH :: nat where "DASH \<equiv> 45"

text \<open>\<open>:?-{k,}:?\<close> between blanks.\<close>

definition dashes :: "nat \<Rightarrow> ustring \<Rightarrow> bool" where
  "dashes k part \<longleftrightarrow>
     (let q = rstrip (lstrip part);
          q1 = (if q \<noteq> [] \<and> hd q = COLON then tl q else q);
          q2 = (if q1 \<noteq> [] \<and> last q1 = COLON then butlast q1 else q1)
      in list_all (\<lambda>c. c = DASH) q2 \<and> k \<le> length q2)"

text \<open>\<open>(cell|)+ tail\<close>, where the tail may end in a pipe of its own.\<close>

definition delimiterCells :: "ustring list \<Rightarrow> bool" where
  "delimiterCells ps \<longleftrightarrow>
     2 \<le> length ps \<and> list_all (dashes 1) (butlast ps) \<and> dashes 0 (last ps)
     \<or> 3 \<le> length ps \<and> list_all (dashes 1) (butlast (butlast ps)) \<and> dashes 0 (last (butlast ps)) \<and> BLANK (last ps)"

definition DELIMITER :: "ustring \<Rightarrow> bool" where
  "DELIMITER line \<longleftrightarrow>
     (let ps = splitUnit PIPE line
      in delimiterCells ps \<or> length (hd ps) \<le> 3 \<and> list_all (\<lambda>c. c = 32) (hd ps) \<and> delimiterCells (tl ps))"

definition LANGUAGE :: "ustring \<Rightarrow> bool" where
  "LANGUAGE s \<longleftrightarrow>
     (let lower = (\<lambda>c. is_udigit c \<or> 97 \<le> c \<and> c \<le> 122)
      in s \<noteq> [] \<and> lower (hd s) \<and> list_all (\<lambda>c. lower c \<or> c \<in> set (u ''+#.-'')) (tl s))"

subsection \<open>Rows of a table\<close>

fun splitCells :: "ustring \<Rightarrow> ustring \<Rightarrow> ustring list" where
  "splitCells cell [] = [uTrim cell]"
| "splitCells cell (c # cs) =
     (if c = 92 \<and> cs \<noteq> [] \<and> hd cs = PIPE then splitCells (cell @ [PIPE]) (tl cs)
      else if c = PIPE then uTrim cell # splitCells [] cs
      else splitCells (cell @ [c]) cs)"

definition splitRow :: "ustring \<Rightarrow> ustring list" where
  "splitRow line =
     (let trimmed = uTrim line;
          s = (if trimmed \<noteq> [] \<and> hd trimmed = PIPE then tl trimmed else trimmed);
          a = rstrip s;
          body = (if a \<noteq> [] \<and> last a = PIPE \<and> (butlast a = [] \<or> last (butlast a) \<noteq> 92) then butlast a else s)
      in splitCells [] body)"

definition alignOf :: "ustring \<Rightarrow> columnAlign option" where
  "alignOf cell =
     (let left = (cell \<noteq> [] \<and> hd cell = COLON); right = (cell \<noteq> [] \<and> last cell = COLON)
      in if left \<and> right then Some Align_center else if right then Some Align_right
         else if left then Some Align_left else None)"

subsection \<open>Reading one block\<close>

text \<open>\<open>lines[i + 1] ?? ''\<close>, where the lines from \<open>i + 1\<close> on are the argument.\<close>

definition nextLine :: "ustring list \<Rightarrow> ustring" where
  "nextLine rest = (case rest of [] \<Rightarrow> [] | l # _ \<Rightarrow> l)"

text \<open>Each reader returns what the block holds and the lines after it.\<close>

fun readFence :: "nat \<Rightarrow> ustring list \<Rightarrow> ustring list \<times> ustring list" where
  "readFence mark [] = ([], [])"
| "readFence mark (current # rest) =
     (if FENCE current = Some (mark, []) then ([], rest)
      else case readFence mark rest of (body, after) \<Rightarrow> (current # body, after))"

fun readQuote :: "ustring list \<Rightarrow> ustring list \<times> ustring list" where
  "readQuote [] = ([], [])"
| "readQuote (current # rest) =
     (case QUOTE current of
        Some quoted \<Rightarrow> (case readQuote rest of (body, after) \<Rightarrow> (quoted # body, after))
      | None \<Rightarrow>
        if \<not> BLANK current \<and> \<not> interruptsParagraph current
        then (case readQuote rest of (body, after) \<Rightarrow> (current # body, after))
        else ([], current # rest))"

definition listMarker :: "bool \<Rightarrow> ustring \<Rightarrow> marker option" where
  "listMarker isOrdered line = (if isOrdered then ORDERED line else BULLET line)"

definition indentedBy :: "nat \<Rightarrow> ustring \<Rightarrow> bool" where
  "indentedBy n line \<longleftrightarrow> take n line = replicate n 32"

definition flushItem :: "ustring list list \<Rightarrow> ustring list \<Rightarrow> ustring list list" where
  "flushItem items itemLines = (if itemLines \<noteq> [] then items @ [itemLines] else items)"

text \<open>The items of a list, each as its lines; they are parsed in order once the list is read, which is
  the order in which the source parses them.\<close>

fun readList ::
  "bool \<Rightarrow> ustring list list \<Rightarrow> ustring list \<Rightarrow> nat \<Rightarrow> ustring list \<Rightarrow> ustring list list \<times> ustring list"
where
  "readList isOrdered items itemLines contentIndent [] = (flushItem items itemLines, [])"
| "readList isOrdered items itemLines contentIndent (current # rest) =
     (let next = listMarker isOrdered current;
          sibling = (case next of None \<Rightarrow> False
            | Some m \<Rightarrow> (items = [] \<and> itemLines = []) \<or> mk_indent m < contentIndent)
      in if sibling \<and> \<not> RULE current
         then readList isOrdered (flushItem items itemLines) [mk_rest (the next)]
                (mk_indent (the next) + mk_width (the next)) rest
         else if BLANK current
         then (let after = nextLine rest
               in if after \<noteq> [] \<and> (indentedBy contentIndent after \<or> listMarker isOrdered after \<noteq> None)
                  then readList isOrdered items (itemLines @ [[]]) contentIndent rest
                  else (flushItem items itemLines, current # rest))
         else if indentedBy contentIndent current
         then readList isOrdered items (itemLines @ [drop contentIndent current]) contentIndent rest
         else if \<not> interruptsParagraph current \<and> itemLines \<noteq> []
         then readList isOrdered items (itemLines @ [current]) contentIndent rest
         else (flushItem items itemLines, current # rest))"

fun readRows :: "ustring list \<Rightarrow> ustring list list \<times> ustring list" where
  "readRows [] = ([], [])"
| "readRows (current # rest) =
     (if BLANK current \<or> PIPE \<notin> set current then ([], current # rest)
      else case readRows rest of (rows, after) \<Rightarrow> (splitRow current # rows, after))"

fun readParagraph :: "ustring list \<Rightarrow> ustring list \<times> ustring list" where
  "readParagraph [] = ([], [])"
| "readParagraph (current # rest) =
     (if BLANK current \<or> interruptsParagraph current then ([], current # rest)
      else if PIPE \<in> set current \<and> DELIMITER (nextLine rest) then ([], current # rest)
      else case readParagraph rest of (body, after) \<Rightarrow> (lstrip current # body, after))"

text \<open>\<open>body.join('\n')\<close>.\<close>

fun joinLines :: "ustring list \<Rightarrow> ustring" where
  "joinLines [] = []"
| "joinLines [l] = l"
| "joinLines (l # ls) = l @ NEWLINE # joinLines ls"

definition fenceInfo :: "ustring \<Rightarrow> ustring" where
  "fenceInfo info = takeWhile (\<lambda>c. \<not> is_space c) (uTrim info)"

definition headingText :: "ustring \<Rightarrow> ustring" where
  "headingText t =
     (let a = rstrip t; b = rev (dropWhile (\<lambda>c. c = cu (CHR ''#'')) (rev a))
      in if length b < length a \<and> b \<noteq> [] \<and> is_blank_unit (last b) then rstrip b else t)"

fun parseInlines :: "(nat \<Rightarrow> bool) \<Rightarrow> ustring list \<Rightarrow> rejectedUrl list \<Rightarrow> inline list list \<times> rejectedUrl list" where
  "parseInlines wc [] rej = ([], rej)"
| "parseInlines wc (s # ss) rej =
     (case parseInline wc s rej of (nodes, rej1) \<Rightarrow>
      case parseInlines wc ss rej1 of (others, rej2) \<Rightarrow> (nodes # others, rej2))"

definition cellOf :: "ustring list \<Rightarrow> nat \<Rightarrow> ustring" where
  "cellOf cells column = (if column < length cells then cells ! column else [])"

fun parseRows ::
  "(nat \<Rightarrow> bool) \<Rightarrow> nat \<Rightarrow> ustring list list \<Rightarrow> rejectedUrl list \<Rightarrow> inline list list list \<times> rejectedUrl list"
where
  "parseRows wc columns [] rej = ([], rej)"
| "parseRows wc columns (cells # rows) rej =
     (case parseInlines wc (map (cellOf cells) [0..<columns]) rej of (row, rej1) \<Rightarrow>
      case parseRows wc columns rows rej1 of (others, rej2) \<Rightarrow> (row # others, rej2))"

text \<open>The table at a line, when the next line delimits as many columns as it has cells.\<close>

definition tableAt :: "ustring \<Rightarrow> ustring list \<Rightarrow> (columnAlign option list \<times> ustring list) option" where
  "tableAt line rest =
     (if PIPE \<in> set line \<and> DELIMITER (nextLine rest)
      then let head = splitRow line; align = map alignOf (splitRow (nextLine rest))
           in if length align = length head then Some (align, head) else None
      else None)"

subsection \<open>The block loop\<close>

text \<open>One turn of the loop: the block that starts at a line, before what is inside it is parsed, and the
  lines after it.\<close>

datatype turn =
    Blank_line "ustring list"
  | Fenced ustring "ustring list" "ustring list"
  | Ruled "ustring list"
  | Headed nat ustring "ustring list"
  | Quoted "ustring list" "ustring list"
  | Listed bool nat "ustring list list" "ustring list"
  | Tabled "columnAlign option list" "ustring list" "ustring list list" "ustring list"
  | Worded "ustring list" "ustring list"

definition turnAt :: "ustring \<Rightarrow> ustring list \<Rightarrow> turn" where
  "turnAt line rest =
     (if BLANK line then Blank_line rest
      else case FENCE line of
        Some (mark, info) \<Rightarrow> (case readFence mark rest of (body, after) \<Rightarrow> Fenced (fenceInfo info) body after)
      | None \<Rightarrow>
        if RULE line then Ruled rest
        else case HEADING line of
          Some (level, t) \<Rightarrow> Headed level (headingText t) rest
        | None \<Rightarrow>
          if QUOTE line \<noteq> None then (case readQuote (line # rest) of (body, after) \<Rightarrow> Quoted body after)
          else if BULLET line \<noteq> None \<or> ORDERED line \<noteq> None then
            (case readList (ORDERED line \<noteq> None) [] [] 0 (line # rest) of (items, after) \<Rightarrow>
               Listed (ORDERED line \<noteq> None) (case ORDERED line of Some m \<Rightarrow> mk_number m | None \<Rightarrow> 1) items after)
          else case tableAt line rest of
            Some (align, head) \<Rightarrow> (case readRows (tl rest) of (cells, after) \<Rightarrow> Tabled align head cells after)
          | None \<Rightarrow> (case readParagraph (line # rest) of (body, after) \<Rightarrow> Worded body after))"

text \<open>The blocks of the lines, or \<open>None\<close> when the fuel runs out. Fuel is spent on every turn of the loop
  and passed on to the recursive calls.\<close>

definition before_blocks :: "block \<Rightarrow> (block list \<times> rejectedUrl list) option \<Rightarrow> (block list \<times> rejectedUrl list) option" where
  "before_blocks b = map_option (\<lambda>(others, rej). (b # others, rej))"

fun parseBlocks ::
  "nat \<Rightarrow> (nat \<Rightarrow> bool) \<Rightarrow> (ustring \<Rightarrow> ustring) \<Rightarrow> ustring list \<Rightarrow> rejectedUrl list \<Rightarrow> (block list \<times> rejectedUrl list) option"
and parseItems ::
  "nat \<Rightarrow> (nat \<Rightarrow> bool) \<Rightarrow> (ustring \<Rightarrow> ustring) \<Rightarrow> ustring list list \<Rightarrow> rejectedUrl list \<Rightarrow> (block list list \<times> rejectedUrl list) option"
where
  "parseBlocks 0 wc lc ls rej = None"
| "parseBlocks (Suc fuel) wc lc [] rej = Some ([], rej)"
| "parseBlocks (Suc fuel) wc lc (line # rest) rej =
     (case turnAt line rest of
        Blank_line after \<Rightarrow> parseBlocks fuel wc lc after rej
      | Fenced info body after \<Rightarrow>
          (let language = lc info
           in before_blocks (Code_block (if LANGUAGE language then Some language else None) (joinLines body))
                (parseBlocks fuel wc lc after rej))
      | Ruled after \<Rightarrow> before_blocks Rule (parseBlocks fuel wc lc after rej)
      | Headed level t after \<Rightarrow>
          (case parseInline wc t rej of (nodes, rej1) \<Rightarrow>
             before_blocks (Heading level nodes) (parseBlocks fuel wc lc after rej1))
      | Quoted body after \<Rightarrow>
          (case parseBlocks fuel wc lc body rej of
             None \<Rightarrow> None
           | Some (children, rej1) \<Rightarrow> before_blocks (Quote children) (parseBlocks fuel wc lc after rej1))
      | Listed isOrdered start items after \<Rightarrow>
          (case parseItems fuel wc lc items rej of
             None \<Rightarrow> None
           | Some (parsed, rej1) \<Rightarrow> before_blocks (List_block isOrdered start parsed) (parseBlocks fuel wc lc after rej1))
      | Tabled align head cells after \<Rightarrow>
          (case parseRows wc (length head) cells rej of (rows, rej1) \<Rightarrow>
           case parseInlines wc head rej1 of (heads, rej2) \<Rightarrow>
             before_blocks (Table align heads rows) (parseBlocks fuel wc lc after rej2))
      | Worded body after \<Rightarrow>
          (case parseInline wc (joinLines body) rej of (nodes, rej1) \<Rightarrow>
             before_blocks (Paragraph nodes) (parseBlocks fuel wc lc after rej1)))"
| "parseItems 0 wc lc items rej = None"
| "parseItems (Suc fuel) wc lc [] rej = Some ([], rej)"
| "parseItems (Suc fuel) wc lc (itemLines # items) rej =
     (case parseBlocks fuel wc lc itemLines rej of
        None \<Rightarrow> None
      | Some (blocks, rej1) \<Rightarrow>
        map_option (\<lambda>(parsed, rej2). (blocks # parsed, rej2)) (parseItems fuel wc lc items rej1))"

text \<open>\<open>lines\<close>: carriage returns, alone or before a line feed, become line feeds.\<close>

fun unifyNewlines :: "ustring \<Rightarrow> ustring" where
  "unifyNewlines [] = []"
| "unifyNewlines (c # cs) =
     (if c = 13 then NEWLINE # unifyNewlines (if cs \<noteq> [] \<and> hd cs = NEWLINE then tl cs else cs)
      else c # unifyNewlines cs)"

definition linesOf :: "ustring \<Rightarrow> ustring list" where
  "linesOf source = splitUnit NEWLINE (unifyNewlines source)"

definition parseMarkdown ::
  "nat \<Rightarrow> (nat \<Rightarrow> bool) \<Rightarrow> (ustring \<Rightarrow> ustring) \<Rightarrow> ustring \<Rightarrow> (block list \<times> rejectedUrl list) option"
where
  "parseMarkdown fuel wc lc source = parseBlocks fuel wc lc (linesOf source) []"


subsection \<open>Prompts on which the parser does not return\<close>

text \<open>
  A line with a pipe over a delimiter row of another number of columns is no table, and the paragraph
  that should take it stops before it, because a delimiter row follows: the turn consumes nothing
  and pushes an empty paragraph, again and again.
\<close>

lemma stuck_turn:
  assumes "turnAt line rest = Worded [] (line # rest)"
  shows "parseBlocks fuel wc lc (line # rest) rej = None"
proof (induction fuel arbitrary: rej)
  case (Suc fuel)
  then show ?case by (simp add: assms before_blocks_def split: prod.split)
qed simp

lemma no_other_block:
  assumes "\<not> BLANK line" "FENCE line = None" "HEADING line = None" "\<not> RULE line" "QUOTE line = None"
    and "BULLET line = None" "ORDERED line = None" "tableAt line rest = None"
  shows "turnAt line rest = (case readParagraph (line # rest) of (body, after) \<Rightarrow> Worded body after)"
  using assms by (simp add: turnAt_def)

lemma not_interrupts:
  "\<not> interruptsParagraph line \<longleftrightarrow>
     FENCE line = None \<and> HEADING line = None \<and> \<not> RULE line \<and> QUOTE line = None \<and> BULLET line = None \<and> \<not> startsOne line"
  by (auto simp: interruptsParagraph_def simp del: not_None_eq)

lemmas line_defs = BLANK_def FENCE_def HEADING_def RULE_def QUOTE_def BULLET_def ORDERED_def startsOne_def indented_def
  is_blank_unit_def lstrip_def rstrip_def dots_def line_terminators_def is_udigit_def Let_def

lemmas row_defs = DELIMITER_def delimiterCells_def dashes_def splitRow_def uTrim_def uTrimStart_def is_space_def nextLine_def

text \<open>C10: there are prompts the parser does not return on. Over a delimiter row whose columns are not
  as many as the cells of the line above, and after an ordered list item numbered one that contains
  a Unicode line separator, the block loop never ends, whatever else the prompt holds from there on:
  no amount of fuel gives a document.\<close>

theorem parser_hangs:
  assumes "\<not> BLANK line" "FENCE line = None" "HEADING line = None" "\<not> RULE line" "QUOTE line = None"
    and "BULLET line = None" "ORDERED line = None"
    and "PIPE \<in> set line \<and> DELIMITER (nextLine rest) \<and> length (splitRow (nextLine rest)) \<noteq> length (splitRow line)
       \<or> PIPE \<notin> set line \<and> startsOne line"
  shows "\<forall>fuel. parseBlocks fuel wc lc (line # rest) rej = None"
proof -
  have "tableAt line rest = None" using assms(8) by (auto simp: tableAt_def)
  moreover have "readParagraph (line # rest) = ([], line # rest)"
    using assms by (auto simp: interruptsParagraph_def)
  ultimately have "turnAt line rest = Worded [] (line # rest)"
    using assms by (simp add: no_other_block)
  from stuck_turn [OF this] show ?thesis by blast
qed

text \<open>\<open>a | b | c\<close> over \<open>|-|-|\<close>, and \<open>1. x\<close> with a line separator after it.\<close>

theorem parser_hangs_witness:
  "(\<forall>fuel. parseMarkdown fuel (\<lambda>_. False) id (u ''a | b | c'' @ NEWLINE # u ''|-|-|'') = None)
   \<and> (\<forall>fuel. parseMarkdown fuel (\<lambda>_. False) id (u ''1. x'' @ [8232]) = None)"
proof
  have line: "\<not> BLANK (u ''a | b | c'')" "FENCE (u ''a | b | c'') = None" "HEADING (u ''a | b | c'') = None"
    "\<not> RULE (u ''a | b | c'')" "QUOTE (u ''a | b | c'') = None" "BULLET (u ''a | b | c'') = None"
    "ORDERED (u ''a | b | c'') = None"
    "PIPE \<in> set (u ''a | b | c'') \<and> DELIMITER (nextLine [u ''|-|-|''])
       \<and> length (splitRow (nextLine [u ''|-|-|''])) \<noteq> length (splitRow (u ''a | b | c''))"
    by (simp_all add: line_defs row_defs)
  have "linesOf (u ''a | b | c'' @ NEWLINE # u ''|-|-|'') = u ''a | b | c'' # [u ''|-|-|'']"
    by (simp add: linesOf_def)
  then show "\<forall>fuel. parseMarkdown fuel (\<lambda>_. False) id (u ''a | b | c'' @ NEWLINE # u ''|-|-|'') = None"
    using parser_hangs [OF line(1-7) disjI1 [OF line(8)]] by (simp only: parseMarkdown_def) blast
next
  have line: "\<not> BLANK (u ''1. x'' @ [8232])" "FENCE (u ''1. x'' @ [8232]) = None" "HEADING (u ''1. x'' @ [8232]) = None"
    "\<not> RULE (u ''1. x'' @ [8232])" "QUOTE (u ''1. x'' @ [8232]) = None" "BULLET (u ''1. x'' @ [8232]) = None"
    "ORDERED (u ''1. x'' @ [8232]) = None" "PIPE \<notin> set (u ''1. x'' @ [8232]) \<and> startsOne (u ''1. x'' @ [8232])"
    by (simp_all add: line_defs row_defs)
  have "linesOf (u ''1. x'' @ [8232]) = (u ''1. x'' @ [8232]) # []"
    by (simp add: linesOf_def)
  then show "\<forall>fuel. parseMarkdown fuel (\<lambda>_. False) id (u ''1. x'' @ [8232]) = None"
    using parser_hangs [OF line(1-7) disjI2 [OF line(8)]] by (simp only: parseMarkdown_def) blast
qed

subsection \<open>What a document can hold\<close>

fun blockDestinations :: "block \<Rightarrow> ustring list" where
  "blockDestinations (Heading l nodes) = destinations nodes"
| "blockDestinations (Paragraph nodes) = destinations nodes"
| "blockDestinations (Code_block l v) = []"
| "blockDestinations (List_block ord start items) = concat (map (concat \<circ> map blockDestinations) items)"
| "blockDestinations (Quote children) = concat (map blockDestinations children)"
| "blockDestinations Rule = []"
| "blockDestinations (Table align heads rows) = concat (map destinations heads) @ concat (map (concat \<circ> map destinations) rows)"

text \<open>The shape the tree promises its renderer.\<close>

fun shaped :: "block \<Rightarrow> bool" where
  "shaped (Heading l nodes) \<longleftrightarrow> 1 \<le> l \<and> l \<le> 6"
| "shaped (Paragraph nodes) \<longleftrightarrow> True"
| "shaped (Code_block l v) \<longleftrightarrow> (case l of None \<Rightarrow> True | Some lang \<Rightarrow> LANGUAGE lang)"
| "shaped (List_block ord start items) \<longleftrightarrow> start \<le> 999999999 \<and> items \<noteq> [] \<and> (\<forall>bs \<in> set items. \<forall>b \<in> set bs. shaped b)"
| "shaped (Quote children) \<longleftrightarrow> (\<forall>b \<in> set children. shaped b)"
| "shaped Rule \<longleftrightarrow> True"
| "shaped (Table align heads rows) \<longleftrightarrow> length heads = length align \<and> (\<forall>row \<in> set rows. length row = length align)"

definition good_block :: "block \<Rightarrow> bool" where
  "good_block b \<longleftrightarrow> shaped b \<and> (\<forall>v \<in> set (blockDestinations b). safe_href v)"

lemma parseInlines_length: "parseInlines wc ss rej = (nodes, rej') \<Longrightarrow> length nodes = length ss"
  by (induction ss arbitrary: rej nodes) (auto split: prod.splits)

lemma parseInlines_clean:
  "parseInlines wc ss rej = (nodes, rej') \<Longrightarrow> refused rej \<Longrightarrow> refused rej' \<and> (\<forall>n \<in> set nodes. safe_nodes n)"
proof (induction ss arbitrary: rej nodes)
  case (Cons s ss)
  from Cons.prems(1) obtain n r ns where "parseInline wc s rej = (n, r)" "parseInlines wc ss r = (ns, rej')" "nodes = n # ns"
    by (auto split: prod.splits)
  with Cons.IH [of r ns] parseInline_clean [of rej wc s] Cons.prems(2) show ?case by simp
qed simp

lemma parseRows_clean:
  "parseRows wc n rows rej = (parsed, rej') \<Longrightarrow> refused rej
     \<Longrightarrow> refused rej' \<and> (\<forall>row \<in> set parsed. length row = n \<and> (\<forall>c \<in> set row. safe_nodes c))"
proof (induction rows arbitrary: rej parsed)
  case (Cons cells rows)
  from Cons.prems(1) obtain row r others where
    row: "parseInlines wc (map (cellOf cells) [0..<n]) rej = (row, r)" and
    others: "parseRows wc n rows r = (others, rej')" "parsed = row # others"
    by (auto split: prod.splits)
  from Cons.IH [OF others(1)] parseInlines_clean [OF row Cons.prems(2)] parseInlines_length [OF row] others(2)
  show ?case by simp
qed simp

text \<open>What a turn promises of the block it starts.\<close>

lemma parse_digits_bound: "\<forall>c \<in> set ds. is_udigit c \<Longrightarrow> parse_digits 10 ds < 10 ^ length ds"
proof (induction ds rule: rev_induct)
  case (snoc d ds)
  then have "parse_digits 10 ds < 10 ^ length ds" "hex_value d \<le> 9" by (auto simp: hex_value_def is_udigit_def)
  then show ?case by (simp add: parse_digits_def)
qed (simp add: parse_digits_def)

lemma indented_Some: "indented line = Some (n, s) \<Longrightarrow> set s \<subseteq> set line \<and> length s \<le> length line"
  by (auto simp: indented_def Let_def dest: in_set_dropD split: if_splits)

lemma ORDERED_Some:
  assumes "ORDERED line = Some m"
  shows "mk_number m \<le> 999999999 \<and> set (mk_rest m) \<subseteq> set line \<and> length (mk_rest m) + 2 \<le> length line"
proof -
  from assms obtain n s c cs where line: "indented line = Some (n, s)"
    and cs: "drop (length (takeWhile is_udigit s)) s = c # cs" "length (takeWhile is_udigit s) \<le> 9"
      "1 \<le> length (takeWhile is_blank_unit cs)"
    and m: "mk_number m = parse_digits 10 (takeWhile is_udigit s)" "mk_rest m = drop (length (takeWhile is_blank_unit cs)) cs"
    by (auto simp: ORDERED_def Let_def split: option.splits list.splits if_splits)
  have "(10::nat) ^ length (takeWhile is_udigit s) \<le> 10 ^ 9" using cs(2) by (intro power_increasing) auto
  then have "mk_number m \<le> 999999999"
    using parse_digits_bound [of "takeWhile is_udigit s"] m(1) set_takeWhileD [of _ is_udigit s] by fastforce
  moreover have "set cs \<subseteq> set s" "Suc (length cs) \<le> length s"
    using cs(1) by (metis in_set_dropD list.set_intros(2) subsetI, metis length_Cons length_drop diff_le_self)
  ultimately show ?thesis
    using indented_Some [OF line] m(2) cs(3) length_takeWhile_le [of is_blank_unit cs] by (auto dest: in_set_dropD)
qed

lemma BULLET_Some:
  assumes "BULLET line = Some m"
  shows "set (mk_rest m) \<subseteq> set line \<and> length (mk_rest m) + 2 \<le> length line"
proof -
  from assms obtain n c cs where line: "indented line = Some (n, c # cs)"
    and cs: "1 \<le> length (takeWhile is_blank_unit cs)" "mk_rest m = drop (length (takeWhile is_blank_unit cs)) cs"
    by (auto simp: BULLET_def Let_def split: option.splits list.splits if_splits)
  show ?thesis
    using indented_Some [OF line] cs length_takeWhile_le [of is_blank_unit cs] by (auto dest: in_set_dropD)
qed

lemma tableAt_lengths: "tableAt line rest = Some (align, head) \<Longrightarrow> length head = length align"
  by (auto simp: tableAt_def Let_def split: if_splits)

lemma HEADING_level: "HEADING line = Some (level, t) \<Longrightarrow> 1 \<le> level \<and> level \<le> 6"
  by (auto simp: HEADING_def Let_def split: option.splits if_splits)

text \<open>A list turn reads at least one item: the line that starts it.\<close>

lemma readList_first:
  assumes "listMarker ord line = Some m" "\<not> RULE line"
  shows "readList ord [] [] 0 (line # rest) = readList ord [] [mk_rest m] (mk_indent m + mk_width m) rest"
  using assms by (simp add: flushItem_def)

lemma readList_items: "itemLines \<noteq> [] \<Longrightarrow> fst (readList ord items itemLines n ls) \<noteq> []"
  by (induction ord items itemLines n ls rule: readList.induct) (auto simp: flushItem_def Let_def)

fun promised :: "turn \<Rightarrow> bool" where
  "promised (Headed level t after) \<longleftrightarrow> 1 \<le> level \<and> level \<le> 6"
| "promised (Listed ord start items after) \<longleftrightarrow> start \<le> 999999999 \<and> items \<noteq> []"
| "promised (Tabled align head cells after) \<longleftrightarrow> length head = length align"
| "promised _ \<longleftrightarrow> True"

lemma promised_cases:
  "(b \<Longrightarrow> promised x) \<Longrightarrow> (\<not> b \<Longrightarrow> promised y) \<Longrightarrow> promised (if b then x else y)"
  "(opt = None \<Longrightarrow> promised n) \<Longrightarrow> (\<And>v w. opt = Some (v, w) \<Longrightarrow> promised (f v w))
     \<Longrightarrow> promised (case opt of None \<Rightarrow> n | Some (v, w) \<Rightarrow> f v w)"
  "(\<And>v w. p = (v, w) \<Longrightarrow> promised (f v w)) \<Longrightarrow> promised (case p of (v, w) \<Rightarrow> f v w)"
  by (auto split: option.split prod.split)

lemma turnAt_promised: "promised (turnAt line rest)"
proof -
  have listed: "promised (Listed ord n items after)"
    if "readList ord [] [] 0 (line # rest) = (items, after)" "listMarker ord line \<noteq> None" "\<not> RULE line" "n \<le> 999999999"
    for ord n items after
  proof -
    from that(2) obtain m where "listMarker ord line = Some m" by blast
    with readList_first [OF this that(3), of rest]
      readList_items [of "[mk_rest m]" ord "[]" "mk_indent m + mk_width m" rest] that(1,4)
    show ?thesis by simp
  qed
  have l: "promised (Listed (ORDERED line \<noteq> None) (case ORDERED line of Some m \<Rightarrow> mk_number m | None \<Rightarrow> 1) items after)"
    if "readList (ORDERED line \<noteq> None) [] [] 0 (line # rest) = (items, after)"
      "BULLET line \<noteq> None \<or> ORDERED line \<noteq> None" "\<not> RULE line" for items after
    by (rule listed [OF that(1)]) (use that(2,3) in \<open>auto simp: listMarker_def dest: ORDERED_Some split: option.splits\<close>)
  show ?thesis
    unfolding turnAt_def
    by (intro promised_cases) (use l in \<open>auto dest: HEADING_level tableAt_lengths simp del: promised.simps(2)\<close>)
qed

lemma good_block_simps [simp]:
  "good_block (Heading l nodes) \<longleftrightarrow> 1 \<le> l \<and> l \<le> 6 \<and> safe_nodes nodes"
  "good_block (Paragraph nodes) \<longleftrightarrow> safe_nodes nodes"
  "good_block (Code_block (if LANGUAGE s then Some s else None) v)"
  "good_block (List_block ord start items) \<longleftrightarrow> start \<le> 999999999 \<and> items \<noteq> [] \<and> (\<forall>bs \<in> set items. \<forall>b \<in> set bs. good_block b)"
  "good_block (Quote children) \<longleftrightarrow> (\<forall>b \<in> set children. good_block b)"
  "good_block Rule"
  "good_block (Table align heads rows) \<longleftrightarrow> length heads = length align \<and> (\<forall>n \<in> set heads. safe_nodes n)
     \<and> (\<forall>row \<in> set rows. length row = length align \<and> (\<forall>n \<in> set row. safe_nodes n))"
  by (auto simp: good_block_def safe_nodes_def)

lemma parse_good:
  "(\<forall>ls rej bs rej'. parseBlocks fuel wc lc ls rej = Some (bs, rej') \<longrightarrow> refused rej \<longrightarrow>
      refused rej' \<and> (\<forall>b \<in> set bs. good_block b))
   \<and> (\<forall>items rej parsed rej'. parseItems fuel wc lc items rej = Some (parsed, rej') \<longrightarrow> refused rej \<longrightarrow>
      refused rej' \<and> length parsed = length items \<and> (\<forall>bs \<in> set parsed. \<forall>b \<in> set bs. good_block b))"
proof (induction fuel)
  case (Suc fuel)
  then have blocks: "parseBlocks fuel wc lc ls rej = Some (bs, rej') \<Longrightarrow> refused rej
        \<Longrightarrow> refused rej' \<and> (\<forall>b \<in> set bs. good_block b)"
    and items: "parseItems fuel wc lc its rej = Some (parsed, rej') \<Longrightarrow> refused rej
        \<Longrightarrow> refused rej' \<and> length parsed = length its \<and> (\<forall>bs \<in> set parsed. \<forall>b \<in> set bs. good_block b)"
    for ls rej bs rej' its parsed by blast+
  have before: "refused rej' \<and> (\<forall>b \<in> set bs. good_block b)"
    if "before_blocks b (parseBlocks fuel wc lc ls rej) = Some (bs, rej')" "refused rej" "good_block b" for b ls rej bs rej'
    using that blocks [of ls rej] by (auto simp: before_blocks_def)
  have "refused rej' \<and> (\<forall>b \<in> set bs. good_block b)"
    if p: "parseBlocks (Suc fuel) wc lc ls rej = Some (bs, rej')" and r: "refused rej" for ls rej bs rej'
  proof (cases ls)
    case Nil
    with p r show ?thesis by simp
  next
    case (Cons line rest)
    have inline: "refused (snd (parseInline wc s rej)) \<and> safe_nodes (fst (parseInline wc s rej))" for s
      using parseInline_clean [of rej wc s] r by simp
    note step = p [unfolded Cons parseBlocks.simps(3)]
    have promise: "promised (turnAt line rest)" by (rule turnAt_promised)
    show ?thesis
    proof (cases "turnAt line rest")
      case (Blank_line after)
      with step blocks r show ?thesis by simp
    next
      case (Fenced info body after)
      with step before r show ?thesis by (auto simp: Let_def)
    next
      case (Ruled after)
      with step before r show ?thesis by auto
    next
      case (Headed level t after)
      with step promise inline [of t] before show ?thesis by (auto split: prod.splits)
    next
      case (Quoted body after)
      with step obtain children rej1 where c: "parseBlocks fuel wc lc body rej = Some (children, rej1)"
        and b: "before_blocks (Quote children) (parseBlocks fuel wc lc after rej1) = Some (bs, rej')"
        by (auto split: option.splits)
      from before [OF b] blocks [OF c r] show ?thesis by simp
    next
      case (Listed ord start its after)
      with step obtain parsed rej1 where c: "parseItems fuel wc lc its rej = Some (parsed, rej1)"
        and b: "before_blocks (List_block ord start parsed) (parseBlocks fuel wc lc after rej1) = Some (bs, rej')"
        by (auto split: option.splits)
      have "parsed \<noteq> []" using items [OF c r] promise Listed by (cases parsed) auto
      with before [OF b] items [OF c r] promise Listed show ?thesis by auto
    next
      case (Tabled align head cells after)
      obtain rows rej1 where rows: "parseRows wc (length head) cells rej = (rows, rej1)" by fastforce
      obtain heads rej2 where heads: "parseInlines wc head rej1 = (heads, rej2)" by fastforce
      from step Tabled rows heads have b: "before_blocks (Table align heads rows) (parseBlocks fuel wc lc after rej2) = Some (bs, rej')"
        by simp
      from before [OF b] parseRows_clean [OF rows r] parseInlines_clean [OF heads] parseInlines_length [OF heads]
        promise Tabled show ?thesis by auto
    next
      case (Worded body after)
      with step inline [of "joinLines body"] before show ?thesis by (auto split: prod.splits)
    qed
  qed
  moreover have "refused rej' \<and> length parsed = length its \<and> (\<forall>bs \<in> set parsed. \<forall>b \<in> set bs. good_block b)"
    if p: "parseItems (Suc fuel) wc lc its rej = Some (parsed, rej')" and r: "refused rej" for its rej parsed rej'
  proof (cases its)
    case (Cons itemLines others)
    with p obtain bs rej1 ps where "parseBlocks fuel wc lc itemLines rej = Some (bs, rej1)"
      "parseItems fuel wc lc others rej1 = Some (ps, rej')" "parsed = bs # ps"
      by (auto split: option.splits)
    with blocks items r Cons show ?thesis by fastforce
  qed (use p r in simp)
  ultimately show ?case by blast
qed simp

text \<open>C9: nothing in a prompt runs. Whatever its author wrote, every destination of the parsed document,
  of a link or an image at any depth, is one a browser resolves to \<open>http\<close>, \<open>https\<close> or \<open>mailto\<close>, or to
  no scheme at all, and every destination reported as rejected is one the check refuses.\<close>

theorem prompt_destinations_safe:
  assumes "parseMarkdown fuel wc lc source = Some (blocks, rejected)"
  shows "(\<forall>v \<in> set (concat (map blockDestinations blocks)). safe_href v)
    \<and> (\<forall>r \<in> set rejected. safeUrl (ru_url r) = None)"
  using assms parse_good [of fuel wc lc] by (fastforce simp: parseMarkdown_def good_block_def refused_def)

text \<open>C12: a parsed document has the shape its type promises the renderer: headings of level one to six,
  languages of code blocks that name a language, lists with an item and a start of at most nine
  digits, and tables whose head and rows all have as many cells as there are columns, at any depth.\<close>

theorem document_well_formed:
  assumes "parseMarkdown fuel wc lc source = Some (blocks, rejected)"
  shows "\<forall>b \<in> set blocks. shaped b"
  using assms parse_good [of fuel wc lc] by (fastforce simp: parseMarkdown_def good_block_def)

subsection \<open>Prompts on which it does\<close>

text \<open>More fuel changes nothing.\<close>

lemma parse_mono:
  "(\<forall>ls rej. parseBlocks fuel wc lc ls rej \<noteq> None \<longrightarrow>
       parseBlocks (Suc fuel) wc lc ls rej = parseBlocks fuel wc lc ls rej)
   \<and> (\<forall>its rej. parseItems fuel wc lc its rej \<noteq> None \<longrightarrow>
       parseItems (Suc fuel) wc lc its rej = parseItems fuel wc lc its rej)"
proof (induction fuel)
  case (Suc fuel)
  then have blocks: "parseBlocks fuel wc lc ls rej \<noteq> None \<Longrightarrow> parseBlocks (Suc fuel) wc lc ls rej = parseBlocks fuel wc lc ls rej"
    and items: "parseItems fuel wc lc its rej \<noteq> None \<Longrightarrow> parseItems (Suc fuel) wc lc its rej = parseItems fuel wc lc its rej"
    for ls its rej by blast+
  have before: "before_blocks b (parseBlocks (Suc fuel) wc lc ls rej) = before_blocks b (parseBlocks fuel wc lc ls rej)"
    if "before_blocks b (parseBlocks fuel wc lc ls rej) \<noteq> None" for b ls rej
    using that blocks [of ls rej] by (simp add: before_blocks_def del: parseBlocks.simps)
  have "parseBlocks (Suc (Suc fuel)) wc lc ls rej = parseBlocks (Suc fuel) wc lc ls rej"
    if some: "parseBlocks (Suc fuel) wc lc ls rej \<noteq> None" for ls rej
  proof (cases ls)
    case (Cons line rest)
    note some [unfolded Cons parseBlocks.simps(3)]
    then show ?thesis
      unfolding Cons parseBlocks.simps(3)
      by (cases "turnAt line rest")
        (auto simp: Let_def blocks items before simp del: parseBlocks.simps parseItems.simps split: prod.splits option.splits)
  qed simp
  moreover have "parseItems (Suc (Suc fuel)) wc lc its rej = parseItems (Suc fuel) wc lc its rej"
    if some: "parseItems (Suc fuel) wc lc its rej \<noteq> None" for its rej
  proof (cases its)
    case (Cons itemLines others)
    note some [unfolded Cons parseItems.simps(3)]
    then show ?thesis
      unfolding Cons parseItems.simps(3)
      by (auto simp: blocks items simp del: parseBlocks.simps parseItems.simps split: prod.splits option.splits)
  qed simp
  ultimately show ?case by blast
qed simp

text \<open>
  Lines on which every turn consumes something: no line terminator inside, and no pipe together with
  a dash, so that no line delimits a table.
\<close>

definition tame :: "ustring \<Rightarrow> bool" where
  "tame l \<longleftrightarrow> dots l \<and> \<not> (PIPE \<in> set l \<and> DASH \<in> set l)"

definition weight :: "ustring list \<Rightarrow> nat" where
  "weight ls = (\<Sum>l \<leftarrow> ls. Suc (length l))"

lemma weight_simps [simp]:
  "weight [] = 0" "weight (l # ls) = Suc (length l) + weight ls" "weight (ls @ ms) = weight ls + weight ms"
  by (simp_all add: weight_def)

lemma tame_mono: "set l \<subseteq> set m \<Longrightarrow> tame m \<Longrightarrow> tame l"
  by (auto simp: tame_def dots_def list_all_iff)

lemma tame_Nil [simp]: "tame []"
  by (simp add: tame_def dots_def)

lemma tame_drop: "tame l \<Longrightarrow> tame (drop n l)"
  by (rule tame_mono) (auto dest: in_set_dropD)

lemma tame_lstrip: "tame l \<Longrightarrow> tame (lstrip l)"
  by (rule tame_mono) (auto simp: lstrip_def dest: set_dropWhileD)

lemma splitUnit_none: "d \<notin> set s \<Longrightarrow> splitUnit d s = [s]"
  by (induction s) auto

lemma splitUnit_set: "x \<in> set (splitUnit d s) \<Longrightarrow> set x \<subseteq> set s"
  by (induction s arbitrary: x) (auto split: if_splits list.splits, blast+)

lemma dashes_set: "dashes 1 p \<Longrightarrow> DASH \<in> set p"
proof -
  assume d: "dashes 1 p"
  define q0 where "q0 = rstrip (lstrip p)"
  define q1 where "q1 = (if q0 \<noteq> [] \<and> hd q0 = COLON then tl q0 else q0)"
  define q where "q = (if q1 \<noteq> [] \<and> last q1 = COLON then butlast q1 else q1)"
  have "set q \<subseteq> set q1" by (auto simp: q_def dest: in_set_butlastD)
  moreover have "set q1 \<subseteq> set q0" by (cases q0) (auto simp: q1_def)
  ultimately have q: "1 \<le> length q" "list_all (\<lambda>c. c = DASH) q" "set q \<subseteq> set (rstrip (lstrip p))"
    using d by (auto simp: dashes_def Let_def q_def q1_def q0_def)
  then have "DASH \<in> set q" by (cases q) auto
  then show ?thesis using q(3) by (auto simp: rstrip_def lstrip_def dest!: set_dropWhileD)
qed

lemma delimiterCells_dash: "delimiterCells ps \<Longrightarrow> \<exists>p \<in> set ps. DASH \<in> set p"
proof -
  assume d: "delimiterCells ps"
  then have "hd ps \<in> set ps" "dashes 1 (hd ps)"
    by (cases ps; cases "tl ps"; cases "tl (tl ps)"; auto simp: delimiterCells_def split: if_splits)+
  then show ?thesis using dashes_set by blast
qed

lemma DELIMITER_not_tame: "DELIMITER l \<Longrightarrow> \<not> tame l"
proof
  assume d: "DELIMITER l" and t: "tame l"
  then have "delimiterCells (splitUnit PIPE l) \<or> delimiterCells (tl (splitUnit PIPE l))"
    by (auto simp: DELIMITER_def Let_def)
  then obtain p where "p \<in> set (splitUnit PIPE l)" "DASH \<in> set p"
    by (cases "splitUnit PIPE l") (auto dest!: delimiterCells_dash)
  then have "DASH \<in> set l" using splitUnit_set by blast
  moreover have "PIPE \<in> set l"
  proof (rule ccontr)
    assume "PIPE \<notin> set l"
    then have "splitUnit PIPE l = [l]" by (rule splitUnit_none)
    with \<open>delimiterCells _ \<or> delimiterCells _\<close> show False by (simp add: delimiterCells_def)
  qed
  ultimately show False using t by (simp add: tame_def)
qed

lemma readFence_weight:
  "readFence mark ls = (body, after) \<Longrightarrow> weight after \<le> weight ls \<and> set after \<subseteq> set ls"
  by (induction ls arbitrary: body) (auto split: if_splits prod.splits)

lemma QUOTE_Some: "QUOTE line = Some q \<Longrightarrow> set q \<subseteq> set line \<and> length q < length line"
  using indented_Some [of line]
  by (auto simp: QUOTE_def Let_def split: option.splits list.splits if_splits dest: list.set_sel(2)) (fastforce dest: list.set_sel(2))+

lemma readQuote_weight:
  "readQuote ls = (body, after) \<Longrightarrow> \<forall>l \<in> set ls. tame l
     \<Longrightarrow> weight body + weight after \<le> weight ls \<and> set after \<subseteq> set ls \<and> (\<forall>l \<in> set body. tame l)"
proof (induction ls arbitrary: body)
  case (Cons l ls)
  obtain b a where r: "readQuote ls = (b, a)" by fastforce
  with Cons show ?case
    by (auto dest!: QUOTE_Some dest: tame_mono split: if_splits option.splits)
qed simp

lemma flushItem_Nil [simp]: "flushItem items [] = items" and flushItem_Cons [simp]: "ls \<noteq> [] \<Longrightarrow> flushItem items ls = items @ [ls]"
  by (simp_all add: flushItem_def)

definition itemsWeight :: "ustring list list \<Rightarrow> nat" where
  "itemsWeight items = (\<Sum>ls \<leftarrow> items. weight ls + 2)"

lemma itemsWeight_simps [simp]:
  "itemsWeight [] = 0" "itemsWeight (i # is) = weight i + 2 + itemsWeight is" "itemsWeight (is @ js) = itemsWeight is + itemsWeight js"
  by (simp_all add: itemsWeight_def)

lemma listMarker_Some:
  "listMarker ord line = Some m \<Longrightarrow> set (mk_rest m) \<subseteq> set line \<and> length (mk_rest m) + 2 \<le> length line"
  by (auto simp: listMarker_def dest: ORDERED_Some BULLET_Some split: if_splits)

lemma readList_weight:
  assumes "readList ord items itemLines n ls = (items', after)" "itemLines \<noteq> []"
    and "\<forall>l \<in> set ls. tame l" "\<forall>ms \<in> set (itemLines # items). \<forall>l \<in> set ms. tame l"
  shows "itemsWeight items' + weight after \<le> itemsWeight items + weight itemLines + 2 + weight ls
     \<and> set after \<subseteq> set ls \<and> (\<forall>ms \<in> set items'. \<forall>l \<in> set ms. tame l)"
  using assms
proof (induction ord items itemLines n ls rule: readList.induct)
  case (1 ord items itemLines n)
  then show ?case by auto
next
  case (2 ord items itemLines n current rest)
  let ?next = "listMarker ord current"
  let ?sibling = "(case ?next of None \<Rightarrow> False | Some m \<Rightarrow> (items = [] \<and> itemLines = []) \<or> mk_indent m < n) \<and> \<not> RULE current"
  note step = "2.prems"(1) [unfolded readList.simps Let_def]
  have tame: "tame current" "\<forall>l \<in> set rest. tame l" using "2.prems"(3) by auto
  show ?case
  proof (cases ?sibling)
    case True
    then obtain m where m: "?next = Some m" by (auto split: option.splits)
    from listMarker_Some [OF m] tame_mono [OF _ tame(1)] have rest: "tame (mk_rest m)" "length (mk_rest m) + 2 \<le> length current" by auto
    have "readList ord (flushItem items itemLines) [mk_rest m] (mk_indent m + mk_width m) rest = (items', after)"
      using step [unfolded if_P [OF True]] by (simp add: m)
    from "2.IH"(1) [OF refl refl True, unfolded m option.sel, OF this _ tame(2)] rest "2.prems"(2,4)
    show ?thesis by (simp add: ball_Un subset_insertI2)
  next
    case not_sibling: False
    note step = step [unfolded if_not_P [OF not_sibling]]
    show ?thesis
    proof (cases "BLANK current")
      case True
      show ?thesis
      proof (cases "nextLine rest \<noteq> [] \<and> (indentedBy n (nextLine rest) \<or> listMarker ord (nextLine rest) \<noteq> None)")
        case cont: True
        from step [unfolded if_P [OF True] if_P [OF cont]] have "readList ord items (itemLines @ [[]]) n rest = (items', after)" .
        from "2.IH"(2) [OF refl refl not_sibling True refl cont this _ tame(2)] "2.prems"(4)
        show ?thesis by (simp add: ball_Un subset_insertI2)
      next
        case False
        with step True "2.prems"(2,4) show ?thesis by auto
      qed
    next
      case not_blank: False
      show ?thesis
      proof (cases "indentedBy n current")
        case True
        from step [unfolded if_not_P [OF not_blank] if_P [OF True]]
        have "readList ord items (itemLines @ [drop n current]) n rest = (items', after)" .
        from "2.IH"(3) [OF refl refl not_sibling not_blank True this _ tame(2)] tame_drop [OF tame(1)] "2.prems"(4)
        have ih: "itemsWeight items' + weight after \<le> itemsWeight items + weight (itemLines @ [drop n current]) + 2 + weight rest
            \<and> set after \<subseteq> set rest \<and> (\<forall>ms \<in> set items'. \<forall>l \<in> set ms. tame l)"
          by (simp add: ball_Un)
        have "weight (itemLines @ [drop n current]) \<le> weight itemLines + Suc (length current)" by simp
        with conjunct1 [OF ih] weight_simps(2) [of current rest]
        have "itemsWeight items' + weight after \<le> itemsWeight items + weight itemLines + 2 + weight (current # rest)"
          by linarith
        moreover from ih have "set after \<subseteq> set (current # rest)" by auto
        ultimately show ?thesis using ih by blast
      next
        case not_indented: False
        show ?thesis
        proof (cases "\<not> interruptsParagraph current \<and> itemLines \<noteq> []")
          case True
          from step [unfolded if_not_P [OF not_blank] if_not_P [OF not_indented] if_P [OF True]]
          have "readList ord items (itemLines @ [current]) n rest = (items', after)" .
          from "2.IH"(4) [OF refl refl not_sibling not_blank not_indented True this _ tame(2)] tame(1) "2.prems"(4)
          show ?thesis by (simp add: ball_Un subset_insertI2)
        next
          case False
          with step not_blank not_indented "2.prems"(2,4) show ?thesis by (auto simp: if_not_P)
        qed
      qed
    qed
  qed
qed

lemma readParagraph_weight: "readParagraph ls = (body, after) \<Longrightarrow> weight after \<le> weight ls \<and> set after \<subseteq> set ls"
  by (induction ls arbitrary: body) (auto split: if_splits prod.splits)

lemma nextLine_tame: "\<forall>l \<in> set rest. tame l \<Longrightarrow> tame (nextLine rest)"
  by (cases rest) (auto simp: nextLine_def)

lemma startsOne_ORDERED:
  assumes "startsOne line" "tame line"
  shows "ORDERED line \<noteq> None"
proof -
  from assms(1) obtain n d e cs where s: "indented line = Some (n, 49 # d # e # cs)" "d \<in> {46, 41}" "is_blank_unit e"
  proof -
    from assms(1) obtain n s where s: "indented line = Some (n, s)"
      by (auto simp: startsOne_def split: option.splits)
    with assms(1) that show thesis
      by (cases s; cases "tl s"; cases "tl (tl s)") (auto simp: startsOne_def)
  qed
  from indented_Some [OF s(1)] tame_mono [OF _ assms(2)] have "dots cs"
    by (auto simp: tame_def dots_def list_all_iff)
  then have "dots (drop (length (takeWhile is_blank_unit cs)) cs)"
    by (auto simp: dots_def list_all_iff dest: in_set_dropD)
  then show ?thesis using s by (auto simp: ORDERED_def is_udigit_def Let_def)
qed

text \<open>What a turn on tame lines leaves to be read, and to be parsed inside.\<close>

fun consumes :: "nat \<Rightarrow> ustring list \<Rightarrow> turn \<Rightarrow> bool" where
  "consumes w rest (Quoted body after) \<longleftrightarrow> weight body < w \<and> (\<forall>l \<in> set body. tame l) \<and> weight after < w \<and> set after \<subseteq> set rest"
| "consumes w rest (Listed ord start items after) \<longleftrightarrow>
     itemsWeight items \<le> w \<and> items \<noteq> [] \<and> (\<forall>ms \<in> set items. \<forall>l \<in> set ms. tame l) \<and> weight after < w \<and> set after \<subseteq> set rest"
| "consumes w rest (Blank_line after) \<longleftrightarrow> weight after < w \<and> set after \<subseteq> set rest"
| "consumes w rest (Fenced info body after) \<longleftrightarrow> weight after < w \<and> set after \<subseteq> set rest"
| "consumes w rest (Ruled after) \<longleftrightarrow> weight after < w \<and> set after \<subseteq> set rest"
| "consumes w rest (Headed level t after) \<longleftrightarrow> weight after < w \<and> set after \<subseteq> set rest"
| "consumes w rest (Tabled align head cells after) \<longleftrightarrow> weight after < w \<and> set after \<subseteq> set rest"
| "consumes w rest (Worded body after) \<longleftrightarrow> weight after < w \<and> set after \<subseteq> set rest"

lemma consumes_cases:
  "(b \<Longrightarrow> consumes w rest x) \<Longrightarrow> (\<not> b \<Longrightarrow> consumes w rest y) \<Longrightarrow> consumes w rest (if b then x else y)"
  "(opt = None \<Longrightarrow> consumes w rest n) \<Longrightarrow> (\<And>v z. opt = Some (v, z) \<Longrightarrow> consumes w rest (f v z))
     \<Longrightarrow> consumes w rest (case opt of None \<Rightarrow> n | Some (v, z) \<Rightarrow> f v z)"
  "(\<And>v z. p = (v, z) \<Longrightarrow> consumes w rest (f v z)) \<Longrightarrow> consumes w rest (case p of (v, z) \<Rightarrow> f v z)"
  by (auto split: option.split prod.split)

lemma turnAt_consumes:
  assumes "tame line" "\<forall>l \<in> set rest. tame l"
  shows "consumes (weight (line # rest)) rest (turnAt line rest)"
proof -
  have quote: "consumes (weight (line # rest)) rest (Quoted body after)"
    if "readQuote (line # rest) = (body, after)" "QUOTE line \<noteq> None" for body after
  proof -
    from that obtain q b where q: "QUOTE line = Some q" and b: "readQuote rest = (b, after)" "body = q # b"
      by (auto split: prod.splits)
    from QUOTE_Some [OF q] readQuote_weight [OF b(1) assms(2)] tame_mono [of q line] assms(1) b(2) show ?thesis by auto
  qed
  have listed: "consumes (weight (line # rest)) rest (Listed ord start items after)"
    if "readList ord [] [] 0 (line # rest) = (items, after)" "listMarker ord line \<noteq> None" "\<not> RULE line"
    for ord start items after
  proof -
    from that(2) obtain m where m: "listMarker ord line = Some m" by blast
    note r = that(1) [unfolded readList_first [OF m that(3)]]
    have "tame (mk_rest m)" using listMarker_Some [OF m] tame_mono assms(1) by blast
    with readList_weight [OF r] readList_items [of "[mk_rest m]" ord "[]" "mk_indent m + mk_width m" rest]
      listMarker_Some [OF m] assms(2) r
    have "itemsWeight items + weight after \<le> weight (line # rest)" "items \<noteq> []" "set after \<subseteq> set rest"
      "\<forall>ms \<in> set items. \<forall>l \<in> set ms. tame l" by auto
    moreover from this(2) have "0 < itemsWeight items" by (cases items) auto
    ultimately show ?thesis by simp
  qed
  have l: "consumes (weight (line # rest)) rest (Listed (ORDERED line \<noteq> None) start items after)"
    if "readList (ORDERED line \<noteq> None) [] [] 0 (line # rest) = (items, after)"
      "BULLET line \<noteq> None \<or> ORDERED line \<noteq> None" "\<not> RULE line" for start items after
    by (rule listed [OF that(1)]) (use that(2,3) in \<open>auto simp: listMarker_def\<close>)
  have table: "tableAt line rest = None"
    using DELIMITER_not_tame nextLine_tame [OF assms(2)] by (auto simp: tableAt_def)
  have para: "consumes (weight (line # rest)) rest (Worded body after)"
    if "readParagraph (line # rest) = (body, after)" "\<not> BLANK line" "\<not> interruptsParagraph line" for body after
  proof -
    have "\<not> DELIMITER (nextLine rest)" using DELIMITER_not_tame nextLine_tame [OF assms(2)] by blast
    with that show ?thesis by (auto dest!: readParagraph_weight split: prod.splits)
  qed
  have fence: "weight after < weight (line # rest) \<and> set after \<subseteq> set rest" if "readFence mark rest = (body, after)" for mark body after
    using readFence_weight [OF that] by auto
  have para: "consumes (weight (line # rest)) rest (Worded body after)"
    if "readParagraph (line # rest) = (body, after)" "\<not> BLANK line" "FENCE line = None" "\<not> RULE line"
      "HEADING line = None" "\<not> QUOTE line \<noteq> None" "\<not> (BULLET line \<noteq> None \<or> ORDERED line \<noteq> None)" for body after
    by (rule para [OF that(1,2)]) (use that startsOne_ORDERED [OF _ assms(1)] in \<open>auto simp: not_interrupts\<close>)
  show ?thesis
    unfolding turnAt_def
  proof (intro consumes_cases)
    fix body after
    assume "readQuote (line # rest) = (body, after)" "QUOTE line \<noteq> None"
    then show "consumes (weight (line # rest)) rest (Quoted body after)" by (rule quote)
  next
    fix items after
    assume "readList (ORDERED line \<noteq> None) [] [] 0 (line # rest) = (items, after)"
      "BULLET line \<noteq> None \<or> ORDERED line \<noteq> None" "\<not> RULE line"
    then show "consumes (weight (line # rest)) rest
        (Listed (ORDERED line \<noteq> None) (case ORDERED line of None \<Rightarrow> 1 | Some m \<Rightarrow> mk_number m) items after)"
      by (rule l)
  next
    fix body after
    assume "\<not> BLANK line" "FENCE line = None" "\<not> RULE line" "HEADING line = None" "\<not> QUOTE line \<noteq> None"
      "\<not> (BULLET line \<noteq> None \<or> ORDERED line \<noteq> None)" "readParagraph (line # rest) = (body, after)"
    then show "consumes (weight (line # rest)) rest (Worded body after)" by (intro para)
  qed (use fence table in \<open>simp_all only: consumes.simps weight_simps, auto\<close>)
qed

lemma parse_returns:
  "(\<forall>ls rej. weight ls < fuel \<longrightarrow> (\<forall>l \<in> set ls. tame l) \<longrightarrow> parseBlocks fuel wc lc ls rej \<noteq> None)
   \<and> (\<forall>items rej. itemsWeight items \<le> fuel \<longrightarrow> 1 \<le> fuel \<longrightarrow> (\<forall>ms \<in> set items. \<forall>l \<in> set ms. tame l)
        \<longrightarrow> parseItems fuel wc lc items rej \<noteq> None)"
proof (induction fuel)
  case (Suc fuel)
  then have blocks: "\<exists>r. parseBlocks fuel wc lc ls rej = Some r" if "weight ls < fuel" "\<forall>l \<in> set ls. tame l" for ls rej
    using that by (metis not_None_eq)
  from Suc have items: "\<exists>r. parseItems fuel wc lc its rej = Some r"
    if "itemsWeight its \<le> fuel" "1 \<le> fuel" "\<forall>ms \<in> set its. \<forall>l \<in> set ms. tame l" for its rej
    using that by (metis not_None_eq)
  have "parseBlocks (Suc fuel) wc lc ls rej \<noteq> None" if w: "weight ls < Suc fuel" and t: "\<forall>l \<in> set ls. tame l" for ls rej
  proof (cases ls)
    case (Cons line rest)
    have c: "consumes (weight (line # rest)) rest (turnAt line rest)"
      using t by (intro turnAt_consumes) (auto simp: Cons)
    have fuel: "weight (line # rest) \<le> fuel" "1 \<le> fuel" using w by (auto simp: Cons)
    have on: "\<exists>r. parseBlocks fuel wc lc after rej = Some r" if "weight after < weight (line # rest) \<and> set after \<subseteq> set rest" for after rej
      using that fuel t by (intro blocks) (auto simp: Cons)
    have b: "before_blocks blk (parseBlocks fuel wc lc after rej) \<noteq> None"
      if "weight after < weight (line # rest) \<and> set after \<subseteq> set rest" for blk after rej
      using on [OF that, of rej] by (auto simp: before_blocks_def)
    show ?thesis
    proof (cases "turnAt line rest")
      case (Quoted body after)
      with c fuel obtain children rej1 where "parseBlocks fuel wc lc body rej = Some (children, rej1)"
        using blocks [of body rej] by auto
      with Quoted c b show ?thesis by (simp add: Cons del: weight_simps)
    next
      case (Listed ord start its after)
      with c fuel obtain parsed rej1 where "parseItems fuel wc lc its rej = Some (parsed, rej1)"
        using items [of its rej] by auto
      with Listed c b show ?thesis by (simp add: Cons del: weight_simps)
    qed (use c b on in \<open>auto simp: Cons Let_def simp del: weight_simps split: prod.split\<close>)
  qed simp
  moreover have "parseItems (Suc fuel) wc lc its rej \<noteq> None"
    if w: "itemsWeight its \<le> Suc fuel" and t: "\<forall>ms \<in> set its. \<forall>l \<in> set ms. tame l" for its rej
  proof (cases its)
    case (Cons i others)
    with w t obtain bs rej1 where "parseBlocks fuel wc lc i rej = Some (bs, rej1)"
      using blocks [of i rej] by auto
    moreover from Cons w t items [of others rej1] have "\<exists>r. parseItems fuel wc lc others rej1 = Some r" by auto
    ultimately show ?thesis by (auto simp: Cons)
  qed simp
  ultimately show ?case by blast
qed simp

lemma weight_splitUnit: "weight (splitUnit d s) = Suc (length s)"
proof (induction s)
  case (Cons c s)
  moreover have "splitUnit d s \<noteq> []" by (cases s) (auto split: list.split)
  ultimately show ?case by (cases "splitUnit d s") auto
qed simp

lemma unifyNewlines_length: "length (unifyNewlines s) \<le> length s"
  by (induction s rule: unifyNewlines.induct) (auto split: if_splits, (metis Suc_le_mono Suc_le_D Suc_pred diff_Suc_1 le_SucI length_tl)?)

lemma parseBlocks_more:
  assumes "parseBlocks fuel wc lc ls rej = Some doc" "fuel \<le> n"
  shows "parseBlocks n wc lc ls rej = Some doc"
  using assms(2,1) parse_mono [of _ wc lc] by (induction rule: dec_induct) auto

text \<open>C11: on every other prompt the parser returns. If no line holds a pipe together with a dash, or a line
  terminator other than the one that ends it, the parse ends within as many turns as the prompt has
  characters, and two: with that fuel there is a document, and no more fuel gives another.\<close>

theorem tame_prompts_parse:
  assumes "\<forall>l \<in> set (linesOf source). tame l"
  shows "\<exists>doc. \<forall>fuel \<ge> length source + 2. parseMarkdown fuel wc lc source = Some doc"
proof -
  have "weight (linesOf source) < length source + 2"
    using unifyNewlines_length [of source] by (simp add: linesOf_def weight_splitUnit)
  then obtain doc where "parseBlocks (length source + 2) wc lc (linesOf source) [] = Some doc"
    using parse_returns [of "length source + 2" wc lc] assms by blast
  from parseBlocks_more [OF this] show ?thesis by (auto simp: parseMarkdown_def)
qed

subsection \<open>A sample prompt\<close>

definition sample_prompt :: ustring where
  "sample_prompt = u ''# Hi'' @ NEWLINE # u ''[a](http:b)''"

lemma sample_lines: "linesOf sample_prompt = [u ''# Hi'', u ''[a](http:b)'']"
  by (simp add: sample_prompt_def linesOf_def)

lemma sample_turns:
  "turnAt (u ''# Hi'') rest = Headed 1 (u ''Hi'') rest"
  "turnAt (u ''[a](http:b)'') [] = Worded [u ''[a](http:b)''] []"
  by (simp_all add: turnAt_def line_defs headingText_def tableAt_def interruptsParagraph_def)

lemma sample_words:
  "parseInline (\<lambda>_. False) (u ''Hi'') rej = ([Text (u ''Hi'')], rej)"
  "parseInline (\<lambda>_. False) (u ''a'') rej = ([Text (u ''a'')], rej)"
  using parseLoop_escaped [of "u ''Hi''" "\<lambda>_. False" "[]" "[]" rej] parseLoop_escaped [of "u ''a''" "\<lambda>_. False" "[]" "[]" rej]
  by (simp_all add: parseInline_def escapeText_def escapeUnit_def ESCAPABLE_def textNode_def)

lemma sample_link: "parseInline (\<lambda>_. False) (u ''[a](http:b)'') [] = ([Link (u ''http:b'') [Text (u ''a'')]], [])"
proof -
  have t: "tokenAt (\<lambda>_. False) (u ''[a](http:b)'') 0 = Link_to (u ''a'') (u ''http:b'') False 11"
    by (simp add: tokenAt_def linkAt_def closingBracket_def bracketLoop.simps readDestination_def unit_at_def
        destLoop.simps slice_def uTrim_def uTrimStart_def is_space_def)
  have s: "safeUrl (u ''http:b'') = Some (u ''http:b'')"
    by (simp add: safeUrl_def decodeEntities_def NAMED_ENTITIES_def numericEntity_def normaliseUrl_def scheme_char_def
        is_ualpha_def is_udigit_def ALLOWED_SCHEMES_def lower_unit_def)
  have inner: "parseLoop (\<lambda>_. False) (u ''a'') 0 [] [] = ([Text (u ''a'')], [])"
    using sample_words(2) [of "[]"] by (simp add: parseInline_def)
  have at_end: "parseLoop (\<lambda>_. False) (u ''[a](http:b)'') 11 out rej = (out, rej)" for out rej
    by (subst parseLoop.simps) simp
  show ?thesis
    unfolding parseInline_def
    by (subst parseLoop.simps) (simp only: t token.case inner prod.case pushLink_def s option.case at_end, simp)
qed

lemma sample_document:
  "parseMarkdown 4 (\<lambda>_. False) id sample_prompt
     = Some ([Heading 1 [Text (u ''Hi'')], Paragraph [Link (u ''http:b'') [Text (u ''a'')]]], [])"
  unfolding parseMarkdown_def sample_lines
  by (simp add: numeral_eq_Suc sample_turns sample_words sample_link before_blocks_def del: u_def)

theorem prompt_destinations_safe_witness: "safe_href (u ''http:b'')"
  using prompt_destinations_safe [OF sample_document] by (simp add: destinations_def)

theorem document_well_formed_witness: "shaped (Heading 1 [Text (u ''Hi'')])"
  using document_well_formed [OF sample_document] by simp

theorem tame_prompts_parse_witness:
  "\<exists>doc. parseMarkdown (length sample_prompt + 2) (\<lambda>_. False) id sample_prompt = Some doc"
  using tame_prompts_parse [of sample_prompt "\<lambda>_. False" id]
  by (auto simp: sample_lines tame_def dots_def line_terminators_def)

end
