(* ===== verification/Question_Content.thy ===== *)
theory Question_Content
  imports Question_Lifecycle Js_String
begin

text \<open>
  The content of one question version in the four shapes the program gives it: what an author
  sends (\<open>QuestionVersionInput\<close>), what the database layer writes (\<open>VersionContent\<close> of
  \<open>packages/db/src/version-content.ts\<close>), what it reads back (\<open>QuestionVersionRecord\<close> of
  \<open>packages/contracts/src/questions.ts\<close>) and what crosses between organisations (\<open>BankVersion\<close>
  of \<open>apps/worker/src/interchange/bank-item.ts\<close>). Identifiers are the numbers of their draw from
  the database's generator, instants are milliseconds. The two serialisers of the API build JSON
  objects.
\<close>

subsection \<open>JSON values\<close>

datatype json =
    J_null | J_bool bool | J_number jsnum | J_string string
  | J_array "json list" | J_object "(string \<times> json) list"

fun nullable :: "('a \<Rightarrow> json) \<Rightarrow> 'a option \<Rightarrow> json" where
  "nullable f None = J_null"
| "nullable f (Some v) = f v"

definition J_strings :: "string list \<Rightarrow> json" where
  "J_strings xs = J_array (map J_string xs)"

definition J_record :: "(string, string) jsmap \<Rightarrow> json" where
  "J_record m = J_object (map (\<lambda>(k, v). (k, J_string v)) m)"

subsection \<open>What the database layer writes\<close>

record mcqOptionContent =
  oc_bodyMd :: string
  oc_isCorrect :: bool
  oc_scoreDelta :: "jsnum option"
  oc_rationaleMd :: "string option"

record codingSpecContent =
  sc_allowedLanguages :: "string list"
  sc_starterCode :: "(string, string) jsmap"
  sc_solutionCode :: "(string, string) jsmap"
  sc_timeLimitMs :: int
  sc_memoryLimitKb :: int
  sc_gradingMode :: string
  sc_checkerCode :: "string option"
  sc_fixtureSql :: "string option"

record testCaseContent =
  tc_label :: "string option"
  tc_stdin :: string
  tc_expectedStdout :: "string option"
  tc_args :: "string list option"
  tc_assertionCode :: "string option"
  tc_isSample :: bool
  tc_weight :: jsnum

record answerKeyContent =
  kc_matchType :: string
  kc_pattern :: string
  kc_tolerance :: "jsnum option"
  kc_score :: jsnum

record versionContent =
  vc_locale :: string
  vc_promptMd :: string
  vc_explanationMd :: "string option"
  vc_difficulty :: int
  vc_estSeconds :: int
  vc_maxScore :: jsnum
  vc_negativeScore :: jsnum
  vc_options :: "mcqOptionContent list"
  vc_codingSpec :: "codingSpecContent option"
  vc_testCases :: "testCaseContent list"
  vc_answerKeys :: "answerKeyContent list"

subsection \<open>What the database layer reads\<close>

record mcqOptionRecord =
  or_id :: nat
  or_ordinal :: nat
  or_body_md :: string
  or_is_correct :: bool
  or_score_delta :: "jsnum option"
  or_rationale_md :: "string option"

record codingSpecRecord =
  sr_allowed_languages :: "string list"
  sr_starter_code :: "(string, string) jsmap"
  sr_solution_code :: "(string, string) jsmap"
  sr_time_limit_ms :: int
  sr_memory_limit_kb :: int
  sr_grading_mode :: string
  sr_checker_code :: "string option"
  sr_fixture_sql :: "string option"

record testCaseRecord =
  tr_id :: nat
  tr_ordinal :: nat
  tr_label :: "string option"
  tr_stdin :: string
  tr_expected_stdout :: "string option"
  tr_args :: "string list option"
  tr_assertion_code :: "string option"
  tr_is_sample :: bool
  tr_weight :: jsnum

record answerKeyRecord =
  kr_id :: nat
  kr_match_type :: string
  kr_pattern :: string
  kr_tolerance :: "jsnum option"
  kr_score :: jsnum

record questionVersionRecord =
  vr_id :: nat
  vr_question_id :: nat
  vr_version_no :: int
  vr_locale :: string
  vr_prompt_md :: string
  vr_explanation_md :: "string option"
  vr_difficulty :: int
  vr_est_seconds :: int
  vr_max_score :: jsnum
  vr_negative_score :: jsnum
  vr_published_at :: "int option"
  vr_created_by :: "string option"
  vr_created_at :: int
  vr_options :: "mcqOptionRecord list"
  vr_coding_spec :: "codingSpecRecord option"
  vr_test_cases :: "testCaseRecord list"
  vr_answer_keys :: "answerKeyRecord list"

record questionRecord =
  qr_id :: nat
  qr_kind :: questionKind
  qr_status :: questionStatus
  qr_external_ref :: "string option"
  qr_source_license :: "string option"
  qr_author_id :: "string option"
  qr_exposure_count :: int
  qr_archived_at :: "int option"
  qr_created_at :: int
  qr_skills :: "(string \<times> jsnum) list"
  qr_current_version :: "questionVersionRecord option"

subsection \<open>What an author sends\<close>

text \<open>
  An absent field is \<open>None\<close>; a field that may also be null is an option of an option. The schema
  fills in \<open>is_correct\<close>, \<open>stdin\<close> and \<open>is_sample\<close> where they are absent.
\<close>

record mcqOptionInput =
  oi_body_md :: string
  oi_is_correct :: bool
  oi_score_delta :: "jsnum option option"
  oi_rationale_md :: "string option option"

record codingSpecInput =
  si_allowed_languages :: "string list option"
  si_starter_code :: "(string, string) jsmap option"
  si_solution_code :: "(string, string) jsmap option"
  si_time_limit_ms :: "int option"
  si_memory_limit_kb :: "int option"
  si_grading_mode :: "string option"
  si_checker_code :: "string option option"
  si_fixture_sql :: "string option option"

record testCaseInput =
  ti_label :: "string option option"
  ti_stdin :: string
  ti_expected_stdout :: "string option option"
  ti_args :: "string list option option"
  ti_assertion_code :: "string option option"
  ti_is_sample :: bool
  ti_weight :: "jsnum option"

record answerKeyInput =
  ki_match_type :: string
  ki_pattern :: string
  ki_tolerance :: "jsnum option option"
  ki_score :: "jsnum option"

record questionVersionInput =
  vi_locale :: "string option"
  vi_prompt_md :: "string option"
  vi_explanation_md :: "string option option"
  vi_difficulty :: "int option"
  vi_est_seconds :: "int option"
  vi_max_score :: "jsnum option"
  vi_negative_score :: "jsnum option"
  vi_options :: "mcqOptionInput list option"
  vi_coding_spec :: "codingSpecInput option option"
  vi_test_cases :: "testCaseInput list option"
  vi_answer_keys :: "answerKeyInput list option"

definition emptyInput :: questionVersionInput where
  "emptyInput = \<lparr> vi_locale = None, vi_prompt_md = None, vi_explanation_md = None,
     vi_difficulty = None, vi_est_seconds = None, vi_max_score = None, vi_negative_score = None,
     vi_options = None, vi_coding_spec = None, vi_test_cases = None, vi_answer_keys = None \<rparr>"

subsection \<open>Copying a version forward\<close>

definition chosen :: "'a option \<Rightarrow> 'a \<Rightarrow> 'a" where
  "chosen patched current = (case patched of None \<Rightarrow> current | Some v \<Rightarrow> v)"

text \<open>\<open>v ?? d\<close> on a field that may be absent or null.\<close>

definition nullish :: "'a option option \<Rightarrow> 'a option" where
  "nullish v = chosen v None"

definition FIRST_VERSION_FIELDS :: "string list" where
  "FIRST_VERSION_FIELDS = [''prompt_md'', ''difficulty'']"

definition supplied :: "questionVersionInput \<Rightarrow> string \<Rightarrow> bool" where
  "supplied input field \<longleftrightarrow>
     (if field = ''prompt_md'' then vi_prompt_md input \<noteq> None else vi_difficulty input \<noteq> None)"

definition missingFirstVersionFields ::
  "questionVersionRecord option \<Rightarrow> questionVersionInput \<Rightarrow> string list" where
  "missingFirstVersionFields prior input =
     (if prior \<noteq> None then [] else filter (\<lambda>field. \<not> supplied input field) FIRST_VERSION_FIELDS)"

definition optionFrom :: "mcqOptionInput \<Rightarrow> mcqOptionContent" where
  "optionFrom input = \<lparr> oc_bodyMd = oi_body_md input, oc_isCorrect = oi_is_correct input,
     oc_scoreDelta = nullish (oi_score_delta input), oc_rationaleMd = nullish (oi_rationale_md input) \<rparr>"

definition testCaseFrom :: "testCaseInput \<Rightarrow> testCaseContent" where
  "testCaseFrom input = \<lparr> tc_label = nullish (ti_label input), tc_stdin = ti_stdin input,
     tc_expectedStdout = nullish (ti_expected_stdout input), tc_args = nullish (ti_args input),
     tc_assertionCode = nullish (ti_assertion_code input), tc_isSample = ti_is_sample input,
     tc_weight = chosen (ti_weight input) (Fin 1) \<rparr>"

definition answerKeyFrom :: "answerKeyInput \<Rightarrow> answerKeyContent" where
  "answerKeyFrom input = \<lparr> kc_matchType = ki_match_type input, kc_pattern = ki_pattern input,
     kc_tolerance = nullish (ki_tolerance input), kc_score = chosen (ki_score input) (Fin 1) \<rparr>"

definition DEFAULT_SPEC :: codingSpecContent where
  "DEFAULT_SPEC = \<lparr> sc_allowedLanguages = [], sc_starterCode = [], sc_solutionCode = [],
     sc_timeLimitMs = 5000, sc_memoryLimitKb = 262144, sc_gradingMode = ''test_cases'',
     sc_checkerCode = None, sc_fixtureSql = None \<rparr>"

definition mergeCodingSpec ::
  "codingSpecContent option \<Rightarrow> codingSpecInput option option \<Rightarrow> codingSpecContent option" where
  "mergeCodingSpec prior patch =
     (case patch of
        None \<Rightarrow> prior
      | Some None \<Rightarrow> None
      | Some (Some p) \<Rightarrow>
          let base = (case prior of None \<Rightarrow> DEFAULT_SPEC | Some s \<Rightarrow> s) in
          Some \<lparr> sc_allowedLanguages = chosen (si_allowed_languages p) (sc_allowedLanguages base),
                 sc_starterCode = chosen (si_starter_code p) (sc_starterCode base),
                 sc_solutionCode = chosen (si_solution_code p) (sc_solutionCode base),
                 sc_timeLimitMs = chosen (si_time_limit_ms p) (sc_timeLimitMs base),
                 sc_memoryLimitKb = chosen (si_memory_limit_kb p) (sc_memoryLimitKb base),
                 sc_gradingMode = chosen (si_grading_mode p) (sc_gradingMode base),
                 sc_checkerCode = chosen (si_checker_code p) (sc_checkerCode base),
                 sc_fixtureSql = chosen (si_fixture_sql p) (sc_fixtureSql base) \<rparr>)"

definition baseOption :: "mcqOptionRecord \<Rightarrow> mcqOptionContent" where
  "baseOption r = \<lparr> oc_bodyMd = or_body_md r, oc_isCorrect = or_is_correct r,
     oc_scoreDelta = or_score_delta r, oc_rationaleMd = or_rationale_md r \<rparr>"

definition baseSpec :: "codingSpecRecord \<Rightarrow> codingSpecContent" where
  "baseSpec r = \<lparr> sc_allowedLanguages = sr_allowed_languages r, sc_starterCode = sr_starter_code r,
     sc_solutionCode = sr_solution_code r, sc_timeLimitMs = sr_time_limit_ms r,
     sc_memoryLimitKb = sr_memory_limit_kb r, sc_gradingMode = sr_grading_mode r,
     sc_checkerCode = sr_checker_code r, sc_fixtureSql = sr_fixture_sql r \<rparr>"

definition baseCase :: "testCaseRecord \<Rightarrow> testCaseContent" where
  "baseCase r = \<lparr> tc_label = tr_label r, tc_stdin = tr_stdin r,
     tc_expectedStdout = tr_expected_stdout r, tc_args = tr_args r,
     tc_assertionCode = tr_assertion_code r, tc_isSample = tr_is_sample r, tc_weight = tr_weight r \<rparr>"

definition baseKey :: "answerKeyRecord \<Rightarrow> answerKeyContent" where
  "baseKey r = \<lparr> kc_matchType = kr_match_type r, kc_pattern = kr_pattern r,
     kc_tolerance = kr_tolerance r, kc_score = kr_score r \<rparr>"

definition baseline :: "questionVersionRecord \<Rightarrow> versionContent" where
  "baseline prior = \<lparr> vc_locale = vr_locale prior, vc_promptMd = vr_prompt_md prior,
     vc_explanationMd = vr_explanation_md prior, vc_difficulty = vr_difficulty prior,
     vc_estSeconds = vr_est_seconds prior, vc_maxScore = vr_max_score prior,
     vc_negativeScore = vr_negative_score prior, vc_options = map baseOption (vr_options prior),
     vc_codingSpec = map_option baseSpec (vr_coding_spec prior),
     vc_testCases = map baseCase (vr_test_cases prior),
     vc_answerKeys = map baseKey (vr_answer_keys prior) \<rparr>"

text \<open>The base of a first version is \<open>undefined\<close>; each field then has a default of its own.\<close>

definition of_base :: "questionVersionRecord option \<Rightarrow> (versionContent \<Rightarrow> 'a) \<Rightarrow> 'a \<Rightarrow> 'a" where
  "of_base prior f d = (case prior of None \<Rightarrow> d | Some r \<Rightarrow> f (baseline r))"

datatype mergeError =
    First_version_fields "string list" | Unreachable_incomplete | Difficulty_out_of_range int

definition MIN_DIFFICULTY_RATING :: int where
  "MIN_DIFFICULTY_RATING = 1"

definition MAX_DIFFICULTY_RATING :: int where
  "MAX_DIFFICULTY_RATING = 5"

definition mergeVersionContent ::
  "questionVersionRecord option \<Rightarrow> questionVersionInput \<Rightarrow> (mergeError, versionContent) result" where
  "mergeVersionContent prior input =
     (let missing = missingFirstVersionFields prior input in
      if missing \<noteq> [] then Inl (First_version_fields missing)
      else
        case (case vi_prompt_md input of Some p \<Rightarrow> Some p | None \<Rightarrow> of_base prior (Some \<circ> vc_promptMd) None,
              case vi_difficulty input of Some d \<Rightarrow> Some d | None \<Rightarrow> of_base prior (Some \<circ> vc_difficulty) None) of
          (Some promptMd, Some difficulty) \<Rightarrow>
            if difficulty < MIN_DIFFICULTY_RATING \<or> difficulty > MAX_DIFFICULTY_RATING
            then Inl (Difficulty_out_of_range difficulty)
            else Inr \<lparr>
              vc_locale = chosen (vi_locale input) (of_base prior vc_locale ''en''),
              vc_promptMd = promptMd,
              vc_explanationMd = chosen (vi_explanation_md input) (of_base prior vc_explanationMd None),
              vc_difficulty = difficulty,
              vc_estSeconds = chosen (vi_est_seconds input) (of_base prior vc_estSeconds 120),
              vc_maxScore = chosen (vi_max_score input) (of_base prior vc_maxScore (Fin 1)),
              vc_negativeScore = chosen (vi_negative_score input) (of_base prior vc_negativeScore (Fin 0)),
              vc_options = (case vi_options input of None \<Rightarrow> of_base prior vc_options []
                            | Some os \<Rightarrow> map optionFrom os),
              vc_codingSpec = mergeCodingSpec (of_base prior vc_codingSpec None) (vi_coding_spec input),
              vc_testCases = (case vi_test_cases input of None \<Rightarrow> of_base prior vc_testCases []
                              | Some ts \<Rightarrow> map testCaseFrom ts),
              vc_answerKeys = (case vi_answer_keys input of None \<Rightarrow> of_base prior vc_answerKeys []
                               | Some ks \<Rightarrow> map answerKeyFrom ks) \<rparr>
        | _ \<Rightarrow> Inl Unreachable_incomplete)"

subsection \<open>The counts the kind rule reads\<close>

definition blank :: "string option \<Rightarrow> bool" where
  "blank s \<longleftrightarrow> trim (chosen s []) = []"

definition shapeOfContent :: "versionContent \<Rightarrow> kindContentShape" where
  "shapeOfContent content = \<lparr>
     optionCount = int (length (vc_options content)),
     correctOptionCount = int (length (filter oc_isCorrect (vc_options content))),
     hasCodingSpec = (vc_codingSpec content \<noteq> None),
     hasFixtureSql = (\<not> blank (Option.bind (vc_codingSpec content) sc_fixtureSql)),
     testCaseCount = int (length (vc_testCases content)),
     hiddenTestCaseCount = int (length (filter (\<lambda>c. \<not> tc_isSample c) (vc_testCases content))),
     answerKeyCount = int (length (vc_answerKeys content)),
     gradingMode = map_option sc_gradingMode (vc_codingSpec content),
     casesWithoutAssertion =
       Some (int (length (filter (\<lambda>c. blank (tc_assertionCode c)) (vc_testCases content)))) \<rparr>"

definition shapeOfRecord :: "questionVersionRecord \<Rightarrow> kindContentShape" where
  "shapeOfRecord version = \<lparr>
     optionCount = int (length (vr_options version)),
     correctOptionCount = int (length (filter or_is_correct (vr_options version))),
     hasCodingSpec = (vr_coding_spec version \<noteq> None),
     hasFixtureSql = (\<not> blank (Option.bind (vr_coding_spec version) sr_fixture_sql)),
     testCaseCount = int (length (vr_test_cases version)),
     hiddenTestCaseCount = int (length (filter (\<lambda>c. \<not> tr_is_sample c) (vr_test_cases version))),
     answerKeyCount = int (length (vr_answer_keys version)),
     gradingMode = map_option sr_grading_mode (vr_coding_spec version),
     casesWithoutAssertion =
       Some (int (length (filter (\<lambda>c. blank (tr_assertion_code c)) (vr_test_cases version)))) \<rparr>"

lemma chosen_simps [simp]: "chosen None c = c" "chosen (Some v) c = v"
  by (simp_all add: chosen_def)

lemma nullish_simps [simp]: "nullish None = None" "nullish (Some v) = v"
  by (simp_all add: nullish_def)

lemma length_filter_map: "length (filter P (map f xs)) = length (filter (P \<circ> f) xs)"
  by (simp add: filter_map comp_def)

text \<open>The two readings of one content agree, so the check at publish sees what the check of the
  draft saw.\<close>

lemma shapeOfContent_baseline: "shapeOfContent (baseline r) = shapeOfRecord r"
proof -
  have "Option.bind (map_option baseSpec (vr_coding_spec r)) sc_fixtureSql =
      Option.bind (vr_coding_spec r) sr_fixture_sql"
    by (cases "vr_coding_spec r") (simp_all add: baseSpec_def)
  moreover have "map_option sc_gradingMode (map_option baseSpec (vr_coding_spec r)) =
      map_option sr_grading_mode (vr_coding_spec r)"
    by (cases "vr_coding_spec r") (simp_all add: baseSpec_def)
  moreover have "oc_isCorrect \<circ> baseOption = or_is_correct"
    "(\<lambda>c. \<not> tc_isSample c) \<circ> baseCase = (\<lambda>c. \<not> tr_is_sample c)"
    "(\<lambda>c. blank (tc_assertionCode c)) \<circ> baseCase = (\<lambda>c. blank (tr_assertion_code c))"
    by (auto simp: baseOption_def baseCase_def)
  ultimately show ?thesis
    by (simp add: shapeOfContent_def shapeOfRecord_def baseline_def length_filter_map)
qed

lemma mergeVersionContent_empty:
  assumes "1 \<le> vr_difficulty r" "vr_difficulty r \<le> 5"
  shows "mergeVersionContent (Some r) emptyInput = Inr (baseline r)"
  using assms
  by (simp add: mergeVersionContent_def missingFirstVersionFields_def emptyInput_def of_base_def
      baseline_def mergeCodingSpec_def MIN_DIFFICULTY_RATING_def MAX_DIFFICULTY_RATING_def)

end
