(* ===== verification/Question_Bank.thy ===== *)
theory Question_Bank
  imports Question_Content "HOL-Library.List_Lexorder" "HOL-Library.Char_ord"
begin

text \<open>
  The question repository (\<open>packages/db/src/questions.ts\<close>): the tables of one organisation, as row
  level security shows them to a transaction, and one operation per exported function. A statement
  that violates a constraint ends the transaction, which is the left side of a result. Identifiers
  come from the counter \<open>b_next\<close>: \<open>gen_random_uuid\<close> never repeats. A transaction runs alone here:
  every writer of a question first locks its row. The ranges of integer columns are those of the
  request schemas and not repeated.

  A text column and a \<open>jsonb\<close> document refuse U+0000 (\<open>Bad_text\<close>), and a \<open>jsonb\<close> object comes back with its
  members in an order of its own. Strings here have no surrogates. Which of several errors a statement
  reports first is not distinguished by any caller.
\<close>

subsection \<open>Numbers in the tables\<close>

text \<open>
  A score is written as \<open>toFixed(2)\<close> into a column \<open>numeric(d + 2, 2)\<close> and read back with
  \<open>parseFloat\<close>. A cell is the decimal it holds; a column may also hold \<open>NaN\<close>.
\<close>

definition dec2 :: "rat \<Rightarrow> rat" where
  "dec2 x = sgn x * of_int \<lfloor>\<bar>x\<bar> * 100 + 1/2\<rfloor> / 100"

definition numericColumn :: "nat \<Rightarrow> jsnum \<Rightarrow> jsnum option" where
  "numericColumn digits v =
     (case v of
        NaN \<Rightarrow> Some NaN
      | Fin r \<Rightarrow> if \<bar>dec2 r\<bar> < 10 ^ digits then Some (Fin (dec2 r)) else None
      | _ \<Rightarrow> None)"

definition num :: "jsnum \<Rightarrow> jsnum \<Rightarrow> jsnum" where
  "num cell fallback =
     (case cell of Fin r \<Rightarrow> (case dbl r of Fin d \<Rightarrow> Fin d | _ \<Rightarrow> fallback) | _ \<Rightarrow> fallback)"

definition numOrNull :: "jsnum option \<Rightarrow> jsnum option" where
  "numOrNull cell =
     (case cell of
        Some (Fin r) \<Rightarrow> (case dbl r of Fin d \<Rightarrow> Some (Fin d) | _ \<Rightarrow> None)
      | _ \<Rightarrow> None)"

definition nullableColumn :: "nat \<Rightarrow> jsnum option \<Rightarrow> jsnum option option" where
  "nullableColumn digits v =
     (case v of None \<Rightarrow> Some None | Some x \<Rightarrow> map_option Some (numericColumn digits x))"

subsection \<open>Tables\<close>

record versionRow =
  w_id :: nat
  w_questionId :: nat
  w_versionNo :: int
  w_locale :: string
  w_promptMd :: string
  w_explanationMd :: "string option"
  w_difficulty :: int
  w_estSeconds :: int
  w_maxScore :: jsnum
  w_negativeScore :: jsnum
  w_publishedAt :: "int option"
  w_createdBy :: "string option"
  w_createdAt :: int

record questionRow =
  u_id :: nat
  u_kind :: questionKind
  u_status :: questionStatus
  u_currentVersionId :: "nat option"
  u_externalRef :: "string option"
  u_sourceLicense :: "string option"
  u_authorId :: "string option"
  u_exposureCount :: int
  u_archivedAt :: "int option"
  u_createdAt :: int

text \<open>A child row carries the version, or for skills the question, it belongs to. \<open>b_skillIds\<close> are the
  identifiers of the table of skills, of every organisation, which these operations only refer to.\<close>

record bank =
  b_questions :: "questionRow list"
  b_versions :: "versionRow list"
  b_options :: "(nat \<times> mcqOptionRecord) list"
  b_specs :: "(nat \<times> codingSpecRecord) list"
  b_cases :: "(nat \<times> testCaseRecord) list"
  b_keys :: "(nat \<times> nat \<times> answerKeyRecord) list"
  b_skills :: "(nat \<times> string \<times> jsnum) list"
  b_skillIds :: "string list"
  b_next :: nat

datatype dbFailure =
    Numeric_overflow | Foreign_key | Check_violation | Unique_violation | Immutable_version | Bad_text

definition rows_of :: "nat \<Rightarrow> (nat \<times> 'a) list \<Rightarrow> 'a list" where
  "rows_of key table = map snd (filter (\<lambda>row. fst row = key) table)"

subsection \<open>Reading\<close>

definition readOption :: "mcqOptionRecord \<Rightarrow> mcqOptionRecord" where
  "readOption r = r\<lparr> or_score_delta := numOrNull (or_score_delta r) \<rparr>"

definition readCase :: "testCaseRecord \<Rightarrow> testCaseRecord" where
  "readCase r = r\<lparr> tr_weight := num (tr_weight r) (Fin 1) \<rparr>"

definition readKey :: "answerKeyRecord \<Rightarrow> answerKeyRecord" where
  "readKey r = r\<lparr> kr_tolerance := numOrNull (kr_tolerance r), kr_score := num (kr_score r) (Fin 1) \<rparr>"

text \<open>
  The members of a \<open>jsonb\<close> object come back by the length of their keys in bytes and then bytewise; the
  object the driver's \<open>JSON.parse\<close> makes of them has the keys that are array indices first, and these
  ascend.
\<close>

definition arrayIndexKey :: "string \<Rightarrow> bool" where
  "arrayIndexKey k \<longleftrightarrow> k \<noteq> [] \<and> list_all is_digit k \<and> (k = ''0'' \<or> hd k \<noteq> CHR ''0'') \<and>
     foldl (\<lambda>n c. 10 * n + (of_char c - 48)) 0 k \<le> (4294967294 :: nat)"

definition jsonbKey :: "string \<Rightarrow> nat list" where
  "jsonbKey k = (if arrayIndexKey k then 0 else 1) # length (utf8 k) # utf8 k"

definition jsonbMap :: "(string, string) jsmap \<Rightarrow> (string, string) jsmap" where
  "jsonbMap m = sort_key (jsonbKey \<circ> fst) m"

definition readSpec :: "codingSpecRecord \<Rightarrow> codingSpecRecord" where
  "readSpec r = r\<lparr> sr_starter_code := jsonbMap (sr_starter_code r), sr_solution_code := jsonbMap (sr_solution_code r) \<rparr>"

record versionChildren =
  ch_options :: "mcqOptionRecord list"
  ch_coding_spec :: "codingSpecRecord option"
  ch_test_cases :: "testCaseRecord list"
  ch_answer_keys :: "answerKeyRecord list"

definition loadVersionChildren :: "bank \<Rightarrow> nat \<Rightarrow> versionChildren" where
  "loadVersionChildren b versionId = \<lparr>
     ch_options = map readOption (sort_key or_ordinal (rows_of versionId (b_options b))),
     ch_coding_spec = (case rows_of versionId (b_specs b) of [] \<Rightarrow> None | s # _ \<Rightarrow> Some (readSpec s)),
     ch_test_cases = map readCase (sort_key tr_ordinal (rows_of versionId (b_cases b))),
     ch_answer_keys = map (readKey \<circ> snd) (sort_key fst (rows_of versionId (b_keys b))) \<rparr>"

definition toVersionRecord :: "bank \<Rightarrow> versionRow \<Rightarrow> questionVersionRecord" where
  "toVersionRecord b row =
     (let children = loadVersionChildren b (w_id row) in
      \<lparr> vr_id = w_id row, vr_question_id = w_questionId row, vr_version_no = w_versionNo row,
        vr_locale = w_locale row, vr_prompt_md = w_promptMd row,
        vr_explanation_md = w_explanationMd row, vr_difficulty = w_difficulty row,
        vr_est_seconds = w_estSeconds row, vr_max_score = num (w_maxScore row) (Fin 1),
        vr_negative_score = num (w_negativeScore row) (Fin 0), vr_published_at = w_publishedAt row,
        vr_created_by = w_createdBy row, vr_created_at = w_createdAt row,
        vr_options = ch_options children, vr_coding_spec = ch_coding_spec children,
        vr_test_cases = ch_test_cases children, vr_answer_keys = ch_answer_keys children \<rparr>)"

definition getVersion :: "bank \<Rightarrow> nat \<Rightarrow> int \<Rightarrow> questionVersionRecord option" where
  "getVersion b questionId versionNo =
     map_option (toVersionRecord b)
       (List.find (\<lambda>r. w_questionId r = questionId \<and> w_versionNo r = versionNo) (b_versions b))"

text \<open>The row of the highest version number, \<open>ORDER BY version_no DESC LIMIT 1\<close>.\<close>

definition latestRow :: "bank \<Rightarrow> nat \<Rightarrow> versionRow option" where
  "latestRow b questionId =
     (case filter (\<lambda>r. w_questionId r = questionId) (b_versions b) of
        [] \<Rightarrow> None
      | rows \<Rightarrow> Some (last (sort_key w_versionNo rows)))"

definition getLatestVersion :: "bank \<Rightarrow> nat \<Rightarrow> questionVersionRecord option" where
  "getLatestVersion b questionId = map_option (toVersionRecord b) (latestRow b questionId)"

definition loadSkills :: "bank \<Rightarrow> nat \<Rightarrow> (string \<times> jsnum) list" where
  "loadSkills b questionId =
     map (\<lambda>(skill, weight). (skill, num weight (Fin 1))) (sort_key fst (rows_of questionId (b_skills b)))"

definition toQuestionRecord :: "bank \<Rightarrow> questionRow \<Rightarrow> questionRecord" where
  "toQuestionRecord b row = \<lparr>
     qr_id = u_id row, qr_kind = u_kind row, qr_status = u_status row,
     qr_external_ref = u_externalRef row, qr_source_license = u_sourceLicense row,
     qr_author_id = u_authorId row, qr_exposure_count = u_exposureCount row,
     qr_archived_at = u_archivedAt row, qr_created_at = u_createdAt row,
     qr_skills = loadSkills b (u_id row),
     qr_current_version =
       (case u_currentVersionId row of
          None \<Rightarrow> None
        | Some v \<Rightarrow> map_option (toVersionRecord b) (List.find (\<lambda>r. w_id r = v) (b_versions b))) \<rparr>"

definition getQuestionWithCurrentVersion :: "bank \<Rightarrow> nat \<Rightarrow> bool \<Rightarrow> questionRecord option" where
  "getQuestionWithCurrentVersion b questionId includeArchived =
     map_option (toQuestionRecord b)
       (List.find (\<lambda>q. u_id q = questionId \<and> (includeArchived \<or> u_archivedAt q = None)) (b_questions b))"

subsection \<open>Text a column takes\<close>

definition storable_text :: "string \<Rightarrow> bool" where
  "storable_text s \<longleftrightarrow> CHR 0x00 \<notin> set s"

definition optionTexts :: "string option \<Rightarrow> string list" where
  "optionTexts x = (case x of None \<Rightarrow> [] | Some s \<Rightarrow> [s])"

text \<open>The texts of a version's own row, and those of the rows under it.\<close>

definition versionTexts :: "versionContent \<Rightarrow> string list" where
  "versionTexts c = [vc_locale c, vc_promptMd c] @ optionTexts (vc_explanationMd c)"

definition specTexts :: "codingSpecContent \<Rightarrow> string list" where
  "specTexts s = sc_allowedLanguages s @ map fst (sc_starterCode s) @ map snd (sc_starterCode s) @
     map fst (sc_solutionCode s) @ map snd (sc_solutionCode s) @ [sc_gradingMode s] @
     optionTexts (sc_checkerCode s) @ optionTexts (sc_fixtureSql s)"

definition childTexts :: "versionContent \<Rightarrow> string list" where
  "childTexts c =
     concat (map (\<lambda>x. oc_bodyMd x # optionTexts (oc_rationaleMd x)) (vc_options c)) @
     (case vc_codingSpec c of None \<Rightarrow> [] | Some s \<Rightarrow> specTexts s) @
     concat (map (\<lambda>t. optionTexts (tc_label t) @ [tc_stdin t] @ optionTexts (tc_expectedStdout t) @
         (case tc_args t of None \<Rightarrow> [] | Some args \<Rightarrow> args) @ optionTexts (tc_assertionCode t)) (vc_testCases c)) @
     concat (map (\<lambda>k. [kc_matchType k, kc_pattern k]) (vc_answerKeys c))"

subsection \<open>Writing a version\<close>

definition createQuestion ::
  "questionKind \<Rightarrow> string option \<Rightarrow> string option \<Rightarrow> string option \<Rightarrow> int \<Rightarrow> bank \<Rightarrow>
    (dbFailure, questionRecord \<times> bank) result" where
  "createQuestion kind authorId sourceLicense externalRef createdAt b =
     (if \<not> list_all storable_text (optionTexts sourceLicense @ optionTexts externalRef) then Inl Bad_text
      else
        let row = \<lparr> u_id = b_next b, u_kind = kind, u_status = Draft, u_currentVersionId = None,
               u_externalRef = externalRef, u_sourceLicense = sourceLicense, u_authorId = authorId,
               u_exposureCount = 0, u_archivedAt = None, u_createdAt = createdAt \<rparr>;
             b' = b\<lparr> b_questions := b_questions b @ [row], b_next := b_next b + 1 \<rparr> in
         Inr (toQuestionRecord b' row, b'))"

definition optionRow :: "nat \<Rightarrow> nat \<Rightarrow> nat \<times> mcqOptionContent \<Rightarrow> (nat \<times> mcqOptionRecord) option" where
  "optionRow versionId n = (\<lambda>(index, opt).
     map_option (\<lambda>delta. (versionId,
         \<lparr> or_id = n + index, or_ordinal = index + 1, or_body_md = oc_bodyMd opt,
           or_is_correct = oc_isCorrect opt, or_score_delta = delta,
           or_rationale_md = oc_rationaleMd opt \<rparr>))
       (nullableColumn 4 (oc_scoreDelta opt)))"

text \<open>The row holds the two code maps as they are sent; their order is lost on the way back (\<open>readSpec\<close>).\<close>

definition specRow :: "nat \<Rightarrow> codingSpecContent \<Rightarrow> nat \<times> codingSpecRecord" where
  "specRow versionId spec = (versionId,
     \<lparr> sr_allowed_languages = sc_allowedLanguages spec, sr_starter_code = sc_starterCode spec,
       sr_solution_code = sc_solutionCode spec, sr_time_limit_ms = sc_timeLimitMs spec,
       sr_memory_limit_kb = sc_memoryLimitKb spec, sr_grading_mode = sc_gradingMode spec,
       sr_checker_code = sc_checkerCode spec, sr_fixture_sql = sc_fixtureSql spec \<rparr>)"

definition caseRow :: "nat \<Rightarrow> nat \<Rightarrow> nat \<times> testCaseContent \<Rightarrow> (nat \<times> testCaseRecord) option" where
  "caseRow versionId n = (\<lambda>(index, tc).
     map_option (\<lambda>weight. (versionId,
         \<lparr> tr_id = n + index, tr_ordinal = index + 1, tr_label = tc_label tc, tr_stdin = tc_stdin tc,
           tr_expected_stdout = tc_expectedStdout tc, tr_args = tc_args tc,
           tr_assertion_code = tc_assertionCode tc, tr_is_sample = tc_isSample tc,
           tr_weight = weight \<rparr>))
       (numericColumn 4 (tc_weight tc)))"

text \<open>The tolerance goes in as \<open>String(tolerance)\<close> into an unconstrained column, which reads back as
  the same double: the cell is the double itself.\<close>

definition keyRow :: "nat \<Rightarrow> nat \<Rightarrow> nat \<times> answerKeyContent \<Rightarrow> (nat \<times> nat \<times> answerKeyRecord) option" where
  "keyRow versionId n = (\<lambda>(ordinal, key).
     map_option (\<lambda>score. (versionId, ordinal,
         \<lparr> kr_id = n + ordinal, kr_match_type = kc_matchType key, kr_pattern = kc_pattern key,
           kr_tolerance = kc_tolerance key, kr_score = score \<rparr>))
       (numericColumn 4 (kc_score key)))"

text \<open>The unique keys of the child tables, hit when the version has such rows already.\<close>

definition children_clash :: "nat \<Rightarrow> versionContent \<Rightarrow> bank \<Rightarrow> bool" where
  "children_clash versionId content b \<longleftrightarrow>
     (vc_options content \<noteq> [] \<and> rows_of versionId (b_options b) \<noteq> []) \<or>
     (vc_codingSpec content \<noteq> None \<and> rows_of versionId (b_specs b) \<noteq> []) \<or>
     (vc_testCases content \<noteq> [] \<and> rows_of versionId (b_cases b) \<noteq> [])"

definition writeVersionChildren :: "nat \<Rightarrow> versionContent \<Rightarrow> bank \<Rightarrow> (dbFailure, bank) result" where
  "writeVersionChildren versionId content b =
     (let n = b_next b; n' = n + length (vc_options content); n'' = n' + length (vc_testCases content) in
      if \<not> list_all storable_text (childTexts content) then Inl Bad_text
      else if children_clash versionId content b then Inl Unique_violation
      else
        case (those (map (optionRow versionId n) (enumerate 0 (vc_options content))),
              those (map (caseRow versionId n') (enumerate 0 (vc_testCases content))),
              those (map (keyRow versionId n'') (enumerate 0 (vc_answerKeys content)))) of
          (Some os, Some cs, Some ks) \<Rightarrow>
            Inr (b\<lparr> b_options := b_options b @ os,
                    b_specs := b_specs b @ (case vc_codingSpec content of
                                 None \<Rightarrow> [] | Some spec \<Rightarrow> [specRow versionId spec]),
                    b_cases := b_cases b @ cs,
                    b_keys := b_keys b @ ks,
                    b_next := n'' + length (vc_answerKeys content) \<rparr>)
        | _ \<Rightarrow> Inl Numeric_overflow)"

definition createVersion ::
  "nat \<Rightarrow> versionContent \<Rightarrow> string option \<Rightarrow> int \<Rightarrow> bank \<Rightarrow> (dbFailure, questionVersionRecord \<times> bank) result" where
  "createVersion questionId content createdBy at_ms b =
     (let versionNo = (case latestRow b questionId of None \<Rightarrow> 0 | Some r \<Rightarrow> w_versionNo r) + 1 in
      if \<not> list_all storable_text (versionTexts content) then Inl Bad_text
      else case (numericColumn 4 (vc_maxScore content), numericColumn 4 (vc_negativeScore content)) of
        (Some maxScore, Some negativeScore) \<Rightarrow>
          if vc_difficulty content < 1 \<or> 5 < vc_difficulty content then Inl Check_violation
          else if questionId \<notin> u_id ` set (b_questions b) then Inl Foreign_key
          else
            let row = \<lparr> w_id = b_next b, w_questionId = questionId, w_versionNo = versionNo,
                  w_locale = vc_locale content, w_promptMd = vc_promptMd content,
                  w_explanationMd = vc_explanationMd content, w_difficulty = vc_difficulty content,
                  w_estSeconds = vc_estSeconds content, w_maxScore = maxScore,
                  w_negativeScore = negativeScore, w_publishedAt = None,
                  w_createdBy = createdBy, w_createdAt = at_ms \<rparr> in
            bindResult
              (writeVersionChildren (w_id row) content
                 (b\<lparr> b_versions := b_versions b @ [row], b_next := b_next b + 1 \<rparr>))
              (\<lambda>b'. Inr (toVersionRecord b' row, b'))
      | _ \<Rightarrow> Inl Numeric_overflow)"

text \<open>An \<open>UPDATE\<close> of version rows, with the trigger that refuses to touch a published one.\<close>

definition updateVersionRows ::
  "(versionRow \<Rightarrow> bool) \<Rightarrow> (versionRow \<Rightarrow> versionRow) \<Rightarrow> bank \<Rightarrow> (dbFailure, bank) result" where
  "updateVersionRows P f b =
     (if \<exists>r \<in> set (b_versions b). P r \<and> w_publishedAt r \<noteq> None then Inl Immutable_version
      else Inr (b\<lparr> b_versions := map (\<lambda>r. if P r then f r else r) (b_versions b) \<rparr>))"

definition deleteChildren :: "nat \<Rightarrow> bank \<Rightarrow> bank" where
  "deleteChildren versionId b =
     b\<lparr> b_options := filter (\<lambda>row. fst row \<noteq> versionId) (b_options b),
        b_specs := filter (\<lambda>row. fst row \<noteq> versionId) (b_specs b),
        b_cases := filter (\<lambda>row. fst row \<noteq> versionId) (b_cases b),
        b_keys := filter (\<lambda>row. fst row \<noteq> versionId) (b_keys b) \<rparr>"

definition draftRow :: "nat \<Rightarrow> int \<Rightarrow> versionRow \<Rightarrow> bool" where
  "draftRow questionId versionNo r \<longleftrightarrow>
     w_questionId r = questionId \<and> w_versionNo r = versionNo \<and> w_publishedAt r = None"

definition updateVersion ::
  "nat \<Rightarrow> int \<Rightarrow> versionContent \<Rightarrow> bank \<Rightarrow> (dbFailure, questionVersionRecord option \<times> bank) result" where
  "updateVersion questionId versionNo content b =
     (if \<not> list_all storable_text (versionTexts content) then Inl Bad_text
      else case List.find (draftRow questionId versionNo) (b_versions b) of
        None \<Rightarrow> Inr (None, b)
      | Some found \<Rightarrow>
          (case (numericColumn 4 (vc_maxScore content), numericColumn 4 (vc_negativeScore content)) of
             (Some maxScore, Some negativeScore) \<Rightarrow>
               let change = (\<lambda>r. r\<lparr> w_locale := vc_locale content, w_promptMd := vc_promptMd content,
                     w_explanationMd := vc_explanationMd content, w_difficulty := vc_difficulty content,
                     w_estSeconds := vc_estSeconds content, w_maxScore := maxScore,
                     w_negativeScore := negativeScore \<rparr>) in
               if vc_difficulty content < 1 \<or> 5 < vc_difficulty content then Inl Check_violation
               else
                 bindResult (updateVersionRows (draftRow questionId versionNo) change b) (\<lambda>b1.
                 bindResult (writeVersionChildren (w_id found) content (deleteChildren (w_id found) b1)) (\<lambda>b2.
                   Inr (Some (toVersionRecord b2 (change found)), b2)))
           | _ \<Rightarrow> Inl Numeric_overflow))"

definition publishVersion ::
  "nat \<Rightarrow> int \<Rightarrow> int \<Rightarrow> bank \<Rightarrow> (dbFailure, questionVersionRecord option \<times> bank) result" where
  "publishVersion questionId versionNo at_ms b =
     (case List.find (draftRow questionId versionNo) (b_versions b) of
        None \<Rightarrow> Inr (None, b)
      | Some found \<Rightarrow>
          bindResult (updateVersionRows (draftRow questionId versionNo)
              (\<lambda>r. r\<lparr> w_publishedAt := Some at_ms \<rparr>) b) (\<lambda>b1.
            let b2 = b1\<lparr> b_questions := map (\<lambda>q. if u_id q = questionId
                  then q\<lparr> u_currentVersionId := Some (w_id found) \<rparr> else q) (b_questions b1) \<rparr> in
            Inr (Some (toVersionRecord b2 (found\<lparr> w_publishedAt := Some at_ms \<rparr>)), b2)))"

subsection \<open>Writing a question\<close>

definition updateQuestion ::
  "(questionRow \<Rightarrow> bool) \<Rightarrow> (questionRow \<Rightarrow> questionRow) \<Rightarrow> bank \<Rightarrow> questionRecord option \<times> bank" where
  "updateQuestion P f b =
     (let b' = b\<lparr> b_questions := map (\<lambda>q. if P q then f q else q) (b_questions b) \<rparr> in
      (map_option (toQuestionRecord b' \<circ> f) (List.find P (b_questions b)), b'))"

definition setQuestionStatus :: "nat \<Rightarrow> questionStatus \<Rightarrow> bank \<Rightarrow> questionRecord option \<times> bank" where
  "setQuestionStatus questionId status =
     updateQuestion (\<lambda>q. u_id q = questionId \<and> u_archivedAt q = None) (\<lambda>q. q\<lparr> u_status := status \<rparr>)"

definition retireQuestion :: "nat \<Rightarrow> bank \<Rightarrow> questionRecord option \<times> bank" where
  "retireQuestion questionId = setQuestionStatus questionId Retired"

definition archiveQuestion :: "nat \<Rightarrow> int \<Rightarrow> bank \<Rightarrow> questionRecord option \<times> bank" where
  "archiveQuestion questionId at_ms =
     updateQuestion (\<lambda>q. u_id q = questionId \<and> u_archivedAt q = None)
       (\<lambda>q. q\<lparr> u_archivedAt := Some at_ms \<rparr>)"

definition restoreQuestion :: "nat \<Rightarrow> bank \<Rightarrow> questionRecord option \<times> bank" where
  "restoreQuestion questionId =
     updateQuestion (\<lambda>q. u_id q = questionId) (\<lambda>q. q\<lparr> u_archivedAt := None \<rparr>)"

definition setQuestionSkills ::
  "nat \<Rightarrow> (string \<times> jsnum) list \<Rightarrow> bank \<Rightarrow> (dbFailure, bank) result" where
  "setQuestionSkills questionId skills b =
     (let b' = b\<lparr> b_skills := filter (\<lambda>row. fst row \<noteq> questionId) (b_skills b) \<rparr> in
      if skills = [] then Inr b'
      else if \<not> distinct (map fst skills) then Inl Unique_violation
      else if \<not> set (map fst skills) \<subseteq> set (b_skillIds b) then Inl Foreign_key
      else
        (case those (map (\<lambda>(skill, weight). map_option (\<lambda>w. (questionId, skill, w)) (numericColumn 2 weight)) skills) of
           Some rows \<Rightarrow> Inr (b'\<lparr> b_skills := b_skills b' @ rows \<rparr>)
         | None \<Rightarrow> Inl Numeric_overflow))"

subsection \<open>Well-formed banks\<close>

definition numbered :: "versionRow list \<Rightarrow> bool" where
  "numbered rows \<longleftrightarrow> map w_versionNo rows = map int [1..<Suc (length rows)]"

definition owned_rows :: "bank \<Rightarrow> bool" where
  "owned_rows b \<longleftrightarrow>
     fst ` set (b_options b) \<subseteq> w_id ` set (b_versions b) \<and>
     fst ` set (b_specs b) \<subseteq> w_id ` set (b_versions b) \<and>
     fst ` set (b_cases b) \<subseteq> w_id ` set (b_versions b) \<and>
     fst ` set (b_keys b) \<subseteq> w_id ` set (b_versions b)"

definition bank_wf :: "bank \<Rightarrow> bool" where
  "bank_wf b \<longleftrightarrow>
     distinct (map u_id (b_questions b)) \<and> (\<forall>q \<in> set (b_questions b). u_id q < b_next b) \<and>
     distinct (map w_id (b_versions b)) \<and> (\<forall>r \<in> set (b_versions b). w_id r < b_next b) \<and>
     (\<forall>r \<in> set (b_versions b). w_questionId r \<in> u_id ` set (b_questions b)) \<and>
     (\<forall>q. numbered (filter (\<lambda>r. w_questionId r = q) (b_versions b))) \<and>
     owned_rows b"

definition same_children :: "bank \<Rightarrow> bank \<Rightarrow> nat \<Rightarrow> bool" where
  "same_children b b' v \<longleftrightarrow>
     rows_of v (b_options b') = rows_of v (b_options b) \<and> rows_of v (b_specs b') = rows_of v (b_specs b) \<and>
     rows_of v (b_cases b') = rows_of v (b_cases b) \<and> rows_of v (b_keys b') = rows_of v (b_keys b)"

text \<open>Published rows are kept as they are, with their children.\<close>

definition frozen :: "bank \<Rightarrow> bank \<Rightarrow> bool" where
  "frozen b b' \<longleftrightarrow>
     (\<forall>r \<in> set (b_versions b). w_publishedAt r \<noteq> None \<longrightarrow>
        r \<in> set (b_versions b') \<and> same_children b b' (w_id r))"

lemma same_children_refl [simp]: "same_children b b v"
  by (simp add: same_children_def)

lemma same_children_trans: "same_children b b' v \<Longrightarrow> same_children b' b'' v \<Longrightarrow> same_children b b'' v"
  by (simp add: same_children_def)

lemma frozen_refl [simp]: "frozen b b"
  by (simp add: frozen_def)

lemma frozen_trans: "frozen b b' \<Longrightarrow> frozen b' b'' \<Longrightarrow> frozen b b''"
  unfolding frozen_def by (blast intro: same_children_trans)

lemma frozenI:
  assumes "\<And>r. r \<in> set (b_versions b) \<Longrightarrow> w_publishedAt r \<noteq> None \<Longrightarrow>
    r \<in> set (b_versions b') \<and> same_children b b' (w_id r)"
  shows "frozen b b'"
  using assms by (simp add: frozen_def)

lemma loadVersionChildren_same: "same_children b b' v \<Longrightarrow> loadVersionChildren b' v = loadVersionChildren b v"
  by (simp add: same_children_def loadVersionChildren_def)

lemma frozen_record:
  "frozen b b' \<Longrightarrow> r \<in> set (b_versions b) \<Longrightarrow> w_publishedAt r \<noteq> None \<Longrightarrow>
    r \<in> set (b_versions b') \<and> toVersionRecord b' r = toVersionRecord b r"
  unfolding frozen_def toVersionRecord_def using loadVersionChildren_same [of b b' "w_id r"] by auto

lemma those_eq_Some: "those xs = Some ys \<longleftrightarrow> xs = map Some ys"
  by (induction xs arbitrary: ys) (auto split: option.splits)

lemma rows_of_append [simp]: "rows_of v (xs @ ys) = rows_of v xs @ rows_of v ys"
  by (simp add: rows_of_def)

lemma rows_of_other: "(\<And>y. y \<in> set ys \<Longrightarrow> fst y = w) \<Longrightarrow> v \<noteq> w \<Longrightarrow> rows_of v ys = []"
  by (auto simp: rows_of_def filter_empty_conv)

lemma rows_of_own: "(\<And>y. y \<in> set ys \<Longrightarrow> fst y = v) \<Longrightarrow> rows_of v ys = map snd ys"
  by (simp add: rows_of_def filter_id_conv)

lemma rows_of_filter [simp]: "rows_of v (filter (\<lambda>row. fst row \<noteq> w) ys) = (if v = w then [] else rows_of v ys)"
  by (auto simp: rows_of_def filter_empty_conv intro: arg_cong [of _ _ "map snd"] filter_cong)

lemma rows_of_Nil_iff: "rows_of v ys = [] \<longleftrightarrow> v \<notin> fst ` set ys"
  by (auto simp: rows_of_def filter_empty_conv)

text \<open>Where a list of rows is written, each belongs to the version it is written for.\<close>

lemma written_rows:
  assumes "those (map f xs) = Some ys" "\<And>x y. f x = Some y \<Longrightarrow> fst y = v"
  shows "\<And>y. y \<in> set ys \<Longrightarrow> fst y = v"
proof -
  fix y assume "y \<in> set ys"
  then have "Some y \<in> set (map f xs)" using assms(1) unfolding those_eq_Some by (metis image_eqI list.set_map)
  then obtain x where "f x = Some y" by auto
  then show "fst y = v" by (rule assms(2))
qed

lemma row_owner:
  "optionRow v n x = Some y \<Longrightarrow> fst y = v"
  "caseRow v n x' = Some y' \<Longrightarrow> fst y' = v"
  "keyRow v n x'' = Some y'' \<Longrightarrow> fst y'' = v"
  by (auto simp: optionRow_def caseRow_def keyRow_def split: prod.splits)

lemma writeVersionChildren_Inr:
  assumes "writeVersionChildren v content b = Inr b'"
  obtains os cs ks where
    "those (map (optionRow v (b_next b)) (enumerate 0 (vc_options content))) = Some os"
    "those (map (caseRow v (b_next b + length (vc_options content))) (enumerate 0 (vc_testCases content))) = Some cs"
    "those (map (keyRow v (b_next b + length (vc_options content) + length (vc_testCases content)))
       (enumerate 0 (vc_answerKeys content))) = Some ks"
    "b' = b\<lparr> b_options := b_options b @ os,
           b_specs := b_specs b @ (case vc_codingSpec content of None \<Rightarrow> [] | Some spec \<Rightarrow> [specRow v spec]),
           b_cases := b_cases b @ cs, b_keys := b_keys b @ ks,
           b_next := b_next b + length (vc_options content) + length (vc_testCases content) +
             length (vc_answerKeys content) \<rparr>"
  using assms unfolding writeVersionChildren_def Let_def
  by (auto split: if_split_asm option.split_asm)

lemma writeVersionChildren_skillIds: "writeVersionChildren v content b = Inr b' \<Longrightarrow> b_skillIds b' = b_skillIds b"
  by (elim writeVersionChildren_Inr) simp

lemma writeVersionChildren_effect:
  assumes w: "writeVersionChildren v content b = Inr b'"
  shows "b_questions b' = b_questions b" "b_versions b' = b_versions b" "b_skills b' = b_skills b"
    "b_next b \<le> b_next b'" "u \<noteq> v \<Longrightarrow> same_children b b' u"
    "owned_rows b \<Longrightarrow> v \<in> w_id ` set (b_versions b) \<Longrightarrow> owned_rows b'"
proof -
  obtain os cs ks where rows:
      "those (map (optionRow v (b_next b)) (enumerate 0 (vc_options content))) = Some os"
      "those (map (caseRow v (b_next b + length (vc_options content))) (enumerate 0 (vc_testCases content))) = Some cs"
      "those (map (keyRow v (b_next b + length (vc_options content) + length (vc_testCases content)))
         (enumerate 0 (vc_answerKeys content))) = Some ks"
    and b': "b' = b\<lparr> b_options := b_options b @ os,
           b_specs := b_specs b @ (case vc_codingSpec content of None \<Rightarrow> [] | Some spec \<Rightarrow> [specRow v spec]),
           b_cases := b_cases b @ cs, b_keys := b_keys b @ ks,
           b_next := b_next b + length (vc_options content) + length (vc_testCases content) +
             length (vc_answerKeys content) \<rparr>"
    using writeVersionChildren_Inr [OF w] by blast
  have o: "\<And>y. y \<in> set os \<Longrightarrow> fst y = v" and c: "\<And>y. y \<in> set cs \<Longrightarrow> fst y = v"
    and k: "\<And>y. y \<in> set ks \<Longrightarrow> fst y = v"
    by (rule written_rows [OF rows(1)] written_rows [OF rows(2)] written_rows [OF rows(3)];
        simp add: row_owner)+
  have s: "\<And>y. y \<in> set (case vc_codingSpec content of None \<Rightarrow> [] | Some spec \<Rightarrow> [specRow v spec]) \<Longrightarrow> fst y = v"
    by (auto simp: specRow_def split: option.splits)
  show "b_questions b' = b_questions b" "b_versions b' = b_versions b" "b_skills b' = b_skills b"
    "b_next b \<le> b_next b'"
    by (simp_all add: b')
  show "same_children b b' u" if "u \<noteq> v"
    unfolding same_children_def b'
    by (simp add: rows_of_other [of os, OF o that] rows_of_other [of cs, OF c that]
        rows_of_other [of ks, OF k that])
      (use that in \<open>auto simp: rows_of_def specRow_def split: option.splits\<close>)
  show "owned_rows b'" if "owned_rows b" "v \<in> w_id ` set (b_versions b)"
  proof -
    have "fst ` set os \<subseteq> {v}" "fst ` set cs \<subseteq> {v}" "fst ` set ks \<subseteq> {v}"
      "fst ` set (case vc_codingSpec content of None \<Rightarrow> [] | Some spec \<Rightarrow> [specRow v spec]) \<subseteq> {v}"
      using o c k s by blast+
    moreover have "A \<subseteq> {v} \<Longrightarrow> A \<subseteq> w_id ` set (b_versions b)" for A using that(2) by blast
    ultimately show ?thesis using that(1) unfolding owned_rows_def b' by (simp add: image_Un)
  qed
qed

lemma latestRow_None: "latestRow b q = None \<longleftrightarrow> filter (\<lambda>r. w_questionId r = q) (b_versions b) = []"
  by (simp add: latestRow_def split: list.splits)

lemma numbered_sorted: "numbered rows \<Longrightarrow> sorted (map w_versionNo rows)"
  by (simp add: numbered_def sorted_iff_nth_mono del: upt_Suc)

lemma latestRow_last:
  assumes "numbered (filter (\<lambda>r. w_questionId r = q) (b_versions b))"
    and ne: "filter (\<lambda>r. w_questionId r = q) (b_versions b) \<noteq> []"
  shows "latestRow b q = Some (last (filter (\<lambda>r. w_questionId r = q) (b_versions b)))"
proof -
  obtain x xs where c: "filter (\<lambda>r. w_questionId r = q) (b_versions b) = x # xs"
    using ne by (cases "filter (\<lambda>r. w_questionId r = q) (b_versions b)") simp_all
  have "sort_key w_versionNo (x # xs) = x # xs"
    using assms(1) numbered_sorted sort_key_id_if_sorted unfolding c by blast
  then show ?thesis unfolding latestRow_def c list.case by (rule arg_cong)
qed

lemma latestRow_numbered:
  assumes "numbered (filter (\<lambda>r. w_questionId r = q) (b_versions b))"
  shows "(case latestRow b q of None \<Rightarrow> 0 | Some r \<Rightarrow> w_versionNo r) =
    int (length (filter (\<lambda>r. w_questionId r = q) (b_versions b)))"
proof (cases "filter (\<lambda>r. w_questionId r = q) (b_versions b) = []")
  case False
  define rows where "rows = filter (\<lambda>r. w_questionId r = q) (b_versions b)"
  have ne: "rows \<noteq> []" using False by (simp add: rows_def)
  have "w_versionNo (last rows) = last (map w_versionNo rows)" using ne by (simp add: last_map)
  also have "\<dots> = int (length rows)"
    using assms ne unfolding rows_def [symmetric] numbered_def by (simp add: Suc_le_eq)
  finally show ?thesis using latestRow_last [OF assms False] by (simp add: rows_def)
qed (simp add: latestRow_None [THEN iffD2])

lemma numbered_snoc: "numbered (rows @ [r]) \<longleftrightarrow> numbered rows \<and> w_versionNo r = int (length rows) + 1"
  by (auto simp: numbered_def)

lemma createVersion_Inr:
  assumes "createVersion q content by_user t b = Inr (record, b')"
  obtains row b1 where
    "b1 = b\<lparr> b_versions := b_versions b @ [row], b_next := b_next b + 1 \<rparr>"
    "writeVersionChildren (w_id row) content b1 = Inr b'" "record = toVersionRecord b' row"
    "w_id row = b_next b" "w_questionId row = q" "w_publishedAt row = None" "q \<in> u_id ` set (b_questions b)"
    "w_versionNo row = (case latestRow b q of None \<Rightarrow> 0 | Some r \<Rightarrow> w_versionNo r) + 1"
    "numericColumn 4 (vc_maxScore content) = Some (w_maxScore row)"
    "numericColumn 4 (vc_negativeScore content) = Some (w_negativeScore row)"
    "w_locale row = vc_locale content" "w_promptMd row = vc_promptMd content"
    "w_explanationMd row = vc_explanationMd content" "w_difficulty row = vc_difficulty content"
    "w_estSeconds row = vc_estSeconds content"
  using assms unfolding createVersion_def Let_def
  by (auto simp: bindResult_Inr_iff split: option.split_asm if_split_asm)

lemma createVersion_skillIds: "createVersion q content by_user t b = Inr (record, b') \<Longrightarrow> b_skillIds b' = b_skillIds b"
  by (elim createVersion_Inr) (auto dest: writeVersionChildren_skillIds)

lemma createVersion_effect:
  assumes c: "createVersion q content by_user t b = Inr (record, b')" and wf: "bank_wf b"
  shows "bank_wf b'" "frozen b b'" "b_questions b' = b_questions b" "b_skills b' = b_skills b"
    "\<exists>row. b_versions b' = b_versions b @ [row] \<and> w_publishedAt row = None \<and> w_questionId row = q \<and>
       record = toVersionRecord b' row \<and> w_id row = b_next b \<and>
       w_versionNo row = int (length (filter (\<lambda>r. w_questionId r = q) (b_versions b))) + 1"
proof -
  obtain row b1 where b1: "b1 = b\<lparr> b_versions := b_versions b @ [row], b_next := b_next b + 1 \<rparr>"
    and wr: "writeVersionChildren (w_id row) content b1 = Inr b'" and rec: "record = toVersionRecord b' row"
    and row: "w_id row = b_next b" "w_questionId row = q" "w_publishedAt row = None"
      "q \<in> u_id ` set (b_questions b)"
      "w_versionNo row = (case latestRow b q of None \<Rightarrow> 0 | Some r \<Rightarrow> w_versionNo r) + 1"
    by (rule createVersion_Inr [OF c])
  note e = writeVersionChildren_effect [OF wr]
  have num: "numbered (filter (\<lambda>r. w_questionId r = u) (b_versions b))" for u
    using wf by (simp add: bank_wf_def)
  have no: "w_versionNo row = int (length (filter (\<lambda>r. w_questionId r = q) (b_versions b))) + 1"
    using row(5) latestRow_numbered [OF num [of q]] by simp
  have "b_next b < b_next b'" using e(4) by (simp add: b1)
  moreover have "owned_rows b'"
    by (rule e(6)) (use wf in \<open>auto simp: b1 bank_wf_def owned_rows_def\<close>)
  moreover have "numbered (filter (\<lambda>r. w_questionId r = u) (b_versions b'))" for u
    using num [of u] no row(2) by (auto simp: e(2) b1 numbered_snoc)
  ultimately show "bank_wf b'"
    using wf row(1,2,4) unfolding bank_wf_def e(1,2) by (auto simp: b1 dest: less_imp_neq intro: less_trans)
  show "b_questions b' = b_questions b" "b_skills b' = b_skills b" by (simp_all add: e b1)
  show "\<exists>row. b_versions b' = b_versions b @ [row] \<and> w_publishedAt row = None \<and> w_questionId row = q \<and>
      record = toVersionRecord b' row \<and> w_id row = b_next b \<and>
      w_versionNo row = int (length (filter (\<lambda>r. w_questionId r = q) (b_versions b))) + 1"
    using e(2) row(1-3) rec no by (intro exI [of _ row]) (simp add: b1)
  show "frozen b b'"
  proof (rule frozenI, rule conjI)
    fix r assume r: "r \<in> set (b_versions b)"
    then have "w_id r \<noteq> w_id row" using wf row(1) by (auto simp: bank_wf_def)
    then have "same_children b1 b' (w_id r)" by (rule e(5))
    then show "same_children b b' (w_id r)" by (simp add: same_children_def b1)
    show "r \<in> set (b_versions b')" using r by (simp add: e(2) b1)
  qed
qed

text \<open>Rewriting rows in place, keys untouched.\<close>

definition keeps_keys :: "(versionRow \<Rightarrow> versionRow) \<Rightarrow> bool" where
  "keeps_keys g \<longleftrightarrow>
     (\<forall>r. w_id (g r) = w_id r \<and> w_questionId (g r) = w_questionId r \<and> w_versionNo (g r) = w_versionNo r)"

lemma bank_wf_map_versions:
  assumes "bank_wf b" "keeps_keys g"
  shows "bank_wf (b\<lparr> b_versions := map g (b_versions b) \<rparr>)"
proof -
  have k: "w_id \<circ> g = w_id" "w_versionNo \<circ> g = w_versionNo" "\<And>r. w_questionId (g r) = w_questionId r"
    "\<And>r. w_id (g r) = w_id r"
    using assms(2) by (auto simp: keeps_keys_def)
  have "numbered (filter (\<lambda>r. w_questionId r = q) (map g (b_versions b))) \<longleftrightarrow>
      numbered (filter (\<lambda>r. w_questionId r = q) (b_versions b))" for q
    using k(2,3) by (simp add: numbered_def filter_map comp_def fun_eq_iff del: upt_Suc)
  then show ?thesis
    using assms(1) k unfolding bank_wf_def owned_rows_def by (simp add: image_image)
qed

lemma updateVersionRows_draft:
  "updateVersionRows (draftRow q no) f b =
    Inr (b\<lparr> b_versions := map (\<lambda>r. if draftRow q no r then f r else r) (b_versions b) \<rparr>)"
  by (auto simp: updateVersionRows_def draftRow_def)

lemma find_draft:
  "List.find P xs = Some x \<Longrightarrow> x \<in> set xs \<and> P x"
  by (auto simp: find_Some_iff)

lemma deleteChildren_skillIds [simp]: "b_skillIds (deleteChildren v b) = b_skillIds b"
  by (simp add: deleteChildren_def)

lemma deleteChildren_fields [simp]:
  "b_questions (deleteChildren v b) = b_questions b" "b_versions (deleteChildren v b) = b_versions b"
  "b_skills (deleteChildren v b) = b_skills b" "b_next (deleteChildren v b) = b_next b"
  by (simp_all add: deleteChildren_def)

lemma deleteChildren_same: "u \<noteq> v \<Longrightarrow> same_children b (deleteChildren v b) u"
  by (simp add: same_children_def deleteChildren_def)

lemma deleteChildren_owned: "owned_rows b \<Longrightarrow> owned_rows (deleteChildren v b)"
  unfolding owned_rows_def deleteChildren_def by auto

lemma published_is_other:
  assumes "bank_wf b" "r \<in> set (b_versions b)" "w_publishedAt r \<noteq> None"
    "found \<in> set (b_versions b)" "w_publishedAt found = None"
  shows "w_id r \<noteq> w_id found"
proof
  assume eq: "w_id r = w_id found"
  have inj: "inj_on w_id (set (b_versions b))" using assms(1) by (simp add: bank_wf_def distinct_map)
  have "r = found" by (rule inj_onD [OF inj eq assms(2,4)])
  then show False using assms(3,5) by simp
qed

lemma updateVersion_Inr:
  assumes "updateVersion q no content b = Inr (record, b')"
  obtains (absent) "List.find (draftRow q no) (b_versions b) = None" "record = None" "b' = b"
  | (changed) found g b1 where "List.find (draftRow q no) (b_versions b) = Some found"
      "keeps_keys g" "\<And>r. w_publishedAt (g r) = w_publishedAt r" "\<And>r. \<not> draftRow q no r \<Longrightarrow> g r = r"
      "b1 = b\<lparr> b_versions := map g (b_versions b) \<rparr>"
      "writeVersionChildren (w_id found) content (deleteChildren (w_id found) b1) = Inr b'"
      "record = Some (toVersionRecord b' (g found))"
      "numericColumn 4 (vc_maxScore content) = Some (w_maxScore (g found))"
      "numericColumn 4 (vc_negativeScore content) = Some (w_negativeScore (g found))"
      "w_locale (g found) = vc_locale content" "w_promptMd (g found) = vc_promptMd content"
      "w_explanationMd (g found) = vc_explanationMd content"
      "w_difficulty (g found) = vc_difficulty content" "w_estSeconds (g found) = vc_estSeconds content"
proof (cases "List.find (draftRow q no) (b_versions b)")
  case None
  show ?thesis by (rule absent [OF None]) (use assms None in \<open>simp_all add: updateVersion_def split: if_split_asm\<close>)
next
  case (Some found)
  obtain mx ng where m: "numericColumn 4 (vc_maxScore content) = Some mx"
      "numericColumn 4 (vc_negativeScore content) = Some ng"
    using assms by (auto simp: updateVersion_def Some split: option.split_asm if_split_asm)
  define change where "change r = r\<lparr> w_locale := vc_locale content, w_promptMd := vc_promptMd content,
      w_explanationMd := vc_explanationMd content, w_difficulty := vc_difficulty content,
      w_estSeconds := vc_estSeconds content, w_maxScore := mx, w_negativeScore := ng \<rparr>" for r :: versionRow
  define g where "g r = (if draftRow q no r then change r else r)" for r :: versionRow
  have d: "draftRow q no found" using find_draft [OF Some] by simp
  have e: "writeVersionChildren (w_id found) content
        (deleteChildren (w_id found) (b\<lparr> b_versions := map g (b_versions b) \<rparr>)) = Inr b' \<and>
      record = Some (toVersionRecord b' (change found))"
    using assms unfolding updateVersion_def Some option.case m prod.case Let_def change_def [symmetric]
      updateVersionRows_draft g_def [symmetric]
    by (auto simp: bindResult_Inr_iff g_def [symmetric] split: if_split_asm)
  have gf: "g found = change found" using d by (simp add: g_def)
  show ?thesis
    by (rule changed [OF Some, of g])
      (use e in \<open>simp_all add: gf m, simp_all add: keeps_keys_def g_def change_def\<close>)
qed

lemma updateVersion_skillIds: "updateVersion q no content b = Inr (record, b') \<Longrightarrow> b_skillIds b' = b_skillIds b"
  by (elim updateVersion_Inr) (auto dest: writeVersionChildren_skillIds)

lemma updateVersion_effect:
  assumes u: "updateVersion q no content b = Inr (record, b')" and wf: "bank_wf b"
  shows "bank_wf b' \<and> frozen b b' \<and> b_questions b' = b_questions b \<and> b_skills b' = b_skills b \<and>
    map w_publishedAt (b_versions b') = map w_publishedAt (b_versions b) \<and>
    map w_id (b_versions b') = map w_id (b_versions b) \<and>
    map w_questionId (b_versions b') = map w_questionId (b_versions b)"
  using u
proof (cases rule: updateVersion_Inr)
  case absent
  then show ?thesis using wf by simp
next
  case (changed found g b1)
  note e = writeVersionChildren_effect [OF changed(6)]
  have f: "found \<in> set (b_versions b)" "draftRow q no found" using find_draft [OF changed(1)] by auto
  have wf1: "bank_wf b1" unfolding changed(5) by (rule bank_wf_map_versions [OF wf changed(2)])
  have "w_id found \<in> w_id ` set (b_versions b1)"
    by (rule image_eqI [of _ _ "g found"]) (use f changed(2) in \<open>simp_all add: changed(5) keeps_keys_def\<close>)
  moreover have "owned_rows b1" using wf1 by (simp add: bank_wf_def)
  ultimately have "owned_rows b'" by (intro e(6) deleteChildren_owned) simp_all
  then have "bank_wf b'" using wf1 e(4) unfolding bank_wf_def e(1,2) by force
  moreover have "frozen b b'"
  proof (rule frozenI)
    fix r assume r: "r \<in> set (b_versions b)" "w_publishedAt r \<noteq> None"
    have "w_id r \<noteq> w_id found" by (rule published_is_other [OF wf r f(1)]) (use f(2) in \<open>simp add: draftRow_def\<close>)
    then have "same_children b1 b' (w_id r)" using same_children_trans [OF deleteChildren_same e(5)] by blast
    then have "same_children b b' (w_id r)" by (simp add: same_children_def changed(5))
    moreover have "r \<in> set (b_versions b')"
      using r changed(4) [of r] by (force simp: e(2) changed(5) draftRow_def)
    ultimately show "r \<in> set (b_versions b') \<and> same_children b b' (w_id r)" by blast
  qed
  ultimately show ?thesis using changed(2,3) by (simp add: e changed(5) keeps_keys_def)
qed

text \<open>The published versions, each with its question.\<close>

definition published_keys :: "bank \<Rightarrow> (nat \<times> nat) set" where
  "published_keys b =
     (\<lambda>r. (w_id r, w_questionId r)) ` {r \<in> set (b_versions b). w_publishedAt r \<noteq> None}"

text \<open>The pointer of a question: to a published version of its own, or nowhere while it has none.\<close>

definition pointer_ok :: "(nat \<times> nat) set \<Rightarrow> questionRow \<Rightarrow> bool" where
  "pointer_ok keys q \<longleftrightarrow>
     (case u_currentVersionId q of
        None \<Rightarrow> u_id q \<notin> snd ` keys
      | Some v \<Rightarrow> (v, u_id q) \<in> keys)"

definition pointers_ok :: "bank \<Rightarrow> bool" where
  "pointers_ok b \<longleftrightarrow> (\<forall>q \<in> set (b_questions b). pointer_ok (published_keys b) q)"

lemma published_keys_append: "b_versions b' = b_versions b @ [row] \<Longrightarrow> w_publishedAt row = None \<Longrightarrow>
    published_keys b' = published_keys b"
  by (auto simp: published_keys_def)

lemma published_keys_zip:
  "published_keys b = (\<lambda>(i, q, t). (i, q)) ` {p \<in> set (zip (map w_id (b_versions b))
     (zip (map w_questionId (b_versions b)) (map w_publishedAt (b_versions b)))). snd (snd p) \<noteq> None}"
  unfolding published_keys_def by (force simp: zip_map_map zip_same_conv_map)

lemma published_keys_same:
  assumes "map w_id (b_versions b') = map w_id (b_versions b)"
    "map w_questionId (b_versions b') = map w_questionId (b_versions b)"
    "map w_publishedAt (b_versions b') = map w_publishedAt (b_versions b)"
  shows "published_keys b' = published_keys b"
  unfolding published_keys_zip assms ..

definition stamped :: "nat \<Rightarrow> int \<Rightarrow> int \<Rightarrow> versionRow \<Rightarrow> versionRow" where
  "stamped q no t r = (if draftRow q no r then r\<lparr> w_publishedAt := Some t \<rparr> else r)"

lemma keeps_keys_stamped: "keeps_keys (stamped q no t)"
  by (simp add: keeps_keys_def stamped_def)

lemma publishVersion_Inr:
  assumes "publishVersion q no t b = Inr (record, b')"
  obtains (absent) "List.find (draftRow q no) (b_versions b) = None" "record = None" "b' = b"
  | (changed) found where "List.find (draftRow q no) (b_versions b) = Some found"
      "b' = b\<lparr> b_versions := map (stamped q no t) (b_versions b),
             b_questions := map (\<lambda>u. if u_id u = q then u\<lparr> u_currentVersionId := Some (w_id found) \<rparr> else u)
               (b_questions b) \<rparr>"
      "record = Some (toVersionRecord b' (stamped q no t found))"
proof (cases "List.find (draftRow q no) (b_versions b)")
  case None
  show ?thesis by (rule absent [OF None]) (use assms None in \<open>simp_all add: publishVersion_def\<close>)
next
  case (Some found)
  have d: "draftRow q no found" using find_draft [OF Some] by simp
  show ?thesis
    by (rule changed [OF Some])
      (use assms d in \<open>auto simp: publishVersion_def Let_def Some updateVersionRows_draft stamped_def [abs_def]\<close>)
qed

lemma draft_unique:
  assumes wf: "bank_wf b" and r: "r \<in> set (b_versions b)" "s \<in> set (b_versions b)"
    and same: "w_questionId r = w_questionId s" "w_versionNo r = w_versionNo s"
  shows "r = s"
proof -
  define rows where "rows = filter (\<lambda>x. w_questionId x = w_questionId s) (b_versions b)"
  have "map w_versionNo rows = map int [1..<Suc (length rows)]"
    using wf by (simp add: bank_wf_def numbered_def rows_def del: upt_Suc)
  then have "distinct (map w_versionNo rows)" by (simp add: distinct_map inj_on_def del: upt_Suc)
  then have inj: "inj_on w_versionNo (set rows)" by (simp add: distinct_map)
  show ?thesis by (rule inj_onD [OF inj same(2)]) (use r same(1) in \<open>simp_all add: rows_def\<close>)
qed

lemma published_keys_publish:
  assumes wf: "bank_wf b" and f: "List.find (draftRow q no) (b_versions b) = Some found"
    and v: "b_versions b' = map (stamped q no t) (b_versions b)"
  shows "published_keys b' = insert (w_id found, q) (published_keys b)"
proof -
  have found: "found \<in> set (b_versions b)" "draftRow q no found" using find_draft [OF f] by auto
  have uniq: "r = found" if "r \<in> set (b_versions b)" "draftRow q no r" for r
    by (rule draft_unique [OF wf that(1) found(1)]) (use that(2) found(2) in \<open>simp_all add: draftRow_def\<close>)
  have kept: "w_publishedAt r \<noteq> None \<Longrightarrow> stamped q no t r = r" for r
    by (simp add: stamped_def draftRow_def)
  have new: "w_publishedAt (stamped q no t found) \<noteq> None" using found(2) by (simp add: stamped_def)
  have "{s \<in> set (b_versions b'). w_publishedAt s \<noteq> None} =
      insert (stamped q no t found) {r \<in> set (b_versions b). w_publishedAt r \<noteq> None}" (is "?L = ?R")
  proof (rule set_eqI, rule iffI)
    fix s assume "s \<in> ?L"
    then obtain r where r: "r \<in> set (b_versions b)" "s = stamped q no t r" "w_publishedAt s \<noteq> None"
      by (auto simp: v)
    show "s \<in> ?R"
    proof (cases "draftRow q no r")
      case True
      then show ?thesis using uniq [OF r(1)] r(2) by simp
    next
      case False
      then show ?thesis using r by (simp add: stamped_def)
    qed
  next
    fix s assume "s \<in> ?R"
    then show "s \<in> ?L" using found(1) new kept [of s] by (auto simp: v intro: image_eqI [of _ _ s])
  qed
  then show ?thesis using found(2) by (simp add: published_keys_def stamped_def draftRow_def)
qed

lemma frozen_stamped:
  assumes "b_versions b' = map (stamped q no t) (b_versions b)" "\<And>v. same_children b b' v"
  shows "frozen b b'"
proof (rule frozenI)
  fix r assume r: "r \<in> set (b_versions b)" "w_publishedAt r \<noteq> None"
  then have "stamped q no t r = r" by (simp add: stamped_def draftRow_def)
  then show "r \<in> set (b_versions b') \<and> same_children b b' (w_id r)"
    using r assms by (auto intro: image_eqI [of _ _ r])
qed

lemma bank_wf_questions:
  assumes "bank_wf b" "map u_id us = map u_id (b_questions b)"
  shows "bank_wf (b\<lparr> b_questions := us \<rparr>)"
proof -
  have "u_id ` set us = u_id ` set (b_questions b)"
    using arg_cong [OF assms(2), of set] by simp
  moreover have "u_id u < b_next b" if "u \<in> set us" for u
  proof -
    have "u_id u \<in> u_id ` set (b_questions b)" using that calculation by blast
    then show ?thesis using assms(1) by (auto simp: bank_wf_def)
  qed
  ultimately show ?thesis using assms unfolding bank_wf_def owned_rows_def by simp
qed

subsection \<open>What is written is what is read\<close>

text \<open>The doubles an author can mean by a score of two decimals, within the range of the column.\<close>

definition hundredth :: "nat \<Rightarrow> jsnum \<Rightarrow> bool" where
  "hundredth digits v \<longleftrightarrow> (\<exists>k :: int. \<bar>k\<bar> < 100 * 10 ^ digits \<and> v = dbl (of_int k / 100))"

lemma dec2_nearest:
  assumes "\<bar>k\<bar> < 100 * 10 ^ 4"
  shows "dec2 (round_double (of_int k / 100)) = of_int k / 100"
proof (cases "k = 0")
  case False
  define x :: rat where "x = of_int k / 100"
  have kx: "\<bar>x\<bar> * 100 = of_int \<bar>k\<bar>" by (simp add: x_def)
  have k1: "1 \<le> \<bar>of_int k :: rat\<bar>" using False by (simp add: of_int_abs [symmetric] del: of_int_abs)
  have k2: "\<bar>of_int k :: rat\<bar> \<le> 10 ^ 6"
    using assms by (simp add: of_int_abs [symmetric] del: of_int_abs)
  have "1 / 2 ^ 100 \<le> \<bar>x\<bar>" using k1 by (simp add: x_def field_simps)
  then have near: "\<bar>round_double x - x\<bar> \<le> unit_roundoff * \<bar>x\<bar>" by (rule round_double_relative)
  have "unit_roundoff * \<bar>x\<bar> * 100 \<le> unit_roundoff * 10 ^ 6"
    using k2 by (simp add: x_def unit_roundoff_def)
  then have err: "\<bar>round_double x - x\<bar> * 100 < 1/2"
    using near by (simp add: unit_roundoff_def)
  have "\<bar>x\<bar> * 100 \<ge> 1" using k1 by (simp add: x_def)
  then have "sgn (round_double x) = sgn x" and ab: "\<bar>\<bar>round_double x\<bar> - \<bar>x\<bar>\<bar> * 100 < 1/2"
    using err by (auto simp: sgn_if abs_if split: if_splits)
  have "\<lfloor>\<bar>round_double x\<bar> * 100 + 1/2\<rfloor> = \<bar>k\<bar>"
    by (rule floor_unique) (use ab kx in \<open>auto simp: abs_if split: if_splits\<close>)
  then have "dec2 (round_double x) = sgn x * of_int \<bar>k\<bar> / 100"
    using \<open>sgn (round_double x) = sgn x\<close> by (simp add: dec2_def)
  also have "\<dots> = x" by (simp add: x_def sgn_if abs_if)
  finally show ?thesis by (simp add: x_def)
qed (simp add: dec2_def)

lemma hundredth_column_le:
  assumes "hundredth d v" "d \<le> 4"
  obtains c where "numericColumn d v = Some c" "\<And>fb. num c fb = v" "numOrNull (Some c) = Some v"
proof -
  obtain k :: int where k: "\<bar>k\<bar> < 100 * 10 ^ d" "v = dbl (of_int k / 100)"
    using assms(1) by (auto simp: hundredth_def)
  have "(10 :: int) ^ d \<le> 10 ^ 4" by (rule power_increasing [OF assms(2)]) simp
  then have k4: "\<bar>k\<bar> < 100 * 10 ^ 4" using k(1) by simp
  have "of_int \<bar>k\<bar> < (of_int (100 * 10 ^ d) :: rat)" using k(1) by (simp only: of_int_less_iff)
  then have kd: "\<bar>of_int k :: rat\<bar> < 100 * 10 ^ d" by simp
  have "\<bar>of_int k :: rat\<bar> < 100 * 10 ^ 4"
    using k4 by (simp add: of_int_abs [symmetric] del: of_int_abs)
  then have "\<bar>of_int k / 100 :: rat\<bar> \<le> 2 ^ 1000" by simp
  then have v: "v = Fin (round_double (of_int k / 100))" using k(2) by (simp add: dbl_bounded)
  have c: "numericColumn d v = Some (Fin (of_int k / 100))"
    using kd by (simp add: numericColumn_def v dec2_nearest [OF k4])
  show ?thesis
    by (rule that [OF c]) (simp_all add: num_def numOrNull_def v k(2) [unfolded v, symmetric])
qed

lemma hundredth_column:
  assumes "hundredth 4 v"
  obtains c where "numericColumn 4 v = Some c" "\<And>fb. num c fb = v" "numOrNull (Some c) = Some v"
  by (rule hundredth_column_le [OF assms order_refl]) (rule that)

definition storable_option :: "mcqOptionContent \<Rightarrow> bool" where
  "storable_option o' \<longleftrightarrow> (\<forall>x. oc_scoreDelta o' = Some x \<longrightarrow> hundredth 4 x)"

definition storable_key :: "answerKeyContent \<Rightarrow> bool" where
  "storable_key k \<longleftrightarrow> hundredth 4 (kc_score k) \<and>
     (\<forall>t. kc_tolerance k = Some t \<longrightarrow> (\<exists>r. t = Fin r \<and> dbl r = Fin r))"

definition storable :: "versionContent \<Rightarrow> bool" where
  "storable c \<longleftrightarrow>
     1 \<le> vc_difficulty c \<and> vc_difficulty c \<le> 5 \<and>
     hundredth 4 (vc_maxScore c) \<and> hundredth 4 (vc_negativeScore c) \<and>
     list_all storable_option (vc_options c) \<and>
     list_all (\<lambda>t. hundredth 4 (tc_weight t)) (vc_testCases c) \<and>
     list_all storable_key (vc_answerKeys c) \<and>
     list_all storable_text (versionTexts c @ childTexts c)"

text \<open>The content as it comes back: the two code maps in the order of \<open>jsonb\<close>.\<close>

definition storedSpec :: "codingSpecContent \<Rightarrow> codingSpecContent" where
  "storedSpec s = s\<lparr> sc_starterCode := jsonbMap (sc_starterCode s), sc_solutionCode := jsonbMap (sc_solutionCode s) \<rparr>"

definition asStored :: "versionContent \<Rightarrow> versionContent" where
  "asStored c = c\<lparr> vc_codingSpec := map_option storedSpec (vc_codingSpec c) \<rparr>"

lemma jsonbMap_idem [simp]: "jsonbMap (jsonbMap m) = jsonbMap m"
  unfolding jsonbMap_def by (rule sort_key_id_if_sorted) (metis map_map sorted_sort_key list.map_comp)

lemma set_jsonbMap [simp]: "set (jsonbMap m) = set m"
  by (simp add: jsonbMap_def)

lemma baseSpec_read: "baseSpec (readSpec r) = storedSpec (baseSpec r)"
  by (simp add: baseSpec_def readSpec_def storedSpec_def)

lemma asStored_idem [simp]: "asStored (asStored c) = asStored c"
  by (cases "vc_codingSpec c") (simp_all add: asStored_def storedSpec_def)

text \<open>What has been read once is in that order.\<close>

lemma asStored_read [simp]: "asStored (baseline (toVersionRecord b row)) = baseline (toVersionRecord b row)"
  by (auto simp: asStored_def storedSpec_def baseline_def toVersionRecord_def Let_def loadVersionChildren_def baseSpec_read
      option.map_comp split: list.split)

lemma childTexts_stored: "set (childTexts (asStored c)) = set (childTexts c)"
  by (cases "vc_codingSpec c") (simp_all add: asStored_def childTexts_def storedSpec_def specTexts_def)

lemma storable_asStored: "storable (asStored c) \<longleftrightarrow> storable c"
  using childTexts_stored [of c] by (simp add: storable_def list_all_iff asStored_def [of c] versionTexts_def)

lemma optionRow_reads:
  assumes "storable_option o'"
  shows "\<exists>y. optionRow v n (i, o') = Some (v, y) \<and> baseOption (readOption y) = o' \<and> or_ordinal y = i + 1"
proof (cases "oc_scoreDelta o'")
  case None
  then show ?thesis
    by (simp add: optionRow_def nullableColumn_def baseOption_def readOption_def numOrNull_def)
next
  case (Some x)
  obtain c where "numericColumn 4 x = Some c" "numOrNull (Some c) = Some x"
    by (rule hundredth_column [of x]) (use assms Some in \<open>simp add: storable_option_def\<close>)
  then show ?thesis
    using Some by (simp add: optionRow_def nullableColumn_def baseOption_def readOption_def)
qed

lemma caseRow_reads:
  assumes "hundredth 4 (tc_weight t)"
  shows "\<exists>y. caseRow v n (i, t) = Some (v, y) \<and> baseCase (readCase y) = t \<and> tr_ordinal y = i + 1"
  by (rule hundredth_column [OF assms]) (simp add: caseRow_def baseCase_def readCase_def)

lemma keyRow_reads:
  assumes "storable_key k"
  shows "\<exists>y. keyRow v n (i, k) = Some (v, y) \<and> baseKey (readKey (snd y)) = k \<and> fst y = i + 0"
proof -
  obtain c where c: "numericColumn 4 (kc_score k) = Some c" "num c (Fin 1) = kc_score k"
    by (rule hundredth_column [of "kc_score k"]) (use assms in \<open>simp_all add: storable_key_def\<close>)
  have "numOrNull (kc_tolerance k) = kc_tolerance k"
    using assms by (cases "kc_tolerance k") (auto simp: storable_key_def numOrNull_def)
  then show ?thesis using c by (simp add: keyRow_def baseKey_def readKey_def)
qed

lemma written_list:
  assumes "\<And>x i. x \<in> set xs \<Longrightarrow> \<exists>y. f (i, x) = Some (v, y) \<and> g y = x \<and> ord y = i + d"
  shows "\<exists>ys. those (map f (enumerate n xs)) = Some ys \<and> map (g \<circ> snd) ys = xs \<and>
    map (ord \<circ> snd) ys = [n + d ..< n + d + length xs] \<and> (\<forall>y \<in> set ys. fst y = v)"
  using assms
proof (induction xs arbitrary: n)
  case (Cons x xs)
  have "\<exists>ys. those (map f (enumerate (Suc n) xs)) = Some ys \<and> map (g \<circ> snd) ys = xs \<and>
      map (ord \<circ> snd) ys = [Suc n + d ..< Suc n + d + length xs] \<and> (\<forall>y \<in> set ys. fst y = v)"
    by (rule Cons.IH) (rule Cons.prems, simp)
  then obtain ys where ys: "those (map f (enumerate (Suc n) xs)) = Some ys" "map (g \<circ> snd) ys = xs"
      "map (ord \<circ> snd) ys = [Suc n + d ..< Suc n + d + length xs]" "\<forall>y \<in> set ys. fst y = v"
    by (elim exE conjE)
  obtain y where y: "f (n, x) = Some (v, y)" "g y = x" "ord y = n + d"
    using Cons.prems [of x n] by auto
  have "[n + d ..< n + d + length (x # xs)] = (n + d) # [Suc n + d ..< Suc n + d + length xs]"
    using upt_conv_Cons [of "n + d" "n + d + length (x # xs)"] by (simp del: upt_Suc)
  then show ?case using y ys by (intro exI [of _ "(v, y) # ys"]) (simp add: comp_def del: upt_Suc)
qed simp

lemma written_read:
  assumes "rows_of v old = []" "map (g \<circ> snd) ys = xs" "map (ord \<circ> snd) ys = [m ..< n]"
    "\<forall>y \<in> set ys. fst y = v"
  shows "map g (sort_key (ord :: _ \<Rightarrow> nat) (rows_of v (old @ ys))) = xs"
proof -
  have "rows_of v (old @ ys) = map snd ys" using assms(1) rows_of_own [OF bspec [OF assms(4)]] by simp
  moreover have "sorted (map ord (map snd ys))" using assms(3) by simp
  ultimately show ?thesis using assms(2) by (simp add: sort_key_id_if_sorted)
qed

lemma children_round_trip:
  assumes st: "storable content"
    and empty: "rows_of v (b_options b) = []" "rows_of v (b_specs b) = []"
      "rows_of v (b_cases b) = []" "rows_of v (b_keys b) = []"
  obtains b' where "writeVersionChildren v content b = Inr b'"
    "map baseOption (ch_options (loadVersionChildren b' v)) = vc_options content"
    "map_option baseSpec (ch_coding_spec (loadVersionChildren b' v)) = map_option storedSpec (vc_codingSpec content)"
    "map baseCase (ch_test_cases (loadVersionChildren b' v)) = vc_testCases content"
    "map baseKey (ch_answer_keys (loadVersionChildren b' v)) = vc_answerKeys content"
proof -
  let ?n = "b_next b" and ?n' = "b_next b + length (vc_options content)"
  let ?n'' = "b_next b + length (vc_options content) + length (vc_testCases content)"
  obtain os where os: "those (map (optionRow v ?n) (enumerate 0 (vc_options content))) = Some os"
      "map ((baseOption \<circ> readOption) \<circ> snd) os = vc_options content"
      "map (or_ordinal \<circ> snd) os = [0 + 1 ..< 0 + 1 + length (vc_options content)]" "\<forall>y \<in> set os. fst y = v"
    using written_list [of "vc_options content" "optionRow v ?n" v "baseOption \<circ> readOption" or_ordinal 1 0]
      optionRow_reads st by (auto simp: storable_def list_all_iff)
  obtain cs where cs: "those (map (caseRow v ?n') (enumerate 0 (vc_testCases content))) = Some cs"
      "map ((baseCase \<circ> readCase) \<circ> snd) cs = vc_testCases content"
      "map (tr_ordinal \<circ> snd) cs = [0 + 1 ..< 0 + 1 + length (vc_testCases content)]" "\<forall>y \<in> set cs. fst y = v"
    using written_list [of "vc_testCases content" "caseRow v ?n'" v "baseCase \<circ> readCase" tr_ordinal 1 0]
      caseRow_reads st by (auto simp: storable_def list_all_iff)
  obtain ks where ks: "those (map (keyRow v ?n'') (enumerate 0 (vc_answerKeys content))) = Some ks"
      "map ((baseKey \<circ> readKey \<circ> snd) \<circ> snd) ks = vc_answerKeys content"
      "map (fst \<circ> snd) ks = [0 + 0 ..< 0 + 0 + length (vc_answerKeys content)]" "\<forall>y \<in> set ks. fst y = v"
    using written_list [of "vc_answerKeys content" "keyRow v ?n''" v "baseKey \<circ> readKey \<circ> snd" fst 0 0]
      keyRow_reads st by (auto simp: storable_def list_all_iff)
  define b' where "b' = b\<lparr> b_options := b_options b @ os,
       b_specs := b_specs b @ (case vc_codingSpec content of None \<Rightarrow> [] | Some spec \<Rightarrow> [specRow v spec]),
       b_cases := b_cases b @ cs, b_keys := b_keys b @ ks,
       b_next := ?n'' + length (vc_answerKeys content) \<rparr>"
  have w: "writeVersionChildren v content b = Inr b'"
    using empty os(1) cs(1) ks(1) st by (simp add: writeVersionChildren_def Let_def children_clash_def b'_def storable_def)
  show ?thesis
  proof (rule that [OF w])
    show "map baseOption (ch_options (loadVersionChildren b' v)) = vc_options content"
      using written_read [OF empty(1) os(2,3,4)] by (simp add: loadVersionChildren_def b'_def)
    show "map baseCase (ch_test_cases (loadVersionChildren b' v)) = vc_testCases content"
      using written_read [OF empty(3) cs(2,3,4)] by (simp add: loadVersionChildren_def b'_def)
    show "map baseKey (ch_answer_keys (loadVersionChildren b' v)) = vc_answerKeys content"
      using written_read [OF empty(4) ks(2,3,4)] by (simp add: loadVersionChildren_def b'_def comp_def)
    have "rows_of v (b_specs b') = (case vc_codingSpec content of None \<Rightarrow> [] | Some spec \<Rightarrow> [snd (specRow v spec)])"
      using empty(2) by (auto simp: b'_def rows_of_def specRow_def split: option.splits)
    then show "map_option baseSpec (ch_coding_spec (loadVersionChildren b' v)) = map_option storedSpec (vc_codingSpec content)"
      by (cases "vc_codingSpec content") (simp_all add: loadVersionChildren_def baseSpec_read, simp add: specRow_def baseSpec_def storedSpec_def)
  qed
qed

end
