(* ===== verification/Bank_Invariants.thy ===== *)
theory Bank_Invariants
  imports Question_Bank
begin

text \<open>
  What every operation of the question repository keeps: well-formed tables, pointers to published
  versions of the same question, published versions as they were published, and the kind of every
  question. \<open>core_ok\<close> holds after each statement, \<open>bank_ok\<close> after each transaction.
\<close>

subsection \<open>The invariant and the relation\<close>

definition core_ok :: "bank \<Rightarrow> bool" where
  "core_ok b \<longleftrightarrow> bank_wf b \<and> pointers_ok b"

definition status_ok :: "questionRow \<Rightarrow> bool" where
  "status_ok q \<longleftrightarrow> (in_circulation (u_status q) \<longleftrightarrow> u_currentVersionId q \<noteq> None)"

definition bank_ok :: "bank \<Rightarrow> bool" where
  "bank_ok b \<longleftrightarrow> core_ok b \<and> (\<forall>q \<in> set (b_questions b). status_ok q)"

definition kinds_kept :: "bank \<Rightarrow> bank \<Rightarrow> bool" where
  "kinds_kept b b' \<longleftrightarrow>
     (\<forall>q' \<in> set (b_questions b'). u_id q' < b_next b \<longrightarrow>
        (u_id q', u_kind q') \<in> (\<lambda>q. (u_id q, u_kind q)) ` set (b_questions b))"

definition evolves :: "bank \<Rightarrow> bank \<Rightarrow> bool" where
  "evolves b b' \<longleftrightarrow> frozen b b' \<and> kinds_kept b b' \<and> b_next b \<le> b_next b' \<and> b_skillIds b' = b_skillIds b"

lemma evolves_refl [simp]: "evolves b b"
  by (force simp: evolves_def kinds_kept_def)

lemma evolves_trans:
  assumes "evolves b b'" "evolves b' b''"
  shows "evolves b b''"
proof -
  have "kinds_kept b b''"
    unfolding kinds_kept_def
  proof (intro ballI impI)
    fix q assume q: "q \<in> set (b_questions b'')" "u_id q < b_next b"
    then have "(u_id q, u_kind q) \<in> (\<lambda>q. (u_id q, u_kind q)) ` set (b_questions b')"
      using assms by (auto simp: evolves_def kinds_kept_def)
    then obtain q' where "q' \<in> set (b_questions b')" "u_id q' = u_id q" "u_kind q' = u_kind q" by auto
    then show "(u_id q, u_kind q) \<in> (\<lambda>q. (u_id q, u_kind q)) ` set (b_questions b)"
      using assms(1) q(2) unfolding evolves_def kinds_kept_def by metis
  qed
  then show ?thesis using assms by (auto simp: evolves_def intro: frozen_trans)
qed

lemma kinds_kept_same: "b_questions b' = b_questions b \<Longrightarrow> kinds_kept b b'"
  by (auto simp: kinds_kept_def)

lemma kinds_kept_map:
  assumes "b_questions b' = map f (b_questions b)" "\<And>q. u_id (f q) = u_id q \<and> u_kind (f q) = u_kind q"
  shows "kinds_kept b b'"
  unfolding kinds_kept_def assms(1) using assms(2) by force

lemma question_unique:
  assumes "bank_wf b" "q \<in> set (b_questions b)" "q' \<in> set (b_questions b)" "u_id q = u_id q'"
  shows "q = q'"
proof -
  have "inj_on u_id (set (b_questions b))" using assms(1) by (simp add: bank_wf_def distinct_map)
  then show ?thesis by (rule inj_onD) (use assms in simp_all)
qed

subsection \<open>Each operation\<close>

lemma createQuestion_core:
  assumes ok: "core_ok b" and c: "createQuestion kind author license ext t b = Inr (record, b')"
  shows "core_ok b' \<and> evolves b b' \<and> published_keys b' = published_keys b \<and> b_versions b' = b_versions b \<and>
    (\<exists>row. b_questions b' = b_questions b @ [row] \<and> u_id row = b_next b \<and> u_kind row = kind \<and>
       u_status row = Draft \<and> u_currentVersionId row = None \<and> u_archivedAt row = None \<and>
       record = toQuestionRecord b' row)"
proof -
  define row where "row = \<lparr> u_id = b_next b, u_kind = kind, u_status = Draft, u_currentVersionId = None,
      u_externalRef = ext, u_sourceLicense = license, u_authorId = author,
      u_exposureCount = 0, u_archivedAt = None, u_createdAt = t \<rparr>"
  have b': "b' = b\<lparr> b_questions := b_questions b @ [row], b_next := b_next b + 1 \<rparr>"
    and r: "record = toQuestionRecord b' row"
    using c by (auto simp: createQuestion_def Let_def row_def split: if_split_asm)
  have wf: "bank_wf b" using ok by (simp add: core_ok_def)
  have "bank_wf b'" using wf unfolding bank_wf_def owned_rows_def b' by (auto simp: row_def)
  moreover have keys: "published_keys b' = published_keys b" by (simp add: published_keys_def b')
  moreover have "b_next b \<notin> snd ` published_keys b"
    using wf by (force simp: published_keys_def bank_wf_def)
  ultimately have "core_ok b'"
    using ok by (auto simp: core_ok_def pointers_ok_def pointer_ok_def b' row_def)
  moreover have "frozen b b'" by (rule frozenI) (simp add: b' same_children_def)
  moreover have "kinds_kept b b'" by (auto simp: kinds_kept_def b' row_def)
  ultimately show ?thesis
    using keys r by (auto simp: evolves_def b' intro!: exI [of _ row]) (simp_all add: row_def)
qed

lemma createVersion_core:
  assumes ok: "core_ok b" and c: "createVersion q content by_user t b = Inr (record, b')"
  shows "core_ok b' \<and> evolves b b' \<and> published_keys b' = published_keys b \<and> b_questions b' = b_questions b"
proof -
  have wf: "bank_wf b" using ok by (simp add: core_ok_def)
  note e = createVersion_effect [OF c wf]
  obtain row where row: "b_versions b' = b_versions b @ [row]" "w_publishedAt row = None" using e(5) by blast
  have keys: "published_keys b' = published_keys b" by (rule published_keys_append [OF row])
  moreover have "w_id row < b_next b'" using e(1) row(1) by (simp add: bank_wf_def)
  moreover have "w_id row = b_next b" using e(5) row(1) by auto
  ultimately show ?thesis
    using ok e createVersion_skillIds [OF c] by (auto simp: core_ok_def pointers_ok_def evolves_def kinds_kept_same)
qed

lemma updateVersion_core:
  assumes ok: "core_ok b" and c: "updateVersion q no content b = Inr (record, b')"
  shows "core_ok b' \<and> evolves b b' \<and> published_keys b' = published_keys b \<and> b_questions b' = b_questions b"
proof -
  have wf: "bank_wf b" using ok by (simp add: core_ok_def)
  note e = updateVersion_effect [OF c wf]
  have keys: "published_keys b' = published_keys b" by (rule published_keys_same) (use e in simp_all)
  have "b_next b \<le> b_next b'"
    using c by (cases rule: updateVersion_Inr) (auto dest: writeVersionChildren_effect(4))
  then show ?thesis
    using ok e keys updateVersion_skillIds [OF c]
    by (auto simp: core_ok_def pointers_ok_def evolves_def kinds_kept_same)
qed

lemma publishVersion_core:
  assumes ok: "core_ok b" and c: "publishVersion q no t b = Inr (record, b')"
  shows "core_ok b' \<and> evolves b b' \<and>
    (record = None \<longrightarrow> b' = b) \<and>
    (record \<noteq> None \<longrightarrow> (\<exists>found \<in> set (b_versions b). draftRow q no found \<and>
       record = Some (toVersionRecord b' (stamped q no t found)) \<and>
       b_versions b' = map (stamped q no t) (b_versions b) \<and>
       (\<forall>v. same_children b b' v) \<and>
       b_questions b' = map (\<lambda>u. if u_id u = q then u\<lparr> u_currentVersionId := Some (w_id found) \<rparr> else u)
         (b_questions b)))"
  using c
proof (cases rule: publishVersion_Inr)
  case absent
  then show ?thesis using ok by simp
next
  case (changed found)
  have wf: "bank_wf b" using ok by (simp add: core_ok_def)
  have found: "found \<in> set (b_versions b)" "draftRow q no found" using find_draft [OF changed(1)] by auto
  define b1 where "b1 = b\<lparr> b_versions := map (stamped q no t) (b_versions b) \<rparr>"
  have "bank_wf b1" unfolding b1_def by (rule bank_wf_map_versions [OF wf keeps_keys_stamped])
  then have "bank_wf (b1\<lparr> b_questions := map (\<lambda>u. if u_id u = q then u\<lparr> u_currentVersionId := Some (w_id found) \<rparr> else u)
      (b_questions b) \<rparr>)"
    by (rule bank_wf_questions) (simp add: b1_def)
  then have wf': "bank_wf b'" by (simp add: changed(2) b1_def)
  have keys: "published_keys b' = insert (w_id found, q) (published_keys b)"
    by (rule published_keys_publish [OF wf changed(1), of b' t]) (simp add: changed(2))
  have "pointers_ok b'"
    using ok unfolding core_ok_def pointers_ok_def keys
    by (auto simp: changed(2) pointer_ok_def split: option.splits)
  moreover have same: "same_children b b' v" for v by (simp add: changed(2) same_children_def)
  moreover have "frozen b b'" by (rule frozen_stamped [of b' q no t, OF _ same]) (simp add: changed(2))
  moreover have "kinds_kept b b'" 
    by (rule kinds_kept_map [where f = "\<lambda>u. if u_id u = q then u\<lparr> u_currentVersionId := Some (w_id found) \<rparr> else u"])
      (simp_all add: changed(2))
  moreover have "b_versions b' = map (stamped q no t) (b_versions b)" "b_next b' = b_next b"
    "b_questions b' = map (\<lambda>u. if u_id u = q then u\<lparr> u_currentVersionId := Some (w_id found) \<rparr> else u)
       (b_questions b)" "b_skillIds b' = b_skillIds b"
    by (simp_all add: changed(2))
  ultimately show ?thesis
    using wf' found changed(3) unfolding core_ok_def evolves_def
    by (intro conjI impI bexI [of _ found]) simp_all
qed

lemma updateQuestion_core:
  assumes ok: "core_ok b" and c: "updateQuestion P f b = (record, b')"
    and f: "\<And>q. u_id (f q) = u_id q \<and> u_kind (f q) = u_kind q \<and> u_currentVersionId (f q) = u_currentVersionId q"
  shows "core_ok b' \<and> evolves b b' \<and> b_questions b' = map (\<lambda>q. if P q then f q else q) (b_questions b) \<and>
    b_versions b' = b_versions b \<and> (\<forall>v. same_children b b' v)"
proof -
  have b': "b' = b\<lparr> b_questions := map (\<lambda>q. if P q then f q else q) (b_questions b) \<rparr>"
    using c by (auto simp: updateQuestion_def Let_def)
  have "bank_wf b'"
    unfolding b' by (rule bank_wf_questions) (use ok f in \<open>simp_all add: core_ok_def\<close>)
  moreover have "published_keys b' = published_keys b" by (simp add: published_keys_def b')
  moreover have "pointer_ok keys (f q) = pointer_ok keys q" for keys q
    using f [of q] by (simp add: pointer_ok_def split: option.split)
  ultimately have "core_ok b'"
    using ok by (auto simp: core_ok_def pointers_ok_def b')
  moreover have same: "same_children b b' v" for v by (simp add: b' same_children_def)
  moreover have "frozen b b'" by (rule frozenI) (simp add: b' same_children_def)
  moreover have "kinds_kept b b'" 
    by (rule kinds_kept_map [where f = "\<lambda>q. if P q then f q else q"]) (use f in \<open>simp_all add: b'\<close>)
  ultimately show ?thesis by (auto simp: evolves_def b')
qed

lemma setQuestionSkills_core:
  assumes ok: "core_ok b" and c: "setQuestionSkills q skills b = Inr b'"
  shows "core_ok b' \<and> evolves b b' \<and> b_questions b' = b_questions b \<and> b_versions b' = b_versions b"
proof -
  obtain rows where b': "b' = b\<lparr> b_skills := rows \<rparr>"
    using c by (auto simp: setQuestionSkills_def Let_def split: if_split_asm option.split_asm)
  show ?thesis
    using ok unfolding b' core_ok_def bank_wf_def owned_rows_def pointers_ok_def published_keys_def
      evolves_def frozen_def same_children_def kinds_kept_def by auto
qed

subsection \<open>Reading back a version just written\<close>

lemma rows_of_fresh: "owned_rows b \<Longrightarrow> v \<notin> w_id ` set (b_versions b) \<Longrightarrow>
    rows_of v (b_options b) = [] \<and> rows_of v (b_specs b) = [] \<and>
    rows_of v (b_cases b) = [] \<and> rows_of v (b_keys b) = []"
  unfolding rows_of_Nil_iff owned_rows_def by (elim conjE) (intro conjI; erule contra_subsetD; assumption)

lemma baseline_of_row:
  assumes "map baseOption (ch_options (loadVersionChildren b (w_id row))) = vc_options content"
    "map_option baseSpec (ch_coding_spec (loadVersionChildren b (w_id row))) = map_option storedSpec (vc_codingSpec content)"
    "map baseCase (ch_test_cases (loadVersionChildren b (w_id row))) = vc_testCases content"
    "map baseKey (ch_answer_keys (loadVersionChildren b (w_id row))) = vc_answerKeys content"
    "num (w_maxScore row) (Fin 1) = vc_maxScore content"
    "num (w_negativeScore row) (Fin 0) = vc_negativeScore content"
    "w_locale row = vc_locale content" "w_promptMd row = vc_promptMd content"
    "w_explanationMd row = vc_explanationMd content" "w_difficulty row = vc_difficulty content"
    "w_estSeconds row = vc_estSeconds content"
  shows "baseline (toVersionRecord b row) = asStored content"
  using assms by (simp add: baseline_def toVersionRecord_def Let_def asStored_def)

lemma createVersion_reads:
  assumes wf: "bank_wf b" and st: "storable content" and q: "q \<in> u_id ` set (b_questions b)"
  obtains written b' where "createVersion q content by_user t b = Inr (written, b')"
    "baseline written = asStored content"
proof -
  obtain mx where mx: "numericColumn 4 (vc_maxScore content) = Some mx" "num mx (Fin 1) = vc_maxScore content"
    by (rule hundredth_column [of "vc_maxScore content"]) (use st in \<open>simp_all add: storable_def\<close>)
  obtain ng where ng: "numericColumn 4 (vc_negativeScore content) = Some ng"
      "num ng (Fin 0) = vc_negativeScore content"
    by (rule hundredth_column [of "vc_negativeScore content"]) (use st in \<open>simp_all add: storable_def\<close>)
  define row where "row = \<lparr> w_id = b_next b, w_questionId = q,
      w_versionNo = (case latestRow b q of None \<Rightarrow> 0 | Some r \<Rightarrow> w_versionNo r) + 1,
      w_locale = vc_locale content, w_promptMd = vc_promptMd content,
      w_explanationMd = vc_explanationMd content, w_difficulty = vc_difficulty content,
      w_estSeconds = vc_estSeconds content, w_maxScore = mx, w_negativeScore = ng,
      w_publishedAt = None, w_createdBy = by_user, w_createdAt = t \<rparr>"
  define b1 where "b1 = b\<lparr> b_versions := b_versions b @ [row], b_next := b_next b + 1 \<rparr>"
  have fresh: "b_next b \<notin> w_id ` set (b_versions b)" using wf by (auto simp: bank_wf_def)
  have none: "rows_of (b_next b) (b_options b1) = []" "rows_of (b_next b) (b_specs b1) = []"
    "rows_of (b_next b) (b_cases b1) = []" "rows_of (b_next b) (b_keys b1) = []"
    using rows_of_fresh [of b, OF _ fresh] wf by (simp_all add: b1_def bank_wf_def)
  obtain b' where w: "writeVersionChildren (b_next b) content b1 = Inr b'"
    and ch: "map baseOption (ch_options (loadVersionChildren b' (b_next b))) = vc_options content"
      "map_option baseSpec (ch_coding_spec (loadVersionChildren b' (b_next b))) = map_option storedSpec (vc_codingSpec content)"
      "map baseCase (ch_test_cases (loadVersionChildren b' (b_next b))) = vc_testCases content"
      "map baseKey (ch_answer_keys (loadVersionChildren b' (b_next b))) = vc_answerKeys content"
    by (rule children_round_trip [OF st none])
  have "createVersion q content by_user t b = Inr (toVersionRecord b' row, b')"
    using st q w unfolding createVersion_def mx(1) ng(1) Let_def
    by (simp add: storable_def row_def b1_def)
  moreover have "baseline (toVersionRecord b' row) = asStored content"
    by (rule baseline_of_row) (use ch mx ng in \<open>simp_all add: row_def\<close>)
  ultimately show ?thesis by (rule that)
qed

text \<open>The version just created is the one its number and the question's latest version name.\<close>

lemma find_last:
  "List.find P (xs @ [x]) = Some x" if "P x" "\<And>y. y \<in> set xs \<Longrightarrow> \<not> P y"
  using that by (induction xs) auto

lemma createVersion_found:
  assumes wf: "bank_wf b" and c: "createVersion q content by_user t b = Inr (record, b')"
  shows "getVersion b' q (vr_version_no record) = Some record \<and> getLatestVersion b' q = Some record"
proof -
  define n where "n = length (filter (\<lambda>r. w_questionId r = q) (b_versions b))"
  note e = createVersion_effect [OF c wf]
  obtain row where row: "b_versions b' = b_versions b @ [row]" "w_questionId row = q"
      "record = toVersionRecord b' row" "w_versionNo row = int n + 1"
    using e(5) unfolding n_def by blast
  have no: "vr_version_no record = w_versionNo row" by (simp add: row(3) toVersionRecord_def Let_def)
  define rows where "rows = filter (\<lambda>r. w_questionId r = q) (b_versions b)"
  have num: "map w_versionNo rows = map int [1..<Suc n]"
    using wf by (simp add: bank_wf_def numbered_def rows_def n_def del: upt_Suc)
  have below: "w_versionNo r \<le> int n" if "r \<in> set (b_versions b)" "w_questionId r = q" for r
  proof -
    have "w_versionNo r \<in> set (map w_versionNo rows)" using that by (simp add: rows_def)
    then show ?thesis unfolding num by auto
  qed
  have "List.find (\<lambda>r. w_questionId r = q \<and> w_versionNo r = w_versionNo row) (b_versions b @ [row]) = Some row"
    by (rule find_last) (use row below in force)+
  then have "getVersion b' q (vr_version_no record) = Some record"
    unfolding getVersion_def no row(1) by (simp add: row(3))
  moreover have "numbered (filter (\<lambda>r. w_questionId r = q) (b_versions b'))"
    using e(1) by (simp add: bank_wf_def)
  then have "latestRow b' q = Some row"
    using latestRow_last [of q b'] row(2) by (simp add: row(1))
  ultimately show ?thesis by (simp add: getLatestVersion_def row(3))
qed

end
