(* ===== verification/Question_View.thy ===== *)
theory Question_View
  imports Question_Content
begin

text \<open>
  The two serialisers of a question version (\<open>packages/contracts/src/questions.ts\<close>), the one for
  authors and the one for candidates, and the detector of answer-key fields
  (\<open>packages/contracts/src/audience.ts\<close>). \<open>isoText\<close> stands for \<open>Date.prototype.toISOString\<close>.
\<close>

subsection \<open>The detector\<close>

definition ANSWER_KEY_FIELDS :: "string list" where
  "ANSWER_KEY_FIELDS =
     [''is_correct'', ''isCorrect'', ''correct_option_ids'', ''correctOptionIds'', ''answer_key'',
      ''answerKey'', ''answer_keys'', ''answerKeys'', ''score_delta'', ''scoreDelta'',
      ''rationale_md'', ''rationaleMd'', ''solution_code'', ''solutionCode'', ''checker_code'',
      ''checkerCode'', ''expected_stdout'', ''expectedStdout'', ''expected_output'',
      ''expectedOutput'', ''assertion_code'', ''assertionCode'', ''match_type'', ''matchType'',
      ''pattern'', ''tolerance'', ''explanation_md'', ''explanationMd'']"

lemma enumerate_member: "(i, e) \<in> set (enumerate n xs) \<Longrightarrow> e \<in> set xs"
  by (auto simp: enumerate_eq_zip dest: set_zip_rightD)

lemma size_enumerate [termination_simp]:
  "(i, e) \<in> set (enumerate n entries) \<Longrightarrow> size e < Suc (size_list size entries)"
  by (drule enumerate_member) (simp add: size_list_estimation' less_Suc_eq_le)

lemma size_field [termination_simp]:
  "(k, v) \<in> set pairs \<Longrightarrow> size v < Suc (size_list (\<lambda>p. size (snd p)) pairs)"
  by (rule le_imp_less_Suc, rule size_list_estimation' [of "(k, v)"]) simp_all

fun findAnswerKeyFields :: "json \<Rightarrow> string \<Rightarrow> string list" where
  "findAnswerKeyFields (J_array entries) path =
     concat (map (\<lambda>(i, entry). findAnswerKeyFields entry (path @ ''['' @ decimal i @ '']''))
       (enumerate 0 entries))"
| "findAnswerKeyFields (J_object pairs) path =
     concat (map (\<lambda>(key, val).
         (if key \<in> set ANSWER_KEY_FIELDS then [path @ ''.'' @ key] else []) @
         findAnswerKeyFields val (path @ ''.'' @ key)) pairs)"
| "findAnswerKeyFields payload path = []"

subsection \<open>The author's view\<close>

definition J_int :: "int \<Rightarrow> json" where
  "J_int n = J_number (Fin (of_int n))"

definition dateAt :: "(int \<Rightarrow> string) \<Rightarrow> int option \<Rightarrow> json" where
  "dateAt isoText v = nullable (J_string \<circ> isoText) v"

definition J_id :: "nat \<Rightarrow> json" where
  "J_id n = J_string (decimal n)"

definition authorOption :: "mcqOptionRecord \<Rightarrow> json" where
  "authorOption r = J_object
     [(''id'', J_id (or_id r)), (''ordinal'', J_int (int (or_ordinal r))),
      (''body_md'', J_string (or_body_md r)), (''is_correct'', J_bool (or_is_correct r)),
      (''score_delta'', nullable J_number (or_score_delta r)),
      (''rationale_md'', nullable J_string (or_rationale_md r))]"

definition authorCodingSpec :: "codingSpecRecord \<Rightarrow> json" where
  "authorCodingSpec r = J_object
     [(''allowed_languages'', J_strings (sr_allowed_languages r)),
      (''starter_code'', J_record (sr_starter_code r)),
      (''solution_code'', J_record (sr_solution_code r)),
      (''time_limit_ms'', J_int (sr_time_limit_ms r)),
      (''memory_limit_kb'', J_int (sr_memory_limit_kb r)),
      (''grading_mode'', J_string (sr_grading_mode r)),
      (''checker_code'', nullable J_string (sr_checker_code r)),
      (''fixture_sql'', nullable J_string (sr_fixture_sql r))]"

definition authorTestCase :: "testCaseRecord \<Rightarrow> json" where
  "authorTestCase r = J_object
     [(''id'', J_id (tr_id r)), (''ordinal'', J_int (int (tr_ordinal r))),
      (''label'', nullable J_string (tr_label r)), (''stdin'', J_string (tr_stdin r)),
      (''expected_stdout'', nullable J_string (tr_expected_stdout r)),
      (''args'', nullable J_strings (tr_args r)),
      (''assertion_code'', nullable J_string (tr_assertion_code r)),
      (''is_sample'', J_bool (tr_is_sample r)), (''weight'', J_number (tr_weight r))]"

definition authorAnswerKey :: "answerKeyRecord \<Rightarrow> json" where
  "authorAnswerKey r = J_object
     [(''id'', J_id (kr_id r)), (''match_type'', J_string (kr_match_type r)),
      (''pattern'', J_string (kr_pattern r)), (''tolerance'', nullable J_number (kr_tolerance r)),
      (''score'', J_number (kr_score r))]"

definition toAuthorVersionView :: "(int \<Rightarrow> string) \<Rightarrow> questionVersionRecord \<Rightarrow> json" where
  "toAuthorVersionView isoText version = J_object
     [(''id'', J_id (vr_id version)), (''question_id'', J_id (vr_question_id version)),
      (''version_no'', J_int (vr_version_no version)), (''locale'', J_string (vr_locale version)),
      (''prompt_md'', J_string (vr_prompt_md version)),
      (''explanation_md'', nullable J_string (vr_explanation_md version)),
      (''difficulty'', J_int (vr_difficulty version)),
      (''est_seconds'', J_int (vr_est_seconds version)),
      (''max_score'', J_number (vr_max_score version)),
      (''negative_score'', J_number (vr_negative_score version)),
      (''published_at'', dateAt isoText (vr_published_at version)),
      (''created_by'', nullable J_string (vr_created_by version)),
      (''created_at'', J_string (isoText (vr_created_at version))),
      (''options'', J_array (map authorOption (vr_options version))),
      (''coding_spec'', nullable authorCodingSpec (vr_coding_spec version)),
      (''test_cases'', J_array (map authorTestCase (vr_test_cases version))),
      (''answer_keys'', J_array (map authorAnswerKey (vr_answer_keys version)))]"

definition toAuthorView :: "(int \<Rightarrow> string) \<Rightarrow> questionRecord \<Rightarrow> json" where
  "toAuthorView isoText question = J_object
     [(''id'', J_id (qr_id question)), (''kind'', J_string (questionKindName (qr_kind question))),
      (''status'', J_string (questionStatusName (qr_status question))),
      (''external_ref'', nullable J_string (qr_external_ref question)),
      (''source_license'', nullable J_string (qr_source_license question)),
      (''author_id'', nullable J_string (qr_author_id question)),
      (''exposure_count'', J_int (qr_exposure_count question)),
      (''archived_at'', dateAt isoText (qr_archived_at question)),
      (''created_at'', J_string (isoText (qr_created_at question))),
      (''skills'', J_array (map (\<lambda>(skill, weight). J_object
         [(''skill_id'', J_string skill), (''weight'', J_number weight)]) (qr_skills question))),
      (''current_version'', nullable (toAuthorVersionView isoText) (qr_current_version question))]"

subsection \<open>The candidate's view\<close>

definition CHOICE_KINDS :: "questionKind list" where
  "CHOICE_KINDS = [Mcq_single, Mcq_multi, True_false]"

definition CODE_KINDS :: "questionKind list" where
  "CODE_KINDS = [Coding, Sql]"

definition PROSE_KINDS :: "questionKind list" where
  "PROSE_KINDS = [Subjective, System_design]"

definition candidateOption :: "mcqOptionRecord \<Rightarrow> json" where
  "candidateOption r = J_object
     [(''id'', J_id (or_id r)), (''ordinal'', J_int (int (or_ordinal r))),
      (''body_md'', J_string (or_body_md r))]"

text \<open>The loop that counts the cases.\<close>

fun countCases :: "testCaseRecord list \<Rightarrow> int \<Rightarrow> int \<Rightarrow> int \<times> int" where
  "countCases [] samples hidden = (samples, hidden)"
| "countCases (c # cs) samples hidden =
     (if tr_is_sample c then countCases cs (samples + 1) hidden else countCases cs samples (hidden + 1))"

definition candidateCodingBrief :: "questionVersionRecord \<Rightarrow> json" where
  "candidateCodingBrief version =
     (let spec = vr_coding_spec version; (samples, hidden) = countCases (vr_test_cases version) 0 0 in
      J_object
       [(''allowed_languages'', J_strings (case spec of None \<Rightarrow> [] | Some s \<Rightarrow> sr_allowed_languages s)),
        (''starter_code'', J_record (case spec of None \<Rightarrow> [] | Some s \<Rightarrow> sr_starter_code s)),
        (''time_limit_ms'', J_int (case spec of None \<Rightarrow> 5000 | Some s \<Rightarrow> sr_time_limit_ms s)),
        (''memory_limit_kb'', J_int (case spec of None \<Rightarrow> 262144 | Some s \<Rightarrow> sr_memory_limit_kb s)),
        (''fixture_sql'', nullable J_string (case spec of None \<Rightarrow> None | Some s \<Rightarrow> sr_fixture_sql s)),
        (''sample_case_count'', J_int samples), (''hidden_case_count'', J_int hidden)])"

definition toCandidateView :: "questionKind \<Rightarrow> questionVersionRecord \<Rightarrow> json" where
  "toCandidateView kind version =
     (let common =
        [(''question_version_id'', J_id (vr_id version)),
         (''prompt_md'', J_string (vr_prompt_md version)),
         (''est_seconds'', J_int (vr_est_seconds version)),
         (''max_score'', J_number (vr_max_score version)),
         (''negative_score'', J_number (vr_negative_score version))] in
      if kind \<in> set CHOICE_KINDS then
        J_object (common @ [(''kind'', J_string (questionKindName kind)),
                            (''options'', J_array (map candidateOption (vr_options version)))])
      else if kind \<in> set CODE_KINDS then
        J_object (common @ [(''kind'', J_string (questionKindName kind)),
                            (''coding'', candidateCodingBrief version)])
      else if kind \<in> set PROSE_KINDS then
        J_object (common @ [(''kind'', J_string (questionKindName kind))])
      else J_object (common @ [(''kind'', J_string ''short_answer'')]))"

subsection \<open>What the candidate's view depends on\<close>

text \<open>Everything a grader compares an answer with, erased; of the test cases only whether each is
  a sample is kept.\<close>

definition blindOption :: "mcqOptionRecord \<Rightarrow> mcqOptionRecord" where
  "blindOption r = r\<lparr> or_is_correct := False, or_score_delta := None, or_rationale_md := None \<rparr>"

definition blindSpec :: "codingSpecRecord \<Rightarrow> codingSpecRecord" where
  "blindSpec r = r\<lparr> sr_solution_code := [], sr_grading_mode := [], sr_checker_code := None \<rparr>"

definition blindCase :: "testCaseRecord \<Rightarrow> testCaseRecord" where
  "blindCase r = \<lparr> tr_id = 0, tr_ordinal = 0, tr_label = None, tr_stdin = [], tr_expected_stdout = None,
     tr_args = None, tr_assertion_code = None, tr_is_sample = tr_is_sample r, tr_weight = Fin 0 \<rparr>"

definition blind :: "questionVersionRecord \<Rightarrow> questionVersionRecord" where
  "blind v = v\<lparr> vr_explanation_md := None, vr_options := map blindOption (vr_options v),
     vr_coding_spec := map_option blindSpec (vr_coding_spec v),
     vr_test_cases := map blindCase (vr_test_cases v), vr_answer_keys := [] \<rparr>"

lemma countCases_blind: "countCases (map blindCase cs) m n = countCases cs m n"
  by (induction cs arbitrary: m n) (simp_all add: blindCase_def)

lemma candidateCodingBrief_blind: "candidateCodingBrief (blind v) = candidateCodingBrief v"
  by (cases "vr_coding_spec v")
    (simp_all add: candidateCodingBrief_def blind_def countCases_blind blindSpec_def)

lemma blind_kept:
  "vr_id (blind v) = vr_id v" "vr_prompt_md (blind v) = vr_prompt_md v"
  "vr_est_seconds (blind v) = vr_est_seconds v" "vr_max_score (blind v) = vr_max_score v"
  "vr_negative_score (blind v) = vr_negative_score v"
  by (simp_all add: blind_def)

lemma options_blind: "map candidateOption (vr_options (blind v)) = map candidateOption (vr_options v)"
  by (simp add: blind_def) (simp add: candidateOption_def blindOption_def)

lemma toCandidateView_blind: "toCandidateView kind (blind v) = toCandidateView kind v"
  unfolding toCandidateView_def blind_kept options_blind candidateCodingBrief_blind ..

definition no_key_fields :: "json \<Rightarrow> bool" where
  "no_key_fields payload \<longleftrightarrow> (\<forall>path. findAnswerKeyFields payload path = [])"

lemma no_key_simps [simp]:
  "no_key_fields J_null" "no_key_fields (J_bool b)" "no_key_fields (J_number x)"
  "no_key_fields (J_string s)" "no_key_fields (J_int n)" "no_key_fields (J_id i)"
  by (simp_all add: no_key_fields_def J_int_def J_id_def)

lemma no_key_nullable [simp]: "(\<And>v. no_key_fields (f v)) \<Longrightarrow> no_key_fields (nullable f m)"
  by (cases m) simp_all

lemma no_key_array: "(\<And>e. e \<in> set es \<Longrightarrow> no_key_fields e) \<Longrightarrow> no_key_fields (J_array es)"
  unfolding no_key_fields_def by (auto dest: enumerate_member)

lemma no_key_object:
  "(\<And>k v. (k, v) \<in> set fs \<Longrightarrow> k \<notin> set ANSWER_KEY_FIELDS \<and> no_key_fields v) \<Longrightarrow>
    no_key_fields (J_object fs)"
  unfolding no_key_fields_def by fastforce

lemma no_key_strings [simp]: "no_key_fields (J_strings xs)"
  unfolding J_strings_def by (rule no_key_array) auto

lemma no_key_record:
  "\<forall>lang \<in> fst ` set m. lang \<notin> set ANSWER_KEY_FIELDS \<Longrightarrow> no_key_fields (J_record m)"
  unfolding J_record_def by (rule no_key_object) force

definition languages :: "questionVersionRecord \<Rightarrow> string list" where
  "languages v = (case vr_coding_spec v of None \<Rightarrow> [] | Some s \<Rightarrow> map fst (sr_starter_code s))"

lemma no_key_brief:
  assumes "\<forall>lang \<in> set (languages v). lang \<notin> set ANSWER_KEY_FIELDS"
  shows "no_key_fields (candidateCodingBrief v)"
proof -
  obtain m n where c: "countCases (vr_test_cases v) 0 0 = (m, n)" by (cases "countCases (vr_test_cases v) 0 0")
  have r: "no_key_fields (J_record (case vr_coding_spec v of None \<Rightarrow> [] | Some s \<Rightarrow> sr_starter_code s))"
    by (rule no_key_record, cases "vr_coding_spec v") (use assms in \<open>auto simp: languages_def\<close>)
  show ?thesis
    unfolding candidateCodingBrief_def c Let_def prod.case
    by (rule no_key_object) (auto simp: ANSWER_KEY_FIELDS_def r)
qed

lemma no_key_options: "no_key_fields (J_array (map candidateOption os))"
  by (rule no_key_array) (auto simp: candidateOption_def ANSWER_KEY_FIELDS_def intro!: no_key_object)

lemma no_key_candidate:
  assumes "\<forall>lang \<in> set (languages v). lang \<notin> set ANSWER_KEY_FIELDS"
  shows "no_key_fields (toCandidateView kind v)"
  unfolding toCandidateView_def Let_def
  using no_key_brief [OF assms] no_key_options [of "vr_options v"]
  by (auto simp: ANSWER_KEY_FIELDS_def intro!: no_key_object)

subsection \<open>Properties\<close>

text \<open>C17: what is served to a candidate carries no answer: two versions that differ only in which
  options are correct and what they score, in rationales and explanations, in reference solutions
  and checkers, in short-answer keys and in everything about the test cases but how many of them
  are samples are served identically, and no field of what is served has the name of an answer-key
  field, unless an author named a programming language like one.\<close>

theorem candidate_view_carries_no_answer:
  assumes "blind v = blind w" "\<forall>lang \<in> set (languages v). lang \<notin> set ANSWER_KEY_FIELDS"
  shows "toCandidateView kind v = toCandidateView kind w \<and>
    findAnswerKeyFields (toCandidateView kind v) path = []"
  using toCandidateView_blind [of kind v] toCandidateView_blind [of kind w] assms
    no_key_candidate [OF assms(2), of kind]
  by (auto simp: no_key_fields_def)

definition sample_option :: "bool \<Rightarrow> mcqOptionRecord" where
  "sample_option b = \<lparr> or_id = 4, or_ordinal = 1, or_body_md = ''yes'', or_is_correct = b,
     or_score_delta = Some (Fin 1), or_rationale_md = Some ''because'' \<rparr>"

definition sample_version :: "bool \<Rightarrow> questionVersionRecord" where
  "sample_version b = \<lparr> vr_id = 2, vr_question_id = 1, vr_version_no = 1, vr_locale = ''en'',
     vr_prompt_md = ''Is it?'', vr_explanation_md = Some ''It is.'', vr_difficulty = 2,
     vr_est_seconds = 60, vr_max_score = Fin 1, vr_negative_score = Fin 0, vr_published_at = None,
     vr_created_by = None, vr_created_at = 0, vr_options = [sample_option b],
     vr_coding_spec = None, vr_test_cases = [], vr_answer_keys = [] \<rparr>"

theorem candidate_view_carries_no_answer_witness:
  "toCandidateView True_false (sample_version True) = toCandidateView True_false (sample_version False) \<and>
   findAnswerKeyFields (toCandidateView True_false (sample_version True)) ''$'' = []"
  by (rule candidate_view_carries_no_answer)
    (simp_all add: blind_def sample_version_def sample_option_def blindOption_def languages_def)

end
