(* ===== verification/Audit_Entry.thy ===== *)
theory Audit_Entry
  imports Question_View "HOL-Library.Sublist"
begin

text \<open>
  The writer of the audit log (\<open>packages/db/src/audit.ts\<close>): what it refuses to record, and the row
  it prepares. The regular expressions are functions; the UUID format, Node's \<open>isIP\<close> and the
  number of bytes of a serialised payload are the fields of \<open>auditPlatform\<close>. Payloads are kept as
  the JSON values they serialise.
\<close>

record auditPlatform =
  isUuid :: "string \<Rightarrow> bool"
  isIP :: "string \<Rightarrow> nat"
  jsonBytes :: "json \<Rightarrow> nat"

subsection \<open>Vocabulary\<close>

definition AUDIT_REASON_KEY :: string where
  "AUDIT_REASON_KEY = ''reason''"

definition AUDIT_ACTOR_ATTEMPT_KEY :: string where
  "AUDIT_ACTOR_ATTEMPT_KEY = ''actor_attempt_id''"

definition RESERVED_PAYLOAD_KEYS :: "string list" where
  "RESERVED_PAYLOAD_KEYS = [AUDIT_REASON_KEY, AUDIT_ACTOR_ATTEMPT_KEY]"

definition REASON_REQUIRED_ACTIONS :: "string list" where
  "REASON_REQUIRED_ACTIONS = [''attempt.void'', ''attempt.regrade'', ''score.override'']"

definition JOB_ACTION_PREFIX :: string where
  "JOB_ACTION_PREFIX = ''job.''"

definition CANDIDATE_ACTION_PREFIX :: string where
  "CANDIDATE_ACTION_PREFIX = ''candidate.''"

definition MAX_ACTION_LENGTH :: nat where
  "MAX_ACTION_LENGTH = 100"

definition MAX_ENTITY_TYPE_LENGTH :: nat where
  "MAX_ENTITY_TYPE_LENGTH = 64"

definition MAX_REASON_LENGTH :: nat where
  "MAX_REASON_LENGTH = 2000"

definition MAX_PAYLOAD_BYTES :: nat where
  "MAX_PAYLOAD_BYTES = 65536"

definition MAX_PAYLOAD_DEPTH :: nat where
  "MAX_PAYLOAD_DEPTH = 12"

text \<open>One segment of \<open>ACTION_PATTERN\<close>: a lower-case letter, then letters and digits, with single
  separators between non-empty runs.\<close>

fun segment_rest :: "char set \<Rightarrow> bool \<Rightarrow> string \<Rightarrow> bool" where
  "segment_rest seps after [] = (\<not> after)"
| "segment_rest seps after (c # cs) =
     (if is_lower c \<or> is_digit c then segment_rest seps False cs
      else c \<in> seps \<and> \<not> after \<and> segment_rest seps True cs)"

fun segment :: "char set \<Rightarrow> string \<Rightarrow> bool" where
  "segment seps [] = False"
| "segment seps (c # cs) = (is_lower c \<and> segment_rest seps False cs)"

definition ACTION_PATTERN :: "string \<Rightarrow> bool" where
  "ACTION_PATTERN s \<longleftrightarrow>
     (let parts = splitOn CHR ''.'' s in
      length parts \<ge> 2 \<and> list_all (segment {CHR ''_'', CHR ''-''}) parts)"

definition ENTITY_TYPE_PATTERN :: "string \<Rightarrow> bool" where
  "ENTITY_TYPE_PATTERN s \<longleftrightarrow> segment {CHR ''_''} s"

definition SECRET_WORDS :: "string list" where
  "SECRET_WORDS =
     [''password'', ''passwd'', ''secret'', ''token'', ''credential'',
      ''apikey'', ''api_key'', ''api-key'', ''privatekey'', ''private_key'', ''private-key'',
      ''authorization'', ''cookie'', ''pepper'']"

definition SECRET_KEY_PATTERN :: "string \<Rightarrow> bool" where
  "SECRET_KEY_PATTERN key \<longleftrightarrow> list_ex (\<lambda>w. sublist w (toLowerCase key)) SECRET_WORDS"

subsection \<open>Entries\<close>

datatype auditActor = Actor_staff string | Actor_candidate string | Actor_job

type_synonym auditPayload = "(string \<times> json) list"

record auditEntry =
  ae_orgId :: string
  ae_actor :: auditActor
  ae_action :: string
  ae_entityType :: string
  ae_entityId :: "string option"
  ae_before :: "auditPayload option"
  ae_after :: "auditPayload option"
  ae_reason :: "string option"
  ae_ip :: "string option"
  ae_at :: "int option"

record preparedAuditEntry =
  pa_orgId :: string
  pa_actorUserId :: "string option"
  pa_action :: string
  pa_entityType :: string
  pa_entityId :: "string option"
  pa_before :: "auditPayload option"
  pa_after :: "auditPayload option"
  pa_ip :: "string option"
  pa_at :: int

datatype auditProblem =
    Bad_action | Bad_entity_type | Bad_entity_id | Reason_too_long | Reason_required | Wrong_actor
  | Reserved_key string | Secret_key string | Too_deep | Too_large | Bad_instant | Bad_address

definition isAuditableAddress :: "auditPlatform \<Rightarrow> string \<Rightarrow> bool" where
  "isAuditableAddress pf addr \<longleftrightarrow> CHR ''%'' \<notin> set addr \<and> isIP pf addr \<noteq> 0"

definition requiresReason :: "string \<Rightarrow> bool" where
  "requiresReason action \<longleftrightarrow>
     action \<in> set REASON_REQUIRED_ACTIONS \<or> startsWith action JOB_ACTION_PREFIX"

fun actorColumn :: "auditActor \<Rightarrow> string \<Rightarrow> (auditProblem, string option) result" where
  "actorColumn (Actor_staff userId) action =
     (if startsWith action JOB_ACTION_PREFIX \<or> startsWith action CANDIDATE_ACTION_PREFIX
      then Inl Wrong_actor else Inr (Some userId))"
| "actorColumn (Actor_candidate attemptId) action =
     (if \<not> startsWith action CANDIDATE_ACTION_PREFIX then Inl Wrong_actor else Inr None)"
| "actorColumn Actor_job action =
     (if \<not> startsWith action JOB_ACTION_PREFIX then Inl Wrong_actor else Inr None)"

datatype payloadColumn = Before | After

definition first_problem :: "'e option list \<Rightarrow> 'e option" where
  "first_problem ps = (case filter (\<lambda>p. p \<noteq> None) ps of [] \<Rightarrow> None | p # _ \<Rightarrow> p)"

text \<open>The statements run in order and the first one to throw ends the inspection.\<close>

fun inspectPayload :: "payloadColumn \<Rightarrow> json \<Rightarrow> nat \<Rightarrow> auditProblem option" where
  "inspectPayload column (J_array items) depth =
     (if depth > MAX_PAYLOAD_DEPTH then Some Too_deep
      else first_problem (map (\<lambda>item. inspectPayload column item (depth + 1)) items))"
| "inspectPayload column (J_object pairs) depth =
     (if depth > MAX_PAYLOAD_DEPTH then Some Too_deep
      else first_problem (map (\<lambda>(key, nested).
        if depth = 0 \<and> column = After \<and> key \<in> set RESERVED_PAYLOAD_KEYS then Some (Reserved_key key)
        else if SECRET_KEY_PATTERN key then Some (Secret_key key)
        else inspectPayload column nested (depth + 1)) pairs))"
| "inspectPayload column leaf depth = (if depth > MAX_PAYLOAD_DEPTH then Some Too_deep else None)"

definition serialise :: "auditPayload option \<Rightarrow> auditPayload option" where
  "serialise payload = (case payload of None \<Rightarrow> None | Some [] \<Rightarrow> None | Some p \<Rightarrow> Some p)"

definition byteLength :: "auditPlatform \<Rightarrow> auditPayload option \<Rightarrow> nat" where
  "byteLength pf payload = (case payload of None \<Rightarrow> 0 | Some p \<Rightarrow> jsonBytes pf (J_object p))"

text \<open>The payload \<open>after\<close> with the keys the writer owns.\<close>

definition ownedAfter :: "auditEntry \<Rightarrow> string option \<Rightarrow> auditPayload" where
  "ownedAfter entry reason =
     (let a0 = (case ae_after entry of None \<Rightarrow> [] | Some p \<Rightarrow> p);
          a1 = (case reason of Some r \<Rightarrow> if r \<noteq> [] then map_set a0 AUDIT_REASON_KEY (J_string r) else a0
                | None \<Rightarrow> a0) in
      case ae_actor entry of
        Actor_candidate attemptId \<Rightarrow> map_set a1 AUDIT_ACTOR_ATTEMPT_KEY (J_string attemptId)
      | _ \<Rightarrow> a1)"

definition inspectOption :: "payloadColumn \<Rightarrow> auditPayload option \<Rightarrow> auditProblem option" where
  "inspectOption column p = (case p of None \<Rightarrow> None | Some o' \<Rightarrow> inspectPayload column (J_object o') 0)"

text \<open>The second half of the preparation, from the inspection of the payloads on.\<close>

definition finishEntry ::
  "auditPlatform \<Rightarrow> auditEntry \<Rightarrow> string \<Rightarrow> string \<Rightarrow> string option \<Rightarrow> string option \<Rightarrow>
     (auditProblem, preparedAuditEntry) result" where
  "finishEntry pf entry action entityType reason actorUserId =
     (case first_problem [inspectOption Before (ae_before entry), inspectOption After (ae_after entry)] of
        Some problem \<Rightarrow> Inl problem
      | None \<Rightarrow>
          let before = serialise (ae_before entry);
              after = serialise (Some (ownedAfter entry reason)) in
          if byteLength pf before + byteLength pf after > MAX_PAYLOAD_BYTES then Inl Too_large
          else (case ae_at entry of
              None \<Rightarrow> Inl Bad_instant
            | Some instant \<Rightarrow>
                let ip = (if ae_ip entry = Some [] then None else ae_ip entry) in
                if (case ip of None \<Rightarrow> False | Some a \<Rightarrow> \<not> isAuditableAddress pf a) then Inl Bad_address
                else Inr \<lparr> pa_orgId = ae_orgId entry, pa_actorUserId = actorUserId,
                       pa_action = action, pa_entityType = entityType,
                       pa_entityId = ae_entityId entry, pa_before = before, pa_after = after,
                       pa_ip = ip, pa_at = instant \<rparr>))"

definition prepareAuditEntry ::
  "auditPlatform \<Rightarrow> auditEntry \<Rightarrow> (auditProblem, preparedAuditEntry) result" where
  "prepareAuditEntry pf entry =
     (let action = trim (ae_action entry); entityType = trim (ae_entityType entry);
          reason = map_option trim (ae_reason entry) in
      if action = [] \<or> length action > MAX_ACTION_LENGTH then Inl Bad_action
      else if \<not> ACTION_PATTERN action then Inl Bad_action
      else if entityType = [] \<or> length entityType > MAX_ENTITY_TYPE_LENGTH \<or> \<not> ENTITY_TYPE_PATTERN entityType
        then Inl Bad_entity_type
      else if (case ae_entityId entry of None \<Rightarrow> False | Some i \<Rightarrow> \<not> isUuid pf i) then Inl Bad_entity_id
      else if (case reason of None \<Rightarrow> False | Some r \<Rightarrow> length r > MAX_REASON_LENGTH) then Inl Reason_too_long
      else if (reason = None \<or> reason = Some []) \<and> requiresReason action then Inl Reason_required
      else bindResult (actorColumn (ae_actor entry) action)
             (finishEntry pf entry action entityType reason))"

subsection \<open>Lemmas\<close>

lemma first_problem_None: "first_problem ps = None \<longleftrightarrow> (\<forall>p \<in> set ps. p = None)"
  unfolding first_problem_def by (induction ps) (auto split: list.splits)

text \<open>The member names of a value, at every depth.\<close>

fun names :: "json \<Rightarrow> string set" where
  "names (J_array items) = \<Union> (set (map names items))"
| "names (J_object pairs) = \<Union> (set (map (\<lambda>(key, nested). insert key (names nested)) pairs))"
| "names leaf = {}"

lemma inspect_names:
  "inspectPayload column v depth = None \<Longrightarrow> n \<in> names v \<Longrightarrow> \<not> SECRET_KEY_PATTERN n"
proof (induction column v depth rule: inspectPayload.induct)
  case (1 column items depth)
  then show ?case by (force simp: first_problem_None split: if_splits)
next
  case (2 column pairs depth)
  obtain key nested where m: "(key, nested) \<in> set pairs" "n = key \<or> n \<in> names nested"
    using "2.prems"(2) by auto
  have d: "\<not> depth > MAX_PAYLOAD_DEPTH" using "2.prems"(1) by (simp split: if_split_asm)
  let ?f = "\<lambda>(key, nested).
        if depth = 0 \<and> column = After \<and> key \<in> set RESERVED_PAYLOAD_KEYS then Some (Reserved_key key)
        else if SECRET_KEY_PATTERN key then Some (Secret_key key)
        else inspectPayload column nested (depth + 1)"
  have "first_problem (map ?f pairs) = None" using "2.prems"(1) d by simp
  then have "?f (key, nested) = None" using m(1) unfolding first_problem_None by fastforce
  then have "\<not> SECRET_KEY_PATTERN key" "inspectPayload column nested (depth + 1) = None"
    "\<not> (depth = 0 \<and> column = After \<and> key \<in> set RESERVED_PAYLOAD_KEYS)"
    by (auto split: if_splits)
  then show ?case using m "2.IH" [OF d m(1) refl] by auto
qed simp_all

text \<open>Who did it, read from the row alone: a user, or by the prefix of the action a job or the
  candidate whose attempt the payload names.\<close>

definition actorOfRow :: "preparedAuditEntry \<Rightarrow> auditActor option" where
  "actorOfRow row =
     (case pa_actorUserId row of
        Some userId \<Rightarrow> Some (Actor_staff userId)
      | None \<Rightarrow>
          if startsWith (pa_action row) JOB_ACTION_PREFIX then Some Actor_job
          else (case Option.bind (pa_after row) (\<lambda>p. map_get p AUDIT_ACTOR_ATTEMPT_KEY) of
                  Some (J_string attemptId) \<Rightarrow> Some (Actor_candidate attemptId)
                | _ \<Rightarrow> None))"

lemma finishEntry_Inr:
  assumes "finishEntry pf e action entityType reason userId = Inr row"
  shows "pa_actorUserId row = userId" "pa_action row = action"
    "pa_before row = serialise (ae_before e)" "pa_after row = serialise (Some (ownedAfter e reason))"
    "inspectOption Before (ae_before e) = None" "inspectOption After (ae_after e) = None"
    "byteLength pf (pa_before row) + byteLength pf (pa_after row) \<le> MAX_PAYLOAD_BYTES"
proof -
  have n: "first_problem [inspectOption Before (ae_before e), inspectOption After (ae_after e)] = None"
    using assms by (cases "first_problem [inspectOption Before (ae_before e), inspectOption After (ae_after e)]")
      (simp_all add: finishEntry_def)
  then show "inspectOption Before (ae_before e) = None" "inspectOption After (ae_after e) = None"
    by (simp_all add: first_problem_None)
  show "pa_actorUserId row = userId" "pa_action row = action"
    "pa_before row = serialise (ae_before e)" "pa_after row = serialise (Some (ownedAfter e reason))"
    "byteLength pf (pa_before row) + byteLength pf (pa_after row) \<le> MAX_PAYLOAD_BYTES"
    using assms unfolding finishEntry_def n option.case Let_def
    by (auto split: if_split_asm option.split_asm)
qed

lemma prepared_Inr:
  assumes "prepareAuditEntry pf e = Inr row"
  shows "\<exists>userId. actorColumn (ae_actor e) (trim (ae_action e)) = Inr userId \<and>
      finishEntry pf e (trim (ae_action e)) (trim (ae_entityType e)) (map_option trim (ae_reason e)) userId = Inr row"
    and "requiresReason (trim (ae_action e)) \<longrightarrow> (\<exists>r. ae_reason e = Some r \<and> trim r \<noteq> [])"
  using assms unfolding prepareAuditEntry_def Let_def
  by (simp_all add: bindResult_Inr_iff split: if_split_asm) auto

lemma prefixes_apart: "startsWith action JOB_ACTION_PREFIX \<Longrightarrow> \<not> startsWith action CANDIDATE_ACTION_PREFIX"
  by (cases action) (auto simp: startsWith_def JOB_ACTION_PREFIX_def CANDIDATE_ACTION_PREFIX_def)

lemma serialise_names:
  "serialise p = Some o' \<Longrightarrow> p = Some o'"
  by (auto simp: serialise_def split: option.splits list.splits)

lemma reason_not_secret: "\<not> SECRET_KEY_PATTERN AUDIT_REASON_KEY"
  and attempt_not_secret: "\<not> SECRET_KEY_PATTERN AUDIT_ACTOR_ATTEMPT_KEY"
  by (code_simp, code_simp)

lemma names_map_set:
  "names (J_object (map_set m k v)) \<subseteq> insert k (names v) \<union> names (J_object m)"
  by (induction m k v rule: map_set.induct) auto

lemma names_map_set_string:
  "names (J_object (map_set m k (J_string t))) \<subseteq> insert k (names (J_object m))"
  using names_map_set [of m k "J_string t"] by simp

lemma ownedAfter_names:
  "n \<in> names (J_object (ownedAfter e reason)) \<Longrightarrow>
    n \<in> {AUDIT_REASON_KEY, AUDIT_ACTOR_ATTEMPT_KEY} \<or> (\<exists>p. ae_after e = Some p \<and> n \<in> names (J_object p))"
proof -
  assume n: "n \<in> names (J_object (ownedAfter e reason))"
  define a0 where "a0 = (case ae_after e of None \<Rightarrow> [] | Some p \<Rightarrow> p)"
  define a1 where "a1 = (case reason of Some r \<Rightarrow>
      if r \<noteq> [] then map_set a0 AUDIT_REASON_KEY (J_string r) else a0 | None \<Rightarrow> a0)"
  have "names (J_object a1) \<subseteq> insert AUDIT_REASON_KEY (names (J_object a0))"
    unfolding a1_def
    using names_map_set_string by (cases reason) (auto simp del: names.simps(2) dest!: subsetD)
  moreover have "n \<in> insert AUDIT_ACTOR_ATTEMPT_KEY (names (J_object a1))"
    using n names_map_set_string [of a1 AUDIT_ACTOR_ATTEMPT_KEY]
    unfolding ownedAfter_def Let_def a0_def [symmetric] a1_def [symmetric]
    by (cases "ae_actor e") (auto simp del: names.simps(2) dest!: subsetD)
  moreover have "n \<in> names (J_object a0) \<Longrightarrow> \<exists>p. ae_after e = Some p \<and> n \<in> names (J_object p)"
    unfolding a0_def by (cases "ae_after e") simp_all
  ultimately show ?thesis by blast
qed

lemma inspectOption_names:
  "inspectOption c (Some p) = None \<Longrightarrow> n \<in> names (J_object p) \<Longrightarrow> \<not> SECRET_KEY_PATTERN n"
  unfolding inspectOption_def option.case by (rule inspect_names)

lemma ownedAfter_reason:
  "r \<noteq> [] \<Longrightarrow> map_get (ownedAfter e (Some r)) AUDIT_REASON_KEY = Some (J_string r)"
  by (cases "ae_actor e") (simp_all add: ownedAfter_def Let_def AUDIT_REASON_KEY_def AUDIT_ACTOR_ATTEMPT_KEY_def)

lemma ownedAfter_attempt:
  "ae_actor e = Actor_candidate a \<Longrightarrow>
    map_get (ownedAfter e reason) AUDIT_ACTOR_ATTEMPT_KEY = Some (J_string a)"
  by (simp add: ownedAfter_def Let_def)

lemma serialise_member: "map_get p k = Some v \<Longrightarrow> serialise (Some p) = Some p"
  by (cases p) (simp_all add: serialise_def)

lemma actor_readable:
  assumes "actorColumn (ae_actor e) action = Inr (pa_actorUserId row)" "pa_action row = action"
    "pa_after row = serialise (Some (ownedAfter e reason))"
  shows "actorOfRow row = Some (ae_actor e)"
proof (cases "ae_actor e")
  case (Actor_candidate a)
  then show ?thesis
    using assms ownedAfter_attempt [OF Actor_candidate, of reason] prefixes_apart [of action]
    by (auto simp: actorOfRow_def serialise_member split: if_split_asm)
qed (use assms in \<open>auto simp: actorOfRow_def split: if_split_asm dest!: sym [of _ "pa_actorUserId row"]\<close>)

lemma prepared_actor:
  assumes "prepareAuditEntry pf e = Inr row"
  shows "actorOfRow row = Some (ae_actor e)"
proof -
  obtain userId where c: "actorColumn (ae_actor e) (trim (ae_action e)) = Inr userId"
    and f: "finishEntry pf e (trim (ae_action e)) (trim (ae_entityType e)) (map_option trim (ae_reason e)) userId = Inr row"
    using prepared_Inr(1) [OF assms] by blast
  note row = finishEntry_Inr [OF f]
  show ?thesis by (rule actor_readable [OF _ row(2) row(4)]) (simp add: c row(1))
qed

subsection \<open>Properties\<close>

text \<open>C20: whoever acted, a staff user, a candidate or a job, can be read back from the audit row
  alone; an action that must be explained is recorded with a reason; and no member of either
  payload, at any depth, is named like a password, a token or another secret.\<close>

theorem audit_row_accountable:
  assumes "prepareAuditEntry pf e = Inr row"
  shows "actorOfRow row = Some (ae_actor e) \<and>
    (requiresReason (pa_action row) \<longrightarrow>
      (\<exists>p r. pa_after row = Some p \<and> map_get p AUDIT_REASON_KEY = Some (J_string r) \<and> r \<noteq> [])) \<and>
    (\<forall>p n. (pa_before row = Some p \<or> pa_after row = Some p) \<and> n \<in> names (J_object p) \<longrightarrow>
      \<not> SECRET_KEY_PATTERN n)"
proof -
  obtain userId where
    f: "finishEntry pf e (trim (ae_action e)) (trim (ae_entityType e)) (map_option trim (ae_reason e)) userId = Inr row"
    using prepared_Inr(1) [OF assms] by blast
  note row = finishEntry_Inr [OF f]
  have "actorOfRow row = Some (ae_actor e)" by (rule prepared_actor [OF assms])
  moreover have "\<exists>p r. pa_after row = Some p \<and> map_get p AUDIT_REASON_KEY = Some (J_string r) \<and> r \<noteq> []"
    if need: "requiresReason (pa_action row)"
  proof -
    obtain r where "ae_reason e = Some r" "trim r \<noteq> []" using prepared_Inr(2) [OF assms] need row(2) by auto
    then show ?thesis using ownedAfter_reason [of "trim r" e] row(4) by (auto simp: serialise_member)
  qed
  moreover have "\<not> SECRET_KEY_PATTERN n"
    if "pa_before row = Some p \<or> pa_after row = Some p" "n \<in> names (J_object p)" for p n
  proof (cases "pa_before row = Some p")
    case True
    then have "ae_before e = Some p" using row(3) serialise_names by metis
    then show ?thesis using row(5) that(2) inspectOption_names by metis
  next
    case False
    then have "p = ownedAfter e (map_option trim (ae_reason e))"
      using that(1) row(4) serialise_names [of _ p] by (metis option.inject)
    then show ?thesis
      using ownedAfter_names that(2) row(6) inspectOption_names reason_not_secret attempt_not_secret
      by (metis insertE emptyE)
  qed
  ultimately show ?thesis by blast
qed

definition sample_audit :: auditEntry where
  "sample_audit = \<lparr> ae_orgId = ''o'', ae_actor = Actor_staff ''u'', ae_action = ''attempt.void'',
     ae_entityType = ''attempt'', ae_entityId = None, ae_before = None,
     ae_after = Some [(''status'', J_string ''voided'')], ae_reason = Some '' twice '',
     ae_ip = None, ae_at = Some 0 \<rparr>"

definition sample_audit_platform :: auditPlatform where
  "sample_audit_platform = \<lparr> isUuid = (\<lambda>_. True), isIP = (\<lambda>_. 4), jsonBytes = (\<lambda>_. 40) \<rparr>"

definition sample_audit_row :: preparedAuditEntry where
  "sample_audit_row = \<lparr> pa_orgId = ''o'', pa_actorUserId = Some ''u'', pa_action = ''attempt.void'',
     pa_entityType = ''attempt'', pa_entityId = None, pa_before = None,
     pa_after = Some [(''status'', J_string ''voided''), (''reason'', J_string ''twice'')],
     pa_ip = None, pa_at = 0 \<rparr>"

lemma sample_audit_texts:
  "trim ''attempt.void'' = ''attempt.void''" "trim ''attempt'' = ''attempt''" "trim '' twice '' = ''twice''"
  "ACTION_PATTERN ''attempt.void''" "ENTITY_TYPE_PATTERN ''attempt''"
  "actorColumn (Actor_staff ''u'') ''attempt.void'' = Inr (Some ''u'')"
  "inspectPayload After (J_object [(''status'', J_string ''voided'')]) 0 = None"
  by (code_simp+)

lemma sample_audit_prepared: "prepareAuditEntry sample_audit_platform sample_audit = Inr sample_audit_row"
  by (simp add: prepareAuditEntry_def Let_def sample_audit_def sample_audit_texts MAX_ACTION_LENGTH_def
      MAX_ENTITY_TYPE_LENGTH_def MAX_REASON_LENGTH_def del: actorColumn.simps)
    (simp add: finishEntry_def Let_def sample_audit_platform_def sample_audit_row_def inspectOption_def
      sample_audit_texts first_problem_def serialise_def ownedAfter_def byteLength_def
      AUDIT_REASON_KEY_def MAX_ACTION_LENGTH_def MAX_ENTITY_TYPE_LENGTH_def MAX_REASON_LENGTH_def
      MAX_PAYLOAD_BYTES_def del: inspectPayload.simps)

theorem audit_row_accountable_witness:
  "actorOfRow sample_audit_row = Some (Actor_staff ''u'') \<and>
   \<not> SECRET_KEY_PATTERN ''status''"
  using audit_row_accountable [OF sample_audit_prepared]
  by (auto simp: sample_audit_def sample_audit_row_def)

end
