(* ===== verification/Question_Routes.thy ===== *)
theory Question_Routes
  imports Bank_Invariants Audit_Entry Api_Errors Credentials
begin

text \<open>
  The question routes of the API (\<open>apps/api/src/questions/routes.ts\<close>, \<open>kind-content.ts\<close>) over the
  repository, each mutation inside the audited transaction of \<open>apps/api/src/audit.ts\<close>: the work,
  then the audit row, and neither of them when either fails. Of an error the code is kept. Parsing
  of paths and bodies against the request schemas happened before; the permission of a route is the
  gate's. \<open>isoText\<close> stands for \<open>Date.prototype.toISOString\<close>.
\<close>

subsection \<open>Failures\<close>

text \<open>What a handler throws: an API error, or something the error handler answers as internal.\<close>

datatype routeFailure = R_api errorCode | R_db dbFailure | R_audit auditProblem | R_merge mergeError

fun routeCode :: "routeFailure \<Rightarrow> errorCode" where
  "routeCode (R_api c) = c"
| "routeCode _ = E_internal"

subsection \<open>The audited transaction\<close>

record auditSpec =
  as_action :: string
  as_entityType :: string
  as_entityId :: "string option"
  as_before :: "auditPayload option"
  as_after :: "auditPayload option"

text \<open>What \<open>amend\<close> was given: an absent member leaves the entry as it is.\<close>

record auditAmendment =
  am_entityId :: "string option"
  am_before :: "auditPayload option"
  am_after :: "auditPayload option"

definition merge_spec :: "auditSpec \<Rightarrow> auditAmendment \<Rightarrow> auditSpec" where
  "merge_spec spec patch = spec\<lparr>
     as_entityId := (if am_entityId patch = None then as_entityId spec else am_entityId patch),
     as_before := (if am_before patch = None then as_before spec else am_before patch),
     as_after := (if am_after patch = None then as_after spec else am_after patch) \<rparr>"

fun auditActorFor :: "principal \<Rightarrow> auditActor" where
  "auditActorFor (StaffPrincipal user org perms) = Actor_staff user"
| "auditActorFor (CandidatePrincipal attempt org) = Actor_candidate attempt"

fun asApiError :: "auditProblem \<Rightarrow> routeFailure" where
  "asApiError Reason_required = R_api E_validation_failed"
| "asApiError problem = R_audit problem"

definition auditClientAddress :: "auditPlatform \<Rightarrow> string \<Rightarrow> string option \<Rightarrow> string option" where
  "auditClientAddress pf forwarded socket =
     (if isAuditableAddress pf forwarded then Some forwarded
      else case socket of
        Some addr \<Rightarrow> if isAuditableAddress pf addr then Some addr else None
      | None \<Rightarrow> None)"

record auditContext =
  cx_platform :: auditPlatform
  cx_isoText :: "int \<Rightarrow> string"
  cx_caller :: principal
  cx_requestIp :: string
  cx_socketAddress :: "string option"
  cx_now :: int

definition entryFor :: "auditContext \<Rightarrow> auditSpec \<Rightarrow> auditEntry" where
  "entryFor cx spec = \<lparr> ae_orgId = principal_orgId (cx_caller cx), ae_actor = auditActorFor (cx_caller cx),
     ae_action = as_action spec, ae_entityType = as_entityType spec, ae_entityId = as_entityId spec,
     ae_before = as_before spec, ae_after = as_after spec, ae_reason = None,
     ae_ip = auditClientAddress (cx_platform cx) (cx_requestIp cx) (cx_socketAddress cx),
     ae_at = Some (cx_now cx) \<rparr>"

record service =
  sv_bank :: bank
  sv_log :: "preparedAuditEntry list"

type_synonym 'a work = "bank \<Rightarrow> (routeFailure, ('a \<times> auditAmendment) \<times> bank) result"

definition runAudited :: "auditContext \<Rightarrow> auditSpec \<Rightarrow> 'a work \<Rightarrow> service \<Rightarrow> (routeFailure, 'a) result \<times> service" where
  "runAudited cx spec work sv =
     (case prepareAuditEntry (cx_platform cx) (entryFor cx spec) of
        Inl problem \<Rightarrow> (Inl (asApiError problem), sv)
      | Inr _ \<Rightarrow>
          (case work (sv_bank sv) of
             Inl failure \<Rightarrow> (Inl failure, sv)
           | Inr ((val, patch), b') \<Rightarrow>
               (case prepareAuditEntry (cx_platform cx) (entryFor cx (merge_spec spec patch)) of
                  Inl problem \<Rightarrow> (Inl (asApiError problem), sv)
                | Inr row \<Rightarrow> (Inr val, \<lparr> sv_bank = b', sv_log = sv_log sv @ [row] \<rparr>))))"

subsection \<open>Handlers\<close>

definition requireQuestion :: "bank \<Rightarrow> nat \<Rightarrow> bool \<Rightarrow> (routeFailure, questionRecord) result" where
  "requireQuestion b questionId includeArchived =
     (case getQuestionWithCurrentVersion b questionId includeArchived of
        None \<Rightarrow> Inl (R_api E_not_found)
      | Some q \<Rightarrow> Inr q)"

definition requireVersion :: "bank \<Rightarrow> nat \<Rightarrow> int \<Rightarrow> (routeFailure, questionVersionRecord) result" where
  "requireVersion b questionId versionNo =
     (case getVersion b questionId versionNo of
        None \<Rightarrow> Inl (R_api E_not_found)
      | Some v \<Rightarrow> Inr v)"

definition nextStatus :: "questionRecord \<Rightarrow> questionEvent \<Rightarrow> (routeFailure, questionStatus) result" where
  "nextStatus question event =
     (case transitionQuestion (qr_status question) event of
        Inl _ \<Rightarrow> Inl (R_api E_conflict)
      | Inr s \<Rightarrow> Inr s)"

datatype patchableStatus = To_draft | To_review | To_retired

fun eventForTargetStatus :: "patchableStatus \<Rightarrow> questionEvent" where
  "eventForTargetStatus To_review = Submit_for_review"
| "eventForTargetStatus To_retired = Retire"
| "eventForTargetStatus To_draft = Request_changes"

definition assertKindContent ::
  "questionKind \<Rightarrow> kindContentShape \<Rightarrow> kindContentStage \<Rightarrow> (routeFailure, unit) result" where
  "assertKindContent kind shape stage =
     (if validateKindContent kind shape stage = [] then Inr () else Inl (R_api E_validation_failed))"

definition auditQuestion :: "questionRecord \<Rightarrow> auditPayload" where
  "auditQuestion q =
     [(''status'', J_string (questionStatusName (qr_status q))),
      (''kind'', J_string (questionKindName (qr_kind q))),
      (''archived'', J_bool (qr_archived_at q \<noteq> None)),
      (''current_version_id'', nullable (J_id \<circ> vr_id) (qr_current_version q))]"

definition auditVersion :: "(int \<Rightarrow> string) \<Rightarrow> questionVersionRecord \<Rightarrow> auditPayload" where
  "auditVersion isoText v =
     [(''version_no'', J_int (vr_version_no v)), (''locale'', J_string (vr_locale v)),
      (''difficulty'', J_int (vr_difficulty v)),
      (''published_at'', nullable (J_string \<circ> isoText) (vr_published_at v)),
      (''option_count'', J_int (int (length (vr_options v)))),
      (''test_case_count'', J_int (int (length (vr_test_cases v)))),
      (''answer_key_count'', J_int (int (length (vr_answer_keys v))))]"

definition QUESTION_ENTITY :: string where
  "QUESTION_ENTITY = ''question''"

definition VERSION_ENTITY :: string where
  "VERSION_ENTITY = ''question_version''"

record createBody =
  bd_kind :: questionKind
  bd_source_license :: "string option"
  bd_external_ref :: "string option"

fun authorOf :: "principal \<Rightarrow> string option" where
  "authorOf (StaffPrincipal user org perms) = Some user"
| "authorOf _ = None"

definition liftDb :: "(dbFailure, 'a) result \<Rightarrow> (routeFailure, 'a) result" where
  "liftDb r = (case r of Inl e \<Rightarrow> Inl (R_db e) | Inr v \<Rightarrow> Inr v)"

text \<open>\<open>POST /questions\<close>; \<open>createdAt\<close> is the clock of the database.\<close>

definition createWork :: "auditContext \<Rightarrow> createBody \<Rightarrow> int \<Rightarrow> json work" where
  "createWork cx body createdAt b =
     bindResult (liftDb (createQuestion (bd_kind body) (authorOf (cx_caller cx)) (bd_source_license body)
         (bd_external_ref body) createdAt b)) (\<lambda>(created, b').
       Inr ((toAuthorView (cx_isoText cx) created,
             \<lparr> am_entityId = Some (decimal (qr_id created)), am_before = None,
               am_after = Some (auditQuestion created) \<rparr>), b'))"

record patchBody =
  pb_status :: "patchableStatus option"
  pb_archived :: "bool option"

text \<open>\<open>PATCH /questions/{id}\<close>: the status first, then the archive.\<close>

definition patchStatus :: "nat \<Rightarrow> patchBody \<Rightarrow> questionRecord \<Rightarrow> bank \<Rightarrow> (routeFailure, questionRecord \<times> bank) result" where
  "patchStatus questionId patch before b =
     (case pb_status patch of
        None \<Rightarrow> Inr (before, b)
      | Some to \<Rightarrow>
          bindResult (nextStatus before (eventForTargetStatus to)) (\<lambda>target.
            case setQuestionStatus questionId target b of
              (None, _) \<Rightarrow> Inl (R_api E_not_found)
            | (Some written, b1) \<Rightarrow> Inr (written, b1)))"

definition patchArchived :: "nat \<Rightarrow> patchBody \<Rightarrow> int \<Rightarrow> questionRecord \<times> bank \<Rightarrow> (routeFailure, questionRecord \<times> bank) result" where
  "patchArchived questionId patch now = (\<lambda>(current, b).
     (case pb_archived patch of
        None \<Rightarrow> Inr (current, b)
      | Some archive \<Rightarrow>
          (case (if archive then archiveQuestion questionId now b else restoreQuestion questionId b) of
             (Some written, b1) \<Rightarrow> Inr (written, b1)
           | (None, b1) \<Rightarrow> bindResult (requireQuestion b1 questionId True) (\<lambda>q. Inr (q, b1)))))"

definition patchWork :: "auditContext \<Rightarrow> nat \<Rightarrow> patchBody \<Rightarrow> json work" where
  "patchWork cx questionId patch b =
     bindResult (requireQuestion b questionId True) (\<lambda>before.
     bindResult (patchStatus questionId patch before b) (\<lambda>moved.
     bindResult (patchArchived questionId patch (cx_now cx) moved) (\<lambda>(current, b').
       Inr ((toAuthorView (cx_isoText cx) current,
             \<lparr> am_entityId = None, am_before = Some (auditQuestion before),
               am_after = Some (auditQuestion current) \<rparr>), b'))))"

text \<open>\<open>DELETE /questions/{id}\<close>.\<close>

definition deleteWork :: "auditContext \<Rightarrow> nat \<Rightarrow> json work" where
  "deleteWork cx questionId b =
     bindResult (requireQuestion b questionId True) (\<lambda>before.
       let (written, b') = archiveQuestion questionId (cx_now cx) b;
           after = (case written of None \<Rightarrow> before | Some q \<Rightarrow> q) in
       Inr ((toAuthorView (cx_isoText cx) after,
             \<lparr> am_entityId = None, am_before = Some (auditQuestion before),
               am_after = Some (auditQuestion after) \<rparr>), b'))"

definition liftMerge :: "(mergeError, 'a) result \<Rightarrow> (routeFailure, 'a) result" where
  "liftMerge r = (case r of Inl e \<Rightarrow> Inl (R_merge e) | Inr v \<Rightarrow> Inr v)"

text \<open>\<open>POST /questions/{id}/versions\<close>.\<close>

definition createVersionWork :: "auditContext \<Rightarrow> nat \<Rightarrow> questionVersionInput \<Rightarrow> json work" where
  "createVersionWork cx questionId body b =
     bindResult (requireQuestion b questionId False) (\<lambda>question.
       let prior = getLatestVersion b questionId in
       if missingFirstVersionFields prior body \<noteq> [] then Inl (R_api E_validation_failed)
       else
         bindResult (liftMerge (mergeVersionContent prior body)) (\<lambda>content.
         bindResult (assertKindContent (qr_kind question) (shapeOfContent content) Stage_draft) (\<lambda>_.
         bindResult (liftDb (createVersion questionId content (authorOf (cx_caller cx)) (cx_now cx) b))
           (\<lambda>(created, b').
             Inr ((toAuthorVersionView (cx_isoText cx) created,
                   \<lparr> am_entityId = Some (decimal (vr_id created)),
                     am_before = map_option (auditVersion (cx_isoText cx)) prior,
                     am_after = Some (auditVersion (cx_isoText cx) created) \<rparr>), b')))))"

text \<open>\<open>PATCH /questions/{id}/versions/{v}\<close>.\<close>

definition updateVersionWork :: "auditContext \<Rightarrow> nat \<Rightarrow> int \<Rightarrow> questionVersionInput \<Rightarrow> json work" where
  "updateVersionWork cx questionId v body b =
     bindResult (requireQuestion b questionId False) (\<lambda>question.
     bindResult (requireVersion b questionId v) (\<lambda>before.
       if vr_published_at before \<noteq> None then Inl (R_api E_version_immutable)
       else
         bindResult (liftMerge (mergeVersionContent (Some before) body)) (\<lambda>content.
         bindResult (assertKindContent (qr_kind question) (shapeOfContent content) Stage_draft) (\<lambda>_.
         bindResult (liftDb (updateVersion questionId v content b)) (\<lambda>(written, b').
           case written of
             None \<Rightarrow> Inl (R_api E_version_immutable)
           | Some after \<Rightarrow>
               Inr ((toAuthorVersionView (cx_isoText cx) after,
                     \<lparr> am_entityId = Some (decimal (vr_id after)),
                       am_before = Some (auditVersion (cx_isoText cx) before),
                       am_after = Some (auditVersion (cx_isoText cx) after) \<rparr>), b'))))))"

text \<open>\<open>POST /questions/{id}/versions/{v}/publish\<close>: every refusal comes before the stamp.\<close>

definition publishStatus :: "nat \<Rightarrow> questionRecord \<Rightarrow> questionStatus \<Rightarrow> bank \<Rightarrow> (routeFailure, bank) result" where
  "publishStatus questionId question status b =
     (if status \<noteq> qr_status question then
        (case setQuestionStatus questionId status b of
           (None, _) \<Rightarrow> Inl (R_api E_not_found)
         | (Some _, b') \<Rightarrow> Inr b')
      else Inr b)"

definition publishWork :: "auditContext \<Rightarrow> nat \<Rightarrow> int \<Rightarrow> json work" where
  "publishWork cx questionId v b =
     bindResult (requireQuestion b questionId False) (\<lambda>question.
     bindResult (requireVersion b questionId v) (\<lambda>before.
       if vr_published_at before \<noteq> None then Inl (R_api E_conflict)
       else
         bindResult (nextStatus question Publish) (\<lambda>status.
         bindResult (assertKindContent (qr_kind question) (shapeOfRecord before) Stage_publish) (\<lambda>_.
         bindResult (liftDb (publishVersion questionId v (cx_now cx) b)) (\<lambda>(written, b1).
           case written of
             None \<Rightarrow> Inl (R_api E_conflict)
           | Some after \<Rightarrow>
               bindResult (publishStatus questionId question status b1) (\<lambda>b'.
                 Inr ((toAuthorVersionView (cx_isoText cx) after,
                       \<lparr> am_entityId = Some (decimal (vr_id after)),
                         am_before = Some (auditVersion (cx_isoText cx) before @
                           [(''question_status'', J_string (questionStatusName (qr_status question)))]),
                         am_after = Some (auditVersion (cx_isoText cx) after @
                           [(''question_status'', J_string (questionStatusName status))]) \<rparr>), b')))))))"

text \<open>The routes that only read, and the preview, which always ends in a refusal.\<close>

definition getRoute :: "auditContext \<Rightarrow> nat \<Rightarrow> bank \<Rightarrow> (routeFailure, json) result" where
  "getRoute cx questionId b = mapResult (requireQuestion b questionId True) (toAuthorView (cx_isoText cx))"

definition getVersionRoute :: "auditContext \<Rightarrow> nat \<Rightarrow> int \<Rightarrow> bank \<Rightarrow> (routeFailure, json) result" where
  "getVersionRoute cx questionId v b =
     bindResult (requireQuestion b questionId True) (\<lambda>_.
       mapResult (requireVersion b questionId v) (toAuthorVersionView (cx_isoText cx)))"

definition previewRoute :: "nat \<Rightarrow> bank \<Rightarrow> (routeFailure, json) result" where
  "previewRoute questionId b =
     bindResult (requireQuestion b questionId False) (\<lambda>question.
       if qr_kind question \<noteq> Coding \<and> qr_kind question \<noteq> Sql then Inl (R_api E_validation_failed)
       else Inl (R_api E_execution_unavailable))"

subsection \<open>Requests\<close>

datatype bankRequest =
    Create createBody int
  | Patch nat patchBody
  | Delete nat
  | Create_version nat questionVersionInput
  | Update_version nat int questionVersionInput
  | Publish_version nat int

fun requestSpec :: "bankRequest \<Rightarrow> auditSpec" where
  "requestSpec (Create body t) = \<lparr> as_action = ''question.create'', as_entityType = QUESTION_ENTITY,
     as_entityId = None, as_before = None, as_after = None \<rparr>"
| "requestSpec (Patch i patch) = \<lparr> as_action = ''question.update'', as_entityType = QUESTION_ENTITY,
     as_entityId = Some (decimal i), as_before = None, as_after = None \<rparr>"
| "requestSpec (Delete i) = \<lparr> as_action = ''question.archive'', as_entityType = QUESTION_ENTITY,
     as_entityId = Some (decimal i), as_before = None, as_after = None \<rparr>"
| "requestSpec (Create_version i body) = \<lparr> as_action = ''question.version.create'',
     as_entityType = VERSION_ENTITY, as_entityId = None, as_before = None, as_after = None \<rparr>"
| "requestSpec (Update_version i v body) = \<lparr> as_action = ''question.version.update'',
     as_entityType = VERSION_ENTITY, as_entityId = None, as_before = None, as_after = None \<rparr>"
| "requestSpec (Publish_version i v) = \<lparr> as_action = ''question.version.publish'',
     as_entityType = VERSION_ENTITY, as_entityId = None, as_before = None, as_after = None \<rparr>"

fun requestWork :: "auditContext \<Rightarrow> bankRequest \<Rightarrow> json work" where
  "requestWork cx (Create body t) = createWork cx body t"
| "requestWork cx (Patch i patch) = patchWork cx i patch"
| "requestWork cx (Delete i) = deleteWork cx i"
| "requestWork cx (Create_version i body) = createVersionWork cx i body"
| "requestWork cx (Update_version i v body) = updateVersionWork cx i v body"
| "requestWork cx (Publish_version i v) = publishWork cx i v"

text \<open>\<open>staffOnly\<close> comes first in every handler.\<close>

definition serveRequest ::
  "auditContext \<times> bankRequest \<Rightarrow> service \<Rightarrow> (routeFailure, json) result \<times> service" where
  "serveRequest = (\<lambda>(cx, req) sv.
     (case cx_caller cx of
        CandidatePrincipal _ _ \<Rightarrow> (Inl (R_api E_forbidden), sv)
      | StaffPrincipal _ _ _ \<Rightarrow> runAudited cx (requestSpec req) (requestWork cx req) sv))"

subsection \<open>Every request keeps the bank in order\<close>

lemma requireQuestion_row:
  assumes "requireQuestion b questionId archived = Inr question"
  shows "\<exists>row \<in> set (b_questions b). u_id row = questionId \<and> (archived \<or> u_archivedAt row = None) \<and>
    question = toQuestionRecord b row"
  using assms unfolding requireQuestion_def getQuestionWithCurrentVersion_def
  by (auto split: option.split_asm dest!: find_draft)

lemma requireVersion_row:
  assumes "requireVersion b questionId v = Inr version"
  shows "\<exists>row \<in> set (b_versions b). w_questionId row = questionId \<and> w_versionNo row = v \<and>
    version = toVersionRecord b row"
  using assms unfolding requireVersion_def getVersion_def
  by (auto split: option.split_asm dest!: find_draft)

lemma toQuestionRecord_fields [simp]:
  "qr_status (toQuestionRecord b row) = u_status row" "qr_kind (toQuestionRecord b row) = u_kind row"
  by (simp_all add: toQuestionRecord_def)

lemma toVersionRecord_published [simp]: "vr_published_at (toVersionRecord b row) = w_publishedAt row"
  by (simp add: toVersionRecord_def Let_def)

definition kept :: "bank \<Rightarrow> bank \<Rightarrow> bool" where
  "kept b b' \<longleftrightarrow> bank_ok b' \<and> evolves b b' \<and> published_keys b' = published_keys b"

lemma kept_refl: "bank_ok b \<Longrightarrow> kept b b"
  by (simp add: kept_def)

lemma kept_trans: "kept b b' \<Longrightarrow> kept b' b'' \<Longrightarrow> kept b b''"
  unfolding kept_def using evolves_trans by blast

lemma updateQuestion_kept:
  assumes ok: "bank_ok b" and u: "updateQuestion P f b = (written, b')"
    and f: "\<And>q. u_id (f q) = u_id q \<and> u_kind (f q) = u_kind q \<and> u_currentVersionId (f q) = u_currentVersionId q"
    and s: "\<And>q. q \<in> set (b_questions b) \<Longrightarrow> P q \<Longrightarrow> in_circulation (u_status (f q)) = in_circulation (u_status q)"
  shows "kept b b'"
proof -
  have core: "core_ok b" using ok by (simp add: bank_ok_def)
  note e = updateQuestion_core [OF core u f]
  have "status_ok q'" if member: "q' \<in> set (b_questions b')" for q'
  proof -
    obtain q where q: "q \<in> set (b_questions b)" "q' = (if P q then f q else q)"
      using member e by auto
    have "status_ok q" using ok q(1) by (simp add: bank_ok_def)
    then show ?thesis using q(2) s [OF q(1)] f [of q] by (auto simp: status_ok_def)
  qed
  moreover have "published_keys b' = published_keys b" using e by (simp add: published_keys_def)
  ultimately show ?thesis using e by (simp add: kept_def bank_ok_def)
qed

lemma createWork_kept:
  assumes ok: "bank_ok b" and w: "createWork cx body t b = Inr (r, b')"
  shows "kept b b'"
proof -
  obtain created where c: "createQuestion (bd_kind body) (authorOf (cx_caller cx)) (bd_source_license body)
      (bd_external_ref body) t b = Inr (created, b')"
    using w by (auto simp: createWork_def bindResult_Inr_iff liftDb_def split: prod.split_asm sum.split_asm)
  have "core_ok b" using ok by (simp add: bank_ok_def)
  from createQuestion_core [OF this c] show ?thesis
    using ok by (auto simp: kept_def bank_ok_def status_ok_def in_circulation_def)
qed

lemma patch_events_keep_circulation:
  "transitionQuestion s (eventForTargetStatus to) = Inr s' \<Longrightarrow> in_circulation s' = in_circulation s"
  by (cases to; cases s) (auto simp: in_circulation_def illegal_question_def)

lemma patchStatus_kept:
  assumes ok: "bank_ok b" and q: "requireQuestion b questionId True = Inr before"
    and w: "patchStatus questionId patch before b = Inr (moved, b')"
  shows "kept b b'"
proof (cases "pb_status patch")
  case None
  then show ?thesis using w ok by (simp add: patchStatus_def kept_refl)
next
  case (Some to)
  obtain row where row: "row \<in> set (b_questions b)" "u_id row = questionId" "before = toQuestionRecord b row"
    using requireQuestion_row [OF q] by auto
  obtain target where t: "transitionQuestion (u_status row) (eventForTargetStatus to) = Inr target"
      "setQuestionStatus questionId target b = (Some moved, b')"
    using w Some row(3) by (auto simp: patchStatus_def nextStatus_def bindResult_Inr_iff
        split: sum.split_asm prod.split_asm option.split_asm)
  have wf: "bank_wf b" using ok by (simp add: bank_ok_def core_ok_def)
  show ?thesis
  proof (rule updateQuestion_kept [OF ok t(2) [unfolded setQuestionStatus_def]])
    fix u assume u: "u \<in> set (b_questions b)" "u_id u = questionId \<and> u_archivedAt u = None"
    then have "u = row" using question_unique [OF wf u(1) row(1)] row(2) by simp
    then show "in_circulation (u_status (u\<lparr> u_status := target \<rparr>)) = in_circulation (u_status u)"
      using patch_events_keep_circulation [OF t(1)] by simp
  qed simp
qed

lemma archive_kept: "bank_ok b \<Longrightarrow> archiveQuestion i t b = (r, b') \<Longrightarrow> kept b b'"
  unfolding archiveQuestion_def by (erule updateQuestion_kept, assumption) simp_all

lemma restore_kept: "bank_ok b \<Longrightarrow> restoreQuestion i b = (r, b') \<Longrightarrow> kept b b'"
  unfolding restoreQuestion_def by (erule updateQuestion_kept, assumption) simp_all

lemma patchArchived_kept:
  assumes ok: "bank_ok b" and w: "patchArchived questionId patch t (current, b) = Inr (r, b')"
  shows "kept b b'"
  using w ok archive_kept [OF ok] restore_kept [OF ok]
  by (auto simp: patchArchived_def bindResult_Inr_iff kept_refl
      split: option.split_asm prod.split_asm if_split_asm)

lemma patchWork_kept:
  assumes ok: "bank_ok b" and w: "patchWork cx questionId patch b = Inr (r, b')"
  shows "kept b b'"
proof -
  obtain before moved b1 current where s: "requireQuestion b questionId True = Inr before"
      "patchStatus questionId patch before b = Inr (moved, b1)"
      "patchArchived questionId patch (cx_now cx) (moved, b1) = Inr (current, b')"
    using w by (auto simp: patchWork_def bindResult_Inr_iff)
  have k: "kept b b1" by (rule patchStatus_kept [OF ok s(1,2)])
  then have "kept b1 b'" by (intro patchArchived_kept [OF _ s(3)]) (simp add: kept_def)
  with k show ?thesis by (rule kept_trans)
qed

lemma deleteWork_kept:
  assumes ok: "bank_ok b" and w: "deleteWork cx questionId b = Inr (r, b')"
  shows "kept b b'"
proof (cases "archiveQuestion questionId (cx_now cx) b")
  case (Pair written b1)
  then have "b1 = b'" using w by (auto simp: deleteWork_def bindResult_Inr_iff Let_def)
  then show ?thesis using archive_kept [OF ok Pair] by simp
qed

lemma liftDb_Inr [simp]: "liftDb r = Inr v \<longleftrightarrow> r = Inr v"
  by (simp add: liftDb_def split: sum.split)

lemma liftMerge_Inr [simp]: "liftMerge r = Inr v \<longleftrightarrow> r = Inr v"
  by (simp add: liftMerge_def split: sum.split)

lemma createVersionWork_kept:
  assumes ok: "bank_ok b" and w: "createVersionWork cx questionId body b = Inr (r, b')"
  shows "kept b b'"
proof -
  obtain content created where c: "createVersion questionId content (authorOf (cx_caller cx)) (cx_now cx) b = Inr (created, b')"
    using w by (auto simp: createVersionWork_def bindResult_Inr_iff Let_def split: if_split_asm)
  have "core_ok b" using ok by (simp add: bank_ok_def)
  from createVersion_core [OF this c] show ?thesis using ok by (simp add: kept_def bank_ok_def)
qed

lemma updateVersionWork_kept:
  assumes ok: "bank_ok b" and w: "updateVersionWork cx questionId v body b = Inr (r, b')"
  shows "kept b b'"
proof -
  obtain content written where c: "updateVersion questionId v content b = Inr (written, b')"
    using w by (auto simp: updateVersionWork_def bindResult_Inr_iff split: if_split_asm option.split_asm)
  have "core_ok b" using ok by (simp add: bank_ok_def)
  from updateVersion_core [OF this c] show ?thesis using ok by (simp add: kept_def bank_ok_def)
qed

text \<open>Publishing: the pointer moves to the version, the question is in circulation, and the version
  that is now frozen is one its kind can be graded on.\<close>

definition gradable_row :: "bank \<Rightarrow> versionRow \<Rightarrow> bool" where
  "gradable_row b r \<longleftrightarrow>
     (\<forall>q \<in> set (b_questions b). u_id q = w_questionId r \<longrightarrow>
        validateKindContent (u_kind q) (shapeOfRecord (toVersionRecord b r)) Stage_publish = [])"

lemma shape_stamped:
  assumes "\<And>v. same_children b b' v"
  shows "shapeOfRecord (toVersionRecord b' (stamped q no t r)) = shapeOfRecord (toVersionRecord b r)"
proof -
  have "loadVersionChildren b' (w_id r) = loadVersionChildren b (w_id r)"
    by (rule loadVersionChildren_same [OF assms])
  then show ?thesis by (simp add: shapeOfRecord_def toVersionRecord_def Let_def stamped_def)
qed

lemma publishWork_ok:
  assumes ok: "bank_ok b" and w: "publishWork cx questionId v b = Inr (r, b')"
  shows "bank_ok b' \<and> evolves b b' \<and>
    (\<forall>s \<in> set (b_versions b'). w_publishedAt s \<noteq> None \<longrightarrow>
       s \<in> set (b_versions b) \<or> gradable_row b' s)"
proof -
  have core: "core_ok b" and wf: "bank_wf b" using ok by (simp_all add: bank_ok_def core_ok_def)
  obtain question before status after b1 where s: "requireQuestion b questionId False = Inr question"
      "requireVersion b questionId v = Inr before" "nextStatus question Publish = Inr status"
      "assertKindContent (qr_kind question) (shapeOfRecord before) Stage_publish = Inr ()"
      "publishVersion questionId v (cx_now cx) b = Inr (Some after, b1)"
      "publishStatus questionId question status b1 = Inr b'"
    using w by (auto simp: publishWork_def bindResult_Inr_iff split: if_split_asm option.split_asm)
  obtain row where row: "row \<in> set (b_questions b)" "u_id row = questionId" "u_archivedAt row = None"
      "question = toQuestionRecord b row"
    using requireQuestion_row [OF s(1)] by auto
  obtain vrow where vrow: "vrow \<in> set (b_versions b)" "w_questionId vrow = questionId"
      "w_versionNo vrow = v" "before = toVersionRecord b vrow"
    using requireVersion_row [OF s(2)] by auto
  have st: "status = Published"
    using s(3) by (cases "qr_status question") (auto simp: nextStatus_def illegal_question_def)
  note p = publishVersion_core [OF core s(5)]
  then obtain found where found: "found \<in> set (b_versions b)" "draftRow questionId v found"
      "b_versions b1 = map (stamped questionId v (cx_now cx)) (b_versions b)" "\<And>u. same_children b b1 u"
      "b_questions b1 = map (\<lambda>u. if u_id u = questionId then u\<lparr> u_currentVersionId := Some (w_id found) \<rparr> else u)
         (b_questions b)"
    by auto
  have core1: "core_ok b1" and ev1: "evolves b b1" using p by auto
  define f where "f u = (if u_id u = questionId \<and> u_archivedAt u = None then u\<lparr> u_status := Published \<rparr> else u)"
    for u :: questionRow
  have "core_ok b' \<and> evolves b1 b' \<and> b_versions b' = b_versions b1 \<and> (\<forall>u. same_children b1 b' u) \<and>
      (b_questions b' = map f (b_questions b1) \<or> b' = b1 \<and> u_status row = Published)"
  proof (cases "status = qr_status question")
    case True
    then have "b' = b1" "u_status row = Published" using s(6) st row(4) by (simp_all add: publishStatus_def)
    then show ?thesis using core1 by simp
  next
    case False
    then obtain written where "setQuestionStatus questionId Published b1 = (Some written, b')"
      using s(6) st by (auto simp: publishStatus_def split: prod.split_asm option.split_asm)
    from updateQuestion_core [OF core1 this [unfolded setQuestionStatus_def]]
    show ?thesis by (simp add: f_def [abs_def])
  qed
  then have core': "core_ok b'" and ev': "evolves b1 b'" and vs: "b_versions b' = b_versions b1"
    and sc: "\<And>u. same_children b1 b' u"
    and qs: "b_questions b' = map f (b_questions b1) \<or> b' = b1 \<and> u_status row = Published"
    by auto
  have "status_ok u'" if m: "u' \<in> set (b_questions b')" for u'
  proof -
    obtain u where u: "u \<in> set (b_questions b)"
      "u' = f (if u_id u = questionId then u\<lparr> u_currentVersionId := Some (w_id found) \<rparr> else u) \<or>
       u' = (if u_id u = questionId then u\<lparr> u_currentVersionId := Some (w_id found) \<rparr> else u) \<and>
       u_status row = Published"
      using m qs found(5) by auto
    show ?thesis
    proof (cases "u_id u = questionId")
      case True
      then have "u = row" using question_unique [OF wf u(1) row(1)] row(2) by simp
      then show ?thesis using u(2) row(2,3) by (auto simp: f_def status_ok_def in_circulation_def)
    next
      case False
      then have "u' = u" using u(2) by (auto simp: f_def)
      then show ?thesis using ok u(1) by (simp add: bank_ok_def)
    qed
  qed
  then have "bank_ok b'" using core' by (simp add: bank_ok_def)
  moreover have ev: "evolves b b'" by (rule evolves_trans [OF ev1 ev'])
  moreover have "gradable_row b' s"
    if sv: "s \<in> set (b_versions b')" "w_publishedAt s \<noteq> None" "s \<notin> set (b_versions b)" for s
  proof -
    obtain r0 where r0: "r0 \<in> set (b_versions b)" "s = stamped questionId v (cx_now cx) r0"
      using sv(1) vs found(3) by auto
    have d: "draftRow questionId v r0" using sv(3) r0 by (auto simp: stamped_def split: if_split_asm)
    have "r0 = vrow"
      by (rule draft_unique [OF wf r0(1) vrow(1)]) (use d vrow in \<open>simp_all add: draftRow_def\<close>)
    then have shape: "shapeOfRecord (toVersionRecord b' s) = shapeOfRecord before"
      using shape_stamped [of b b' questionId v "cx_now cx" vrow] same_children_trans [OF found(4) sc]
        r0(2) vrow(4) by simp
    show ?thesis
      unfolding gradable_row_def
    proof (intro ballI impI)
      fix q assume q: "q \<in> set (b_questions b')" "u_id q = w_questionId s"
      have id: "u_id q = questionId" using q(2) r0(2) \<open>r0 = vrow\<close> vrow(2) by (simp add: stamped_def)
      then have "u_id q < b_next b" using wf row(1,2) by (auto simp: bank_wf_def)
      then obtain q0 where "q0 \<in> set (b_questions b)" "u_id q0 = u_id q" "u_kind q0 = u_kind q"
        using ev q(1) unfolding evolves_def kinds_kept_def by fastforce
      then have "u_kind q = u_kind row" using question_unique [OF wf _ row(1)] row(2) id by metis
      then show "validateKindContent (u_kind q) (shapeOfRecord (toVersionRecord b' s)) Stage_publish = []"
        using s(4) row(4) shape by (auto simp: assertKindContent_def split: if_split_asm)
    qed
  qed
  ultimately show ?thesis by blast
qed

subsection \<open>Runs\<close>

definition graded_ok :: "bank \<Rightarrow> bool" where
  "graded_ok b \<longleftrightarrow> (\<forall>r \<in> set (b_versions b). w_publishedAt r \<noteq> None \<longrightarrow> gradable_row b r)"

lemma gradable_evolves:
  assumes ok: "core_ok b" and ev: "evolves b b'" and r: "r \<in> set (b_versions b)" "w_publishedAt r \<noteq> None"
    and g: "gradable_row b r"
  shows "gradable_row b' r"
  unfolding gradable_row_def
proof (intro ballI impI)
  fix q assume q: "q \<in> set (b_questions b')" "u_id q = w_questionId r"
  have wf: "bank_wf b" using ok by (simp add: core_ok_def)
  have "w_questionId r < b_next b" using wf r(1) unfolding bank_wf_def by fastforce
  then obtain q0 where q0: "q0 \<in> set (b_questions b)" "u_id q0 = u_id q" "u_kind q0 = u_kind q"
    using ev q unfolding evolves_def kinds_kept_def by fastforce
  have "toVersionRecord b' r = toVersionRecord b r" using frozen_record ev r by (auto simp: evolves_def)
  then show "validateKindContent (u_kind q) (shapeOfRecord (toVersionRecord b' r)) Stage_publish = []"
    using g q0 q(2) by (auto simp: gradable_row_def)
qed

lemma published_row_old:
  assumes "core_ok b'" "evolves b b'" "published_keys b' = published_keys b"
    and r: "r \<in> set (b_versions b')" "w_publishedAt r \<noteq> None"
  shows "r \<in> set (b_versions b)"
proof -
  have "(w_id r, w_questionId r) \<in> published_keys b" using r assms(3) by (auto simp: published_keys_def)
  then obtain s where s: "s \<in> set (b_versions b)" "w_publishedAt s \<noteq> None" "w_id s = w_id r"
    by (auto simp: published_keys_def)
  then have "s \<in> set (b_versions b')" using frozen_record assms(2) by (auto simp: evolves_def)
  moreover have "inj_on w_id (set (b_versions b'))"
    using assms(1) by (simp add: core_ok_def bank_wf_def distinct_map)
  ultimately have "r = s" using r(1) s(3) by (auto dest: inj_onD)
  then show ?thesis using s(1) by simp
qed

lemma kept_graded: "bank_ok b \<Longrightarrow> graded_ok b \<Longrightarrow> kept b b' \<Longrightarrow> graded_ok b'"
  unfolding graded_ok_def kept_def bank_ok_def using gradable_evolves published_row_old by blast

lemma requestWork_ok:
  assumes "bank_ok b" "requestWork cx req b = Inr (r, b')"
  shows "bank_ok b' \<and> evolves b b' \<and> (graded_ok b \<longrightarrow> graded_ok b')"
proof (cases "\<exists>i v. req = Publish_version i v")
  case True
  then obtain i v where "publishWork cx i v b = Inr (r, b')" using assms(2) by auto
  note p = publishWork_ok [OF assms(1) this]
  have "graded_ok b'" if "graded_ok b"
    unfolding graded_ok_def
  proof (intro ballI impI)
    fix s assume s: "s \<in> set (b_versions b')" "w_publishedAt s \<noteq> None"
    then consider "s \<in> set (b_versions b)" | "gradable_row b' s" using p by blast
    then show "gradable_row b' s"
    proof cases
      case 1
      then show ?thesis
        using gradable_evolves [of b b' s] that s p assms(1) by (auto simp: graded_ok_def bank_ok_def)
    qed
  qed
  then show ?thesis using p by blast
next
  case False
  then have "kept b b'"
    using assms createWork_kept patchWork_kept deleteWork_kept createVersionWork_kept updateVersionWork_kept
    by (cases req) auto
  then show ?thesis using kept_graded assms(1) by (auto simp: kept_def)
qed

text \<open>The interface of whatever writes to the bank: each step keeps an invariant that implies
  \<open>bank_ok\<close>, and the bank only evolves.\<close>

locale bank_writer =
  fixes step :: "'e \<Rightarrow> 's \<Rightarrow> 's" and bank_of :: "'s \<Rightarrow> bank" and ok :: "bank \<Rightarrow> bool"
  assumes implies_bank_ok: "ok b \<Longrightarrow> bank_ok b"
    and step_ok: "ok (bank_of s) \<Longrightarrow> ok (bank_of (step e s))"
    and step_evolves: "ok (bank_of s) \<Longrightarrow> evolves (bank_of s) (bank_of (step e s))"
begin

fun run :: "'s \<Rightarrow> 'e list \<Rightarrow> 's" where
  "run s [] = s"
| "run s (e # es) = run (step e s) es"

lemma run_ok: "ok (bank_of s) \<Longrightarrow> ok (bank_of (run s es))"
  by (induction es arbitrary: s) (simp_all add: step_ok)

lemma run_evolves: "ok (bank_of s) \<Longrightarrow> evolves (bank_of s) (bank_of (run s es))"
proof (induction es arbitrary: s)
  case (Cons e es)
  then have "evolves (bank_of (step e s)) (bank_of (run (step e s) es))" using step_ok by blast
  then show ?case using evolves_trans [OF step_evolves [OF Cons.prems]] by simp
qed simp

lemma published_version_kept:
  assumes "ok (bank_of s)" "getVersion (bank_of s) q v = Some found" "vr_published_at found \<noteq> None"
  shows "getVersion (bank_of (run s es)) q v = Some found"
proof -
  let ?b = "bank_of s" and ?b' = "bank_of (run s es)"
  let ?P = "\<lambda>r. w_questionId r = q \<and> w_versionNo r = v"
  obtain r where r: "List.find ?P (b_versions ?b) = Some r" "found = toVersionRecord ?b r"
    using assms(2) by (auto simp: getVersion_def)
  have m: "r \<in> set (b_versions ?b)" "?P r" using find_draft [OF r(1)] by auto
  have "w_publishedAt r \<noteq> None" using assms(3) r(2) by simp
  then have f: "r \<in> set (b_versions ?b')" "toVersionRecord ?b' r = toVersionRecord ?b r"
    using frozen_record [of ?b ?b' r] run_evolves [OF assms(1), of es] m(1) by (auto simp: evolves_def)
  have wf: "bank_wf ?b'"
    using implies_bank_ok [OF run_ok [OF assms(1), of es]] by (simp add: bank_ok_def core_ok_def)
  obtain r' where r': "List.find ?P (b_versions ?b') = Some r'"
    using f(1) m(2) by (cases "List.find ?P (b_versions ?b')") (auto simp: find_None_iff)
  have "r' = r"
    by (rule draft_unique [OF wf _ f(1)]) (use find_draft [OF r'] m(2) in auto)
  then show ?thesis using r' f(2) r(2) by (simp add: getVersion_def)
qed

end

definition served :: "auditContext \<times> bankRequest \<Rightarrow> service \<Rightarrow> service" where
  "served e sv = snd (serveRequest e sv)"

lemma served_cases:
  obtains (refused) failure where "serveRequest e sv = (Inl failure, sv)"
  | (done') cx req reply patch b' row where "e = (cx, req)"
      "requestWork cx req (sv_bank sv) = Inr ((reply, patch), b')"
      "prepareAuditEntry (cx_platform cx) (entryFor cx (merge_spec (requestSpec req) patch)) = Inr row"
      "serveRequest e sv = (Inr reply, \<lparr> sv_bank = b', sv_log = sv_log sv @ [row] \<rparr>)"
      "\<exists>user org perms. cx_caller cx = StaffPrincipal user org perms"
  by (cases e) (force simp: serveRequest_def runAudited_def split: principal.splits sum.splits prod.splits)

lemma served_ok:
  assumes "bank_ok (sv_bank sv)"
  shows "bank_ok (sv_bank (served e sv)) \<and> evolves (sv_bank sv) (sv_bank (served e sv)) \<and>
    (graded_ok (sv_bank sv) \<longrightarrow> graded_ok (sv_bank (served e sv)))"
proof (cases rule: served_cases [of e sv])
  case (refused failure)
  then show ?thesis using assms by (simp add: served_def)
next
  case (done' cx req reply patch b' row)
  then show ?thesis using requestWork_ok [OF assms done'(2)] by (simp add: served_def)
qed

interpretation api: bank_writer served sv_bank "\<lambda>b. bank_ok b \<and> graded_ok b"
  by unfold_locales (use served_ok in blast)+

subsection \<open>Properties\<close>

definition sample_version_row :: versionRow where
  "sample_version_row = \<lparr> w_id = 1, w_questionId = 0, w_versionNo = 1, w_locale = ''en'',
     w_promptMd = ''Why?'', w_explanationMd = None, w_difficulty = 3, w_estSeconds = 60,
     w_maxScore = Fin 1, w_negativeScore = Fin 0, w_publishedAt = Some 5, w_createdBy = None,
     w_createdAt = 4 \<rparr>"

definition sample_question_row :: questionRow where
  "sample_question_row = \<lparr> u_id = 0, u_kind = Subjective, u_status = Published,
     u_currentVersionId = Some 1, u_externalRef = None, u_sourceLicense = None, u_authorId = None,
     u_exposureCount = 0, u_archivedAt = None, u_createdAt = 3 \<rparr>"

definition sample_bank :: bank where
  "sample_bank = \<lparr> b_questions = [sample_question_row], b_versions = [sample_version_row],
     b_options = [], b_specs = [], b_cases = [], b_keys = [], b_skills = [], b_skillIds = [], b_next = 2 \<rparr>"

definition sample_context :: auditContext where
  "sample_context = \<lparr> cx_platform = sample_audit_platform, cx_isoText = (\<lambda>_. ''2026''),
     cx_caller = StaffPrincipal ''u'' ''o'' [], cx_requestIp = ''::1'', cx_socketAddress = None,
     cx_now = 9 \<rparr>"

lemma sample_rows [simp]:
  "b_questions sample_bank = [sample_question_row]" "b_versions sample_bank = [sample_version_row]"
  "b_options sample_bank = []" "b_specs sample_bank = []" "b_cases sample_bank = []"
  "b_keys sample_bank = []" "b_next sample_bank = 2"
  by (simp_all add: sample_bank_def)

lemma sample_keys:
  "u_id sample_question_row = 0" "u_status sample_question_row = Published"
  "u_kind sample_question_row = Subjective" "u_currentVersionId sample_question_row = Some 1"
  "w_id sample_version_row = 1" "w_questionId sample_version_row = 0" "w_versionNo sample_version_row = 1"
  "w_publishedAt sample_version_row = Some 5"
  by (simp_all add: sample_question_row_def sample_version_row_def)

lemma sample_bank_wf: "bank_wf sample_bank"
  by (simp add: bank_wf_def owned_rows_def numbered_def sample_keys)

lemma sample_published: "published_keys sample_bank = {(1, 0)}"
proof -
  have "{r \<in> set (b_versions sample_bank). w_publishedAt r \<noteq> None} = {sample_version_row}"
    by (auto simp: sample_keys)
  then show ?thesis by (simp add: published_keys_def sample_keys del: sample_rows)
qed

lemma sample_bank_ok: "bank_ok sample_bank"
  using sample_bank_wf
  by (simp add: bank_ok_def core_ok_def pointers_ok_def pointer_ok_def sample_published status_ok_def
      in_circulation_def sample_keys)

lemma sample_shape: "shapeOfRecord (toVersionRecord sample_bank sample_version_row) =
    \<lparr> optionCount = 0, correctOptionCount = 0, hasCodingSpec = False, hasFixtureSql = False,
      testCaseCount = 0, hiddenTestCaseCount = 0, answerKeyCount = 0, gradingMode = None,
      casesWithoutAssertion = Some 0 \<rparr>"
  by (simp add: shapeOfRecord_def toVersionRecord_def Let_def loadVersionChildren_def rows_of_def
      blank_def trim_empty_iff)

lemma sample_graded_ok: "graded_ok sample_bank"
  by (simp add: graded_ok_def gradable_row_def sample_keys sample_shape validateKindContent_def
      wrong_kind_issues_def missing_issues_def issue_when_def CHOICE_def CODE_def)

text \<open>C16: through the API alone, a question that is served points at a published version of its own, and
  that version holds only what its kind may hold and everything its kind is graded on: this is so
  after any requests, in a bank where it was so of every published version before them. The bar is
  the API's own; an import writes by a lower one (see the blank fixture), and a bank that imports
  have changed is outside.\<close>

theorem served_question_gradable:
  assumes "bank_ok (sv_bank sv)" "graded_ok (sv_bank sv)"
    "getQuestionWithCurrentVersion (sv_bank (api.run sv es)) i True = Some q"
    "isServableStatus (qr_status q)"
  shows "\<exists>v. qr_current_version q = Some v \<and> vr_question_id v = qr_id q \<and> vr_published_at v \<noteq> None \<and>
    only_own_content (qr_kind q) (shapeOfRecord v) \<and> gradable (qr_kind q) (shapeOfRecord v)"
proof -
  define b where "b = sv_bank (api.run sv es)"
  have ok: "bank_ok b" "graded_ok b" using api.run_ok [of sv es] assms(1,2) by (simp_all add: b_def)
  obtain row where row: "row \<in> set (b_questions b)" "q = toQuestionRecord b row"
    using assms(3) by (auto simp: getQuestionWithCurrentVersion_def b_def dest!: find_draft)
  have "in_circulation (u_status row)"
    using assms(4) row(2) by (simp add: isServableStatus_def in_circulation_def)
  then obtain v where v: "u_currentVersionId row = Some v"
    using ok(1) row(1) by (auto simp: bank_ok_def status_ok_def)
  then have "(v, u_id row) \<in> published_keys b"
    using ok(1) row(1) by (force simp: bank_ok_def core_ok_def pointers_ok_def pointer_ok_def)
  then obtain r where r: "r \<in> set (b_versions b)" "w_publishedAt r \<noteq> None" "w_id r = v" "w_questionId r = u_id row"
    by (auto simp: published_keys_def)
  obtain r' where r': "List.find (\<lambda>x. w_id x = v) (b_versions b) = Some r'"
    using r by (cases "List.find (\<lambda>x. w_id x = v) (b_versions b)") (auto simp: find_None_iff)
  have "inj_on w_id (set (b_versions b))" using ok(1) by (simp add: bank_ok_def core_ok_def bank_wf_def distinct_map)
  then have "r' = r" by (rule inj_onD) (use find_draft [OF r'] r in auto)
  have "gradable_row b r" using ok(2) r(1,2) by (simp add: graded_ok_def)
  then have "validateKindContent (u_kind row) (shapeOfRecord (toVersionRecord b r)) Stage_publish = []"
    using row(1) r(4) by (simp add: gradable_row_def)
  then have "wrong_kind_issues (u_kind row) (shapeOfRecord (toVersionRecord b r)) = []"
    "missing_issues (u_kind row) (shapeOfRecord (toVersionRecord b r)) = []"
    by (simp_all add: validateKindContent_def)
  then have g: "only_own_content (u_kind row) (shapeOfRecord (toVersionRecord b r))"
    "gradable (u_kind row) (shapeOfRecord (toVersionRecord b r))"
    using wrong_kind_issues_iff missing_issues_iff by blast+
  have "vr_question_id (toVersionRecord b r) = u_id row" using r(4) by (simp add: toVersionRecord_def Let_def)
  then show ?thesis
    using v r' \<open>r' = r\<close> r(2) g row(2) by (simp add: toQuestionRecord_def)
qed

theorem served_question_gradable_witness:
  "\<exists>v. qr_current_version (toQuestionRecord sample_bank sample_question_row) = Some v \<and>
    vr_question_id v = qr_id (toQuestionRecord sample_bank sample_question_row) \<and>
    vr_published_at v \<noteq> None \<and>
    only_own_content (qr_kind (toQuestionRecord sample_bank sample_question_row)) (shapeOfRecord v) \<and>
    gradable (qr_kind (toQuestionRecord sample_bank sample_question_row)) (shapeOfRecord v)"
  by (rule served_question_gradable [of "\<lparr> sv_bank = sample_bank, sv_log = [] \<rparr>" "[]" 0])
    (simp_all add: sample_bank_ok sample_graded_ok getQuestionWithCurrentVersion_def isServableStatus_def
      sample_keys)

text \<open>C19: a question request is served by a staff user and leaves exactly one audit row that names
  that user, or it is refused and leaves the bank and the log as they were.\<close>

theorem bank_change_is_audited:
  assumes "serveRequest (cx, req) sv = (reply, sv')"
  shows "(\<exists>failure. reply = Inl failure \<and> sv' = sv) \<or>
    (\<exists>answer row user org perms. reply = Inr answer \<and> cx_caller cx = StaffPrincipal user org perms \<and>
       sv_log sv' = sv_log sv @ [row] \<and> actorOfRow row = Some (Actor_staff user))"
proof (cases rule: served_cases [of "(cx, req)" sv])
  case (refused failure)
  then show ?thesis using assms by simp
next
  case (done' cx' req' answer patch b' row)
  then obtain user org perms where c: "cx_caller cx = StaffPrincipal user org perms" by auto
  have "actorOfRow row = Some (Actor_staff user)"
    using prepared_actor [OF done'(3)] done'(1) c by (simp add: entryFor_def)
  then show ?thesis using assms done'(1,4) c by auto
qed

theorem bank_change_is_audited_witness:
  "(\<exists>failure. fst (serveRequest (sample_context, Delete 7) \<lparr> sv_bank = sample_bank, sv_log = [] \<rparr>) = Inl failure \<and>
     snd (serveRequest (sample_context, Delete 7) \<lparr> sv_bank = sample_bank, sv_log = [] \<rparr>) =
       \<lparr> sv_bank = sample_bank, sv_log = [] \<rparr>) \<or>
   (\<exists>answer row user org perms.
     fst (serveRequest (sample_context, Delete 7) \<lparr> sv_bank = sample_bank, sv_log = [] \<rparr>) = Inr answer \<and>
     cx_caller sample_context = StaffPrincipal user org perms \<and>
     sv_log (snd (serveRequest (sample_context, Delete 7) \<lparr> sv_bank = sample_bank, sv_log = [] \<rparr>)) = [] @ [row] \<and>
     actorOfRow row = Some (Actor_staff user))"
  using bank_change_is_audited [of sample_context "Delete 7" "\<lparr> sv_bank = sample_bank, sv_log = [] \<rparr>"]
  by (cases "serveRequest (sample_context, Delete 7) \<lparr> sv_bank = sample_bank, sv_log = [] \<rparr>") simp

text \<open>C18: a version written is the version read. If its scores have at most two decimals and lie in the
  range of their columns, its tolerances are doubles, its difficulty is in range and none of its texts
  holds U+0000, the write succeeds; the new version is the question's latest and found under its
  number; its content is what was written, but for the order of the members of the two code maps,
  which \<open>jsonb\<close> does not keep; and an empty patch would write the same again.\<close>

theorem version_round_trip:
  assumes "bank_wf b" "storable content" "q \<in> u_id ` set (b_questions b)"
  shows "\<exists>written b'. createVersion q content user t b = Inr (written, b') \<and>
    getVersion b' q (vr_version_no written) = Some written \<and> getLatestVersion b' q = Some written \<and>
    baseline written = asStored content \<and> mergeVersionContent (Some written) emptyInput = Inr (asStored content)"
proof -
  obtain written b' where w: "createVersion q content user t b = Inr (written, b')" "baseline written = asStored content"
    by (rule createVersion_reads [OF assms])
  have "vc_difficulty (baseline written) = vc_difficulty content" unfolding w(2) by (simp add: asStored_def)
  then have "vr_difficulty written = vc_difficulty content" by (simp add: baseline_def)
  then have "mergeVersionContent (Some written) emptyInput = Inr (asStored content)"
    using mergeVersionContent_empty [of written] assms(2) w(2) by (simp add: storable_def)
  then show ?thesis using w createVersion_found [OF assms(1) w(1)] by blast
qed

text \<open>Nothing else is lost in a code map: the members that come back are those that were sent.\<close>

lemma jsonbMap_members: "mset (jsonbMap m) = mset m"
  by (simp add: jsonbMap_def)

text \<open>U+0000 in any text of a version, which the request schemas admit, is an error of the database, and
  the request is answered as an internal error.\<close>

lemma bad_text_refused:
  assumes "\<not> list_all storable_text (versionTexts content)"
  shows "routeCode (case liftDb (createVersion q content user t b) of Inl e \<Rightarrow> e | Inr _ \<Rightarrow> R_api E_not_found) = E_internal"
  using assms by (simp add: createVersion_def liftDb_def)

definition sample_spec :: codingSpecContent where
  "sample_spec = DEFAULT_SPEC\<lparr> sc_allowedLanguages := [''python'', ''c''],
     sc_starterCode := [(''python'', ''pass''), (''c'', ''int''), (''2'', ''two''), (''10'', ''ten'')] \<rparr>"

definition sample_content :: versionContent where
  "sample_content = \<lparr> vc_locale = ''en'', vc_promptMd = ''One?'', vc_explanationMd = None,
     vc_difficulty = 1, vc_estSeconds = 60, vc_maxScore = Fin 1, vc_negativeScore = Fin 0,
     vc_options = [\<lparr> oc_bodyMd = ''yes'', oc_isCorrect = True, oc_scoreDelta = Some (Fin 1), oc_rationaleMd = None \<rparr>],
     vc_codingSpec = Some sample_spec, vc_testCases = [],
     vc_answerKeys = [] \<rparr>"

lemma hundredth_int: "\<bar>k\<bar> < 10 ^ digits \<Longrightarrow> k \<le> 2 ^ 53 \<Longrightarrow> - k \<le> 2 ^ 53 \<Longrightarrow> hundredth digits (Fin (of_int k))"
  unfolding hundredth_def by (rule exI [of _ "100 * k"]) (simp add: dbl_int abs_le_iff)

lemma sample_content_storable: "storable sample_content"
  using hundredth_int [of 1 4] hundredth_int [of 0 4]
  by (simp add: storable_def sample_content_def storable_option_def versionTexts_def childTexts_def specTexts_def
      optionTexts_def storable_text_def sample_spec_def DEFAULT_SPEC_def)

lemma sample_code_order:
  "jsonbMap (sc_starterCode sample_spec) =
     [(''2'', ''two''), (''10'', ''ten''), (''c'', ''int''), (''python'', ''pass'')]"
proof -
  have "jsonbKey ''python'' = 1 # 6 # utf8 ''python''" "jsonbKey ''c'' = 1 # 1 # utf8 ''c''"
    "jsonbKey ''2'' = 0 # 1 # utf8 ''2''" "jsonbKey ''10'' = 0 # 2 # utf8 ''10''"
    by (simp_all add: jsonbKey_def utf8_def utf8_unit_def arrayIndexKey_def string_simps)
  then show ?thesis by (simp add: jsonbMap_def sample_spec_def)
qed

theorem version_round_trip_witness:
  "\<exists>written b'. createVersion 0 sample_content None 8 sample_bank = Inr (written, b') \<and>
    getVersion b' 0 (vr_version_no written) = Some written \<and> getLatestVersion b' 0 = Some written \<and>
    map_option sc_starterCode (vc_codingSpec (baseline written)) =
      Some [(''2'', ''two''), (''10'', ''ten''), (''c'', ''int''), (''python'', ''pass'')] \<and>
    vc_options (baseline written) = vc_options sample_content"
proof -
  obtain written b' where w: "createVersion 0 sample_content None 8 sample_bank = Inr (written, b')"
      "getVersion b' 0 (vr_version_no written) = Some written" "getLatestVersion b' 0 = Some written"
      "baseline written = asStored sample_content"
    using version_round_trip [of sample_bank sample_content 0 None 8]
    by (auto simp: sample_bank_wf sample_content_storable sample_keys)
  have "vc_codingSpec sample_content = Some sample_spec" by (simp add: sample_content_def)
  then show ?thesis using w sample_code_order by (simp add: asStored_def storedSpec_def)
qed

end
