(* ===== verification/Bank_Item.thy ===== *)
theory Bank_Item
  imports Question_Content
begin

text \<open>
  The interchange of question banks (\<open>apps/worker/src/interchange/bank-item.ts\<close>, \<open>records.ts\<close>,
  \<open>bank-document.ts\<close>): the item that crosses between organisations, its conversion from and to the
  shapes of the database layer, and the reader that accepts or reports every entry of a file. The
  declarative part of the item schema is an argument: it yields an item, or at least one issue. Messages
  are lists of UTF-16 code units: those of the declarative schema may quote the file.
\<close>

subsection \<open>Items\<close>

record bankOption =
  bo_body_md :: string
  bo_is_correct :: bool
  bo_score_delta :: "jsnum option"
  bo_rationale_md :: "string option"

record bankCodingSpec =
  bc_allowed_languages :: "string list"
  bc_starter_code :: "(string, string) jsmap"
  bc_solution_code :: "(string, string) jsmap"
  bc_time_limit_ms :: int
  bc_memory_limit_kb :: int
  bc_grading_mode :: string
  bc_checker_code :: "string option"
  bc_fixture_sql :: "string option"

record bankTestCase =
  bt_label :: "string option"
  bt_stdin :: string
  bt_expected_stdout :: "string option"
  bt_args :: "string list option"
  bt_assertion_code :: "string option"
  bt_is_sample :: bool
  bt_weight :: jsnum

record bankAnswerKey =
  bk_match_type :: string
  bk_pattern :: string
  bk_tolerance :: "jsnum option"
  bk_score :: jsnum

record bankVersion =
  bv_version_no :: int
  bv_published :: bool
  bv_locale :: string
  bv_prompt_md :: string
  bv_explanation_md :: "string option"
  bv_difficulty :: int
  bv_est_seconds :: int
  bv_max_score :: jsnum
  bv_negative_score :: jsnum
  bv_options :: "bankOption list"
  bv_coding_spec :: "bankCodingSpec option"
  bv_test_cases :: "bankTestCase list"
  bv_answer_keys :: "bankAnswerKey list"

record bankItem =
  bi_ref :: string
  bi_kind :: questionKind
  bi_status :: questionStatus
  bi_source_license :: "string option"
  bi_external_ref :: "string option"
  bi_skills :: "(string \<times> jsnum) list"
  bi_versions :: "bankVersion list"

subsection \<open>From the record and to the content\<close>

definition toBankOption :: "mcqOptionRecord \<Rightarrow> bankOption" where
  "toBankOption o' = \<lparr> bo_body_md = or_body_md o', bo_is_correct = or_is_correct o',
     bo_score_delta = or_score_delta o', bo_rationale_md = or_rationale_md o' \<rparr>"

definition toBankSpec :: "codingSpecRecord \<Rightarrow> bankCodingSpec" where
  "toBankSpec s = \<lparr> bc_allowed_languages = sr_allowed_languages s, bc_starter_code = sr_starter_code s,
     bc_solution_code = sr_solution_code s, bc_time_limit_ms = sr_time_limit_ms s,
     bc_memory_limit_kb = sr_memory_limit_kb s, bc_grading_mode = sr_grading_mode s,
     bc_checker_code = sr_checker_code s, bc_fixture_sql = sr_fixture_sql s \<rparr>"

definition toBankCase :: "testCaseRecord \<Rightarrow> bankTestCase" where
  "toBankCase t = \<lparr> bt_label = tr_label t, bt_stdin = tr_stdin t, bt_expected_stdout = tr_expected_stdout t,
     bt_args = tr_args t, bt_assertion_code = tr_assertion_code t, bt_is_sample = tr_is_sample t,
     bt_weight = tr_weight t \<rparr>"

definition toBankKey :: "answerKeyRecord \<Rightarrow> bankAnswerKey" where
  "toBankKey k = \<lparr> bk_match_type = kr_match_type k, bk_pattern = kr_pattern k,
     bk_tolerance = kr_tolerance k, bk_score = kr_score k \<rparr>"

definition toBankVersion :: "questionVersionRecord \<Rightarrow> bankVersion" where
  "toBankVersion r = \<lparr> bv_version_no = vr_version_no r, bv_published = (vr_published_at r \<noteq> None),
     bv_locale = vr_locale r, bv_prompt_md = vr_prompt_md r, bv_explanation_md = vr_explanation_md r,
     bv_difficulty = vr_difficulty r, bv_est_seconds = vr_est_seconds r,
     bv_max_score = vr_max_score r, bv_negative_score = vr_negative_score r,
     bv_options = map toBankOption (vr_options r), bv_coding_spec = map_option toBankSpec (vr_coding_spec r),
     bv_test_cases = map toBankCase (vr_test_cases r), bv_answer_keys = map toBankKey (vr_answer_keys r) \<rparr>"

definition ofBankOption :: "bankOption \<Rightarrow> mcqOptionContent" where
  "ofBankOption o' = \<lparr> oc_bodyMd = bo_body_md o', oc_isCorrect = bo_is_correct o',
     oc_scoreDelta = bo_score_delta o', oc_rationaleMd = bo_rationale_md o' \<rparr>"

definition ofBankSpec :: "bankCodingSpec \<Rightarrow> codingSpecContent" where
  "ofBankSpec s = \<lparr> sc_allowedLanguages = bc_allowed_languages s, sc_starterCode = bc_starter_code s,
     sc_solutionCode = bc_solution_code s, sc_timeLimitMs = bc_time_limit_ms s,
     sc_memoryLimitKb = bc_memory_limit_kb s, sc_gradingMode = bc_grading_mode s,
     sc_checkerCode = bc_checker_code s, sc_fixtureSql = bc_fixture_sql s \<rparr>"

definition ofBankCase :: "bankTestCase \<Rightarrow> testCaseContent" where
  "ofBankCase t = \<lparr> tc_label = bt_label t, tc_stdin = bt_stdin t, tc_expectedStdout = bt_expected_stdout t,
     tc_args = bt_args t, tc_assertionCode = bt_assertion_code t, tc_isSample = bt_is_sample t,
     tc_weight = bt_weight t \<rparr>"

definition ofBankKey :: "bankAnswerKey \<Rightarrow> answerKeyContent" where
  "ofBankKey k = \<lparr> kc_matchType = bk_match_type k, kc_pattern = bk_pattern k,
     kc_tolerance = bk_tolerance k, kc_score = bk_score k \<rparr>"

definition toVersionContent :: "bankVersion \<Rightarrow> versionContent" where
  "toVersionContent v = \<lparr> vc_locale = bv_locale v, vc_promptMd = bv_prompt_md v,
     vc_explanationMd = bv_explanation_md v, vc_difficulty = bv_difficulty v,
     vc_estSeconds = bv_est_seconds v, vc_maxScore = bv_max_score v,
     vc_negativeScore = bv_negative_score v, vc_options = map ofBankOption (bv_options v),
     vc_codingSpec = map_option ofBankSpec (bv_coding_spec v),
     vc_testCases = map ofBankCase (bv_test_cases v), vc_answerKeys = map ofBankKey (bv_answer_keys v) \<rparr>"

subsection \<open>Text a database can store\<close>

datatype pathPart = P_key string | P_index nat

type_synonym path = "pathPart list"

text \<open>The scan of \<open>unstorableStrings\<close> over the code units of one string.\<close>

fun unstorableUnits :: "nat list \<Rightarrow> bool" where
  "unstorableUnits [] \<longleftrightarrow> False"
| "unstorableUnits (c # rest) \<longleftrightarrow>
     (if c = 0 then True
      else if 0xd800 \<le> c \<and> c \<le> 0xdbff then
        (case rest of
           [] \<Rightarrow> True
         | next # rest' \<Rightarrow> if 0xdc00 \<le> next \<and> next \<le> 0xdfff then unstorableUnits rest' else True)
      else if 0xdc00 \<le> c \<and> c \<le> 0xdfff then True
      else unstorableUnits rest)"

definition unstorableString :: "path \<Rightarrow> string \<Rightarrow> path list" where
  "unstorableString p s = (if unstorableUnits (map of_char s) then [p] else [])"

fun unstorableStrings :: "path \<Rightarrow> json \<Rightarrow> path list"
  and unstorableElements :: "path \<Rightarrow> nat \<Rightarrow> json list \<Rightarrow> path list"
  and unstorableEntries :: "path \<Rightarrow> (string \<times> json) list \<Rightarrow> path list" where
  "unstorableStrings p (J_string s) = unstorableString p s"
| "unstorableStrings p (J_array vs) = unstorableElements p 0 vs"
| "unstorableStrings p (J_object es) = unstorableEntries p es"
| "unstorableStrings p _ = []"
| "unstorableElements p i [] = []"
| "unstorableElements p i (v # vs) = unstorableStrings (p @ [P_index i]) v @ unstorableElements p (i + 1) vs"
| "unstorableEntries p [] = []"
| "unstorableEntries p ((k, v) # es) =
     unstorableString (p @ [P_key k]) k @ unstorableStrings (p @ [P_key k]) v @ unstorableEntries p es"

subsection \<open>Checking one item\<close>

definition ascending_issues :: "int list \<Rightarrow> path list" where
  "ascending_issues numbers =
     concat (map (\<lambda>i. if numbers ! i \<le> numbers ! (i - 1)
                   then [[P_key ''versions'', P_index i, P_key ''version_no'']] else [])
       [1..<length numbers])"

definition anyPublished :: "bankItem \<Rightarrow> bool" where
  "anyPublished item \<longleftrightarrow> list_ex bv_published (bi_versions item)"

type_synonym itemIssue = "path \<times> codeUnits"

definition UNSTORABLE :: codeUnits where
  "UNSTORABLE = units ''contains U+0000 or an unpaired surrogate, which a question bank cannot store''"

definition aStatus :: "questionStatus \<Rightarrow> string \<Rightarrow> codeUnits" where
  "aStatus status s = units (''a '' @ questionStatusName status @ '' '' @ s)"

definition status_issue :: "bankItem \<Rightarrow> codeUnits" where
  "status_issue item =
     aStatus (bi_status item)
       (if anyPublished item then ''question cannot carry a published version''
        else ''question needs at least one published version'')"

text \<open>The refinement of the item schema. The schema neither adds nor changes a member, so the strings
  of the item are those of the value it was read from.\<close>

definition refineItem :: "json \<Rightarrow> bankItem \<Rightarrow> itemIssue list" where
  "refineItem v item =
     map (\<lambda>p. (p, UNSTORABLE)) (unstorableStrings [] v) @
     map (\<lambda>p. (p, units ''version numbers must ascend strictly''))
       (ascending_issues (map bv_version_no (bi_versions item))) @
     (if distinct (map fst (bi_skills item)) then []
      else [([P_key ''skills''], units ''each skill may appear once'')]) @
     (if (bi_status item = Published \<or> bi_status item = Retired) \<noteq> anyPublished item
      then [([P_key ''status''], status_issue item)] else [])"

definition shapeOfBankVersion :: "bankVersion \<Rightarrow> kindContentShape" where
  "shapeOfBankVersion v = \<lparr>
     optionCount = int (length (bv_options v)),
     correctOptionCount = int (length (filter bo_is_correct (bv_options v))),
     hasCodingSpec = (bv_coding_spec v \<noteq> None),
     hasFixtureSql = (chosen (Option.bind (bv_coding_spec v) bc_fixture_sql) [] \<noteq> []),
     testCaseCount = int (length (bv_test_cases v)),
     hiddenTestCaseCount = int (length (filter (\<lambda>t. \<not> bt_is_sample t) (bv_test_cases v))),
     answerKeyCount = int (length (bv_answer_keys v)),
     gradingMode = map_option bc_grading_mode (bv_coding_spec v),
     casesWithoutAssertion =
       Some (int (length (filter (\<lambda>t. blank (bt_assertion_code t)) (bv_test_cases v)))) \<rparr>"

fun fieldName :: "contentField \<Rightarrow> string" where
  "fieldName F_options = ''options''"
| "fieldName F_coding_spec = ''coding_spec''"
| "fieldName F_test_cases = ''test_cases''"
| "fieldName F_answer_keys = ''answer_keys''"

fun pathText :: "path \<Rightarrow> string" where
  "pathText ps = joinWith (CHR 0x2F) (map (\<lambda>p. case p of P_key k \<Rightarrow> k | P_index i \<Rightarrow> decimal i) ps)"

record itemProblem =
  ip_index :: nat
  ip_ref :: "string option"
  ip_path :: string
  ip_message :: codeUnits

text \<open>What the declarative schema answers: a first issue and more, or an item that may still have
  issues that did not stop the parse.\<close>

type_synonym itemSchema = "json \<Rightarrow> itemIssue \<times> itemIssue list + bankItem \<times> itemIssue list"

definition schemaIssues :: "itemSchema \<Rightarrow> json \<Rightarrow> itemIssue list" where
  "schemaIssues shape v =
     (case shape v of
        Inl (issue, issues) \<Rightarrow> issue # issues
      | Inr (item, issues) \<Rightarrow> issues @ refineItem v item)"

definition kindProblems :: "nat \<Rightarrow> bankItem \<Rightarrow> itemProblem list" where
  "kindProblems index item =
     concat (map (\<lambda>(v, version).
         map (\<lambda>issue. \<lparr> ip_index = index, ip_ref = Some (bi_ref item),
               ip_path = ''versions/'' @ decimal v @ ''/'' @ fieldName (fst (snd issue)),
               ip_message = snd (snd issue) \<rparr>)
           (validateKindContent (bi_kind item) (shapeOfBankVersion version)
              (if bv_published version then Stage_publish else Stage_draft)))
       (enumerate 0 (bi_versions item)))"

definition rawRef :: "json \<Rightarrow> string option" where
  "rawRef v =
     (case v of
        J_object es \<Rightarrow> (case map_get es ''ref'' of Some (J_string r) \<Rightarrow> Some r | _ \<Rightarrow> None)
      | _ \<Rightarrow> None)"

definition checkBankItem :: "itemSchema \<Rightarrow> json \<Rightarrow> nat \<Rightarrow> itemProblem list + bankItem" where
  "checkBankItem shape v index =
     (let issues = schemaIssues shape v in
      if issues \<noteq> [] then
        Inl (map (\<lambda>(p, message). \<lparr> ip_index = index, ip_ref = rawRef v, ip_path = pathText p,
               ip_message = message \<rparr>) issues)
      else
        case shape v of
          Inl _ \<Rightarrow> Inl []
        | Inr (item, _) \<Rightarrow>
            let problems = kindProblems index item in
            if problems = [] then Inr item else Inl problems)"

definition servedOrLatest :: "bankItem \<Rightarrow> bankVersion option" where
  "servedOrLatest item =
     (let published = filter bv_published (bi_versions item) in
      if published \<noteq> [] then Some (last published)
      else if bi_versions item \<noteq> [] then Some (last (bi_versions item))
      else None)"

subsection \<open>Reading a file\<close>

record readResult =
  rd_items :: "(nat \<times> bankItem) list"
  rd_problems :: "itemProblem list"

definition duplicateRef :: "nat \<Rightarrow> bankItem \<Rightarrow> itemProblem" where
  "duplicateRef index item = \<lparr> ip_index = index, ip_ref = Some (bi_ref item), ip_path = ''ref'',
     ip_message = units ''this ref is already used by an earlier item in the file'' \<rparr>"

fun checkItemsFrom :: "itemSchema \<Rightarrow> nat \<Rightarrow> string list \<Rightarrow> json list \<Rightarrow> readResult" where
  "checkItemsFrom shape index seen [] = \<lparr> rd_items = [], rd_problems = [] \<rparr>"
| "checkItemsFrom shape index seen (raw # raws) =
     (case checkBankItem shape raw index of
        Inl problems \<Rightarrow>
          let r = checkItemsFrom shape (index + 1) seen raws in
          r\<lparr> rd_problems := problems @ rd_problems r \<rparr>
      | Inr item \<Rightarrow>
          if bi_ref item \<in> set seen then
            let r = checkItemsFrom shape (index + 1) seen raws in
            r\<lparr> rd_problems := duplicateRef index item # rd_problems r \<rparr>
          else
            let r = checkItemsFrom shape (index + 1) (bi_ref item # seen) raws in
            r\<lparr> rd_items := (index, item) # rd_items r \<rparr>)"

definition checkItems :: "itemSchema \<Rightarrow> json list \<Rightarrow> readResult" where
  "checkItems shape raws = checkItemsFrom shape 0 [] raws"

definition BANK_FORMAT :: string where
  "BANK_FORMAT = ''assaybank.bank''"

definition BANK_FORMAT_VERSION :: jsnum where
  "BANK_FORMAT_VERSION = Fin 1"

datatype unreadable =
    Not_json | Not_an_object | Wrong_format | Wrong_format_version | No_items_array | Not_a_package

text \<open>\<open>parse\<close> stands for \<open>JSON.parse\<close>, of which a throw is \<open>None\<close>.\<close>

definition readBankDocument ::
  "(string \<Rightarrow> json option) \<Rightarrow> itemSchema \<Rightarrow> string \<Rightarrow> (unreadable, readResult) result" where
  "readBankDocument parse shape text =
     (case parse text of
        None \<Rightarrow> Inl Not_json
      | Some (J_object header) \<Rightarrow>
          if map_get header ''format'' \<noteq> Some (J_string BANK_FORMAT) then Inl Wrong_format
          else if map_get header ''format_version'' \<noteq> Some (J_number BANK_FORMAT_VERSION)
          then Inl Wrong_format_version
          else
            (case map_get header ''items'' of
               Some (J_array rawItems) \<Rightarrow> Inr (checkItems shape rawItems)
             | _ \<Rightarrow> Inl No_items_array)
      | Some _ \<Rightarrow> Inl Not_an_object)"

subsection \<open>Nothing is lost on the way through an item\<close>

lemma ofBank_toBank [simp]:
  "ofBankOption (toBankOption o') = baseOption o'" "ofBankSpec (toBankSpec s) = baseSpec s"
  "ofBankCase (toBankCase t) = baseCase t" "ofBankKey (toBankKey k) = baseKey k"
  by (simp_all add: ofBankOption_def toBankOption_def baseOption_def ofBankSpec_def toBankSpec_def
      baseSpec_def ofBankCase_def toBankCase_def baseCase_def ofBankKey_def toBankKey_def baseKey_def)

lemma content_of_exported: "toVersionContent (toBankVersion r) = baseline r"
  by (simp add: toVersionContent_def toBankVersion_def baseline_def comp_def option.map_comp)

text \<open>An item version is given by its content, its number and whether it is published.\<close>

lemma bankVersion_determined:
  "toBankVersion r = v \<longleftrightarrow>
     baseline r = toVersionContent v \<and> vr_version_no r = bv_version_no v \<and> (vr_published_at r \<noteq> None) = bv_published v"
proof -
  have "ofBankOption x = ofBankOption y \<Longrightarrow> x = y" for x y
    by (simp add: ofBankOption_def)
  moreover have "ofBankSpec x = ofBankSpec y \<Longrightarrow> x = y" for x y
    by (simp add: ofBankSpec_def)
  moreover have "ofBankCase x = ofBankCase y \<Longrightarrow> x = y" for x y
    by (simp add: ofBankCase_def)
  moreover have "ofBankKey x = ofBankKey y \<Longrightarrow> x = y" for x y
    by (simp add: ofBankKey_def)
  ultimately have inj: "inj ofBankOption" "inj ofBankSpec" "inj ofBankCase" "inj ofBankKey"
    by (simp_all add: inj_def)
  have "x = y" if "toVersionContent x = toVersionContent y" "bv_version_no x = bv_version_no y"
      "bv_published x = bv_published y" for x y
    using that inj inj_eq [OF option.inj_map [OF inj(2)]] by (simp add: toVersionContent_def inj_map_eq_map)
  then show ?thesis
    using content_of_exported [of r] by (auto simp: toBankVersion_def)
qed

subsection \<open>Every entry is accepted or reported\<close>

definition rawItems :: "(string \<Rightarrow> json option) \<Rightarrow> string \<Rightarrow> json list" where
  "rawItems parse text =
     (case parse text of
        Some (J_object header) \<Rightarrow> (case map_get header ''items'' of Some (J_array raws) \<Rightarrow> raws | _ \<Rightarrow> [])
      | _ \<Rightarrow> [])"

lemma checkBankItem_Inl:
  assumes "checkBankItem shape v index = Inl problems"
  shows "problems \<noteq> [] \<and> (\<forall>p \<in> set problems. ip_index p = index)"
  using assms
  by (auto simp: checkBankItem_def Let_def schemaIssues_def kindProblems_def split: sum.split_asm if_split_asm)

lemma checkBankItem_Inr:
  assumes "checkBankItem shape v index = Inr item"
  shows "shape v = Inr (item, []) \<and> refineItem v item = [] \<and>
    (\<forall>u \<in> set (bi_versions item). validateKindContent (bi_kind item) (shapeOfBankVersion u)
       (if bv_published u then Stage_publish else Stage_draft) = [])"
proof -
  have s: "shape v = Inr (item, []) \<and> refineItem v item = []" and k: "kindProblems index item = []"
    using assms by (auto simp: checkBankItem_def Let_def schemaIssues_def split: sum.split_asm if_split_asm)
  have "validateKindContent (bi_kind item) (shapeOfBankVersion u)
      (if bv_published u then Stage_publish else Stage_draft) = []" if u: "u \<in> set (bi_versions item)" for u
  proof -
    have "u \<in> snd ` set (enumerate 0 (bi_versions item))" using u by (simp flip: set_map)
    then obtain n where "(n, u) \<in> set (enumerate 0 (bi_versions item))" by force
    then show ?thesis using k by (fastforce simp: kindProblems_def)
  qed
  then show ?thesis using s by blast
qed

definition accounted :: "itemSchema \<Rightarrow> nat \<Rightarrow> string list \<Rightarrow> json list \<Rightarrow> readResult \<Rightarrow> bool" where
  "accounted shape index seen raws r \<longleftrightarrow>
     sorted_wrt (<) (map fst (rd_items r)) \<and>
     fst ` set (rd_items r) \<union> ip_index ` set (rd_problems r) = {index ..< index + length raws} \<and>
     fst ` set (rd_items r) \<inter> ip_index ` set (rd_problems r) = {} \<and>
     distinct (map (bi_ref \<circ> snd) (rd_items r)) \<and> (bi_ref \<circ> snd) ` set (rd_items r) \<inter> set seen = {} \<and>
     (\<forall>(i, item) \<in> set (rd_items r). checkBankItem shape (raws ! (i - index)) i = Inr item)"

lemma accounted_range:
  assumes "accounted shape index seen raws r"
  shows "(i, item) \<in> set (rd_items r) \<Longrightarrow> index \<le> i" "p \<in> set (rd_problems r) \<Longrightarrow> index \<le> ip_index p"
proof -
  have u: "fst ` set (rd_items r) \<union> ip_index ` set (rd_problems r) = {index ..< index + length raws}"
    using assms by (simp add: accounted_def)
  show "index \<le> i" if "(i, item) \<in> set (rd_items r)"
    using image_eqI [OF _ that, of i fst] u by auto
  show "index \<le> ip_index p" if "p \<in> set (rd_problems r)"
    using image_eqI [OF refl that, of ip_index] u by auto
qed

lemma accounted_refused:
  assumes r: "accounted shape (index + 1) seen raws r"
    and ps: "problems \<noteq> []" "\<And>p. p \<in> set problems \<Longrightarrow> ip_index p = index"
  shows "accounted shape index seen (raw # raws) (r\<lparr> rd_problems := problems @ rd_problems r \<rparr>)"
proof -
  have i: "ip_index ` set (problems @ rd_problems r) = insert index (ip_index ` set (rd_problems r))"
    using ps by (cases problems) auto
  have "insert index {index + 1 ..< index + 1 + length raws} = {index ..< index + length (raw # raws)}"
    by auto
  then have "fst ` set (rd_items r) \<union> ip_index ` set (problems @ rd_problems r) =
      {index ..< index + length (raw # raws)}"
    using r unfolding i accounted_def by auto
  moreover have "index \<notin> fst ` set (rd_items r)"
    using accounted_range(1) [OF r] by fastforce
  moreover have "checkBankItem shape ((raw # raws) ! (i - index)) i = Inr item"
    if "(i, item) \<in> set (rd_items r)" for i item
    using r accounted_range(1) [OF r that] that by (auto simp: accounted_def nth_Cons' dest!: bspec)
  moreover have "fst ` set (rd_items r) \<inter> ip_index ` set (problems @ rd_problems r) = {}"
    using r calculation(2) unfolding i accounted_def by blast
  ultimately show ?thesis
    using r by (auto simp: accounted_def simp del: set_append)
qed

lemma accounted_accepted:
  assumes r: "accounted shape (index + 1) (bi_ref item # seen) raws r"
    and c: "checkBankItem shape raw index = Inr item" and new: "bi_ref item \<notin> set seen"
  shows "accounted shape index seen (raw # raws) (r\<lparr> rd_items := (index, item) # rd_items r \<rparr>)"
proof -
  have "insert index {index + 1 ..< index + 1 + length raws} = {index ..< index + length (raw # raws)}"
    by auto
  then have "fst ` set ((index, item) # rd_items r) \<union> ip_index ` set (rd_problems r) =
      {index ..< index + length (raw # raws)}"
    using r unfolding accounted_def by auto
  moreover have "index \<notin> ip_index ` set (rd_problems r)"
    using accounted_range(2) [OF r] by fastforce
  moreover have "\<forall>i \<in> set (map fst (rd_items r)). index < i"
    using accounted_range(1) [OF r] by fastforce
  moreover have "checkBankItem shape ((raw # raws) ! (i - index)) i = Inr it"
    if "(i, it) \<in> set (rd_items r)" for i it
    using r accounted_range(1) [OF r that] that by (auto simp: accounted_def nth_Cons' dest!: bspec)
  moreover have "bi_ref item \<notin> (bi_ref \<circ> snd) ` set (rd_items r)"
    using r unfolding accounted_def by auto
  ultimately show ?thesis
    using r c new unfolding accounted_def by auto
qed

lemma checkItemsFrom_accounted: "accounted shape index seen raws (checkItemsFrom shape index seen raws)"
proof (induction raws arbitrary: index seen)
  case Nil
  then show ?case by (simp add: accounted_def)
next
  case (Cons raw raws)
  show ?case
  proof (cases "checkBankItem shape raw index")
    case (Inl problems)
    then show ?thesis
      using accounted_refused [OF Cons.IH, of problems index seen raw] checkBankItem_Inl [OF Inl]
      by (simp add: Let_def)
  next
    case (Inr item)
    show ?thesis
    proof (cases "bi_ref item \<in> set seen")
      case True
      then show ?thesis
        using accounted_refused [OF Cons.IH, of
            "[duplicateRef index item]" index seen raw] Inr
        by (simp add: Let_def duplicateRef_def)
    next
      case False
      then show ?thesis using accounted_accepted [OF Cons.IH Inr] Inr by (simp add: Let_def)
    qed
  qed
qed

lemma readBankDocument_Inr:
  assumes "readBankDocument parse shape text = Inr r"
  shows "r = checkItems shape (rawItems parse text)"
  using assms
  by (auto simp: readBankDocument_def rawItems_def split: option.split_asm json.split_asm if_split_asm)

text \<open>A document that is read accounts for every entry: each is either accepted, as exactly the
  item the checks passed, or has a reported problem at its position, never both; accepted entries
  keep their order and no reference is accepted twice.\<close>

theorem bank_file_accounted:
  assumes "readBankDocument parse shape text = Inr r"
  shows "fst ` set (rd_items r) \<union> ip_index ` set (rd_problems r) = {..< length (rawItems parse text)} \<and>
    fst ` set (rd_items r) \<inter> ip_index ` set (rd_problems r) = {} \<and>
    sorted_wrt (<) (map fst (rd_items r)) \<and> distinct (map (bi_ref \<circ> snd) (rd_items r)) \<and>
    (\<forall>(i, item) \<in> set (rd_items r). checkBankItem shape (rawItems parse text ! i) i = Inr item)"
proof -
  have "accounted shape 0 [] (rawItems parse text) r"
    unfolding readBankDocument_Inr [OF assms] checkItems_def by (rule checkItemsFrom_accounted)
  then show ?thesis unfolding accounted_def by (simp add: atLeast0LessThan)
qed

definition sample_header :: json where
  "sample_header = J_object [(''format'', J_string BANK_FORMAT),
     (''format_version'', J_number BANK_FORMAT_VERSION), (''items'', J_array [J_null])]"

theorem bank_file_accounted_witness:
  "fst ` set [] \<union> ip_index ` set [\<lparr> ip_index = 0, ip_ref = None, ip_path = [], ip_message = [] \<rparr>] = {..< length [J_null]} \<and>
    fst ` set [] \<inter> ip_index ` set [\<lparr> ip_index = 0, ip_ref = None, ip_path = [], ip_message = [] \<rparr>] = {} \<and>
    sorted_wrt (<) (map fst []) \<and> distinct (map (bi_ref \<circ> snd) []) \<and>
    list_all (\<lambda>(i, item). checkBankItem (\<lambda>_. Inl (([], []), [])) ([J_null] ! i) i = Inr item) []"
proof -
  have "rawItems (\<lambda>_. Some sample_header) [] = [J_null]"
    "readBankDocument (\<lambda>_. Some sample_header) (\<lambda>_. Inl (([], []), [])) [] =
       Inr \<lparr> rd_items = [], rd_problems = [\<lparr> ip_index = 0, ip_ref = None, ip_path = [], ip_message = [] \<rparr>] \<rparr>"
    by (simp_all add: rawItems_def readBankDocument_def sample_header_def map_get_def checkItems_def
        checkBankItem_def schemaIssues_def rawRef_def)
  with bank_file_accounted [of "\<lambda>_. Some sample_header" "\<lambda>_. Inl (([], []), [])" "[]"]
  show ?thesis by (simp add: list_all_iff)
qed

subsection \<open>The bar of the importer and the bar of the API\<close>

lemma shapes_agree:
  assumes "\<And>s f. bv_coding_spec v = Some s \<Longrightarrow> bc_fixture_sql s = Some f \<Longrightarrow> trim f = [] \<Longrightarrow> f = []"
  shows "shapeOfBankVersion v = shapeOfContent (toVersionContent v)"
proof -
  have "Option.bind (map_option ofBankSpec (bv_coding_spec v)) sc_fixtureSql =
      Option.bind (bv_coding_spec v) bc_fixture_sql"
    by (cases "bv_coding_spec v") (simp_all add: ofBankSpec_def)
  moreover have "map_option sc_gradingMode (map_option ofBankSpec (bv_coding_spec v)) =
      map_option bc_grading_mode (bv_coding_spec v)"
    by (cases "bv_coding_spec v") (simp_all add: ofBankSpec_def)
  moreover have "oc_isCorrect \<circ> ofBankOption = bo_is_correct"
    "(\<lambda>c. \<not> tc_isSample c) \<circ> ofBankCase = (\<lambda>c. \<not> bt_is_sample c)"
    "(\<lambda>c. blank (tc_assertionCode c)) \<circ> ofBankCase = (\<lambda>c. blank (bt_assertion_code c))"
    by (auto simp: ofBankOption_def ofBankCase_def)
  moreover have "blank (Option.bind (bv_coding_spec v) bc_fixture_sql) \<longleftrightarrow>
      chosen (Option.bind (bv_coding_spec v) bc_fixture_sql) [] = []"
    using assms by (cases "Option.bind (bv_coding_spec v) bc_fixture_sql")
      (auto simp: blank_def trim_empty_iff bind_eq_Some_conv)
  ultimately show ?thesis
    by (simp add: shapeOfContent_def shapeOfBankVersion_def toVersionContent_def length_filter_map)
qed

definition sample_sql_version :: bankVersion where
  "sample_sql_version = \<lparr> bv_version_no = 1, bv_published = True, bv_locale = ''en'', bv_prompt_md = ''Q'',
     bv_explanation_md = None, bv_difficulty = 1, bv_est_seconds = 60, bv_max_score = Fin 1,
     bv_negative_score = Fin 0, bv_options = [],
     bv_coding_spec = Some \<lparr> bc_allowed_languages = [''sql''], bc_starter_code = [], bc_solution_code = [],
       bc_time_limit_ms = 5000, bc_memory_limit_kb = 262144, bc_grading_mode = ''test_cases'',
       bc_checker_code = None, bc_fixture_sql = Some '' '' \<rparr>,
     bv_test_cases = [\<lparr> bt_label = None, bt_stdin = [], bt_expected_stdout = Some ''1'', bt_args = None,
       bt_assertion_code = None, bt_is_sample = False, bt_weight = Fin 1 \<rparr>],
     bv_answer_keys = [] \<rparr>"

definition sample_sql_item :: bankItem where
  "sample_sql_item = \<lparr> bi_ref = ''q'', bi_kind = Sql, bi_status = Published, bi_source_license = None,
     bi_external_ref = None, bi_skills = [], bi_versions = [sample_sql_version] \<rparr>"

lemma sample_sql_accepted:
  "refineItem J_null sample_sql_item = []"
  "kindProblems i sample_sql_item = []"
  by (simp_all add: refineItem_def sample_sql_item_def ascending_issues_def anyPublished_def
      sample_sql_version_def kindProblems_def validateKindContent_def wrong_kind_issues_def
      missing_issues_def casesMissing_def issue_when_def shapeOfBankVersion_def CHOICE_def CODE_def)

text \<open>C37: the importer's bar for published content is lower than the API's: an SQL question whose
  fixture is a single space is accepted as published, and the API would refuse to publish its
  content for the lack of a fixture.\<close>

theorem blank_fixture_imported:
  assumes "shape raw = Inr (sample_sql_item, [])" "unstorableStrings [] raw = []"
  shows "checkBankItem shape raw i = Inr sample_sql_item \<and>
    validateKindContent (bi_kind sample_sql_item)
      (shapeOfContent (toVersionContent sample_sql_version)) Stage_publish =
        [(Incomplete, F_coding_spec, units ''an sql question needs fixture_sql '' @ [0x2014] @
            units '' the database the query runs against'')]"
proof -
  have "refineItem raw sample_sql_item = []"
    using sample_sql_accepted(1) assms(2) by (simp add: refineItem_def)
  then have "checkBankItem shape raw i = Inr sample_sql_item"
    using assms(1) sample_sql_accepted(2) by (simp add: checkBankItem_def schemaIssues_def)
  moreover have "blank (Some '' '')" by (simp add: blank_def trim_empty_iff is_ws_def)
  ultimately show ?thesis
    by (simp add: sample_sql_item_def sample_sql_version_def shapeOfContent_def toVersionContent_def
        ofBankSpec_def ofBankCase_def validateKindContent_def wrong_kind_issues_def missing_issues_def
        casesMissing_def issue_when_def CHOICE_def CODE_def)
qed

theorem blank_fixture_imported_witness:
  "checkBankItem (\<lambda>_. Inr (sample_sql_item, [])) J_null 0 = Inr sample_sql_item \<and>
    validateKindContent (bi_kind sample_sql_item)
      (shapeOfContent (toVersionContent sample_sql_version)) Stage_publish =
        [(Incomplete, F_coding_spec, units ''an sql question needs fixture_sql '' @ [0x2014] @
            units '' the database the query runs against'')]"
  by (rule blank_fixture_imported) simp_all

subsection \<open>Storable text is well-formed UTF-16\<close>

definition scalar_value :: "nat \<Rightarrow> bool" where
  "scalar_value c \<longleftrightarrow> 0 < c \<and> c \<le> 0x10ffff \<and> \<not> (0xd800 \<le> c \<and> c \<le> 0xdfff)"

definition utf16_units :: "nat \<Rightarrow> nat list" where
  "utf16_units c =
     (if c < 0x10000 then [c]
      else [0xd800 + (c - 0x10000) div 0x400, 0xdc00 + (c - 0x10000) mod 0x400])"

lemma unstorableUnits_char:
  assumes "scalar_value c"
  shows "unstorableUnits (utf16_units c @ us) = unstorableUnits us"
proof (cases "c < 0x10000")
  case True
  have "c \<noteq> 0" "\<not> (0xd800 \<le> c \<and> c \<le> 0xdbff)" "\<not> (0xdc00 \<le> c \<and> c \<le> 0xdfff)"
    using assms unfolding scalar_value_def by linarith+
  then show ?thesis using True by (simp only: utf16_units_def unstorableUnits.simps append.simps if_True if_False)
next
  case False
  have "(c - 0x10000) div 0x400 < 0x400" 
    by (rule less_mult_imp_div_less) (use assms in \<open>unfold scalar_value_def, simp, linarith\<close>)
  moreover have "(c - 0x10000) mod 0x400 < 0x400" by simp
  ultimately have "0xd800 + (c - 0x10000) div 0x400 \<le> 0xdbff" "0xdc00 + (c - 0x10000) mod 0x400 \<le> 0xdfff"
    by linarith+
  then show ?thesis using False by (simp add: utf16_units_def)
qed

lemma unit_is_scalar: "c < 0x10000 \<Longrightarrow> c \<noteq> 0 \<Longrightarrow> \<not> (0xd800 \<le> c \<and> c \<le> 0xdbff) \<Longrightarrow>
    \<not> (0xdc00 \<le> c \<and> c \<le> 0xdfff) \<Longrightarrow> scalar_value c \<and> utf16_units c = [c]"
  by (auto simp: scalar_value_def utf16_units_def)

lemma pair_is_scalar:
  assumes "0xd800 \<le> c" "c \<le> 0xdbff" "0xdc00 \<le> d" "d \<le> 0xdfff"
  shows "\<exists>p. scalar_value p \<and> utf16_units p = [c, d]"
proof -
  define p where "p = 0x10000 + ((c - 0xd800) * 0x400 + (d - 0xdc00))"
  have "d - 0xdc00 < 0x400" "c - 0xd800 < 0x400" using assms by simp_all
  then have "(p - 0x10000) div 0x400 = c - 0xd800" "(p - 0x10000) mod 0x400 = d - 0xdc00"
    by (simp_all add: p_def)
  moreover have "scalar_value p" using assms unfolding scalar_value_def p_def by linarith
  ultimately show ?thesis using assms by (intro exI [of _ p]) (simp add: utf16_units_def p_def)
qed

text \<open>The strings the importer accepts are exactly the well-formed UTF-16 texts without a null
  character, which are those a text column stores unchanged.\<close>

theorem stored_text_exact:
  assumes "\<forall>u \<in> set us. u < 0x10000"
  shows "\<not> unstorableUnits us \<longleftrightarrow> (\<exists>cs. list_all scalar_value cs \<and> us = concat (map utf16_units cs))"
proof
  show "\<exists>cs. list_all scalar_value cs \<and> us = concat (map utf16_units cs)" if "\<not> unstorableUnits us"
    using that assms
  proof (induction us rule: unstorableUnits.induct)
    case 1
    show ?case by (rule exI [of _ "[]"]) simp
  next
    case (2 c rest)
    consider (pair) d rest' where "0xd800 \<le> c" "c \<le> 0xdbff" "0xdc00 \<le> d" "d \<le> 0xdfff" "rest = d # rest'"
        "\<not> unstorableUnits rest'"
      | (unit) "c \<noteq> 0" "\<not> (0xd800 \<le> c \<and> c \<le> 0xdbff)" "\<not> (0xdc00 \<le> c \<and> c \<le> 0xdfff)"
        "\<not> unstorableUnits rest"
      using "2.prems"(1) by (auto split: if_split_asm list.split_asm)
    then show ?case
    proof cases
      case pair
      have "c \<noteq> 0" using pair(1) by simp
      then obtain cs where "list_all scalar_value cs" "rest' = concat (map utf16_units cs)"
        using "2.IH"(1) [of d rest'] pair "2.prems"(2) by auto
      moreover obtain p where "scalar_value p" "utf16_units p = [c, d]" using pair_is_scalar pair by blast
      ultimately show ?thesis using pair(5) by (intro exI [of _ "p # cs"]) simp
    next
      case unit
      then obtain cs where "list_all scalar_value cs" "rest = concat (map utf16_units cs)"
        using "2.IH"(2) "2.prems"(2) by auto
      then show ?thesis using unit_is_scalar [of c] unit "2.prems"(2) by (intro exI [of _ "c # cs"]) simp
    qed
  qed
  show "\<not> unstorableUnits us" if "\<exists>cs. list_all scalar_value cs \<and> us = concat (map utf16_units cs)"
  proof -
    have "\<not> unstorableUnits (concat (map utf16_units cs))" if "list_all scalar_value cs" for cs
      using that by (induction cs) (simp_all add: unstorableUnits_char)
    then show ?thesis using that by blast
  qed
qed

theorem stored_text_exact_witness:
  "\<not> unstorableUnits [0x61, 0xd83d, 0xde00] \<longleftrightarrow>
     (\<exists>cs. list_all scalar_value cs \<and> [0x61, 0xd83d, 0xde00] = concat (map utf16_units cs))"
  by (rule stored_text_exact) simp

end
