(* ===== verification/Bank_Jobs.thy ===== *)
theory Bank_Jobs
  imports Bank_Item "HOL-Library.Word"
begin

text \<open>
  The table of bank jobs (\<open>packages/db/src/bank-jobs.ts\<close>, with the claim of the migration
  \<open>0010_bank_jobs.sql\<close>): the outbox the API writes and the record the worker advances. One function
  per exported operation, over the rows of one organisation. Files are lists of bytes; identifiers
  are the numbers of their draw and \<open>rank\<close> is their order as the database compares them. An
  operation that hands the database a text or a document it cannot store answers \<open>None\<close>: the statement
  is refused and the transaction ends.
\<close>

subsection \<open>Rows\<close>

datatype bankJobKind = Import_job | Export_job
datatype bankJobFormat = Fmt_json | Fmt_qti | Fmt_humaneval | Fmt_mbpp | Fmt_lbpp | Fmt_exercism
datatype bankJobStatus = Job_queued | Job_dispatched | Job_running | Job_succeeded | Job_failed

type_synonym blob = "8 word list"

definition MAX_BANK_JOB_BYTES :: nat where
  "MAX_BANK_JOB_BYTES = 32 * 1024 * 1024"

definition MAX_STORED_PROBLEMS :: nat where
  "MAX_STORED_PROBLEMS = 1000"

record bankJobRow =
  j_id :: nat
  j_kind :: bankJobKind
  j_format :: bankJobFormat
  j_status :: bankJobStatus
  j_requestedBy :: string
  j_options :: json
  j_input :: "blob option"
  j_inputBytes :: "nat option"
  j_result :: "blob option"
  j_resultContentType :: "string option"
  j_resultBytes :: "nat option"
  j_nextIndex :: nat
  j_createdCount :: nat
  j_skippedCount :: nat
  j_problems :: "itemProblem list"
  j_problemsTruncated :: bool
  j_failure :: "string option"
  j_createdAt :: int
  j_dispatchedAt :: "int option"
  j_startedAt :: "int option"
  j_finishedAt :: "int option"
  j_expiresAt :: "int option"

subsection \<open>Creating and reading\<close>

record createBankJobInput =
  cj_kind :: bankJobKind
  cj_format :: bankJobFormat
  cj_requestedBy :: string
  cj_options :: json
  cj_input :: "blob option"
  cj_at :: int

text \<open>The checks of the table end the transaction, and so do options \<open>jsonb\<close> refuses.\<close>

definition storable_job :: "createBankJobInput \<Rightarrow> bool" where
  "storable_job job \<longleftrightarrow>
     unstorableStrings [] (cj_options job) = [] \<and>
     (cj_kind job = Export_job \<longrightarrow> cj_format job \<in> {Fmt_json, Fmt_qti}) \<and>
     (\<forall>file. cj_input job = Some file \<longrightarrow> length file \<le> MAX_BANK_JOB_BYTES)"

definition createBankJob :: "nat \<Rightarrow> createBankJobInput \<Rightarrow> bankJobRow list \<Rightarrow> (bankJobRow \<times> bankJobRow list) option" where
  "createBankJob i job jobs =
     (if \<not> storable_job job then None
      else
        let row = \<lparr> j_id = i, j_kind = cj_kind job, j_format = cj_format job, j_status = Job_queued,
              j_requestedBy = cj_requestedBy job, j_options = cj_options job, j_input = cj_input job,
              j_inputBytes = map_option length (cj_input job), j_result = None,
              j_resultContentType = None, j_resultBytes = None, j_nextIndex = 0, j_createdCount = 0,
              j_skippedCount = 0, j_problems = [], j_problemsTruncated = False, j_failure = None,
              j_createdAt = cj_at job, j_dispatchedAt = None, j_startedAt = None,
              j_finishedAt = None, j_expiresAt = None \<rparr> in
        Some (row, jobs @ [row]))"

definition getBankJob :: "nat \<Rightarrow> bankJobRow list \<Rightarrow> bankJobRow option" where
  "getBankJob i jobs = List.find (\<lambda>r. j_id r = i) jobs"

definition readBankJobInput :: "nat \<Rightarrow> bankJobRow list \<Rightarrow> blob option" where
  "readBankJobInput i jobs = Option.bind (getBankJob i jobs) j_input"

definition readBankJobResult :: "nat \<Rightarrow> int \<Rightarrow> bankJobRow list \<Rightarrow> (blob \<times> string) option" where
  "readBankJobResult i now jobs =
     (case List.find (\<lambda>r. j_id r = i \<and> j_kind r = Export_job \<and> j_status r = Job_succeeded \<and>
             (case j_expiresAt r of None \<Rightarrow> True | Some t \<Rightarrow> t > now)) jobs of
        None \<Rightarrow> None
      | Some r \<Rightarrow>
          (case (j_result r, j_resultContentType r) of
             (Some bytes, Some contentType) \<Rightarrow> Some (bytes, contentType)
           | _ \<Rightarrow> None))"

subsection \<open>Claiming and starting\<close>

definition claimable :: "int \<Rightarrow> int \<Rightarrow> bankJobRow \<Rightarrow> bool" where
  "claimable now staleSeconds r \<longleftrightarrow>
     j_status r = Job_queued \<or>
     (j_status r = Job_dispatched \<and>
      (case j_dispatchedAt r of None \<Rightarrow> False | Some t \<Rightarrow> t < now - max staleSeconds 30 * 1000))"

definition updateJobs :: "(bankJobRow \<Rightarrow> bool) \<Rightarrow> (bankJobRow \<Rightarrow> bankJobRow) \<Rightarrow> bankJobRow list \<Rightarrow> bankJobRow list" where
  "updateJobs P f jobs = map (\<lambda>r. if P r then f r else r) jobs"

definition claimBankJobs ::
  "(nat \<Rightarrow> nat) \<Rightarrow> int \<Rightarrow> int \<Rightarrow> int \<Rightarrow> bankJobRow list \<Rightarrow> nat list \<times> bankJobRow list" where
  "claimBankJobs rank limit now staleSeconds jobs =
     (let ids = map j_id (take (nat (min (max limit 1) 100))
            (sort_key j_createdAt (sort_key (rank \<circ> j_id) (filter (claimable now staleSeconds) jobs)))) in
      (ids, updateJobs (\<lambda>r. j_id r \<in> set ids)
              (\<lambda>r. r\<lparr> j_status := Job_dispatched, j_dispatchedAt := Some now \<rparr>) jobs))"

definition startable :: "nat \<Rightarrow> bankJobRow \<Rightarrow> bool" where
  "startable i r \<longleftrightarrow> j_id r = i \<and> j_status r \<in> {Job_queued, Job_dispatched, Job_running}"

definition started :: "int \<Rightarrow> bankJobRow \<Rightarrow> bankJobRow" where
  "started at_ms r = r\<lparr> j_status := Job_running,
     j_startedAt := (case j_startedAt r of None \<Rightarrow> Some at_ms | Some t \<Rightarrow> Some t) \<rparr>"

definition startBankJob :: "nat \<Rightarrow> int \<Rightarrow> bankJobRow list \<Rightarrow> bankJobRow option \<times> bankJobRow list" where
  "startBankJob i at_ms jobs =
     (map_option (started at_ms) (List.find (startable i) jobs), updateJobs (startable i) (started at_ms) jobs)"

subsection \<open>Advancing and finishing\<close>

text \<open>The problems are sent as one \<open>jsonb\<close> document, which is read whether or not it is stored.\<close>

definition storable_problem :: "itemProblem \<Rightarrow> bool" where
  "storable_problem p \<longleftrightarrow>
     \<not> unstorableUnits (units (chosen (ip_ref p) [])) \<and> \<not> unstorableUnits (units (ip_path p)) \<and>
     \<not> unstorableUnits (ip_message p)"

definition appendProblems :: "itemProblem list \<Rightarrow> bankJobRow \<Rightarrow> bankJobRow" where
  "appendProblems problems r = r\<lparr>
     j_problems := (if length (j_problems r) \<ge> MAX_STORED_PROBLEMS then j_problems r
                    else take MAX_STORED_PROBLEMS (j_problems r @ problems)),
     j_problemsTruncated := j_problemsTruncated r \<or>
       length (j_problems r) + length problems > MAX_STORED_PROBLEMS \<rparr>"

definition parsed :: "itemProblem list \<Rightarrow> bankJobRow \<Rightarrow> bankJobRow" where
  "parsed problems r = (appendProblems problems r)\<lparr>
     j_skippedCount := j_skippedCount r + card (ip_index ` set problems) \<rparr>"

definition recordParseProblems :: "nat \<Rightarrow> itemProblem list \<Rightarrow> bankJobRow list \<Rightarrow> bankJobRow list option" where
  "recordParseProblems i problems jobs =
     (if problems = [] then Some jobs
      else if \<not> list_all storable_problem problems then None
      else Some (updateJobs (\<lambda>r. j_id r = i) (parsed problems) jobs))"

definition advanced :: "nat \<Rightarrow> bool \<Rightarrow> itemProblem list \<Rightarrow> bankJobRow \<Rightarrow> bankJobRow" where
  "advanced nextIndex created problems r =
     (if problems = [] then r else appendProblems problems r)\<lparr>
       j_nextIndex := nextIndex,
       j_createdCount := j_createdCount r + (if created then 1 else 0),
       j_skippedCount := j_skippedCount r + (if created then 0 else 1) \<rparr>"

definition advanceImport ::
  "nat \<Rightarrow> nat \<Rightarrow> bool \<Rightarrow> itemProblem list \<Rightarrow> bankJobRow list \<Rightarrow> bankJobRow list option" where
  "advanceImport i nextIndex created problems jobs =
     (if \<not> list_all storable_problem problems then None
      else Some (updateJobs (\<lambda>r. j_id r = i) (advanced nextIndex created problems) jobs))"

text \<open>The result of a finished job: its bytes, their type, and when they expire.\<close>

definition finished :: "int \<Rightarrow> (blob \<times> string \<times> int) option \<Rightarrow> bankJobRow \<Rightarrow> bankJobRow" where
  "finished at_ms result r = r\<lparr> j_status := Job_succeeded, j_finishedAt := Some at_ms, j_input := None,
     j_result := map_option fst result, j_resultContentType := map_option (fst \<circ> snd) result,
     j_resultBytes := map_option (length \<circ> fst) result, j_expiresAt := map_option (snd \<circ> snd) result \<rparr>"

definition finishBankJob ::
  "nat \<Rightarrow> int \<Rightarrow> (blob \<times> string \<times> int) option \<Rightarrow> bankJobRow list \<Rightarrow> bankJobRow list" where
  "finishBankJob i at_ms result = updateJobs (\<lambda>r. j_id r = i) (finished at_ms result)"

definition failed :: "int \<Rightarrow> string \<Rightarrow> bankJobRow \<Rightarrow> bankJobRow" where
  "failed at_ms failure r = r\<lparr> j_status := Job_failed, j_finishedAt := Some at_ms, j_input := None,
     j_failure := Some (take 2000 failure) \<rparr>"

definition failBankJob :: "nat \<Rightarrow> int \<Rightarrow> string \<Rightarrow> bankJobRow list \<Rightarrow> bankJobRow list option" where
  "failBankJob i at_ms failure jobs =
     (if unstorableUnits (units (take 2000 failure)) then None
      else Some (updateJobs (\<lambda>r. j_id r = i) (failed at_ms failure) jobs))"

subsection \<open>One row among the others\<close>

text \<open>Identifiers are unique: an operation on one job reads and writes that row alone.\<close>

definition jobs_wf :: "bankJobRow list \<Rightarrow> bool" where
  "jobs_wf jobs \<longleftrightarrow> distinct (map j_id jobs)"

lemma job_ids [simp]:
  "j_id (started t r) = j_id r" "j_id (appendProblems ps r) = j_id r" "j_id (parsed ps r) = j_id r"
  "j_id (advanced n c ps r) = j_id r" "j_id (finished t res r) = j_id r" "j_id (failed t s r) = j_id r"
  by (simp_all add: started_def appendProblems_def parsed_def advanced_def finished_def failed_def)

lemma updateJobs_ids: "(\<And>r. j_id (f r) = j_id r) \<Longrightarrow> map j_id (updateJobs P f jobs) = map j_id jobs"
  by (simp add: updateJobs_def comp_def if_distrib)

lemma updateJobs_wf: "(\<And>r. j_id (f r) = j_id r) \<Longrightarrow> jobs_wf (updateJobs P f jobs) \<longleftrightarrow> jobs_wf jobs"
  by (simp add: jobs_wf_def updateJobs_ids)

lemma getBankJob_update:
  "(\<And>r. j_id (f r) = j_id r) \<Longrightarrow>
    getBankJob i (updateJobs (\<lambda>r. j_id r = k) f jobs) =
      map_option (\<lambda>r. if k = i then f r else r) (getBankJob i jobs)"
  unfolding getBankJob_def updateJobs_def by (induction jobs) auto

lemma getBankJob_id: "getBankJob i jobs = Some r \<Longrightarrow> j_id r = i"
  by (auto simp: getBankJob_def find_Some_iff)

lemma startBankJob_get:
  assumes "getBankJob i jobs = Some r" "jobs_wf jobs"
  shows "startBankJob i t jobs =
    (if startable i r then (Some (started t r), updateJobs (\<lambda>r. j_id r = i) (started t) jobs) else (None, jobs))"
proof -
  have r: "r \<in> set jobs" "j_id r = i" using assms(1) by (auto simp: getBankJob_def find_Some_iff)
  have "inj_on j_id (set jobs)" using assms(2) by (simp add: jobs_wf_def distinct_map)
  then have only: "r' = r" if "r' \<in> set jobs" "j_id r' = i" for r'
    by (rule inj_onD) (use r that in simp_all)
  show ?thesis
  proof (cases "startable i r")
    case True
    obtain r' where f: "List.find (startable i) jobs = Some r'"
      using True r(1) by (cases "List.find (startable i) jobs") (auto simp: find_None_iff)
    then have "r' \<in> set jobs" "startable i r'" by (auto simp: find_Some_iff)
    then have "r' = r" using only by (simp add: startable_def)
    moreover have "startable i x \<longleftrightarrow> j_id x = i" if "x \<in> set jobs" for x
      using only [OF that] True r(2) by (auto simp: startable_def)
    ultimately show ?thesis
      using True f by (simp add: startBankJob_def updateJobs_def cong: map_cong)
  next
    case False
    then have no: "\<not> startable i x" if "x \<in> set jobs" for x
      using only [OF that] by (auto simp: startable_def)
    then have "List.find (startable i) jobs = None" by (simp add: find_None_iff)
    moreover have "updateJobs (startable i) (started t) jobs = jobs"
      using no by (simp add: updateJobs_def map_idI)
    ultimately show ?thesis using False by (simp add: startBankJob_def)
  qed
qed

subsection \<open>The record of problems\<close>

lemma appendProblems_fields [simp]:
  "j_status (appendProblems ps r) = j_status r" "j_kind (appendProblems ps r) = j_kind r"
  "j_input (appendProblems ps r) = j_input r" "j_options (appendProblems ps r) = j_options r"
  "j_format (appendProblems ps r) = j_format r" "j_requestedBy (appendProblems ps r) = j_requestedBy r"
  "j_nextIndex (appendProblems ps r) = j_nextIndex r" "j_createdCount (appendProblems ps r) = j_createdCount r"
  "j_skippedCount (appendProblems ps r) = j_skippedCount r"
  by (simp_all add: appendProblems_def)

text \<open>The stored list is a prefix of everything reported, and it is the whole of it unless the row
  says otherwise.\<close>

definition reports :: "bankJobRow \<Rightarrow> itemProblem list \<Rightarrow> bool" where
  "reports r all_problems \<longleftrightarrow>
     j_problems r = take MAX_STORED_PROBLEMS all_problems \<and>
     (j_problemsTruncated r \<longleftrightarrow> length all_problems > MAX_STORED_PROBLEMS)"

lemma reports_append: "reports r all_problems \<Longrightarrow> reports (appendProblems ps r) (all_problems @ ps)"
  by (auto simp: reports_def appendProblems_def min_def)

end
