(* ===== verification/Bank_Import.thy ===== *)
theory Bank_Import
  imports Question_Routes Bank_Jobs
begin

text \<open>
  Importing a bank (\<open>apps/worker/src/jobs/bank-transfer.ts\<close>, \<open>bank-job.ts\<close>): one transaction per item
  over the repository, the audit log and the job table, and the job that runs it, which any
  delivery may stop at any transaction. What happens to a delivery from outside is its weather: per
  transaction, whether it goes through, fails, or is the last thing the process lives to see.
\<close>

subsection \<open>State and request\<close>

text \<open>What a transaction reaches.\<close>

record importState =
  is_bank :: bank
  is_log :: "preparedAuditEntry list"
  is_jobs :: "bankJobRow list"

record skillRow =
  sk_id :: string
  sk_orgId :: "string option"
  sk_key :: string

record importRequest =
  rq_orgId :: string
  rq_requestedBy :: string
  rq_sourceLicense :: string
  rq_defaultSkillIds :: "string list"

text \<open>The rows of \<open>listSkills\<close>, ordered by key, and the platform of the audit log.\<close>

record importEnv =
  ie_platform :: auditPlatform
  ie_skills :: "skillRow list"
  ie_request :: importRequest

datatype itemFailure = Item_refusal itemProblem | Item_unexpected

subsection \<open>One item\<close>

definition skillIdsByKey :: "skillRow list \<Rightarrow> (string, string) jsmap" where
  "skillIdsByKey skills =
     fold (\<lambda>s m. map_set m (sk_key s) (sk_id s))
       (sort_key (\<lambda>s. if sk_orgId s \<noteq> None then 1 else 0 :: nat) skills) []"

fun importVersions ::
  "string \<Rightarrow> int \<Rightarrow> nat \<Rightarrow> bankVersion list \<Rightarrow> bank \<Rightarrow> (dbFailure, bank) result" where
  "importVersions requestedBy stamp questionId [] b = Inr b"
| "importVersions requestedBy stamp questionId (v # vs) b =
     bindResult (createVersion questionId (toVersionContent v) (Some requestedBy) stamp b) (\<lambda>(written, b1).
     bindResult (if bv_published v
         then mapResult (publishVersion questionId (vr_version_no written) stamp b1) snd
         else Inr b1) (\<lambda>b2.
       importVersions requestedBy (stamp + 1) questionId vs b2))"

definition itemSkills :: "importRequest \<Rightarrow> (string, string) jsmap \<Rightarrow> bankItem \<Rightarrow> (string, jsnum) jsmap" where
  "itemSkills request byKey item =
     fold (\<lambda>i m. if map_get m i = None then map_set m i (Fin 1) else m) (rq_defaultSkillIds request)
       (fold (\<lambda>(key, weight) m. case map_get byKey key of Some i \<Rightarrow> map_set m i weight | None \<Rightarrow> m)
         (bi_skills item) [])"

definition IMPORT_AUDIT_ACTION :: string where
  "IMPORT_AUDIT_ACTION = ''question.import''"

definition itemLicense :: "importRequest \<Rightarrow> bankItem \<Rightarrow> string" where
  "itemLicense request item = chosen (bi_source_license item) (rq_sourceLicense request)"

definition importEntry :: "importRequest \<Rightarrow> bankItem \<Rightarrow> nat \<Rightarrow> int \<Rightarrow> auditEntry" where
  "importEntry request item questionId at_ms = \<lparr>
     ae_orgId = rq_orgId request, ae_actor = Actor_staff (rq_requestedBy request),
     ae_action = IMPORT_AUDIT_ACTION, ae_entityType = ''question'', ae_entityId = Some (decimal questionId),
     ae_before = None,
     ae_after = Some
       [(''ref'', J_string (bi_ref item)), (''kind'', J_string (questionKindName (bi_kind item))),
        (''status'', J_string (questionStatusName (bi_status item))),
        (''source_license'', J_string (itemLicense request item)),
        (''external_ref'', nullable J_string (bi_external_ref item)),
        (''versions'', J_int (int (length (bi_versions item)))),
        (''published_versions'', J_int (int (length (filter bv_published (bi_versions item)))))],
     ae_reason = None, ae_ip = None, ae_at = Some at_ms \<rparr>"

definition unknownKeys :: "(string, string) jsmap \<Rightarrow> bankItem \<Rightarrow> string list" where
  "unknownKeys byKey item = filter (\<lambda>k. map_get byKey k = None) (map fst (bi_skills item))"

definition writeItem ::
  "importRequest \<Rightarrow> (string, string) jsmap \<Rightarrow> bankItem \<Rightarrow> int \<Rightarrow> bank \<Rightarrow> (dbFailure, nat \<times> bank) result" where
  "writeItem request byKey item at_ms b =
     bindResult (createQuestion (bi_kind item) (Some (rq_requestedBy request))
         (Some (itemLicense request item)) (bi_external_ref item) at_ms b) (\<lambda>(question, b1).
      bindResult (importVersions (rq_requestedBy request) at_ms (qr_id question) (bi_versions item) b1) (\<lambda>b2.
        let b3 = (if bi_status item \<noteq> Draft then snd (setQuestionStatus (qr_id question) (bi_status item) b2) else b2) in
        bindResult (setQuestionSkills (qr_id question) (itemSkills request byKey item) b3) (\<lambda>b4.
          Inr (qr_id question, b4))))"

text \<open>\<open>writeAudit\<close>: the row is inserted with its payloads as \<open>jsonb\<close>, which \<open>PostgreSQL\<close> may refuse.\<close>

definition storable_payload :: "auditPayload option \<Rightarrow> bool" where
  "storable_payload payload \<longleftrightarrow> (\<forall>es. payload = Some es \<longrightarrow> unstorableStrings [] (J_object es) = [])"

definition writeAudit :: "auditPlatform \<Rightarrow> auditEntry \<Rightarrow> preparedAuditEntry option" where
  "writeAudit pf e =
     (case prepareAuditEntry pf e of
        Inl _ \<Rightarrow> None
      | Inr row \<Rightarrow> if storable_payload (pa_before row) \<and> storable_payload (pa_after row) then Some row else None)"

text \<open>The keys of the refusal as \<open>JSON.stringify\<close> writes them.\<close>

definition hexDigit :: "nat \<Rightarrow> char" where
  "hexDigit n = (if n < 10 then char_of (48 + n) else char_of (87 + n))"

definition jsonChar :: "char \<Rightarrow> string" where
  "jsonChar c =
     (let n = of_char c in
      if n = 34 \<or> n = 92 then [CHR 0x5C, c]
      else if n = 8 then [CHR 0x5C, CHR ''b'']
      else if n = 9 then [CHR 0x5C, CHR ''t'']
      else if n = 10 then [CHR 0x5C, CHR ''n'']
      else if n = 12 then [CHR 0x5C, CHR ''f'']
      else if n = 13 then [CHR 0x5C, CHR ''r'']
      else if n < 32 then CHR 0x5C # ''u00'' @ [hexDigit (n div 16), hexDigit (n mod 16)]
      else [c])"

definition quoteJson :: "string \<Rightarrow> string" where
  "quoteJson s = CHR 0x22 # concat (map jsonChar s) @ [CHR 0x22]"

fun keyList :: "string list \<Rightarrow> string" where
  "keyList [] = []"
| "keyList [k] = quoteJson k"
| "keyList (k # k' # ks) = quoteJson k @ '', '' @ keyList (k' # ks)"

definition unknownSkills :: "nat \<times> bankItem \<Rightarrow> string list \<Rightarrow> itemProblem" where
  "unknownSkills entry keys = \<lparr> ip_index = fst entry, ip_ref = Some (bi_ref (snd entry)), ip_path = ''skills'',
     ip_message = units (''no skill with key '' @ keyList keys @
       '' in this organisation; create or merge it, then import again'') \<rparr>"

text \<open>\<open>onCommit\<close> is the last statement of the transaction, \<open>None\<close> when the database refuses it. The clock
  of the database and \<open>at\<close> agree.\<close>

definition importOne ::
  "importEnv \<Rightarrow> nat \<times> bankItem \<Rightarrow> int \<Rightarrow> (importState \<Rightarrow> importState option) \<Rightarrow> importState \<Rightarrow>
    (itemFailure, nat \<times> importState) result" where
  "importOne env entry at_ms onCommit st =
     (let item = snd entry; request = ie_request env; byKey = skillIdsByKey (ie_skills env) in
      if unknownKeys byKey item \<noteq> [] then Inl (Item_refusal (unknownSkills entry (unknownKeys byKey item)))
      else
        case writeItem request byKey item at_ms (is_bank st) of
          Inl _ \<Rightarrow> Inl Item_unexpected
        | Inr (questionId, b') \<Rightarrow>
            (case writeAudit (ie_platform env) (importEntry request item questionId at_ms) of
               None \<Rightarrow> Inl Item_unexpected
             | Some row \<Rightarrow>
                 (case onCommit (st\<lparr> is_bank := b', is_log := is_log st @ [row] \<rparr>) of
                    None \<Rightarrow> Inl Item_unexpected
                  | Some st' \<Rightarrow> Inr (questionId, st'))))"

subsection \<open>All items\<close>

datatype weather = Calm | Tx_fails | Run_throws | Run_killed
datatype runEnd = Ran | Threw | Killed

record importOutcome =
  io_created :: "(nat \<times> string \<times> nat) list"
  io_problems :: "itemProblem list"

definition problemOf :: "nat \<times> bankItem \<Rightarrow> itemFailure \<Rightarrow> itemProblem" where
  "problemOf entry failure =
     (case failure of
        Item_refusal problem \<Rightarrow> problem
      | Item_unexpected \<Rightarrow> \<lparr> ip_index = fst entry, ip_ref = Some (bi_ref (snd entry)), ip_path = [],
          ip_message = units ''the item could not be written; nothing from it was saved'' \<rparr>)"

text \<open>\<open>Tx_fails\<close>: the transaction of the item is rolled back and the loop goes on; \<open>Run_throws\<close>: the
  database does not even take the checkpoint of the refusal, as it does not either when the problem
  is one it cannot store. A commit that succeeds and is reported as an error is no weather here.\<close>

fun importFrom ::
  "importEnv \<Rightarrow> (nat \<Rightarrow> bool \<Rightarrow> itemProblem option \<Rightarrow> importState \<Rightarrow> importState option) \<Rightarrow> (nat \<Rightarrow> weather) \<Rightarrow>
    (nat \<Rightarrow> int) \<Rightarrow> nat \<Rightarrow> (nat \<times> bankItem) list \<Rightarrow> importState \<Rightarrow> (runEnd \<times> importOutcome) \<times> importState" where
  "importFrom env checkpoint wt now position [] st = ((Ran, \<lparr> io_created = [], io_problems = [] \<rparr>), st)"
| "importFrom env checkpoint wt now position (entry # rest) st =
     (if wt position = Run_killed then ((Killed, \<lparr> io_created = [], io_problems = [] \<rparr>), st)
      else if wt position = Run_throws then ((Threw, \<lparr> io_created = [], io_problems = [] \<rparr>), st)
      else
        case (if wt position = Tx_fails then Inl Item_unexpected
              else importOne env entry (now position) (checkpoint position True None) st) of
          Inr (questionId, st1) \<Rightarrow>
            let ((e, outcome), st') = importFrom env checkpoint wt now (position + 1) rest st1 in
            ((e, outcome\<lparr> io_created := (fst entry, bi_ref (snd entry), questionId) # io_created outcome \<rparr>), st')
        | Inl failure \<Rightarrow>
            let problem = problemOf entry failure in
            (case checkpoint position False (Some problem) st of
               None \<Rightarrow> ((Threw, \<lparr> io_created = [], io_problems = [problem] \<rparr>), st)
             | Some st1 \<Rightarrow>
                 let ((e, outcome), st') = importFrom env checkpoint wt now (position + 1) rest st1 in
                 ((e, outcome\<lparr> io_problems := problem # io_problems outcome \<rparr>), st')))"

definition importBankItems ::
  "importEnv \<Rightarrow> (nat \<times> bankItem) list \<Rightarrow> (nat \<Rightarrow> int) \<Rightarrow> nat \<Rightarrow>
    (nat \<Rightarrow> bool \<Rightarrow> itemProblem option \<Rightarrow> importState \<Rightarrow> importState option) \<Rightarrow> (nat \<Rightarrow> weather) \<Rightarrow>
    importState \<Rightarrow> (runEnd \<times> importOutcome) \<times> importState" where
  "importBankItems env items now resumeFrom checkpoint wt st =
     importFrom env checkpoint wt now resumeFrom (drop resumeFrom items) st"

subsection \<open>The job\<close>

record importOptions =
  mo_source_license :: string
  mo_default_skill_ids :: "string list"
  mo_default_difficulty :: "int option"

text \<open>The parsers a job needs: the schema of its options, and the reader of each format, which may
  answer a message about the file. \<open>None\<close> is an error that is not about the file.\<close>

record jobReaders =
  jr_options :: "json \<Rightarrow> importOptions option"
  jr_read :: "bankJobFormat \<Rightarrow> blob \<Rightarrow> int option \<Rightarrow> (string, readResult) result option"

record workerEnv =
  we_platform :: auditPlatform
  we_skills :: "skillRow list"
  we_orgId :: string
  we_readers :: jobReaders

record runWeather =
  rw_parse :: weather
  rw_item :: "nat \<Rightarrow> weather"
  rw_finish :: weather
  rw_now :: "nat \<Rightarrow> int"
  rw_at :: int

datatype bankJobOutcome = Already_finished | Job_done bankJobStatus

text \<open>What a run comes to: an outcome, an error it throws, or nothing at all.\<close>

datatype runResult = Returns bankJobOutcome | Throws | Stops

definition withJobs :: "(bankJobRow list \<Rightarrow> bankJobRow list) \<Rightarrow> importState \<Rightarrow> importState" where
  "withJobs f st = st\<lparr> is_jobs := f (is_jobs st) \<rparr>"

definition tryJobs :: "(bankJobRow list \<Rightarrow> bankJobRow list option) \<Rightarrow> importState \<Rightarrow> importState option" where
  "tryJobs f st = map_option (\<lambda>jobs. st\<lparr> is_jobs := jobs \<rparr>) (f (is_jobs st))"

definition INVALID_OPTIONS :: string where
  "INVALID_OPTIONS = ''The import options on this job are invalid.''"

definition FILE_GONE :: string where
  "FILE_GONE = ''The uploaded file is no longer available; upload it again.''"

definition STOPPED_UNEXPECTEDLY :: string where
  "STOPPED_UNEXPECTEDLY =
     ''The job stopped unexpectedly. Items already imported are kept; see the problems list.''"

definition failRun :: "int \<Rightarrow> nat \<Rightarrow> string \<Rightarrow> importState \<Rightarrow> runResult \<times> importState" where
  "failRun now i message st =
     (case tryJobs (failBankJob i now message) st of
        None \<Rightarrow> (Throws, st)
      | Some st' \<Rightarrow> (Returns (Job_done Job_failed), st'))"

definition jobCheckpoint :: "nat \<Rightarrow> nat \<Rightarrow> bool \<Rightarrow> itemProblem option \<Rightarrow> importState \<Rightarrow> importState option" where
  "jobCheckpoint i position created problem =
     tryJobs (advanceImport i (position + 1) created (case problem of None \<Rightarrow> [] | Some p \<Rightarrow> [p]))"

text \<open>A transaction of the run itself.\<close>

definition runTx :: "weather \<Rightarrow> (importState \<Rightarrow> importState option) \<Rightarrow> importState \<Rightarrow>
    (importState \<Rightarrow> runResult \<times> importState) \<Rightarrow> runResult \<times> importState" where
  "runTx wt f st continue =
     (case wt of
        Calm \<Rightarrow> (case f st of None \<Rightarrow> (Throws, st) | Some st' \<Rightarrow> continue st')
      | Run_killed \<Rightarrow> (Stops, st)
      | _ \<Rightarrow> (Throws, st))"

definition firstRun :: "bankJobRow \<Rightarrow> bool" where
  "firstRun job \<longleftrightarrow> j_nextIndex job = 0 \<and> j_createdCount job = 0 \<and> j_skippedCount job = 0"

definition jobRequest :: "workerEnv \<Rightarrow> importOptions \<Rightarrow> bankJobRow \<Rightarrow> importEnv" where
  "jobRequest env options job = \<lparr> ie_platform = we_platform env, ie_skills = we_skills env,
     ie_request = \<lparr> rq_orgId = we_orgId env, rq_requestedBy = j_requestedBy job,
       rq_sourceLicense = mo_source_license options, rq_defaultSkillIds = mo_default_skill_ids options \<rparr> \<rparr>"

definition runItems ::
  "workerEnv \<Rightarrow> importOptions \<Rightarrow> bankJobRow \<Rightarrow> readResult \<Rightarrow> runWeather \<Rightarrow> importState \<Rightarrow> runResult \<times> importState" where
  "runItems env options job file wt st =
     (let ((e, outcome), st') = importBankItems (jobRequest env options job) (rd_items file) (rw_now wt)
            (j_nextIndex job) (jobCheckpoint (j_id job)) (rw_item wt) st in
      case e of
        Killed \<Rightarrow> (Stops, st')
      | Threw \<Rightarrow> (Throws, st')
      | Ran \<Rightarrow> runTx (rw_finish wt) (Some \<circ> withJobs (finishBankJob (j_id job) (rw_at wt) None)) st'
                 (\<lambda>st''. (Returns (Job_done Job_succeeded), st'')))"

definition runImport :: "workerEnv \<Rightarrow> bankJobRow \<Rightarrow> runWeather \<Rightarrow> importState \<Rightarrow> runResult \<times> importState" where
  "runImport env job wt st =
     (case jr_options (we_readers env) (j_options job) of
        None \<Rightarrow> failRun (rw_at wt) (j_id job) INVALID_OPTIONS st
      | Some options \<Rightarrow>
          (case readBankJobInput (j_id job) (is_jobs st) of
             None \<Rightarrow> failRun (rw_at wt) (j_id job)
                       FILE_GONE st
           | Some input \<Rightarrow>
               (case jr_read (we_readers env) (j_format job) input (mo_default_difficulty options) of
                  None \<Rightarrow> (Throws, st)
                | Some (Inl message) \<Rightarrow> failRun (rw_at wt) (j_id job) message st
                | Some (Inr file) \<Rightarrow>
                    if firstRun job \<and> rd_problems file \<noteq> [] then
                      runTx (rw_parse wt) (tryJobs (recordParseProblems (j_id job) (rd_problems file))) st
                        (runItems env options job file wt)
                    else runItems env options job file wt st)))"

text \<open>One delivery. The other kind of job is the argument \<open>runExport\<close>; an error of the last attempt
  leaves the row failed before it is thrown on.\<close>

definition runBankJob ::
  "(bankJobRow \<Rightarrow> importState \<Rightarrow> runResult \<times> importState) \<Rightarrow> workerEnv \<Rightarrow> nat \<Rightarrow> bool \<Rightarrow> runWeather \<Rightarrow>
    importState \<Rightarrow> runResult \<times> importState" where
  "runBankJob runExport env i finalAttempt wt st =
     (case startBankJob i (rw_at wt) (is_jobs st) of
        (None, _) \<Rightarrow> (Returns Already_finished, st)
      | (Some job, jobs) \<Rightarrow>
          let st1 = st\<lparr> is_jobs := jobs \<rparr>;
              (r, st2) = (if j_kind job = Import_job then runImport env job wt st1 else runExport job st1) in
          if r = Throws \<and> finalAttempt then
            (Throws, snd (failRun (rw_at wt) i STOPPED_UNEXPECTEDLY st2))
          else (r, st2))"

subsection \<open>What one item writes\<close>

lemma new_version_published:
  assumes core: "core_ok b" and c: "createVersion q content by_user t b = Inr (written, b1)"
    and p: "publishVersion q (vr_version_no written) t' b1 = Inr (record, b2)"
  shows "record \<noteq> None"
proof -
  have wf: "bank_wf b" using core by (simp add: core_ok_def)
  obtain row where row: "b_versions b1 = b_versions b @ [row]" "w_publishedAt row = None"
      "w_questionId row = q" "written = toVersionRecord b1 row"
    using createVersion_effect(5) [OF c wf] by blast
  then have "draftRow q (vr_version_no written) row" by (simp add: draftRow_def toVersionRecord_def Let_def)
  then have "List.find (draftRow q (vr_version_no written)) (b_versions b1) \<noteq> None"
    using row(1) by (auto simp: find_None_iff)
  with p show ?thesis by (cases rule: publishVersion_Inr) auto
qed

lemma map_others:
  assumes "i \<notin> u_id ` set qs" "\<And>u. P u \<Longrightarrow> u_id u = i"
  shows "map (\<lambda>u. if P u then f u else u) qs = qs"
  by (rule map_idI) (use assms in force)

lemma importVersions_questions:
  assumes "core_ok b" "b_questions b = qs @ [q]" "u_id q = i" "i \<notin> u_id ` set qs"
    "importVersions by_user t i vs b = Inr b'"
  shows "core_ok b' \<and> evolves b b' \<and>
    (\<exists>p. b_questions b' = qs @ [q\<lparr> u_currentVersionId := p \<rparr>] \<and>
       (p \<noteq> None \<longleftrightarrow> u_currentVersionId q \<noteq> None \<or> list_ex bv_published vs))"
  using assms
proof (induction vs arbitrary: t b q)
  case Nil
  then show ?case by (auto intro!: exI [of _ "u_currentVersionId q"])
next
  case (Cons v vs)
  obtain written b1 b2 where c: "createVersion i (toVersionContent v) (Some by_user) t b = Inr (written, b1)"
    and p: "(if bv_published v then mapResult (publishVersion i (vr_version_no written) t b1) snd
       else Inr b1) = Inr b2"
    and r: "importVersions by_user (t + 1) i vs b2 = Inr b'"
    using Cons.prems(5) by (auto simp: bindResult_Inr_iff)
  note e = createVersion_core [OF Cons.prems(1) c]
  show ?case
  proof (cases "bv_published v")
    case False
    then have "b2 = b1" using p by simp
    then show ?thesis
      using Cons.IH [of b1 q "t + 1"] e r Cons.prems(2-4) False by (auto intro: evolves_trans)
  next
    case True
    then obtain rec where pub: "publishVersion i (vr_version_no written) t b1 = Inr (rec, b2)"
      using p by (auto simp: mapResult_def split: sum.split_asm)
    have core1: "core_ok b1" using e by simp
    note f = publishVersion_core [OF core1 pub]
    have "rec \<noteq> None" by (rule new_version_published [OF Cons.prems(1) c pub])
    then obtain found :: versionRow where "b_questions b2 =
        map (\<lambda>u. if u_id u = i then u\<lparr> u_currentVersionId := Some (w_id found) \<rparr> else u) (b_questions b1)"
      using f \<open>rec \<noteq> None\<close> by blast
    then have "b_questions b2 = qs @ [q\<lparr> u_currentVersionId := Some (w_id found) \<rparr>]"
      using e Cons.prems(2,3) map_others [OF Cons.prems(4), of "\<lambda>u. u_id u = i"] by simp
    then obtain p where "core_ok b'" "evolves b2 b'" "b_questions b' = qs @ [q\<lparr> u_currentVersionId := p \<rparr>]" "p \<noteq> None"
      using Cons.IH [of b2 "q\<lparr> u_currentVersionId := Some (w_id found) \<rparr>" "t + 1"] f r Cons.prems(3,4) by auto
    moreover have "evolves b b2" using e f evolves_trans by blast
    ultimately show ?thesis using True by (auto intro: evolves_trans)
  qed
qed

text \<open>The question an item becomes.\<close>

definition question_of :: "importRequest \<Rightarrow> bankItem \<Rightarrow> questionRow \<Rightarrow> bool" where
  "question_of request item q \<longleftrightarrow>
     u_kind q = bi_kind item \<and> u_status q = bi_status item \<and> u_externalRef q = bi_external_ref item \<and>
     u_sourceLicense q = Some (itemLicense request item) \<and> u_authorId q = Some (rq_requestedBy request) \<and>
     u_archivedAt q = None \<and> (u_currentVersionId q \<noteq> None \<longleftrightarrow> anyPublished item)"

lemma writeItem_effect:
  assumes core: "core_ok b" and w: "writeItem request byKey item t b = Inr (i, b')"
  shows "core_ok b' \<and> evolves b b' \<and>
    (\<exists>q. b_questions b' = b_questions b @ [q] \<and> u_id q = i \<and> question_of request item q \<and> u_createdAt q = t)"
proof -
  obtain question b1 b2 where c: "createQuestion (bi_kind item) (Some (rq_requestedBy request))
        (Some (itemLicense request item)) (bi_external_ref item) t b = Inr (question, b1)"
    and v: "importVersions (rq_requestedBy request) t (qr_id question) (bi_versions item) b1 = Inr b2"
    and i: "i = qr_id question"
    and s: "setQuestionSkills (qr_id question) (itemSkills request byKey item)
      (if bi_status item \<noteq> Draft then snd (setQuestionStatus (qr_id question) (bi_status item) b2) else b2) = Inr b'"
    using w by (auto simp: writeItem_def bindResult_Inr_iff Let_def split: prod.split_asm)
  note e = createQuestion_core [OF core c]
  obtain q0 where q0: "b_questions b1 = b_questions b @ [q0]" "u_id q0 = b_next b" "u_kind q0 = bi_kind item"
      "u_status q0 = Draft" "u_currentVersionId q0 = None" "u_archivedAt q0 = None"
      "question = toQuestionRecord b1 q0"
    using e by auto
  have q0': "u_externalRef q0 = bi_external_ref item" "u_sourceLicense q0 = Some (itemLicense request item)"
    "u_authorId q0 = Some (rq_requestedBy request)" "u_createdAt q0 = t"
    using c q0(1) by (auto simp: createQuestion_def Let_def split: if_split_asm)
  have qid: "qr_id question = b_next b" by (simp add: q0(7) toQuestionRecord_def q0(2))
  have fresh: "b_next b \<notin> u_id ` set (b_questions b)" using core by (auto simp: core_ok_def bank_wf_def)
  have core1: "core_ok b1" using e by simp
  obtain p where p: "core_ok b2" "evolves b1 b2" "b_questions b2 = b_questions b @ [q0\<lparr> u_currentVersionId := p \<rparr>]"
      "p \<noteq> None \<longleftrightarrow> anyPublished item"
    using importVersions_questions [OF core1 q0(1,2) fresh v [unfolded qid]] q0(5) by (auto simp: anyPublished_def)
  define b3 where "b3 = (if bi_status item \<noteq> Draft
      then snd (setQuestionStatus (qr_id question) (bi_status item) b2) else b2)"
  have b3: "core_ok b3 \<and> evolves b2 b3 \<and>
      b_questions b3 = b_questions b @ [q0\<lparr> u_currentVersionId := p, u_status := bi_status item \<rparr>]"
  proof (cases "bi_status item = Draft")
    case True
    then show ?thesis using p q0(4) by (simp add: b3_def)
  next
    case False
    obtain rec where set: "setQuestionStatus (qr_id question) (bi_status item) b2 = (rec, b3)"
      using False by (cases "setQuestionStatus (qr_id question) (bi_status item) b2") (simp add: b3_def)
    note u = updateQuestion_core [OF p(1) set [unfolded setQuestionStatus_def]]
    have "core_ok b3 \<and> evolves b2 b3 \<and> b_questions b3 =
        map (\<lambda>q. if u_id q = qr_id question \<and> u_archivedAt q = None then q\<lparr> u_status := bi_status item \<rparr> else q)
          (b_questions b2)"
      using u by simp
    moreover have "map (\<lambda>q. if u_id q = qr_id question \<and> u_archivedAt q = None then q\<lparr> u_status := bi_status item \<rparr> else q)
        (b_questions b) = b_questions b"
      by (rule map_others [OF fresh]) (simp add: qid)
    ultimately show ?thesis using p(3) q0(2,6) qid by simp
  qed
  then have core3: "core_ok b3" by simp
  note k = setQuestionSkills_core [OF core3 s [folded b3_def]]
  have "evolves b b'" using e p(2) b3 k evolves_trans by blast
  then show ?thesis
    using k b3 q0 q0' p(4) i qid by (auto simp: question_of_def)
qed

lemma writeAudit_Some: "writeAudit pf e = Some row \<Longrightarrow> prepareAuditEntry pf e = Inr row"
  by (auto simp: writeAudit_def split: sum.split_asm if_split_asm)

lemma importOne_Inr:
  assumes core: "core_ok (is_bank st)" and w: "importOne env entry t onCommit st = Inr (i, st')"
  obtains b' row q where "onCommit (st\<lparr> is_bank := b', is_log := is_log st @ [row] \<rparr>) = Some st'"
    "core_ok b'" "evolves (is_bank st) b'" "b_questions b' = b_questions (is_bank st) @ [q]"
    "u_id q = i" "question_of (ie_request env) (snd entry) q"
    "prepareAuditEntry (ie_platform env) (importEntry (ie_request env) (snd entry) i t) = Inr row"
    "writeItem (ie_request env) (skillIdsByKey (ie_skills env)) (snd entry) t (is_bank st) = Inr (i, b')"
proof -
  obtain b' row where w': "writeItem (ie_request env) (skillIdsByKey (ie_skills env)) (snd entry) t (is_bank st) = Inr (i, b')"
    "prepareAuditEntry (ie_platform env) (importEntry (ie_request env) (snd entry) i t) = Inr row"
    "onCommit (st\<lparr> is_bank := b', is_log := is_log st @ [row] \<rparr>) = Some st'"
    using w by (auto simp: importOne_def Let_def split: if_split_asm sum.split_asm option.split_asm dest!: writeAudit_Some)
  from writeItem_effect [OF core w'(1)] w' show ?thesis by (auto intro: that)
qed

subsection \<open>The checkpoint moves with the bank\<close>

text \<open>What the imports since \<open>st0\<close> have left: a question and an audit row for each of the items, in
  order, and nothing else.\<close>

definition row_for :: "importRequest \<Rightarrow> questionRow \<Rightarrow> preparedAuditEntry \<Rightarrow> bool" where
  "row_for request q row \<longleftrightarrow> actorOfRow row = Some (Actor_staff (rq_requestedBy request)) \<and>
     pa_action row = IMPORT_AUDIT_ACTION \<and> pa_entityId row = Some (decimal (u_id q))"

definition imported :: "importRequest \<Rightarrow> bankItem list \<Rightarrow> importState \<Rightarrow> importState \<Rightarrow> bool" where
  "imported request items st0 st \<longleftrightarrow>
     (\<exists>qs log. b_questions (is_bank st) = b_questions (is_bank st0) @ qs \<and> is_log st = is_log st0 @ log \<and>
        list_all2 (question_of request) items qs \<and> list_all2 (row_for request) qs log)"

lemma imported_refl: "imported request [] st st"
  by (simp add: imported_def)

lemma imported_snoc:
  assumes "imported request items st0 st" "question_of request item q" "row_for request q row"
    "b_questions (is_bank st') = b_questions (is_bank st) @ [q]" "is_log st' = is_log st @ [row]"
  shows "imported request (items @ [item]) st0 st'"
proof -
  obtain qs log where "b_questions (is_bank st) = b_questions (is_bank st0) @ qs" "is_log st = is_log st0 @ log"
      "list_all2 (question_of request) items qs" "list_all2 (row_for request) qs log"
    using assms(1) by (auto simp: imported_def)
  then show ?thesis
    using assms(2-5) unfolding imported_def
    by (intro exI [of _ "qs @ [q]"] exI [of _ "log @ [row]"]) (simp add: list_all2_appendI)
qed

lemma finishEntry_entity:
  "finishEntry pf e action entityType reason who = Inr row \<Longrightarrow> pa_entityId row = ae_entityId e"
  unfolding finishEntry_def Let_def by (auto split: if_split_asm option.split_asm)

lemma import_row_for:
  assumes "prepareAuditEntry pf (importEntry request item i t) = Inr row" "u_id q = i"
  shows "row_for request q row"
proof -
  have "actorOfRow row = Some (Actor_staff (rq_requestedBy request))"
    using prepared_actor [OF assms(1)] by (simp add: importEntry_def)
  moreover have "trim IMPORT_AUDIT_ACTION = IMPORT_AUDIT_ACTION"
    by (simp add: IMPORT_AUDIT_ACTION_def string_simps is_ws_def)
  moreover obtain who where f: "finishEntry pf (importEntry request item i t) (trim IMPORT_AUDIT_ACTION)
      (trim ''question'') None who = Inr row"
    using prepared_Inr(1) [OF assms(1)] by (auto simp: importEntry_def)
  ultimately show ?thesis
    using finishEntry_entity [OF f] finishEntry_Inr(2) [OF f] assms(2) by (simp add: row_for_def importEntry_def)
qed

text \<open>Where a job stands: \<open>ps\<close> are the positions written so far, \<open>base\<close> the entries the parser refused.\<close>

definition same_job :: "bankJobRow \<Rightarrow> bankJobRow \<Rightarrow> bool" where
  "same_job job r \<longleftrightarrow> j_kind r = j_kind job \<and> j_input r = j_input job \<and> j_options r = j_options job \<and>
     j_format r = j_format job \<and> j_requestedBy r = j_requestedBy job"

definition stands :: "nat \<Rightarrow> nat \<Rightarrow> nat list \<Rightarrow> bankJobRow \<Rightarrow> bool" where
  "stands base n ps r \<longleftrightarrow> sorted_wrt (<) ps \<and> set ps \<subseteq> {..< j_nextIndex r} \<and> j_nextIndex r \<le> n \<and>
     j_createdCount r = length ps \<and> j_skippedCount r + length ps = base + j_nextIndex r"

definition written_ok :: "importRequest \<Rightarrow> (nat \<times> bankItem) list \<Rightarrow> importState \<Rightarrow> nat list \<Rightarrow> importState \<Rightarrow> bool" where
  "written_ok request items st0 ps st \<longleftrightarrow>
     core_ok (is_bank st) \<and> evolves (is_bank st0) (is_bank st) \<and> jobs_wf (is_jobs st) \<and>
     imported request (map (\<lambda>p. snd (items ! p)) ps) st0 st"

lemma written_ok_jobs [simp]:
  "jobs_wf (f (is_jobs st)) = jobs_wf (is_jobs st) \<Longrightarrow>
    written_ok request items st0 ps (withJobs f st) = written_ok request items st0 ps st"
  by (simp add: written_ok_def withJobs_def imported_def)

abbreviation problemsOf :: "itemProblem option \<Rightarrow> itemProblem list" where
  "problemsOf problem \<equiv> (case problem of None \<Rightarrow> [] | Some p \<Rightarrow> [p])"

lemma checkpoint_cases:
  assumes "jobCheckpoint i position created problem st = Some st1"
  shows "st1 = withJobs (updateJobs (\<lambda>r. j_id r = i) (advanced (position + 1) created (problemsOf problem))) st"
  using assms by (auto simp: jobCheckpoint_def tryJobs_def advanceImport_def withJobs_def split: if_split_asm)

lemma checkpoint_Some:
  assumes "jobCheckpoint i position created problem st = Some st1"
  shows "getBankJob i (is_jobs st1) =
      map_option (advanced (position + 1) created (problemsOf problem)) (getBankJob i (is_jobs st))"
    "written_ok request items st0 ps st1 = written_ok request items st0 ps st"
    "is_bank st1 = is_bank st" "is_log st1 = is_log st"
  unfolding checkpoint_cases [OF assms]
  by (simp_all add: getBankJob_update updateJobs_wf) (simp_all add: withJobs_def getBankJob_update)

lemma checkpoint_exists:
  "list_all storable_problem (problemsOf problem) \<Longrightarrow> \<exists>st1. jobCheckpoint i position created problem st = Some st1"
  by (simp add: jobCheckpoint_def tryJobs_def advanceImport_def)

lemma advanced_fields [simp]:
  "j_nextIndex (advanced n c problems r) = n" "j_status (advanced n c problems r) = j_status r"
  "j_createdCount (advanced n c problems r) = j_createdCount r + (if c then 1 else 0)"
  "j_skippedCount (advanced n c problems r) = j_skippedCount r + (if c then 0 else 1)"
  "same_job job (advanced n c problems r) = same_job job r"
  by (simp_all add: advanced_def same_job_def)

lemma stands_created:
  "stands base n ps r \<Longrightarrow> j_nextIndex r < n \<Longrightarrow>
    stands base n (ps @ [j_nextIndex r]) (advanced (j_nextIndex r + 1) True problems r)"
  by (auto simp: stands_def sorted_wrt_append)

lemma stands_refused:
  "stands base n ps r \<Longrightarrow> j_nextIndex r < n \<Longrightarrow>
    stands base n ps (advanced (j_nextIndex r + 1) False problems r)"
  by (auto simp: stands_def)

lemma importOne_progress:
  assumes ok: "written_ok (ie_request env) items st0 ps st" and p: "p < length items"
    and c: "importOne env (items ! p) t (jobCheckpoint i p True None) st = Inr (q, st1)"
  shows "written_ok (ie_request env) items st0 (ps @ [p]) st1 \<and>
    getBankJob i (is_jobs st1) = map_option (advanced (p + 1) True []) (getBankJob i (is_jobs st))"
proof -
  have core: "core_ok (is_bank st)" using ok by (simp add: written_ok_def)
  obtain b' row u where st1: "jobCheckpoint i p True None (st\<lparr> is_bank := b', is_log := is_log st @ [row] \<rparr>) = Some st1"
    and b': "core_ok b'" "evolves (is_bank st) b'" "b_questions b' = b_questions (is_bank st) @ [u]" "u_id u = q"
      "question_of (ie_request env) (snd (items ! p)) u"
    and row: "prepareAuditEntry (ie_platform env) (importEntry (ie_request env) (snd (items ! p)) q t) = Inr row"
    by (rule importOne_Inr [OF core c])
  have "imported (ie_request env) (map (\<lambda>p. snd (items ! p)) ps @ [snd (items ! p)]) st0
      (st\<lparr> is_bank := b', is_log := is_log st @ [row] \<rparr>)"
    by (rule imported_snoc [OF _ b'(5) import_row_for [OF row b'(4)]])
      (use ok b'(3) in \<open>simp_all add: written_ok_def\<close>)
  moreover have "evolves (is_bank st0) b'" using ok b'(2) by (auto simp: written_ok_def intro: evolves_trans)
  ultimately have "written_ok (ie_request env) items st0 (ps @ [p])
      (st\<lparr> is_bank := b', is_log := is_log st @ [row] \<rparr>)"
    using ok b'(1) by (simp add: written_ok_def)
  then show ?thesis by (simp add: checkpoint_Some [OF st1])
qed

lemma importFrom_progress:
  assumes "written_ok (ie_request env) items st0 ps st" "getBankJob i (is_jobs st) = Some r"
    "stands base (length items) ps r" "same_job job r"
    "importFrom env (jobCheckpoint i) wt now (j_nextIndex r) (drop (j_nextIndex r) items) st = ((e, outcome), st')"
  shows "\<exists>ps' r'. written_ok (ie_request env) items st0 ps' st' \<and> getBankJob i (is_jobs st') = Some r' \<and>
    stands base (length items) ps' r' \<and> same_job job r' \<and> j_status r' = j_status r \<and>
    (e = Ran \<longrightarrow> j_nextIndex r' = length items)"
  using assms
proof (induction "drop (j_nextIndex r) items" arbitrary: ps st r e outcome st')
  case Nil
  then have "length items \<le> j_nextIndex r" by simp
  then have "j_nextIndex r = length items" using Nil.prems(3) by (simp add: stands_def)
  then show ?case using Nil.prems by auto
next
  case (Cons entry rest)
  let ?p = "j_nextIndex r"
  have p: "?p < length items" using Cons.hyps(2) by (metis drop_eq_Nil list.distinct(1) not_le)
  have d: "drop ?p items = items ! ?p # drop (?p + 1) items" using p by (simp add: Cons_nth_drop_Suc)
  have rest: "rest = drop (?p + 1) items" using Cons.hyps(2) d by simp
  show ?case
  proof (cases "wt ?p = Run_killed \<or> wt ?p = Run_throws")
    case True
    then have "st' = st \<and> e \<noteq> Ran" using Cons.prems(5) unfolding d by (auto split: if_split_asm)
    then show ?thesis using Cons.prems by auto
  next
    case False
    define res where "res = (if wt ?p = Tx_fails then Inl Item_unexpected
        else importOne env (items ! ?p) (now ?p) (jobCheckpoint i ?p True None) st)"
    show ?thesis
    proof (cases res)
      case (Inr c)
      obtain q st1 where c: "c = (q, st1)" by (cases c)
      then have one: "importOne env (items ! ?p) (now ?p) (jobCheckpoint i ?p True None) st = Inr (q, st1)"
        using Inr by (auto simp: res_def split: if_split_asm)
      define r1 where "r1 = advanced (?p + 1) True [] r"
      have s1: "written_ok (ie_request env) items st0 (ps @ [?p]) st1" "getBankJob i (is_jobs st1) = Some r1"
        using importOne_progress [OF Cons.prems(1) p one] Cons.prems(2) by (simp_all add: r1_def)
      obtain o1 where "importFrom env (jobCheckpoint i) wt now (?p + 1) (drop (?p + 1) items) st1 = ((e, o1), st')"
        using Cons.prems(5) False Inr c unfolding d importFrom.simps res_def
        by (auto simp: Let_def split: prod.split_asm)
      then have "importFrom env (jobCheckpoint i) wt now (j_nextIndex r1) (drop (j_nextIndex r1) items) st1 = ((e, o1), st')"
        by (simp add: r1_def)
      from Cons.hyps(1) [OF _ s1 _ _ this] show ?thesis
        using stands_created [OF Cons.prems(3) p, of "[]"] Cons.prems(4) by (simp add: r1_def rest)
    next
      case (Inl failure)
      define problem where "problem = problemOf (items ! ?p) failure"
      show ?thesis
      proof (cases "jobCheckpoint i ?p False (Some problem) st")
        case None
        then have "st' = st \<and> e = Threw"
          using Cons.prems(5) False Inl unfolding d importFrom.simps res_def problem_def
          by (auto simp: Let_def)
        then show ?thesis using Cons.prems by auto
      next
        case (Some st1)
        define r1 where "r1 = advanced (?p + 1) False [problem] r"
        have s1: "written_ok (ie_request env) items st0 ps st1" "getBankJob i (is_jobs st1) = Some r1"
          using Cons.prems(1,2) by (simp_all add: r1_def checkpoint_Some [OF Some])
        obtain o1 where "importFrom env (jobCheckpoint i) wt now (?p + 1) (drop (?p + 1) items) st1 = ((e, o1), st')"
          using Cons.prems(5) False Inl Some unfolding d importFrom.simps res_def problem_def
          by (auto simp: Let_def split: prod.split_asm)
        then have "importFrom env (jobCheckpoint i) wt now (j_nextIndex r1) (drop (j_nextIndex r1) items) st1 = ((e, o1), st')"
          by (simp add: r1_def)
        from Cons.hyps(1) [OF _ s1 _ _ this] show ?thesis
          using stands_refused [OF Cons.prems(3) p, of "[problem]"] Cons.prems(4) by (simp add: r1_def rest)
      qed
    qed
  qed
qed

subsection \<open>Deliveries\<close>

definition refusedEntries :: "readResult \<Rightarrow> nat" where
  "refusedEntries file = card (ip_index ` set (rd_problems file))"

text \<open>The options and the file of a job can be read.\<close>

definition readable :: "workerEnv \<Rightarrow> bankJobRow \<Rightarrow> importOptions \<Rightarrow> readResult \<Rightarrow> bool" where
  "readable env job options file \<longleftrightarrow>
     jr_options (we_readers env) (j_options job) = Some options \<and>
     (\<exists>input. j_input job = Some input \<and>
        jr_read (we_readers env) (j_format job) input (mo_default_difficulty options) = Some (Inr file))"

definition unfinished :: "bankJobRow \<Rightarrow> bool" where
  "unfinished r \<longleftrightarrow> j_status r \<in> {Job_queued, Job_dispatched, Job_running}"

definition resumes :: "importRequest \<Rightarrow> readResult \<Rightarrow> bankJobRow \<Rightarrow> importState \<Rightarrow> importState \<Rightarrow> bool" where
  "resumes request file job st0 st \<longleftrightarrow>
     (\<exists>ps r. getBankJob (j_id job) (is_jobs st) = Some r \<and> written_ok request (rd_items file) st0 ps st \<and>
        (unfinished r \<longrightarrow> same_job job r \<and>
           (stands (refusedEntries file) (length (rd_items file)) ps r \<or> (ps = [] \<and> firstRun r))) \<and>
        (j_status r = Job_succeeded \<longrightarrow>
           stands (refusedEntries file) (length (rd_items file)) ps r \<and> j_nextIndex r = length (rd_items file)))"

lemma resumesI:
  assumes "getBankJob (j_id job) (is_jobs st) = Some r" "written_ok request (rd_items file) st0 ps st"
    "stands (refusedEntries file) (length (rd_items file)) ps r" "same_job job r"
    "j_status r = Job_succeeded \<Longrightarrow> j_nextIndex r = length (rd_items file)"
  shows "resumes request file job st0 st"
  using assms unfolding resumes_def by blast


text \<open>Failing the row keeps what was written.\<close>

lemma failRun_cases:
  assumes "failRun t i message st = (res, st')"
  obtains "res = Throws" "st' = st" | "res = Returns (Job_done Job_failed)"
    "st' = withJobs (updateJobs (\<lambda>r. j_id r = i) (failed t message)) st"
  using assms by (auto simp: failRun_def tryJobs_def failBankJob_def withJobs_def split: if_split_asm)

lemma resumes_failed:
  assumes "resumes request file job st0 st"
  shows "resumes request file job st0 (snd (failRun t (j_id job) message st))"
proof (cases "failRun t (j_id job) message st")
  case (Pair res st')
  then show ?thesis
  proof (cases rule: failRun_cases)
    case 1
    then show ?thesis using assms Pair by simp
  next
    case 2
    obtain ps r where r: "getBankJob (j_id job) (is_jobs st) = Some r" "written_ok request (rd_items file) st0 ps st"
      using assms by (auto simp: resumes_def)
    have "getBankJob (j_id job) (is_jobs st') = Some (failed t message r)"
      using r(1) by (simp add: 2 withJobs_def getBankJob_update)
    moreover have "written_ok request (rd_items file) st0 ps st'"
      using r(2) unfolding 2 by (subst written_ok_jobs) (simp_all add: updateJobs_wf)
    moreover have "\<not> unfinished (failed t message r)" "j_status (failed t message r) \<noteq> Job_succeeded"
      by (simp_all add: unfinished_def failed_def)
    ultimately show ?thesis using Pair unfolding resumes_def by auto
  qed
qed

definition calm :: "runWeather \<Rightarrow> bool" where
  "calm wt \<longleftrightarrow> rw_parse wt = Calm \<and> rw_finish wt = Calm \<and> (\<forall>p. rw_item wt p \<in> {Calm, Tx_fails})"

definition succeeded :: "nat \<Rightarrow> importState \<Rightarrow> bool" where
  "succeeded i st \<longleftrightarrow> (\<exists>r. getBankJob i (is_jobs st) = Some r \<and> j_status r = Job_succeeded)"

text \<open>A file whose problems a \<open>jsonb\<close> column takes: the refused entries and the references of the accepted
  ones.\<close>

definition storable_file :: "readResult \<Rightarrow> bool" where
  "storable_file file \<longleftrightarrow> list_all storable_problem (rd_problems file) \<and>
     list_all (\<lambda>(i, item). \<not> unstorableUnits (units (bi_ref item))) (rd_items file)"

lemma unstorableUnits_chars: "unstorableUnits (units s) \<longleftrightarrow> CHR 0x00 \<in> set s"
proof (induction s)
  case (Cons c s)
  have "(of_char c :: nat) < 256" by simp
  then have "\<not> 0xd800 \<le> (of_char c :: nat)" "\<not> 0xdc00 \<le> (of_char c :: nat)" by linarith+
  moreover have "(of_char c :: nat) = 0 \<longleftrightarrow> c = CHR 0x00" using of_char_eq_iff [of c "CHR 0x00"] by simp
  ultimately show ?case using Cons by (auto simp: units_def)
qed (simp add: units_def)

lemma hexDigit_not_null: "n < 32 \<Longrightarrow> CHR 0x00 \<noteq> hexDigit n"
proof
  assume n: "n < 32" and c: "CHR 0x00 = hexDigit n"
  have "(of_char (hexDigit n) :: nat) = 0" by (simp flip: c)
  then show False using n by (simp add: hexDigit_def split: if_split_asm)
qed

lemma quoteJson_storable: "CHR 0x00 \<notin> set (quoteJson s)"
proof -
  have h: "CHR 0x00 \<noteq> hexDigit (m div 16)" "CHR 0x00 \<noteq> hexDigit (m mod 16)" if "m < 32" for m
    by (rule hexDigit_not_null, use that in linarith)+
  have "CHR 0x00 \<notin> set (jsonChar c)" for c
    using h [of "of_char c"] by (auto simp: jsonChar_def Let_def)
  then show ?thesis by (simp add: quoteJson_def)
qed

lemma keyList_storable: "CHR 0x00 \<notin> set (keyList ks)"
  by (induction ks rule: keyList.induct) (simp_all add: quoteJson_storable)

lemma problemOf_storable:
  assumes "importOne env entry t onCommit st = Inl failure \<or> failure = Item_unexpected"
    "\<not> unstorableUnits (units (bi_ref (snd entry)))"
  shows "storable_problem (problemOf entry failure)"
proof -
  have "storable_problem (unknownSkills entry keys)" for keys
    using assms(2) keyList_storable
    by (simp add: storable_problem_def unknownSkills_def chosen_def unstorableUnits_chars)
  moreover have "storable_problem (problemOf entry Item_unexpected)"
    using assms(2) by (simp add: storable_problem_def problemOf_def chosen_def unstorableUnits_chars)
  ultimately show ?thesis
    using assms(1) by (auto simp: importOne_def Let_def problemOf_def split: if_split_asm sum.split_asm option.split_asm)
qed

lemma importFrom_calm:
  assumes "\<forall>p. wt p \<in> {Calm, Tx_fails}" "\<forall>(i, item) \<in> set items. \<not> unstorableUnits (units (bi_ref item))"
    "importFrom env (jobCheckpoint i) wt now position items st = ((e, outcome), st')"
  shows "e = Ran"
  using assms
proof (induction items arbitrary: position st outcome st')
  case (Cons entry rest)
  have w: "wt position \<noteq> Run_killed" "wt position \<noteq> Run_throws" using Cons.prems(1) by (metis empty_iff insert_iff weather.distinct)+
  have ref: "\<not> unstorableUnits (units (bi_ref (snd entry)))" using Cons.prems(2) by (simp add: split_beta)
  define res where "res = (if wt position = Tx_fails then Inl Item_unexpected
      else importOne env entry (now position) (jobCheckpoint i position True None) st)"
  have "\<exists>st1 o1. importFrom env (jobCheckpoint i) wt now (position + 1) rest st1 = ((e, o1), st')"
  proof (cases res)
    case (Inl failure)
    have "storable_problem (problemOf entry failure)"
      by (rule problemOf_storable [OF _ ref]) (use Inl in \<open>auto simp: res_def split: if_split_asm\<close>)
    then obtain st1 where "jobCheckpoint i position False (Some (problemOf entry failure)) st = Some st1"
      using checkpoint_exists [of "Some (problemOf entry failure)" i position False st] by auto
    then show ?thesis
      using Cons.prems(3) w Inl unfolding importFrom.simps res_def by (auto simp: Let_def split: prod.split_asm)
  next
    case (Inr c)
    then show ?thesis
      using Cons.prems(3) w unfolding importFrom.simps res_def by (auto simp: Let_def split: prod.split_asm)
  qed
  then show ?case using Cons.IH Cons.prems(1,2) by auto
qed simp

lemma runItems_resumes:
  assumes st: "written_ok (ie_request (jobRequest env options job')) (rd_items file) st0 ps st"
      "getBankJob (j_id job) (is_jobs st) = Some r"
      "stands (refusedEntries file) (length (rd_items file)) ps r" "same_job job r" "j_status r = Job_running"
    and job': "j_id job' = j_id job" "j_nextIndex job' = j_nextIndex r"
    and run: "runItems env options job' file wt st = (res, st')"
  shows "resumes (ie_request (jobRequest env options job')) file job st0 st' \<and>
    (calm wt \<and> storable_file file \<longrightarrow> succeeded (j_id job) st' \<and> res = Returns (Job_done Job_succeeded))"
proof -
  let ?request = "ie_request (jobRequest env options job')"
  obtain e outcome st1 where i: "importFrom (jobRequest env options job') (jobCheckpoint (j_id job)) (rw_item wt)
      (rw_now wt) (j_nextIndex r) (drop (j_nextIndex r) (rd_items file)) st = ((e, outcome), st1)"
    by (metis prod.exhaust)
  obtain ps' r' where s: "written_ok ?request (rd_items file) st0 ps' st1"
      "getBankJob (j_id job) (is_jobs st1) = Some r'"
      "stands (refusedEntries file) (length (rd_items file)) ps' r'" "same_job job r'" "j_status r' = Job_running"
      "e = Ran \<longrightarrow> j_nextIndex r' = length (rd_items file)"
    using importFrom_progress [OF st(1-4) i] st(5) by auto
  have st1: "resumes ?request file job st0 st1" by (rule resumesI [OF s(2,1,3,4)]) (simp add: s(5))
  show ?thesis
  proof (cases "e = Ran \<and> rw_finish wt = Calm")
    case False
    then have "st' = st1"
      using run i by (auto simp: runItems_def importBankItems_def job' runTx_def split: runEnd.split_asm weather.split_asm)
    moreover have "\<not> (calm wt \<and> storable_file file)"
    proof
      assume c: "calm wt \<and> storable_file file"
      then have "\<forall>(i, item) \<in> set (drop (j_nextIndex r) (rd_items file)). \<not> unstorableUnits (units (bi_ref item))"
        by (auto simp: storable_file_def list_all_iff dest: in_set_dropD)
      then show False using False c importFrom_calm [OF _ _ i] by (auto simp: calm_def)
    qed
    ultimately show ?thesis using st1 by auto
  next
    case True
    then have st': "st' = withJobs (finishBankJob (j_id job) (rw_at wt) None) st1"
      and res: "res = Returns (Job_done Job_succeeded)"
      using run i by (auto simp: runItems_def importBankItems_def job' runTx_def)
    have g: "getBankJob (j_id job) (is_jobs st') = Some (finished (rw_at wt) None r')"
      using s(2) by (simp add: st' withJobs_def finishBankJob_def getBankJob_update)
    moreover have "written_ok ?request (rd_items file) st0 ps' st'"
      unfolding st' using s(1) by (subst written_ok_jobs) (simp_all add: finishBankJob_def updateJobs_wf)
    moreover have "stands (refusedEntries file) (length (rd_items file)) ps' (finished (rw_at wt) None r')"
      using s(3) by (simp add: stands_def finished_def)
    moreover have "\<not> unfinished (finished (rw_at wt) None r')"
      "j_nextIndex (finished (rw_at wt) None r') = length (rd_items file)"
      using s(6) True by (simp_all add: unfinished_def finished_def)
    moreover have "succeeded (j_id job) st'" using g by (simp add: succeeded_def finished_def)
    ultimately show ?thesis using res unfolding resumes_def by blast
  qed
qed

lemma runImport_resumes:
  assumes st: "written_ok (ie_request (jobRequest env options job')) (rd_items file) st0 ps st"
      "getBankJob (j_id job) (is_jobs st) = Some job'" "same_job job job'" "j_status job' = Job_running"
      "stands (refusedEntries file) (length (rd_items file)) ps job' \<or> ps = [] \<and> firstRun job'"
    and rd: "readable env job options file"
    and run: "runImport env job' wt st = (res, st')"
  shows "resumes (ie_request (jobRequest env options job')) file job st0 st' \<and>
    (calm wt \<and> storable_file file \<longrightarrow> succeeded (j_id job) st' \<and> res = Returns (Job_done Job_succeeded))"
proof -
  have i: "j_id job' = j_id job" using getBankJob_id [OF st(2)] .
  obtain input where rd': "jr_options (we_readers env) (j_options job') = Some options"
      "readBankJobInput (j_id job') (is_jobs st) = Some input"
      "jr_read (we_readers env) (j_format job') input (mo_default_difficulty options) = Some (Inr file)"
    using rd st(2,3) by (auto simp: readable_def same_job_def readBankJobInput_def i)
  show ?thesis
  proof (cases "firstRun job' \<and> rd_problems file \<noteq> []")
    case False
    have "stands (refusedEntries file) (length (rd_items file)) ps job'"
      using st(5) False by (auto simp: firstRun_def stands_def refusedEntries_def)
    moreover have "runItems env options job' file wt st = (res, st')"
      using run False by (simp add: runImport_def rd')
    ultimately show ?thesis using runItems_resumes [OF st(1,2) _ st(3,4) i refl] by blast
  next
    case True
    have ps: "ps = []" using st(5) True by (auto simp: stands_def firstRun_def)
    define st1 where "st1 = withJobs (updateJobs (\<lambda>r. j_id r = j_id job') (parsed (rd_problems file))) st"
    show ?thesis
    proof (cases "rw_parse wt = Calm \<and> list_all storable_problem (rd_problems file)")
      case False
      then have "st' = st" using run True
        by (auto simp: runImport_def rd' runTx_def tryJobs_def recordParseProblems_def split: weather.split_asm)
      moreover have "resumes (ie_request (jobRequest env options job')) file job st0 st"
        unfolding resumes_def using st True ps by auto
      ultimately show ?thesis using False by (auto simp: calm_def storable_file_def)
    next
      case calm: True
      have run': "runItems env options job' file wt st1 = (res, st')"
        using run True calm
        by (simp add: runImport_def rd' runTx_def st1_def tryJobs_def recordParseProblems_def withJobs_def)
      have "getBankJob (j_id job) (is_jobs st1) = Some (parsed (rd_problems file) job')"
        using st(2) by (simp add: st1_def withJobs_def getBankJob_update i)
      moreover have "written_ok (ie_request (jobRequest env options job')) (rd_items file) st0 ps st1"
        unfolding st1_def using st(1) by (subst written_ok_jobs) (simp_all add: updateJobs_wf)
      moreover have "stands (refusedEntries file) (length (rd_items file)) ps (parsed (rd_problems file) job')"
        using True ps by (simp add: stands_def firstRun_def parsed_def refusedEntries_def)
      moreover have "same_job job (parsed (rd_problems file) job')" "j_status (parsed (rd_problems file) job') = Job_running"
        "j_nextIndex job' = j_nextIndex (parsed (rd_problems file) job')"
        using st(3,4) by (simp_all add: same_job_def parsed_def)
      ultimately show ?thesis using runItems_resumes [OF _ _ _ _ _ i _ run'] by blast
    qed
  qed
qed

definition deliver ::
  "(bankJobRow \<Rightarrow> importState \<Rightarrow> runResult \<times> importState) \<Rightarrow> workerEnv \<Rightarrow> nat \<Rightarrow> bool \<times> runWeather \<Rightarrow>
    importState \<Rightarrow> importState" where
  "deliver runExport env i = (\<lambda>(finalAttempt, wt) st. snd (runBankJob runExport env i finalAttempt wt st))"

lemma deliver_resumes:
  assumes inv: "resumes (ie_request (jobRequest env options job)) file job st0 st"
    and rd: "readable env job options file" and imp: "j_kind job = Import_job"
  shows "resumes (ie_request (jobRequest env options job)) file job st0 (deliver runExport env (j_id job) d st) \<and>
    (getBankJob (j_id job) (is_jobs st) = Some r0 \<and> unfinished r0 \<and> calm (snd d) \<and> storable_file file \<longrightarrow>
       succeeded (j_id job) (deliver runExport env (j_id job) d st))"
proof -
  obtain finalAttempt wt where d: "d = (finalAttempt, wt)" by (cases d)
  obtain ps r where r: "getBankJob (j_id job) (is_jobs st) = Some r"
      "written_ok (ie_request (jobRequest env options job)) (rd_items file) st0 ps st"
      "unfinished r \<longrightarrow> same_job job r \<and>
         (stands (refusedEntries file) (length (rd_items file)) ps r \<or> ps = [] \<and> firstRun r)"
    using inv by (auto simp: resumes_def)
  have i: "j_id r = j_id job" using getBankJob_id [OF r(1)] .
  have start: "startBankJob (j_id job) (rw_at wt) (is_jobs st) =
      (if unfinished r then (Some (started (rw_at wt) r), updateJobs (\<lambda>x. j_id x = j_id job) (started (rw_at wt)) (is_jobs st))
       else (None, is_jobs st))"
    using startBankJob_get [OF r(1)] r(2) by (simp add: written_ok_def startable_def unfinished_def i)
  show ?thesis
  proof (cases "unfinished r")
    case False
    then have "deliver runExport env (j_id job) d st = st" by (simp add: deliver_def d runBankJob_def start)
    then show ?thesis using inv r(1) False by auto
  next
    case True
    define st1 where "st1 = withJobs (updateJobs (\<lambda>x. j_id x = j_id job) (started (rw_at wt))) st"
    define job' where "job' = started (rw_at wt) r"
    have same: "same_job job job'" "j_status job' = Job_running"
      using r(3) True by (simp_all add: job'_def started_def same_job_def)
    have rq: "ie_request (jobRequest env options job') = ie_request (jobRequest env options job)"
      using same(1) by (simp add: jobRequest_def same_job_def)
    have w: "written_ok (ie_request (jobRequest env options job')) (rd_items file) st0 ps st1"
      unfolding rq st1_def using r(2) by (subst written_ok_jobs) (simp_all add: updateJobs_wf)
    have g: "getBankJob (j_id job) (is_jobs st1) = Some job'"
      using r(1) by (simp add: st1_def withJobs_def getBankJob_update job'_def)
    have s: "stands (refusedEntries file) (length (rd_items file)) ps job' \<or> ps = [] \<and> firstRun job'"
      using r(3) True by (simp add: job'_def started_def stands_def firstRun_def)
    obtain res st2 where run: "runImport env job' wt st1 = (res, st2)" by (cases "runImport env job' wt st1")
    have st2: "resumes (ie_request (jobRequest env options job)) file job st0 st2"
        "calm wt \<and> storable_file file \<longrightarrow> succeeded (j_id job) st2 \<and> res = Returns (Job_done Job_succeeded)"
      using runImport_resumes [OF w g same s rd run] by (simp_all add: rq)
    have "j_kind job' = Import_job" using same(1) imp by (simp add: same_job_def)
    then have "deliver runExport env (j_id job) d st =
        (if res = Throws \<and> finalAttempt then snd (failRun (rw_at wt) (j_id job) STOPPED_UNEXPECTEDLY st2) else st2)"
      using run True by (simp add: deliver_def d runBankJob_def start job'_def st1_def withJobs_def Let_def split: prod.split)
    then show ?thesis
      using resumes_failed [OF st2(1)] st2 by (cases "res = Throws \<and> finalAttempt") (auto simp: d)
  qed
qed

lemma accounted_total:
  assumes "accounted shape 0 [] raws file"
  shows "length (rd_items file) + refusedEntries file = length raws"
proof -
  have "distinct (map fst (rd_items file))"
    using assms by (simp add: accounted_def strict_sorted_iff)
  then have l: "length (rd_items file) = card (fst ` set (rd_items file))"
    by (metis distinct_card length_map list.set_map)
  have "card {0 ..< length raws} = card (fst ` set (rd_items file)) + card (ip_index ` set (rd_problems file))"
    using assms by (subst card_Un_disjoint [symmetric]) (simp_all add: accounted_def)
  then show ?thesis by (simp add: l refusedEntries_def)
qed

lemma document_total:
  assumes "readBankDocument parse shape source = Inr file"
  shows "length (rd_items file) + refusedEntries file = length (rawItems parse source)"
  by (rule accounted_total [of shape])
    (simp add: readBankDocument_Inr [OF assms] checkItems_def checkItemsFrom_accounted)

definition freshJob :: "bankJobRow \<Rightarrow> bool" where
  "freshJob job \<longleftrightarrow> j_kind job = Import_job \<and> unfinished job \<and> firstRun job"

lemma deliveries_resume:
  assumes "core_ok (is_bank st0)" "jobs_wf (is_jobs st0)" "getBankJob (j_id job) (is_jobs st0) = Some job"
    "freshJob job" "readable env job options file"
  shows "resumes (ie_request (jobRequest env options job)) file job st0
    (fold (deliver runExport env (j_id job)) ds st0)"
proof -
  have "resumes (ie_request (jobRequest env options job)) file job st0 st0"
    unfolding resumes_def using assms
    by (intro exI [of _ "[]"] exI [of _ job])
      (auto simp: written_ok_def imported_refl same_job_def freshJob_def unfinished_def)
  then have "resumes (ie_request (jobRequest env options job)) file job st0
      (fold (deliver runExport env (j_id job)) ds st)"
    if "resumes (ie_request (jobRequest env options job)) file job st0 st" for st
    using that by (induction ds arbitrary: st) (use deliver_resumes assms in \<open>auto simp: freshJob_def\<close>)
  then show ?thesis by (simp add: \<open>resumes _ file job st0 st0\<close>)
qed

subsection \<open>Properties\<close>

text \<open>C5: an import is carried out exactly once, however often its deliveries are cut short: when the
  job is reported as succeeded, every entry the file offered was either written once or counted
  as skipped, and the bank and the audit log grew by exactly one question and one row for each
  entry written, in the order of the file.\<close>

theorem import_exactly_once:
  assumes "core_ok (is_bank st0)" "jobs_wf (is_jobs st0)" "getBankJob (j_id job) (is_jobs st0) = Some job"
    "freshJob job" "readable env job options file"
    "st = fold (deliver runExport env (j_id job)) ds st0"
    "getBankJob (j_id job) (is_jobs st) = Some r" "j_status r = Job_succeeded"
  shows "\<exists>ps. sorted_wrt (<) ps \<and> set ps \<subseteq> {..< length (rd_items file)} \<and> j_createdCount r = length ps \<and>
    j_createdCount r + j_skippedCount r = length (rd_items file) + refusedEntries file \<and>
    (\<forall>parse shape source. readBankDocument parse shape source = Inr file \<longrightarrow>
       j_createdCount r + j_skippedCount r = length (rawItems parse source)) \<and>
    imported (ie_request (jobRequest env options job)) (map (\<lambda>p. snd (rd_items file ! p)) ps) st0 st"
proof -
  have "resumes (ie_request (jobRequest env options job)) file job st0 st"
    unfolding assms(6) by (rule deliveries_resume [OF assms(1-5)])
  then obtain ps where "written_ok (ie_request (jobRequest env options job)) (rd_items file) st0 ps st"
      "stands (refusedEntries file) (length (rd_items file)) ps r" "j_nextIndex r = length (rd_items file)"
    using assms(7,8) by (auto simp: resumes_def)
  then show ?thesis
    using document_total unfolding stands_def written_ok_def
    by (intro exI [of _ ps] conjI allI impI) (auto simp: add.commute dest!: document_total)
qed

definition sample_item :: bankItem where
  "sample_item = sample_sql_item\<lparr> bi_skills := [(''k'', Fin 1)] \<rparr>"

definition sample_file :: readResult where
  "sample_file = \<lparr> rd_items = [(0, sample_item)], rd_problems = [\<lparr> ip_index = 1, ip_ref = None, ip_path = [], ip_message = [] \<rparr>] \<rparr>"

definition sample_job :: bankJobRow where
  "sample_job = \<lparr> j_id = 7, j_kind = Import_job, j_format = Fmt_json, j_status = Job_dispatched,
     j_requestedBy = ''u'', j_options = J_null, j_input = Some [], j_inputBytes = Some 0, j_result = None,
     j_resultContentType = None, j_resultBytes = None, j_nextIndex = 0, j_createdCount = 0,
     j_skippedCount = 0, j_problems = [], j_problemsTruncated = False, j_failure = None,
     j_createdAt = 1, j_dispatchedAt = Some 2, j_startedAt = None, j_finishedAt = None, j_expiresAt = None \<rparr>"

definition sample_options :: importOptions where
  "sample_options = \<lparr> mo_source_license = ''MIT'', mo_default_skill_ids = [], mo_default_difficulty = None \<rparr>"

definition sample_worker :: workerEnv where
  "sample_worker = \<lparr> we_platform = sample_audit_platform, we_skills = [], we_orgId = ''o'',
     we_readers = \<lparr> jr_options = (\<lambda>_. Some sample_options), jr_read = (\<lambda>_ _ _. Some (Inr sample_file)) \<rparr> \<rparr>"

definition sample_state :: importState where
  "sample_state = \<lparr> is_bank = sample_bank, is_log = [], is_jobs = [sample_job] \<rparr>"

text \<open>A first delivery dies before its first item, a second goes through.\<close>

definition sample_weather :: "weather \<Rightarrow> runWeather" where
  "sample_weather w = \<lparr> rw_parse = Calm, rw_item = (\<lambda>_. w), rw_finish = Calm, rw_now = (\<lambda>_. 5), rw_at = 5 \<rparr>"

definition sample_done :: bankJobRow where
  "sample_done = finished 5 None (advanced 1 False [unknownSkills (0, sample_item) [''k'']]
     (parsed [\<lparr> ip_index = 1, ip_ref = None, ip_path = [], ip_message = [] \<rparr>] (started 5 sample_job)))"

lemma sample_core: "core_ok sample_bank"
  using sample_bank_ok by (simp add: bank_ok_def)

lemma sample_refused:
  "unknownKeys (skillIdsByKey []) sample_item = [''k'']" "bi_ref sample_item = ''q''"
  by (simp_all add: unknownKeys_def skillIdsByKey_def map_get_def sample_item_def sample_sql_item_def)

lemma sample_storable: "storable_problem \<lparr> ip_index = n, ip_ref = None, ip_path = [], ip_message = [] \<rparr>"
  by (simp add: storable_problem_def chosen_def units_def)

lemma sample_first:
  "deliver runExport sample_worker 7 (False, sample_weather Run_killed) sample_state =
     sample_state\<lparr> is_jobs := [parsed (rd_problems sample_file) (started 5 sample_job)] \<rparr>"
  by (simp add: deliver_def runBankJob_def startBankJob_def startable_def updateJobs_def sample_state_def
      sample_job_def started_def runImport_def sample_worker_def readBankJobInput_def getBankJob_def
      firstRun_def sample_file_def runTx_def sample_weather_def tryJobs_def recordParseProblems_def
      sample_storable Let_def runItems_def importBankItems_def parsed_def appendProblems_def MAX_STORED_PROBLEMS_def)

lemma sample_refusal_storable: "storable_problem (unknownSkills (0, sample_item) [''k''])"
  by (simp add: storable_problem_def chosen_def unknownSkills_def unstorableUnits_chars quoteJson_storable sample_refused(2))

lemma sample_second:
  "getBankJob 7 (is_jobs (deliver runExport sample_worker 7 (True, sample_weather Calm)
     (sample_state\<lparr> is_jobs := [parsed (rd_problems sample_file) (started 5 sample_job)] \<rparr>))) = Some sample_done"
  by (simp add: deliver_def runBankJob_def startBankJob_def startable_def updateJobs_def sample_state_def
      sample_job_def started_def runImport_def sample_worker_def readBankJobInput_def getBankJob_def
      firstRun_def sample_file_def runTx_def sample_weather_def withJobs_def runItems_def importBankItems_def
      parsed_def appendProblems_def MAX_STORED_PROBLEMS_def importOne_def sample_refused jobRequest_def
      problemOf_def jobCheckpoint_def tryJobs_def advanceImport_def sample_refusal_storable advanced_def finishBankJob_def finished_def
      sample_done_def Let_def)

theorem import_exactly_once_witness:
  "\<exists>ps. sorted_wrt (<) ps \<and> set ps \<subseteq> {..< length (rd_items sample_file)} \<and> j_createdCount sample_done = length ps \<and>
    j_createdCount sample_done + j_skippedCount sample_done = length (rd_items sample_file) + refusedEntries sample_file \<and>
    imported (ie_request (jobRequest sample_worker sample_options sample_job))
      (map (\<lambda>p. snd (rd_items sample_file ! p)) ps) sample_state
      (fold (deliver (\<lambda>_ st. (Throws, st)) sample_worker (j_id sample_job))
        [(False, sample_weather Run_killed), (True, sample_weather Calm)] sample_state)"
proof -
  have i: "j_id sample_job = 7" by (simp add: sample_job_def)
  have "core_ok (is_bank sample_state)" "jobs_wf (is_jobs sample_state)"
    "getBankJob (j_id sample_job) (is_jobs sample_state) = Some sample_job" "freshJob sample_job"
    "readable sample_worker sample_job sample_options sample_file"
    by (simp_all add: sample_state_def sample_core jobs_wf_def getBankJob_def freshJob_def unfinished_def
        firstRun_def readable_def sample_worker_def sample_job_def)
  moreover have "getBankJob (j_id sample_job) (is_jobs
      (fold (deliver (\<lambda>_ st. (Throws, st)) sample_worker (j_id sample_job))
        [(False, sample_weather Run_killed), (True, sample_weather Calm)] sample_state)) = Some sample_done"
    by (simp add: sample_first sample_second i)
  moreover have "j_status sample_done = Job_succeeded" by (simp add: sample_done_def finished_def)
  ultimately show ?thesis using import_exactly_once by blast
qed

text \<open>C6: an import is not left half done: as long as its job has neither succeeded nor been given
  up, the next delivery that is not cut short completes it, whatever happened to the ones before
  and whichever of its own items fail. This is for a file whose problems can be stored: no reference,
  path or message of a refused entry, and no reference of an accepted one, holds U+0000 or an unpaired
  surrogate.\<close>

theorem import_completes:
  assumes "core_ok (is_bank st0)" "jobs_wf (is_jobs st0)" "getBankJob (j_id job) (is_jobs st0) = Some job"
    "freshJob job" "readable env job options file"
    "st = fold (deliver runExport env (j_id job)) ds st0"
    "getBankJob (j_id job) (is_jobs st) = Some r" "unfinished r" "calm wt" "storable_file file"
  shows "succeeded (j_id job) (deliver runExport env (j_id job) (finalAttempt, wt) st)"
proof -
  have "resumes (ie_request (jobRequest env options job)) file job st0 st"
    unfolding assms(6) by (rule deliveries_resume [OF assms(1-5)])
  then show ?thesis
    using deliver_resumes [OF _ assms(5), where d = "(finalAttempt, wt)"] assms(4,7-10)
    unfolding freshJob_def by (metis snd_conv)
qed

theorem import_completes_witness:
  "succeeded (j_id sample_job) (deliver (\<lambda>_ st. (Throws, st)) sample_worker (j_id sample_job)
     (True, sample_weather Calm) (fold (deliver (\<lambda>_ st. (Throws, st)) sample_worker (j_id sample_job))
        [(False, sample_weather Run_killed)] sample_state))"
proof -
  have i: "j_id sample_job = 7" by (simp add: sample_job_def)
  have "core_ok (is_bank sample_state)" "jobs_wf (is_jobs sample_state)"
    "getBankJob (j_id sample_job) (is_jobs sample_state) = Some sample_job" "freshJob sample_job"
    "readable sample_worker sample_job sample_options sample_file"
    by (simp_all add: sample_state_def sample_core jobs_wf_def getBankJob_def freshJob_def unfinished_def
        firstRun_def readable_def sample_worker_def sample_job_def)
  moreover have "getBankJob (j_id sample_job) (is_jobs
      (fold (deliver (\<lambda>_ st. (Throws, st)) sample_worker (j_id sample_job))
        [(False, sample_weather Run_killed)] sample_state)) =
      Some (parsed (rd_problems sample_file) (started 5 sample_job))"
    by (simp add: i sample_first getBankJob_def)
  moreover have "unfinished (parsed (rd_problems sample_file) (started 5 sample_job))" "calm (sample_weather Calm)"
    by (simp_all add: unfinished_def parsed_def started_def calm_def sample_weather_def)
  moreover have "storable_file sample_file"
    by (simp add: storable_file_def sample_file_def sample_storable sample_refused(2) unstorableUnits_chars)
  ultimately show ?thesis using import_completes by blast
qed

subsection \<open>A problem that cannot be stored\<close>

lemma null_in_string: "unstorableString p s = [] \<longleftrightarrow> CHR 0x00 \<notin> set s"
  using unstorableUnits_chars [of s] by (simp add: unstorableString_def units_def)

lemma null_in_member:
  assumes "map_get es k = Some (J_string s)" "CHR 0x00 \<in> set s"
  shows "unstorableEntries p es \<noteq> []"
  using assms null_in_string by (induction es) (auto simp: map_get_def split: if_split_asm)

lemma null_ref_problem:
  assumes "map_get es ''ref'' = Some (J_string r)" "CHR 0x00 \<in> set r"
  obtains problem problems where "checkBankItem shape (J_object es) i = Inl (problem # problems)"
    "ip_ref problem = Some r"
proof -
  have "schemaIssues shape (J_object es) \<noteq> []"
    using null_in_member [OF assms, of "[]"] by (auto simp: schemaIssues_def refineItem_def split: sum.split)
  then obtain p message issues where "schemaIssues shape (J_object es) = (p, message) # issues"
    by (metis list.exhaust prod.exhaust)
  then show ?thesis using that assms(1) by (simp add: checkBankItem_def rawRef_def)
qed

lemma checkItemsFrom_null:
  assumes "J_object es \<in> set raws" "map_get es ''ref'' = Some (J_string r)" "CHR 0x00 \<in> set r"
  shows "\<not> list_all storable_problem (rd_problems (checkItemsFrom shape index seen raws))"
  using assms(1)
proof (induction raws arbitrary: index seen)
  case (Cons raw raws)
  have no: "\<not> storable_problem p" if "ip_ref p = Some r" for p
    using that assms(3) by (simp add: storable_problem_def chosen_def unstorableUnits_chars)
  show ?case
  proof (cases "raw = J_object es")
    case True
    obtain problem problems where "checkBankItem shape raw index = Inl (problem # problems)" "ip_ref problem = Some r"
      unfolding True by (rule null_ref_problem [OF assms(2,3)])
    then show ?thesis using no by (simp add: Let_def)
  next
    case False
    then have "J_object es \<in> set raws" using Cons.prems by simp
    from Cons.IH [OF this] show ?thesis by (auto simp: Let_def split: sum.split)
  qed
qed simp

definition untouched :: "bankJobRow \<Rightarrow> importState \<Rightarrow> importState \<Rightarrow> bool" where
  "untouched job st0 st \<longleftrightarrow> is_bank st = is_bank st0 \<and> is_log st = is_log st0 \<and> jobs_wf (is_jobs st) \<and>
     (\<exists>q. getBankJob (j_id job) (is_jobs st) = Some q \<and> j_status q \<noteq> Job_succeeded \<and> j_createdCount q = 0 \<and>
        (unfinished q \<longrightarrow> same_job job q \<and> firstRun q))"

text \<open>A delivery of such a job, whole.\<close>

lemma delivery_refused:
  assumes st: "getBankJob (j_id job) (is_jobs st) = Some q" "jobs_wf (is_jobs st)" "unfinished q" "same_job job q"
      "firstRun q" "j_kind job = Import_job"
    and rd: "readable env job options file" "\<not> list_all storable_problem (rd_problems file)"
    and st1: "st1 = withJobs (updateJobs (\<lambda>x. j_id x = j_id job) (started (rw_at wt))) st"
  shows "runBankJob runExport env (j_id job) finalAttempt wt st =
    (if rw_parse wt = Run_killed then (Stops, st1)
     else (Throws, if finalAttempt
        then withJobs (updateJobs (\<lambda>x. j_id x = j_id job) (failed (rw_at wt) STOPPED_UNEXPECTEDLY)) st1 else st1))"
proof -
  have i: "j_id q = j_id job" by (rule getBankJob_id [OF st(1)])
  define job' where "job' = started (rw_at wt) q"
  have same: "same_job job job'" "firstRun job'" "j_id job' = j_id job" "j_kind job' = Import_job"
    using st(4-6) i by (simp_all add: job'_def started_def same_job_def firstRun_def)
  have start: "startBankJob (j_id job) (rw_at wt) (is_jobs st) = (Some job', is_jobs st1)"
    using startBankJob_get [OF st(1,2)] st(3)
    by (simp add: startable_def unfinished_def i job'_def st1 withJobs_def)
  have "getBankJob (j_id job) (is_jobs st1) = Some job'"
    using st(1) by (simp add: st1 withJobs_def getBankJob_update job'_def)
  then obtain input where "jr_options (we_readers env) (j_options job') = Some options"
      "readBankJobInput (j_id job') (is_jobs st1) = Some input"
      "jr_read (we_readers env) (j_format job') input (mo_default_difficulty options) = Some (Inr file)"
    using rd(1) same by (auto simp: readable_def same_job_def readBankJobInput_def)
  moreover have "rd_problems file \<noteq> []" using rd(2) by auto
  ultimately have "runImport env job' wt st1 = (if rw_parse wt = Run_killed then (Stops, st1) else (Throws, st1))"
    using same(2) rd(2)
    by (simp add: runImport_def runTx_def tryJobs_def recordParseProblems_def split: weather.split)
  moreover have "st\<lparr> is_jobs := is_jobs st1 \<rparr> = st1" by (simp add: st1 withJobs_def)
  moreover have "\<not> unstorableUnits (units (take 2000 STOPPED_UNEXPECTEDLY))"
    unfolding unstorableUnits_chars STOPPED_UNEXPECTEDLY_def by simp
  ultimately show ?thesis
    using same(4) by (simp add: runBankJob_def start failRun_def tryJobs_def failBankJob_def withJobs_def Let_def)
qed

lemma delivery_untouched:
  assumes u: "untouched job st0 st" and imp: "j_kind job = Import_job"
    and rd: "readable env job options file" "\<not> list_all storable_problem (rd_problems file)"
  shows "untouched job st0 (deliver runExport env (j_id job) d st)"
proof -
  obtain finalAttempt wt where d: "d = (finalAttempt, wt)" by (cases d)
  obtain q where q: "getBankJob (j_id job) (is_jobs st) = Some q" "jobs_wf (is_jobs st)" "j_status q \<noteq> Job_succeeded"
      "j_createdCount q = 0" "unfinished q \<longrightarrow> same_job job q \<and> firstRun q"
    using u by (auto simp: untouched_def)
  show ?thesis
  proof (cases "unfinished q")
    case False
    then have "deliver runExport env (j_id job) d st = st"
      using startBankJob_get [OF q(1,2)] getBankJob_id [OF q(1)]
      by (simp add: deliver_def d runBankJob_def startable_def unfinished_def)
    then show ?thesis using u by simp
  next
    case True
    define st1 where "st1 = withJobs (updateJobs (\<lambda>x. j_id x = j_id job) (started (rw_at wt))) st"
    have st1: "untouched job st0 st1"
      using u q True unfolding untouched_def st1_def withJobs_def
      by (auto simp: getBankJob_update updateJobs_wf started_def same_job_def firstRun_def)
    have "untouched job st0 (withJobs (updateJobs (\<lambda>x. j_id x = j_id job) (failed (rw_at wt) STOPPED_UNEXPECTEDLY)) st1)"
      using st1 unfolding untouched_def withJobs_def
      by (auto simp: getBankJob_update updateJobs_wf failed_def unfinished_def)
    then show ?thesis
      using st1 delivery_refused [OF q(1,2) True _ _ imp rd st1_def] q(5) True
      by (auto simp: deliver_def d)
  qed
qed

text \<open>C40: one bad entry costs the file. If an entry of an uploaded document has a \<open>ref\<close> with U+0000 in it,
  then, whatever the schema makes of the entry, its problem quotes that \<open>ref\<close> and the table cannot
  store it: no delivery of the job ever imports anything, each one that is not cut short throws, and
  the last attempt leaves the job failed as an unexpected error, with no problem that names the entry.\<close>

theorem null_ref_fails_import:
  assumes "jobs_wf (is_jobs st0)" "getBankJob (j_id job) (is_jobs st0) = Some job" "freshJob job"
    "readable env job options (checkItems shape raws)" "J_object es \<in> set raws"
    "map_get es ''ref'' = Some (J_string r)" "CHR 0x00 \<in> set r"
    "st = fold (deliver runExport env (j_id job)) ds st0"
  shows "is_bank st = is_bank st0 \<and> is_log st = is_log st0 \<and>
    (\<exists>q. getBankJob (j_id job) (is_jobs st) = Some q \<and> j_status q \<noteq> Job_succeeded \<and> j_createdCount q = 0 \<and>
      (unfinished q \<longrightarrow> (\<forall>finalAttempt wt. rw_parse wt = Calm \<longrightarrow>
         fst (runBankJob runExport env (j_id job) finalAttempt wt st) = Throws \<and>
         getBankJob (j_id job) (is_jobs (deliver runExport env (j_id job) (True, wt) st)) =
           Some (failed (rw_at wt) STOPPED_UNEXPECTEDLY (started (rw_at wt) q)))))"
proof -
  have bad: "\<not> list_all storable_problem (rd_problems (checkItems shape raws))"
    unfolding checkItems_def by (rule checkItemsFrom_null [OF assms(5-7)])
  have imp: "j_kind job = Import_job" using assms(3) by (simp add: freshJob_def)
  have "untouched job st0 st0"
    using assms(1-3) by (auto simp: untouched_def freshJob_def firstRun_def unfinished_def same_job_def)
  then have u: "untouched job st0 st"
    unfolding assms(8) by (induction ds arbitrary: st0 rule: rev_induct) (use delivery_untouched [OF _ imp assms(4) bad] in auto)
  then obtain q where q: "getBankJob (j_id job) (is_jobs st) = Some q" "jobs_wf (is_jobs st)" "j_status q \<noteq> Job_succeeded"
      "j_createdCount q = 0" "unfinished q \<Longrightarrow> same_job job q \<and> firstRun q"
    by (auto simp: untouched_def)
  have "fst (runBankJob runExport env (j_id job) finalAttempt wt st) = Throws \<and>
      getBankJob (j_id job) (is_jobs (deliver runExport env (j_id job) (True, wt) st)) =
        Some (failed (rw_at wt) STOPPED_UNEXPECTEDLY (started (rw_at wt) q))"
    if "unfinished q" "rw_parse wt = Calm" for finalAttempt wt
    using delivery_refused [OF q(1,2) that(1) _ _ imp assms(4) bad refl] q(1,5) that
    by (simp add: deliver_def withJobs_def getBankJob_update)
  then show ?thesis using u q by (auto simp: untouched_def)
qed

definition null_entry :: "(string \<times> json) list" where
  "null_entry = [(''ref'', J_string [CHR ''a'', CHR 0x00])]"

definition null_worker :: workerEnv where
  "null_worker = sample_worker\<lparr> we_readers := \<lparr> jr_options = (\<lambda>_. Some sample_options),
     jr_read = (\<lambda>_ _ _. Some (Inr (checkItems (\<lambda>_. Inl (([], []), [])) [J_object null_entry]))) \<rparr> \<rparr>"

theorem null_ref_fails_import_witness:
  "is_bank (fold (deliver (\<lambda>_ st. (Throws, st)) null_worker (j_id sample_job)) [(False, sample_weather Calm)] sample_state) =
     sample_bank \<and>
   (\<exists>q. getBankJob (j_id sample_job) (is_jobs (fold (deliver (\<lambda>_ st. (Throws, st)) null_worker (j_id sample_job))
      [(False, sample_weather Calm)] sample_state)) = Some q \<and> j_status q \<noteq> Job_succeeded \<and> j_createdCount q = 0)"
proof -
  have a: "jobs_wf (is_jobs sample_state)" "getBankJob (j_id sample_job) (is_jobs sample_state) = Some sample_job"
    "freshJob sample_job"
    "readable null_worker sample_job sample_options (checkItems (\<lambda>_. Inl (([], []), [])) [J_object null_entry])"
    by (simp_all add: sample_state_def jobs_wf_def getBankJob_def freshJob_def unfinished_def
        firstRun_def readable_def null_worker_def sample_worker_def sample_job_def)
  have e: "J_object null_entry \<in> set [J_object null_entry]"
    "map_get null_entry ''ref'' = Some (J_string [CHR ''a'', CHR 0x00])" "CHR 0x00 \<in> set [CHR ''a'', CHR 0x00]"
    by (simp_all add: null_entry_def map_get_def)
  have b: "is_bank sample_state = sample_bank" by (simp add: sample_state_def)
  show ?thesis
    using null_ref_fails_import [OF a e refl, where ds = "[(False, sample_weather Calm)]"
        and runExport = "\<lambda>_ st. (Throws, st)"]
    unfolding b by blast
qed

subsection \<open>One bank, two writers\<close>

text \<open>The bank is written by the requests of the API and by the items the worker imports, each in a
  transaction of its own; an item is imported only after \<open>checkBankItem\<close>.\<close>

datatype bankEvent =
    Request "auditContext \<times> bankRequest"
  | Import_entry importEnv itemSchema json nat int

definition importEvent :: "importEnv \<Rightarrow> itemSchema \<Rightarrow> json \<Rightarrow> nat \<Rightarrow> int \<Rightarrow> importState \<Rightarrow> importState" where
  "importEvent env shape raw index at_ms st =
     (case checkBankItem shape raw index of
        Inl _ \<Rightarrow> st
      | Inr item \<Rightarrow>
          (case importOne env (index, item) at_ms Some st of Inl _ \<Rightarrow> st | Inr (_, st') \<Rightarrow> st'))"

fun bankStep :: "bankEvent \<Rightarrow> importState \<Rightarrow> importState" where
  "bankStep (Request e) st =
     (let sv = served e \<lparr> sv_bank = is_bank st, sv_log = is_log st \<rparr> in
      st\<lparr> is_bank := sv_bank sv, is_log := sv_log sv \<rparr>)"
| "bankStep (Import_entry env shape raw index at_ms) st = importEvent env shape raw index at_ms st"

lemma importEvent_ok:
  assumes ok: "bank_ok (is_bank st)"
  shows "bank_ok (is_bank (importEvent env shape raw index t st)) \<and>
    evolves (is_bank st) (is_bank (importEvent env shape raw index t st))"
proof (cases "\<exists>item q st'. checkBankItem shape raw index = Inr item \<and>
    importOne env (index, item) t Some st = Inr (q, st')")
  case False
  then have "importEvent env shape raw index t st = st"
    by (auto simp: importEvent_def split: sum.split)
  then show ?thesis using ok by simp
next
  case True
  then obtain item q st' where c: "checkBankItem shape raw index = Inr item"
    and i: "importOne env (index, item) t Some st = Inr (q, st')" by blast
  have core: "core_ok (is_bank st)" using ok by (simp add: bank_ok_def)
  obtain b' row u where w: "Some (st\<lparr> is_bank := b', is_log := is_log st @ [row] \<rparr>) = Some st'" "core_ok b'"
      "evolves (is_bank st) b'" "b_questions b' = b_questions (is_bank st) @ [u]"
      "question_of (ie_request env) item u"
    by (rule importOne_Inr [OF core i]) simp
  have "refineItem raw item = []" using checkBankItem_Inr [OF c] by simp
  then have "(bi_status item = Published \<or> bi_status item = Retired) = anyPublished item"
    by (simp add: refineItem_def split: if_split_asm)
  then have "status_ok u" using w(5) by (auto simp: status_ok_def in_circulation_def question_of_def)
  then show ?thesis using ok w c i by (auto simp: importEvent_def bank_ok_def)
qed

lemma bankStep_ok:
  "bank_ok (is_bank st) \<Longrightarrow> bank_ok (is_bank (bankStep e st)) \<and> evolves (is_bank st) (is_bank (bankStep e st))"
  by (cases e) (use importEvent_ok served_ok [of "\<lparr> sv_bank = is_bank st, sv_log = is_log st \<rparr>"] in
    \<open>auto simp: Let_def\<close>)

interpretation writers: bank_writer bankStep is_bank bank_ok
  by unfold_locales (use bankStep_ok in simp_all)

text \<open>C15: a published version is frozen. Whatever requests and imports follow, in whatever order,
  reading the version again gives exactly the record it was published with: its prompt, its scores,
  its options and their correctness, its test cases and its answer keys.\<close>

theorem published_version_frozen:
  assumes "bank_ok (is_bank st)" "getVersion (is_bank st) q v = Some found" "vr_published_at found \<noteq> None"
  shows "getVersion (is_bank (writers.run st es)) q v = Some found"
  using assms by (rule writers.published_version_kept)

theorem published_version_frozen_witness:
  "getVersion (is_bank (writers.run sample_state
     [Request (sample_context, Delete 0), Import_entry (jobRequest sample_worker sample_options sample_job)
        (\<lambda>_. Inr (sample_item, [])) J_null 0 9])) 0 1 =
     Some (toVersionRecord sample_bank sample_version_row)"
  by (rule published_version_frozen)
    (simp_all add: sample_state_def sample_bank_ok getVersion_def sample_keys)

end
