(* ===== verification/Bank_Pages.thy ===== *)
theory Bank_Pages
  imports Bank_Invariants Question_View "HOL-Library.Product_Lexorder" "HOL-Library.Sublist"
begin

text \<open>
  Keyset pagination (\<open>packages/db/src/cursor.ts\<close>, \<open>listQuestions\<close> and \<open>listVersions\<close> of
  \<open>packages/db/src/questions.ts\<close>): opaque cursors, pages in descending order of creation and
  identifier, and the literal search term of the list. The codec of a cursor and the renderings of
  instants and identifiers are the record \<open>pageCodec\<close>; \<open>pc_rank\<close> is the order of identifiers in
  the database.
\<close>

subsection \<open>Cursors\<close>

record keyset =
  ks_at :: string
  ks_id :: string

record pageCodec =
  pc_base64url :: "string \<Rightarrow> string"
  pc_unbase64url :: "string \<Rightarrow> string"
  pc_timestamp :: "int \<Rightarrow> string"
  pc_instant :: "string \<Rightarrow> int"
  pc_uuid :: "nat \<Rightarrow> string"
  pc_uuidOf :: "string \<Rightarrow> nat"
  pc_rank :: "nat \<Rightarrow> nat"

definition SEPARATOR :: char where
  "SEPARATOR = CHR ''|''"

definition MAX_PAYLOAD_LENGTH :: nat where
  "MAX_PAYLOAD_LENGTH = 128"

definition is_hex_digit :: "char \<Rightarrow> bool" where
  "is_hex_digit c \<longleftrightarrow> is_digit c \<or> c \<in> set ''abcdefABCDEF''"

text \<open>A template of fixed length: \<open>x\<close> is a hexadecimal digit, \<open>d\<close> a decimal one.\<close>

definition fits :: "string \<Rightarrow> string \<Rightarrow> bool" where
  "fits template s \<longleftrightarrow>
     list_all2 (\<lambda>p c. if p = CHR ''x'' then is_hex_digit c else if p = CHR ''d'' then is_digit c else c = p) template s"

definition UUID_PATTERN :: "string \<Rightarrow> bool" where
  "UUID_PATTERN s \<longleftrightarrow> fits ''xxxxxxxx-xxxx-xxxx-xxxx-xxxxxxxxxxxx'' s"

definition zone :: "string \<Rightarrow> bool" where
  "zone s \<longleftrightarrow> fits ''+dd'' s \<or> fits ''-dd'' s \<or> fits ''+dd:dd'' s \<or> fits ''-dd:dd'' s"

definition fraction_zone :: "string \<Rightarrow> bool" where
  "fraction_zone s \<longleftrightarrow>
     zone s \<or>
     (case s of
        [] \<Rightarrow> False
      | c # r \<Rightarrow> c = CHR ''.'' \<and> takeWhile is_digit r \<noteq> [] \<and> length (takeWhile is_digit r) \<le> 6 \<and>
                 zone (dropWhile is_digit r))"

definition TIMESTAMP_PATTERN :: "string \<Rightarrow> bool" where
  "TIMESTAMP_PATTERN s \<longleftrightarrow> fits ''dddd-dd-dd dd:dd:dd'' (take 19 s) \<and> fraction_zone (drop 19 s)"

definition encodeKeysetCursor :: "pageCodec \<Rightarrow> keyset \<Rightarrow> string" where
  "encodeKeysetCursor pc k = pc_base64url pc (ks_at k @ SEPARATOR # ks_id k)"

text \<open>Decoding base64url never throws: bytes that are none are skipped.\<close>

definition decodeKeysetCursor :: "pageCodec \<Rightarrow> string \<Rightarrow> keyset option" where
  "decodeKeysetCursor pc cursor =
     (let decoded = pc_unbase64url pc cursor in
      if length decoded = 0 \<or> length decoded > MAX_PAYLOAD_LENGTH then None
      else
        let before = takeWhile (\<lambda>c. c \<noteq> SEPARATOR) decoded; rest = dropWhile (\<lambda>c. c \<noteq> SEPARATOR) decoded in
        if rest = [] \<or> before = [] then None
        else if \<not> TIMESTAMP_PATTERN before \<or> \<not> UUID_PATTERN (tl rest) then None
        else Some \<lparr> ks_at = before, ks_id = tl rest \<rparr>)"

subsection \<open>Pages\<close>

definition below :: "'k :: linorder option \<Rightarrow> 'k \<Rightarrow> bool" where
  "below bound k \<longleftrightarrow> (case bound of None \<Rightarrow> True | Some b \<Rightarrow> k < b)"

definition newest_first :: "('a \<Rightarrow> 'k :: linorder) \<Rightarrow> 'a list \<Rightarrow> 'a list" where
  "newest_first key table = rev (sort_key key table)"

text \<open>One query: a row more than the limit decides whether there is a next page. The second component
  is the row the next cursor names.\<close>

definition keysetPage :: "('a \<Rightarrow> 'k :: linorder) \<Rightarrow> nat \<Rightarrow> 'k option \<Rightarrow> 'a list \<Rightarrow> 'a list \<times> 'a option" where
  "keysetPage key limit bound table =
     (let rows = take (limit + 1) (newest_first key (filter (\<lambda>r. below bound (key r)) table));
          window = take limit rows in
      (window, if length rows > limit \<and> window \<noteq> [] then Some (last window) else None))"

definition keyset_bound :: "pageCodec \<Rightarrow> string option \<Rightarrow> (int \<times> nat) option" where
  "keyset_bound pc cursor =
     map_option (\<lambda>k. (pc_instant pc (ks_at k), pc_rank pc (pc_uuidOf pc (ks_id k))))
       (Option.bind cursor (decodeKeysetCursor pc))"

definition cursor_at :: "pageCodec \<Rightarrow> int \<Rightarrow> nat \<Rightarrow> string" where
  "cursor_at pc createdAt i =
     encodeKeysetCursor pc \<lparr> ks_at = pc_timestamp pc createdAt, ks_id = pc_uuid pc i \<rparr>"

definition versionKey :: "pageCodec \<Rightarrow> versionRow \<Rightarrow> int \<times> nat" where
  "versionKey pc r = (w_createdAt r, pc_rank pc (w_id r))"

definition questionKey :: "pageCodec \<Rightarrow> questionRow \<Rightarrow> int \<times> nat" where
  "questionKey pc q = (u_createdAt q, pc_rank pc (u_id q))"

definition listVersions ::
  "pageCodec \<Rightarrow> nat \<Rightarrow> nat \<Rightarrow> bank \<Rightarrow> string option \<Rightarrow> questionVersionRecord list \<times> string option" where
  "listVersions pc questionId limit b cursor =
     (let (rows, next_row) = keysetPage (versionKey pc) limit (keyset_bound pc cursor)
            (filter (\<lambda>r. w_questionId r = questionId) (b_versions b)) in
      (map (toVersionRecord b) rows, map_option (\<lambda>r. cursor_at pc (w_createdAt r) (w_id r)) next_row))"

subsection \<open>The list of questions\<close>

record listQuestionsQuery =
  lq_kind :: "questionKind option"
  lq_status :: "questionStatus option"
  lq_skill_id :: "string option"
  lq_difficulty :: "int option"
  lq_q :: "string option"
  lq_exposure_gt :: "int option"
  lq_include_archived :: bool

definition BACKSLASH :: char where
  "BACKSLASH = CHR 0x5C"

definition escapeLike :: "string \<Rightarrow> string" where
  "escapeLike term =
     replaceChar (CHR ''_'') [BACKSLASH, CHR ''_''] (replaceChar (CHR ''%'') [BACKSLASH, CHR ''%'']
       (replaceChar BACKSLASH [BACKSLASH, BACKSLASH] term))"

text \<open>\<open>LIKE\<close> with the backslash as escape, and \<open>ILIKE\<close>, which folds the case of both sides.\<close>

fun like :: "string \<Rightarrow> string \<Rightarrow> bool" where
  "like [] t \<longleftrightarrow> t = []"
| "like (p # ps) [] \<longleftrightarrow> p = CHR ''%'' \<and> like ps []"
| "like (p # ps) (x # t) \<longleftrightarrow>
     (if p = CHR ''%'' then like ps (x # t) \<or> like (p # ps) t
      else if p = CHR ''_'' then like ps t
      else if p = BACKSLASH then (case ps of [] \<Rightarrow> False | e # ps' \<Rightarrow> x = e \<and> like ps' t)
      else x = p \<and> like ps t)"

definition ilike :: "string \<Rightarrow> string \<Rightarrow> bool" where
  "ilike pattern t \<longleftrightarrow> like (toLowerCase pattern) (toLowerCase t)"

definition listed :: "listQuestionsQuery \<Rightarrow> bank \<Rightarrow> questionRow \<Rightarrow> bool" where
  "listed query b q \<longleftrightarrow>
     (lq_include_archived query \<or> u_archivedAt q = None) \<and>
     (case lq_kind query of None \<Rightarrow> True | Some k \<Rightarrow> u_kind q = k) \<and>
     (case lq_status query of None \<Rightarrow> True | Some s \<Rightarrow> u_status q = s) \<and>
     (case lq_exposure_gt query of None \<Rightarrow> True | Some n \<Rightarrow> u_exposureCount q > n) \<and>
     (case lq_difficulty query of None \<Rightarrow> True
      | Some d \<Rightarrow> map_option w_difficulty (latestRow b (u_id q)) = Some d) \<and>
     (case lq_skill_id query of None \<Rightarrow> True
      | Some s \<Rightarrow> list_ex (\<lambda>(i, skill, weight). i = u_id q \<and> skill = s) (b_skills b)) \<and>
     (case lq_q query of None \<Rightarrow> True
      | Some term \<Rightarrow> list_ex (\<lambda>r. w_questionId r = u_id q \<and>
            ilike (CHR ''%'' # escapeLike term @ [CHR ''%'']) (w_promptMd r)) (b_versions b))"

record questionSummaryRecord =
  qs_id :: nat
  qs_kind :: questionKind
  qs_status :: questionStatus
  qs_external_ref :: "string option"
  qs_source_license :: "string option"
  qs_exposure_count :: int
  qs_archived_at :: "int option"
  qs_created_at :: int
  qs_current_version_id :: "nat option"
  qs_current_published_at :: "int option"
  qs_latest_version_no :: "int option"
  qs_latest_difficulty :: "int option"
  qs_latest_prompt_md :: "string option"

definition toSummary :: "bank \<Rightarrow> questionRow \<Rightarrow> questionSummaryRecord" where
  "toSummary b q =
     (let latest = latestRow b (u_id q);
          current = Option.bind (u_currentVersionId q) (\<lambda>v. List.find (\<lambda>r. w_id r = v) (b_versions b)) in
      \<lparr> qs_id = u_id q, qs_kind = u_kind q, qs_status = u_status q, qs_external_ref = u_externalRef q,
        qs_source_license = u_sourceLicense q, qs_exposure_count = u_exposureCount q,
        qs_archived_at = u_archivedAt q, qs_created_at = u_createdAt q,
        qs_current_version_id = u_currentVersionId q,
        qs_current_published_at = Option.bind current w_publishedAt,
        qs_latest_version_no = map_option w_versionNo latest,
        qs_latest_difficulty = map_option w_difficulty latest,
        qs_latest_prompt_md = map_option w_promptMd latest \<rparr>)"

definition listQuestions ::
  "pageCodec \<Rightarrow> listQuestionsQuery \<Rightarrow> nat \<Rightarrow> bank \<Rightarrow> string option \<Rightarrow> questionSummaryRecord list \<times> string option" where
  "listQuestions pc query limit b cursor =
     (let (rows, next_row) = keysetPage (questionKey pc) limit (keyset_bound pc cursor)
            (filter (listed query b) (b_questions b)) in
      (map (toSummary b) rows, map_option (\<lambda>q. cursor_at pc (u_createdAt q) (u_id q)) next_row))"

text \<open>Reading page after page until there is no next one. Each page is a statement of its own and may
  see another table, so the page is a function of its number; fuel bounds the number of pages.\<close>

fun allPages :: "nat \<Rightarrow> (nat \<Rightarrow> 'c option \<Rightarrow> 'a list \<times> 'c option) \<Rightarrow> nat \<Rightarrow> 'c option \<Rightarrow> 'a list option" where
  "allPages 0 page n cursor = None"
| "allPages (Suc fuel) page n cursor =
     (case page n cursor of
        (rows, None) \<Rightarrow> Some rows
      | (rows, Some c) \<Rightarrow> map_option ((@) rows) (allPages fuel page (n + 1) (Some c)))"

subsection \<open>Cursors survive the round trip\<close>

lemma fits_length: "fits template s \<Longrightarrow> length s = length template"
  by (simp add: fits_def list_all2_lengthD)

lemma fits_no_separator:
  assumes "fits template s" "SEPARATOR \<notin> set template"
  shows "SEPARATOR \<notin> set s"
  using assms unfolding fits_def SEPARATOR_def
  by (induction rule: list_all2_induct) (auto simp: is_hex_digit_def is_digit_def split: if_split_asm)

lemma zone_facts:
  assumes "zone s"
  shows "length s \<le> 6 \<and> SEPARATOR \<notin> set s"
proof -
  obtain t where t: "fits t s" "length t \<le> 6" "SEPARATOR \<notin> set t"
    using assms unfolding zone_def by (elim disjE) (rule that, assumption, simp, simp add: SEPARATOR_def)+
  then show ?thesis using fits_length [OF t(1)] fits_no_separator [OF t(1,3)] by simp
qed

lemma fraction_zone_facts:
  assumes "fraction_zone s"
  shows "length s \<le> 13 \<and> SEPARATOR \<notin> set s"
proof (cases "zone s")
  case True
  then show ?thesis using zone_facts [OF True] by simp
next
  case False
  then obtain r where r: "s = CHR ''.'' # r" "length (takeWhile is_digit r) \<le> 6" "zone (dropWhile is_digit r)"
    using assms by (auto simp: fraction_zone_def split: list.split_asm)
  have "length r = length (takeWhile is_digit r) + length (dropWhile is_digit r)"
    by (metis length_append takeWhile_dropWhile_id)
  then have "length s \<le> 13" using r zone_facts [OF r(3)] by simp
  moreover have "SEPARATOR \<notin> set (takeWhile is_digit r)"
    by (auto simp: SEPARATOR_def is_digit_def dest: set_takeWhileD)
  then have "SEPARATOR \<notin> set r"
    using zone_facts [OF r(3)] by (metis Un_iff set_append takeWhile_dropWhile_id)
  ultimately show ?thesis by (simp add: r(1)) (simp add: SEPARATOR_def)
qed

lemma timestamp_facts:
  assumes "TIMESTAMP_PATTERN s"
  shows "s \<noteq> []" "length s \<le> 32" "SEPARATOR \<notin> set s"
proof -
  have f: "fits ''dddd-dd-dd dd:dd:dd'' (take 19 s)" "fraction_zone (drop 19 s)"
    using assms by (simp_all add: TIMESTAMP_PATTERN_def)
  have "length (take 19 s) = 19" using fits_length [OF f(1)] by simp
  then show "s \<noteq> []" "length s \<le> 32" using fraction_zone_facts [OF f(2)] by auto
  have "SEPARATOR \<notin> set (take 19 s)" by (rule fits_no_separator [OF f(1)]) (simp add: SEPARATOR_def)
  then show "SEPARATOR \<notin> set s"
    using fraction_zone_facts [OF f(2)] by (metis Un_iff append_take_drop_id set_append)
qed

lemma cursor_decodes:
  assumes "\<And>s. pc_unbase64url pc (pc_base64url pc s) = s"
  shows "decodeKeysetCursor pc (encodeKeysetCursor pc k) = Some k \<longleftrightarrow>
    TIMESTAMP_PATTERN (ks_at k) \<and> UUID_PATTERN (ks_id k)"
proof -
  have "decodeKeysetCursor pc (encodeKeysetCursor pc k) = Some k"
    if t: "TIMESTAMP_PATTERN (ks_at k)" and u: "UUID_PATTERN (ks_id k)"
  proof -
    note ts = timestamp_facts [OF t]
    have "length (ks_id k) = 36" using u fits_length unfolding UUID_PATTERN_def by fastforce
    then have "length (ks_at k @ SEPARATOR # ks_id k) \<le> MAX_PAYLOAD_LENGTH"
      using ts by (simp add: MAX_PAYLOAD_LENGTH_def)
    moreover have "takeWhile (\<lambda>c. c \<noteq> SEPARATOR) (ks_at k @ SEPARATOR # ks_id k) = ks_at k"
      "dropWhile (\<lambda>c. c \<noteq> SEPARATOR) (ks_at k @ SEPARATOR # ks_id k) = SEPARATOR # ks_id k"
      using ts(3) by (auto simp: takeWhile_append dropWhile_append)
    ultimately show ?thesis
      using t u ts(1) assms by (simp add: decodeKeysetCursor_def encodeKeysetCursor_def Let_def)
  qed
  moreover have "TIMESTAMP_PATTERN (ks_at k) \<and> UUID_PATTERN (ks_id k)"
    if "decodeKeysetCursor pc cursor = Some k" for cursor
    using that by (auto simp: decodeKeysetCursor_def Let_def split: if_split_asm)
  ultimately show ?thesis by blast
qed

subsection \<open>Pages cover the list\<close>

lemma newest_first_set [simp]: "set (newest_first key table) = set table"
  by (simp add: newest_first_def)

lemma newest_first_sorted:
  assumes "distinct (map key table)"
  shows "sorted_wrt (\<lambda>x y. key y < key x) (newest_first key table)"
proof -
  have "distinct (map key (sort_key key table))"
    using assms by (simp add: distinct_map)
  then have "sorted_wrt (<) (map key (sort_key key table))" by (simp add: strict_sorted_iff)
  then show ?thesis by (simp add: newest_first_def sorted_wrt_rev sorted_wrt_map)
qed

text \<open>What a page shows of its table, and where it leaves off.\<close>

lemma keysetPage_cases:
  assumes d: "distinct (map key table)" and l: "1 \<le> limit"
    and p: "keysetPage key limit bound table = (rows, next_row)"
  shows "sorted_wrt (\<lambda>x y. key y < key x) rows" "set rows \<subseteq> set table" "\<forall>r \<in> set rows. below bound (key r)"
    "next_row = None \<Longrightarrow> \<forall>r \<in> set table. below bound (key r) \<longrightarrow> r \<in> set rows"
    "next_row = Some r' \<Longrightarrow> r' \<in> set rows \<and> (\<forall>r \<in> set rows. key r' \<le> key r) \<and>
       (\<forall>r \<in> set table. below bound (key r) \<and> key r' \<le> key r \<longrightarrow> r \<in> set rows)"
proof -
  define D where "D = newest_first key (filter (\<lambda>r. below bound (key r)) table)"
  have rows: "rows = take limit D"
    and next_row: "next_row = (if length D > limit \<and> take limit D \<noteq> [] then Some (last (take limit D)) else None)"
    using p by (auto simp: keysetPage_def Let_def D_def min_def)
  have sorted: "sorted_wrt (\<lambda>x y. key y < key x) D"
    unfolding D_def by (rule newest_first_sorted) (use d in \<open>simp add: distinct_map_filter\<close>)
  show "sorted_wrt (\<lambda>x y. key y < key x) rows" using sorted by (simp add: rows sorted_wrt_take)
  have sub: "set rows \<subseteq> set D" by (simp add: rows set_take_subset)
  then show "set rows \<subseteq> set table" "\<forall>r \<in> set rows. below bound (key r)" by (auto simp: D_def)
  have "take limit D \<noteq> []" if "length D > limit" using that l by (cases D) auto
  then have short: "length D \<le> limit" if "next_row = None" using that next_row by (auto split: if_split_asm)
  then show "\<forall>r \<in> set table. below bound (key r) \<longrightarrow> r \<in> set rows" if "next_row = None"
    using that by (auto simp: rows D_def)
  show "r' \<in> set rows \<and> (\<forall>r \<in> set rows. key r' \<le> key r) \<and>
      (\<forall>r \<in> set table. below bound (key r) \<and> key r' \<le> key r \<longrightarrow> r \<in> set rows)" if n: "next_row = Some r'"
  proof -
    have r': "r' = last rows" "rows \<noteq> []" using n next_row by (auto simp: rows split: if_split_asm)
    then have m: "r' \<in> set rows" by simp
    have split: "sorted_wrt (\<lambda>x y. key y < key x) (butlast rows @ [r'] @ drop limit D)"
      using sorted r' by (metis append.assoc append_butlast_last_id append_take_drop_id rows)
    have "key r' \<le> key r" if "r \<in> set rows" for r
    proof -
      have "r \<in> set (butlast rows) \<or> r = r'" using that r' by (metis append_butlast_last_id rotate1.simps(2) set_ConsD set_rotate1)
      then show ?thesis using split by (auto simp: sorted_wrt_append less_imp_le)
    qed
    moreover have "r \<in> set rows" if "r \<in> set table" "below bound (key r)" "key r' \<le> key r" for r
    proof -
      have "r \<in> set D" using that by (simp add: D_def)
      then have "r \<in> set rows \<or> r \<in> set (drop limit D)" by (metis Un_iff append_take_drop_id rows set_append)
      then show ?thesis using split that(3) by (auto simp: sorted_wrt_append)
    qed
    ultimately show ?thesis using m by blast
  qed
qed

text \<open>A client that follows the cursors while the table changes under it: \<open>table n\<close> is what the n-th
  page sees, and all of them draw their keys from the finite set \<open>U\<close>. Each row is read together
  with the number of its page.\<close>

definition tagged_page ::
  "('a \<Rightarrow> 'k :: linorder) \<Rightarrow> nat \<Rightarrow> (nat \<Rightarrow> 'a list) \<Rightarrow> nat \<Rightarrow> 'k option \<Rightarrow> (nat \<times> 'a) list \<times> 'k option" where
  "tagged_page key limit table n bound =
     (case keysetPage key limit bound (table n) of
        (rows, next_row) \<Rightarrow> (map (Pair n) rows, map_option key next_row))"

definition descending :: "('a \<Rightarrow> 'k :: linorder) \<Rightarrow> (nat \<times> 'a) list \<Rightarrow> bool" where
  "descending key rows \<longleftrightarrow> sorted_wrt (\<lambda>x y. key (snd y) < key (snd x)) rows"

lemma allPages_covers:
  fixes key :: "'a \<Rightarrow> 'k :: linorder"
  assumes fin: "finite U" and keys: "\<And>n. key ` set (table n) \<subseteq> U" and d: "\<And>n. distinct (map key (table n))"
    and l: "1 \<le> limit" and fuel: "card {u \<in> U. below bound u} < fuel"
  shows "\<exists>rows. allPages fuel (tagged_page key limit table) n bound = Some rows \<and> descending key rows \<and>
      (\<forall>(m, r) \<in> set rows. below bound (key r) \<and> r \<in> set (table m)) \<and>
      (\<forall>u. below bound u \<and> (\<forall>m. u \<in> key ` set (table m)) \<longrightarrow> u \<in> (key \<circ> snd) ` set rows)"
  using fuel
proof (induction fuel arbitrary: n bound)
  case (Suc fuel)
  obtain rows next_row where p: "keysetPage key limit bound (table n) = (rows, next_row)"
    by (cases "keysetPage key limit bound (table n)")
  note page = keysetPage_cases [OF d l p]
  have tagged: "tagged_page key limit table n bound = (map (Pair n) rows, map_option key next_row)"
    by (simp add: tagged_page_def p)
  have here: "descending key (map (Pair n) rows)"
    "\<forall>(m, r) \<in> set (map (Pair n) rows). below bound (key r) \<and> r \<in> set (table m)"
    using page(1-3) by (auto simp: descending_def sorted_wrt_map)
  show ?case
  proof (cases next_row)
    case None
    have "u \<in> (key \<circ> snd) ` set (map (Pair n) rows)" if b: "below bound u" and u: "\<forall>m. u \<in> key ` set (table m)" for u
    proof -
      obtain r where "r \<in> set (table n)" "u = key r" using u by blast
      then show ?thesis using page(4) [OF None] b by force
    qed
    then show ?thesis using here by (intro exI [of _ "map (Pair n) rows"]) (simp add: tagged None)
  next
    case (Some r')
    let ?k = "key r'"
    note last = page(5) [OF Some]
    have k: "?k \<in> U" "below bound ?k" using last page(2,3) keys [of n] by auto
    have "{u \<in> U. below (Some ?k) u} \<subset> {u \<in> U. below bound u}"
      using k by (auto simp: below_def split: option.splits)
    then have "card {u \<in> U. below (Some ?k) u} < card {u \<in> U. below bound u}"
      by (rule psubset_card_mono [rotated]) (simp add: fin)
    then have "card {u \<in> U. below (Some ?k) u} < fuel" using Suc.prems by simp
    from Suc.IH [OF this, of "n + 1"] obtain later where later:
        "allPages fuel (tagged_page key limit table) (n + 1) (Some ?k) = Some later" "descending key later"
        "\<forall>(m, r) \<in> set later. below (Some ?k) (key r) \<and> r \<in> set (table m)"
        "\<forall>u. below (Some ?k) u \<and> (\<forall>m. u \<in> key ` set (table m)) \<longrightarrow> u \<in> (key \<circ> snd) ` set later"
      by blast
    have "key (snd y) < key (snd x)" if "x \<in> set (map (Pair n) rows)" "y \<in> set later" for x y
    proof -
      have "key (snd y) < ?k" using later(3) that(2) by (auto simp: below_def)
      also have "?k \<le> key (snd x)" using last that(1) by auto
      finally show ?thesis .
    qed
    then have "descending key (map (Pair n) rows @ later)"
      using here(1) later(2) by (simp add: descending_def sorted_wrt_append)
    moreover have "\<forall>(m, r) \<in> set (map (Pair n) rows @ later). below bound (key r) \<and> r \<in> set (table m)"
      using here(2) later(3) k(2) by (auto simp: below_def split: option.splits)
    moreover have "u \<in> (key \<circ> snd) ` set (map (Pair n) rows @ later)"
      if b: "below bound u" and u: "\<forall>m. u \<in> key ` set (table m)" for u
    proof (cases "u < ?k")
      case True
      then show ?thesis using later(4) u by (auto simp: below_def)
    next
      case False
      obtain r where r: "r \<in> set (table n)" "u = key r" using u by blast
      then have "r \<in> set rows" using last False b by auto
      then show ?thesis using r(2) by force
    qed
    ultimately show ?thesis
      using later(1) by (intro exI [of _ "map (Pair n) rows @ later"]) (simp add: tagged Some)
  qed
qed simp

lemma keysetPage_next:
  assumes "keysetPage key limit bound table = (rows, Some r)"
  shows "r \<in> set table"
proof -
  have "rows \<noteq> []" "r = last rows" "set rows \<subseteq> set table"
    using assms by (auto simp: keysetPage_def Let_def split: if_split_asm dest!: in_set_takeD)
  then show ?thesis using last_in_set by blast
qed

lemma allPages_encoded:
  assumes "\<And>n bound. P bound \<Longrightarrow> page n (map_option code bound) =
      (case tagged_page key limit table n bound of (rows, k) \<Rightarrow> (map (\<lambda>(m, r). show_row m r) rows, map_option code k))"
    and "\<And>n r. r \<in> set (table n) \<Longrightarrow> P (Some (key r))" and "P bound"
  shows "allPages fuel page n (map_option code bound) =
    map_option (map (\<lambda>(m, r). show_row m r)) (allPages fuel (tagged_page key limit table) n bound)"
  using assms(3)
proof (induction fuel arbitrary: n bound)
  case (Suc fuel)
  obtain rows next_row where p: "keysetPage key limit bound (table n) = (rows, next_row)"
    by (cases "keysetPage key limit bound (table n)")
  show ?case
  proof (cases next_row)
    case None
    then show ?thesis by (simp add: assms(1) [OF Suc.prems] tagged_page_def p)
  next
    case (Some r)
    then have "tagged_page key limit table n bound = (map (Pair n) rows, Some (key r))"
      by (simp add: tagged_page_def p)
    moreover have "r \<in> set (table n)" by (rule keysetPage_next [OF p [unfolded Some]])
    ultimately show ?thesis
      using Suc.IH [OF assms(2), of r n "n + 1"]
      by (simp add: assms(1) [OF Suc.prems] option.map_comp comp_def)
  qed
qed simp

text \<open>The codec renders the instants and identifiers of the rows at hand in its format and loses
  nothing of them.\<close>

definition lossless :: "pageCodec \<Rightarrow> (int \<times> nat) set \<Rightarrow> bool" where
  "lossless pc K \<longleftrightarrow>
     (\<forall>s. pc_unbase64url pc (pc_base64url pc s) = s) \<and> inj (pc_rank pc) \<and>
     (\<forall>(t, i) \<in> K. TIMESTAMP_PATTERN (pc_timestamp pc t) \<and> pc_instant pc (pc_timestamp pc t) = t \<and>
        UUID_PATTERN (pc_uuid pc i) \<and> pc_uuidOf pc (pc_uuid pc i) = i)"

lemma losslessD: "lossless pc K \<Longrightarrow> (t, i) \<in> K \<Longrightarrow> TIMESTAMP_PATTERN (pc_timestamp pc t) \<and>
    pc_instant pc (pc_timestamp pc t) = t \<and> UUID_PATTERN (pc_uuid pc i) \<and> pc_uuidOf pc (pc_uuid pc i) = i"
  unfolding lossless_def by blast

lemma keyset_bound_cursor:
  assumes "lossless pc K" "(t, i) \<in> K"
  shows "keyset_bound pc (Some (cursor_at pc t i)) = Some (t, pc_rank pc i)"
  using losslessD [OF assms] assms(1) cursor_decodes [of pc "\<lparr> ks_at = pc_timestamp pc t, ks_id = pc_uuid pc i \<rparr>"]
  by (simp add: keyset_bound_def cursor_at_def lossless_def)

definition cursor_code :: "pageCodec \<Rightarrow> int \<times> nat \<Rightarrow> string" where
  "cursor_code pc k = cursor_at pc (fst k) (inv (pc_rank pc) (snd k))"

lemma cursor_code_key:
  "lossless pc K \<Longrightarrow> cursor_code pc (t, pc_rank pc i) = cursor_at pc t i"
  by (simp add: cursor_code_def lossless_def)

definition cursor_key :: "pageCodec \<Rightarrow> (int \<times> nat) set \<Rightarrow> (int \<times> nat) option \<Rightarrow> bool" where
  "cursor_key pc K bound \<longleftrightarrow> (\<forall>k. bound = Some k \<longrightarrow> (\<exists>(t, i) \<in> K. k = (t, pc_rank pc i)))"

lemma cursor_none [simp]: "cursor_key pc K None"
  by (simp add: cursor_key_def)

lemma pages_of_table:
  assumes pc: "lossless pc K" and keys: "\<And>r. key r = (created r, pc_rank pc (ident r))"
    and dom: "cursor_key pc K bound"
  shows "(case keysetPage key limit (keyset_bound pc (map_option (cursor_code pc) bound)) (table n) of
      (rows, next_row) \<Rightarrow> (map (show_row n) rows, map_option (\<lambda>r. cursor_at pc (created r) (ident r)) next_row)) =
    (case tagged_page key limit table n bound of
      (rows, k) \<Rightarrow> (map (\<lambda>(m, r). show_row m r) rows, map_option (cursor_code pc) k))"
proof -
  have "keyset_bound pc (map_option (cursor_code pc) bound) = bound"
  proof (cases bound)
    case (Some k)
    then obtain t i where k: "k = (t, pc_rank pc i)" "(t, i) \<in> K" using dom by (auto simp: cursor_key_def)
    then show ?thesis using Some keyset_bound_cursor [OF pc k(2)] by (simp add: cursor_code_key [OF pc])
  qed (simp add: keyset_bound_def)
  then show ?thesis
    by (simp add: tagged_page_def cursor_code_key [OF pc] keys option.map_comp comp_def split: prod.split)
qed

text \<open>Both lists, read to the end.\<close>

lemma listQuestions_pages:
  assumes pc: "lossless pc K" and K: "\<And>n q. q \<in> set (b_questions (banks n)) \<Longrightarrow> (u_createdAt q, u_id q) \<in> K"
  shows "allPages fuel (\<lambda>n. listQuestions pc query limit (banks n)) 0 None =
    map_option (map (\<lambda>(n, q). toSummary (banks n) q))
      (allPages fuel (tagged_page (questionKey pc) limit (\<lambda>n. filter (listed query (banks n)) (b_questions (banks n)))) 0 None)"
proof -
  have "listQuestions pc query limit (banks n) (map_option (cursor_code pc) bound) =
      (case tagged_page (questionKey pc) limit (\<lambda>n. filter (listed query (banks n)) (b_questions (banks n))) n bound of
        (rows, k) \<Rightarrow> (map (\<lambda>(m, q). toSummary (banks m) q) rows, map_option (cursor_code pc) k))"
    if "cursor_key pc K bound" for n bound
    unfolding listQuestions_def Let_def
    by (rule pages_of_table [OF pc _ that, where show_row = "\<lambda>n. toSummary (banks n)"
          and table = "\<lambda>n. filter (listed query (banks n)) (b_questions (banks n))"])
      (simp add: questionKey_def)
  moreover have "cursor_key pc K (Some (questionKey pc r))" 
    if "r \<in> set (filter (listed query (banks n)) (b_questions (banks n)))" for r n
    using K [of r n] that by (auto simp: cursor_key_def questionKey_def)
  ultimately show ?thesis
    using allPages_encoded [where P = "cursor_key pc K" and bound = None and code = "cursor_code pc" and fuel = fuel
        and n = 0 and key = "questionKey pc" and limit = limit
        and page = "\<lambda>n. listQuestions pc query limit (banks n)" and show_row = "\<lambda>n. toSummary (banks n)"
        and table = "\<lambda>n. filter (listed query (banks n)) (b_questions (banks n))"] by simp
qed

lemma listVersions_pages:
  assumes pc: "lossless pc K" and K: "\<And>r. r \<in> set (b_versions b) \<Longrightarrow> (w_createdAt r, w_id r) \<in> K"
  shows "allPages fuel (\<lambda>n. listVersions pc i limit b) 0 None =
    map_option (map (\<lambda>(n, r). toVersionRecord b r))
      (allPages fuel (tagged_page (versionKey pc) limit (\<lambda>n. filter (\<lambda>r. w_questionId r = i) (b_versions b))) 0 None)"
proof -
  have "listVersions pc i limit b (map_option (cursor_code pc) bound) =
      (case tagged_page (versionKey pc) limit (\<lambda>n. filter (\<lambda>r. w_questionId r = i) (b_versions b)) n bound of
        (rows, k) \<Rightarrow> (map (\<lambda>(m, r). toVersionRecord b r) rows, map_option (cursor_code pc) k))"
    if "cursor_key pc K bound" for n bound
    unfolding listVersions_def Let_def
    by (rule pages_of_table [OF pc _ that, where show_row = "\<lambda>n. toVersionRecord b"
          and table = "\<lambda>n. filter (\<lambda>r. w_questionId r = i) (b_versions b)"]) (simp add: versionKey_def)
  moreover have "cursor_key pc K (Some (versionKey pc r))" 
    if "r \<in> set (filter (\<lambda>r. w_questionId r = i) (b_versions b))" for r
    using K [of r] that by (auto simp: cursor_key_def versionKey_def)
  ultimately show ?thesis
    using allPages_encoded [where P = "cursor_key pc K" and bound = None and code = "cursor_code pc" and fuel = fuel
        and n = 0 and key = "versionKey pc" and limit = limit
        and page = "\<lambda>n. listVersions pc i limit b" and show_row = "\<lambda>n. toVersionRecord b"
        and table = "\<lambda>n. filter (\<lambda>r. w_questionId r = i) (b_versions b)"] by simp
qed

subsection \<open>Search terms are literal\<close>

definition escaped :: "char \<Rightarrow> string" where
  "escaped c = (if c \<in> {BACKSLASH, CHR ''%'', CHR ''_''} then [BACKSLASH, c] else [c])"

lemma escapeLike_chars: "escapeLike term = concat (map escaped term)"
proof -
  have "escapeLike (c # cs) = escaped c @ escapeLike cs" for c cs
    by (simp add: escapeLike_def replaceChar_def escaped_def BACKSLASH_def)
  moreover have "escapeLike [] = []" by (simp add: escapeLike_def replaceChar_def)
  ultimately show ?thesis by (induction "term") simp_all
qed

lemma like_rest: "like [CHR ''%''] t"
  by (induction t) (simp_all add: BACKSLASH_def)

lemma like_prefix: "like (escapeLike q @ [CHR ''%'']) t \<longleftrightarrow> prefix q t"
proof (induction q arbitrary: t)
  case Nil
  then show ?case by (simp add: escapeLike_chars like_rest)
next
  case (Cons c q)
  show ?case
    by (cases t) (use Cons.IH in \<open>auto simp: escapeLike_chars escaped_def BACKSLASH_def\<close>)
qed

lemma like_anywhere: "like (CHR ''%'' # ps) t \<longleftrightarrow> (\<exists>s. suffix s t \<and> like ps s)"
proof (induction t)
  case (Cons x t)
  then show ?case by (auto simp: suffix_Cons)
qed simp

lemma lower_char_code:
  "(of_char (lower_char c) :: nat) =
     (if 65 \<le> (of_char c :: nat) \<and> of_char c \<le> (90 :: nat) \<or>
         192 \<le> (of_char c :: nat) \<and> of_char c \<le> (222 :: nat) \<and> of_char c \<noteq> (215 :: nat)
      then of_char c + 32 else of_char c)"
  by (simp add: lower_char_def Let_def)

lemma lower_wild:
  assumes "d \<in> {BACKSLASH, CHR ''%'', CHR ''_''}"
  shows "lower_char c = d \<longleftrightarrow> c = d"
proof -
  have "(of_char d :: nat) \<in> {92, 37, 95}" using assms by (auto simp: BACKSLASH_def)
  then have "(of_char (lower_char c) :: nat) = of_char d \<longleftrightarrow> (of_char c :: nat) = of_char d"
    unfolding lower_char_code by auto
  then show ?thesis by (simp add: of_char_eq_iff)
qed

lemma toLowerCase_escape: "toLowerCase (escapeLike q) = escapeLike (toLowerCase q)"
proof -
  have "map lower_char (escaped c) = escaped (lower_char c)" for c
    using lower_wild [of BACKSLASH BACKSLASH] lower_wild [of BACKSLASH c] lower_wild [of "CHR ''%''" c] lower_wild [of "CHR ''_''" c]
    by (auto simp: escaped_def)
  then show ?thesis by (simp add: escapeLike_chars toLowerCase_def map_concat comp_def)
qed

subsection \<open>Properties\<close>

lemma descending_distinct:
  assumes "descending key tagged"
    and "\<And>x y. x \<in> set tagged \<Longrightarrow> y \<in> set tagged \<Longrightarrow> u_id (snd x) = u_id (snd y) \<Longrightarrow> key (snd x) = key (snd y)"
  shows "distinct (map (u_id \<circ> snd) tagged)"
  using assms unfolding descending_def
proof (induction tagged)
  case (Cons x xs)
  have "u_id (snd x) \<noteq> u_id (snd y)" if "y \<in> set xs" for y
    using Cons.prems(1) Cons.prems(2) [of x y] that by auto
  then show ?case using Cons by auto
qed simp

text \<open>C21: paging loses and repeats nothing: however the bank changes between the pages, a client that
  follows the cursors reaches the end, sees no question twice, sees only questions that matched
  when their page was read, and sees every question that matched throughout.\<close>

theorem pages_lose_nothing:
  assumes pc: "lossless pc ((\<lambda>i. (created i, i)) ` {..< N})" and l: "1 \<le> limit" and wf: "\<And>n. bank_wf (banks n)"
    and q: "\<And>n q. q \<in> set (b_questions (banks n)) \<Longrightarrow> u_createdAt q = created (u_id q) \<and> u_id q < N"
  shows "\<exists>rows. allPages (N + 1) (\<lambda>n. listQuestions pc query limit (banks n)) 0 None = Some rows \<and>
    distinct (map qs_id rows) \<and>
    (\<forall>s \<in> set rows. \<exists>n. \<exists>q \<in> set (b_questions (banks n)). listed query (banks n) q \<and> s = toSummary (banks n) q) \<and>
    (\<forall>i. (\<forall>n. \<exists>q \<in> set (b_questions (banks n)). u_id q = i \<and> listed query (banks n) q) \<longrightarrow> i \<in> qs_id ` set rows)"
proof -
  define table where "table n = filter (listed query (banks n)) (b_questions (banks n))" for n
  define U where "U = (\<lambda>i. (created i, pc_rank pc i)) ` {..< N}"
  have key: "questionKey pc r = (created (u_id r), pc_rank pc (u_id r))" if "r \<in> set (table n)" for r n
    using q [of r n] that by (simp add: questionKey_def table_def)
  have K: "(u_createdAt r, u_id r) \<in> (\<lambda>i. (created i, i)) ` {..< N}" if "r \<in> set (b_questions (banks n))" for r n
    using q [OF that] by simp
  have "inj (pc_rank pc)" using pc by (simp add: lossless_def)
  then have id: "pc_rank pc i = pc_rank pc j \<longleftrightarrow> i = j" for i j by (simp add: inj_eq)
  have keys: "questionKey pc ` set (table n) \<subseteq> U" for n
    using key q by (force simp: U_def table_def)
  have "distinct (map u_id (table n))" for n
    using wf [of n] by (simp add: bank_wf_def table_def distinct_map_filter)
  then have d: "distinct (map (questionKey pc) (table n))" for n
    unfolding distinct_map inj_on_def by (auto simp: questionKey_def id)
  have "card {u \<in> U. below None u} < N + 1"
    using card_image_le [of "{..< N}" "\<lambda>i. (created i, pc_rank pc i)"] by (simp add: U_def below_def)
  from allPages_covers [of U "questionKey pc" table limit None "N + 1" 0, OF _ keys d l this]
  obtain tagged where t: "allPages (N + 1) (tagged_page (questionKey pc) limit table) 0 None = Some tagged"
      "descending (questionKey pc) tagged" "\<forall>(m, r) \<in> set tagged. r \<in> set (table m)"
      "\<forall>u. (\<forall>m. u \<in> questionKey pc ` set (table m)) \<longrightarrow> u \<in> (questionKey pc \<circ> snd) ` set tagged"
    by (auto simp: U_def below_def)
  define rows where "rows = map (\<lambda>(n, q). toSummary (banks n) q) tagged"
  have all: "allPages (N + 1) (\<lambda>n. listQuestions pc query limit (banks n)) 0 None = Some rows"
    using t(1) by (simp add: listQuestions_pages [OF pc K] rows_def table_def [abs_def] del: allPages.simps)
  have ids: "map qs_id rows = map (u_id \<circ> snd) tagged"
    by (auto simp: rows_def toSummary_def Let_def)
  have "snd z \<in> set (table (fst z))" if "z \<in> set tagged" for z using t(3) that by (auto split: prod.splits)
  then have distinct: "distinct (map (u_id \<circ> snd) tagged)"
    by (intro descending_distinct [OF t(2)]) (metis key)
  have "\<exists>n. \<exists>q \<in> set (b_questions (banks n)). listed query (banks n) q \<and> s = toSummary (banks n) q"
    if "s \<in> set rows" for s
    using that t(3) by (force simp: rows_def table_def)
  moreover have "i \<in> qs_id ` set rows"
    if i: "\<forall>n. \<exists>q \<in> set (b_questions (banks n)). u_id q = i \<and> listed query (banks n) q" for i
  proof -
    have "(created i, pc_rank pc i) \<in> questionKey pc ` set (table m)" for m
      using i key by (force simp: table_def)
    then obtain x where x: "x \<in> set tagged" "questionKey pc (snd x) = (created i, pc_rank pc i)"
      using t(4) by force
    then have "u_id (snd x) = i" by (simp add: questionKey_def id)
    then have "i \<in> set (map qs_id rows)" unfolding ids using x(1) by force
    then show ?thesis by simp
  qed
  ultimately show ?thesis using all distinct ids by (intro exI [of _ rows]) simp
qed

definition sample_codec :: pageCodec where
  "sample_codec = \<lparr> pc_base64url = id, pc_unbase64url = id, pc_timestamp = (\<lambda>_. ''2026-10-20 09:00:00.123456+00''),
     pc_instant = (\<lambda>_. 3), pc_uuid = (\<lambda>_. ''00000000-0000-4000-8000-00000000000a''), pc_uuidOf = (\<lambda>_. 0),
     pc_rank = id \<rparr>"

definition sample_page_bank :: bank where
  "sample_page_bank = \<lparr> b_questions = [\<lparr> u_id = 0, u_kind = Subjective, u_status = Draft,
       u_currentVersionId = None, u_externalRef = None, u_sourceLicense = None, u_authorId = None,
       u_exposureCount = 0, u_archivedAt = None, u_createdAt = 3 \<rparr>],
     b_versions = [], b_options = [], b_specs = [], b_cases = [], b_keys = [], b_skills = [], b_skillIds = [], b_next = 1 \<rparr>"

definition sample_query :: listQuestionsQuery where
  "sample_query = \<lparr> lq_kind = None, lq_status = Some Draft, lq_skill_id = None, lq_difficulty = None,
     lq_q = None, lq_exposure_gt = None, lq_include_archived = False \<rparr>"

lemma sample_formats:
  "TIMESTAMP_PATTERN ''2026-10-20 09:00:00.123456+00''" "UUID_PATTERN ''00000000-0000-4000-8000-00000000000a''"
  by (code_simp+)

theorem pages_lose_nothing_witness:
  "\<exists>rows. allPages (1 + 1) (\<lambda>n. listQuestions sample_codec sample_query 1 sample_page_bank) 0 None = Some rows \<and>
    distinct (map qs_id rows) \<and>
    list_all (\<lambda>s. \<exists>n :: nat. list_ex (\<lambda>q. listed sample_query sample_page_bank q \<and>
      s = toSummary sample_page_bank q) (b_questions sample_page_bank)) rows \<and>
    0 \<in> qs_id ` set rows"
proof -
  have "lossless sample_codec ((\<lambda>i. (3, i)) ` {..< 1})"
    by (auto simp: lossless_def sample_codec_def sample_formats)
  moreover have "bank_wf sample_page_bank"
    by (simp add: bank_wf_def sample_page_bank_def numbered_def owned_rows_def)
  moreover have "\<exists>q \<in> set (b_questions sample_page_bank). u_id q = 0 \<and> listed sample_query sample_page_bank q"
    by (simp add: sample_page_bank_def listed_def sample_query_def)
  moreover have "u_createdAt q = 3 \<and> u_id q < 1" if "q \<in> set (b_questions sample_page_bank)" for q
    using that by (simp add: sample_page_bank_def)
  ultimately show ?thesis
    using pages_lose_nothing [of sample_codec "\<lambda>_. 3" 1 1 "\<lambda>_. sample_page_bank" sample_query]
    by (fastforce simp: list_all_iff list_ex_iff simp del: allPages.simps)
qed

text \<open>A search term is literal: whatever wildcards and backslashes it holds, the list searches for
  prompts that contain it, up to case.\<close>

theorem search_is_literal:
  "ilike (CHR ''%'' # escapeLike q @ [CHR ''%'']) t \<longleftrightarrow> sublist (toLowerCase q) (toLowerCase t)"
proof -
  have "toLowerCase (CHR ''%'' # escapeLike q @ [CHR ''%'']) =
      CHR ''%'' # escapeLike (toLowerCase q) @ [CHR ''%'']"
    using lower_wild [of "CHR ''%''" "CHR ''%''"]
    by (simp add: toLowerCase_escape [symmetric]) (simp add: toLowerCase_def)
  then show ?thesis
    by (auto simp: ilike_def like_anywhere like_prefix sublist_altdef' suffix_def prefix_def sublist_def)
qed

end
