(* ===== verification/Bank_Crossing.thy ===== *)
theory Bank_Crossing
  imports Bank_Import Bank_Pages "HOL-Library.Multiset"
begin

text \<open>
  From one organisation to another: the export of \<open>apps/worker/src/jobs/bank-transfer.ts\<close>, page by
  page through the lists of the repository, and what its items become when they are imported. The
  collation of skill keys is an argument.
\<close>

subsection \<open>The export\<close>

record exportFilter =
  ef_skillId :: "string option"
  ef_status :: "questionStatus option"

definition PAGE :: nat where
  "PAGE = 50"

definition allVersions :: "pageCodec \<Rightarrow> nat \<Rightarrow> bank \<Rightarrow> nat \<Rightarrow> bankVersion list option" where
  "allVersions pc fuel b questionId =
     map_option (\<lambda>records. sort_key bv_version_no (map toBankVersion records))
       (allPages fuel (\<lambda>_. listVersions pc questionId PAGE b) 0 None)"

definition padStart :: "nat \<Rightarrow> char \<Rightarrow> string \<Rightarrow> string" where
  "padStart n c s = replicate (n - length s) c @ s"

definition exportedSkills :: "(string \<Rightarrow> nat) \<Rightarrow> skillRow list \<Rightarrow> (string \<times> jsnum) list \<Rightarrow> (string \<times> jsnum) list" where
  "exportedSkills collate skills tagged =
     (let keyById = fold (\<lambda>s m. map_set m (sk_id s) (sk_key s)) skills [] in
      sort_key (\<lambda>s. collate (fst s))
        (concat (map (\<lambda>(i, weight). case map_get keyById i of None \<Rightarrow> [] | Some k \<Rightarrow> [(k, weight)]) tagged)))"

definition itemOf ::
  "(string \<Rightarrow> nat) \<Rightarrow> skillRow list \<Rightarrow> nat \<Rightarrow> questionRecord \<Rightarrow> bankVersion list \<Rightarrow> bankItem" where
  "itemOf collate skills index question versions =
     \<lparr> bi_ref = ''q-'' @ padStart 5 (CHR ''0'') (decimal (index + 1)), bi_kind = qr_kind question,
       bi_status = qr_status question, bi_source_license = qr_source_license question,
       bi_external_ref = qr_external_ref question,
       bi_skills = exportedSkills collate skills (qr_skills question), bi_versions = versions \<rparr>"

text \<open>\<open>None\<close> is a run out of fuel; the list is empty for a question that is skipped.\<close>

definition exportItem ::
  "pageCodec \<Rightarrow> nat \<Rightarrow> (string \<Rightarrow> nat) \<Rightarrow> skillRow list \<Rightarrow> bank \<Rightarrow> nat \<times> questionSummaryRecord \<Rightarrow> bankItem list option" where
  "exportItem pc fuel collate skills b = (\<lambda>(index, summary).
     (case getQuestionWithCurrentVersion b (qs_id summary) False of
        None \<Rightarrow> Some []
      | Some question \<Rightarrow>
          map_option (\<lambda>versions. if versions = [] then [] else [itemOf collate skills index question versions])
            (allVersions pc fuel b (qr_id question))))"

definition exportQuery :: "exportFilter \<Rightarrow> listQuestionsQuery" where
  "exportQuery ef = \<lparr> lq_kind = None, lq_status = ef_status ef, lq_skill_id = ef_skillId ef,
     lq_difficulty = None, lq_q = None, lq_exposure_gt = None, lq_include_archived = False \<rparr>"

definition exportBank ::
  "pageCodec \<Rightarrow> nat \<Rightarrow> (string \<Rightarrow> nat) \<Rightarrow> skillRow list \<Rightarrow> exportFilter \<Rightarrow> bank \<Rightarrow> bankItem list option" where
  "exportBank pc fuel collate skills ef b =
     Option.bind (allPages fuel (\<lambda>_. listQuestions pc (exportQuery ef) PAGE b) 0 None) (\<lambda>summaries.
       map_option concat (those (map (exportItem pc fuel collate skills b) (enumerate 0 (rev summaries)))))"

subsection \<open>The document\<close>

record attribution =
  at_source_license :: string
  at_dataset :: "string option"
  at_items :: nat

definition PROPRIETARY :: string where
  "PROPRIETARY = ''proprietary''"

definition datasetOf :: "string option \<Rightarrow> string option" where
  "datasetOf external_ref = map_option (\<lambda>r. hd (splitOn CHR 0x2F r)) external_ref"

definition countAttribution ::
  "bankItem \<Rightarrow> (string \<times> string option, attribution) jsmap \<Rightarrow> (string \<times> string option, attribution) jsmap" where
  "countAttribution item counts =
     (case bi_source_license item of
        None \<Rightarrow> counts
      | Some l \<Rightarrow>
          if l = PROPRIETARY then counts
          else
            let key = (l, datasetOf (bi_external_ref item)) in
            map_set counts key \<lparr> at_source_license = l, at_dataset = snd key,
              at_items = (case map_get counts key of None \<Rightarrow> 0 | Some prior \<Rightarrow> at_items prior) + 1 \<rparr>)"

definition attributionsOf :: "(string \<Rightarrow> nat) \<Rightarrow> bankItem list \<Rightarrow> attribution list" where
  "attributionsOf collate items =
     sort_key (\<lambda>a. (collate (at_source_license a), collate (chosen (at_dataset a) [])))
       (map snd (fold countAttribution items []))"

record bankDocument =
  bd_format :: string
  bd_format_version :: jsnum
  bd_exported_at :: string
  bd_attributions :: "attribution list"
  bd_items :: "bankItem list"

definition buildBankDocument :: "(int \<Rightarrow> string) \<Rightarrow> (string \<Rightarrow> nat) \<Rightarrow> bankItem list \<Rightarrow> int \<Rightarrow> bankDocument" where
  "buildBankDocument isoText collate items exportedAt = \<lparr>
     bd_format = BANK_FORMAT, bd_format_version = BANK_FORMAT_VERSION, bd_exported_at = isoText exportedAt,
     bd_attributions = attributionsOf collate items, bd_items = items \<rparr>"

subsection \<open>The job of an export\<close>

text \<open>The schema of the options, the two writers of bytes and the rendering of an instant.\<close>

record exportTools =
  xt_options :: "json \<Rightarrow> exportFilter option"
  xt_json :: "bankDocument \<Rightarrow> blob"
  xt_package :: "bankItem list \<Rightarrow> blob"
  xt_isoText :: "int \<Rightarrow> string"

definition EXPORT_RETENTION_MS :: int where
  "EXPORT_RETENTION_MS = 7 * 24 * 60 * 60 * 1000"

definition INVALID_EXPORT_OPTIONS :: string where
  "INVALID_EXPORT_OPTIONS = ''The export options on this job are invalid.''"

definition exportBytes ::
  "exportTools \<Rightarrow> (string \<Rightarrow> nat) \<Rightarrow> bankJobFormat \<Rightarrow> bankItem list \<Rightarrow> int \<Rightarrow> blob" where
  "exportBytes tools collate fmt items at_ms =
     (if fmt = Fmt_json then xt_json tools (buildBankDocument (xt_isoText tools) collate items at_ms)
      else xt_package tools items)"

definition contentType :: "bankJobFormat \<Rightarrow> string" where
  "contentType fmt = (if fmt = Fmt_json then ''application/json'' else ''application/zip'')"

definition tooLarge :: "nat \<Rightarrow> string" where
  "tooLarge n = ''The export is '' @ decimal n @ '' bytes, over the '' @ decimal MAX_BANK_JOB_BYTES @
     ''-byte limit; narrow it by status or skill.''"

text \<open>\<open>rw_parse\<close> is the weather of the transaction that reads the bank. A run out of fuel is one that
  never comes back.\<close>

definition runExport ::
  "pageCodec \<Rightarrow> nat \<Rightarrow> (string \<Rightarrow> nat) \<Rightarrow> exportTools \<Rightarrow> skillRow list \<Rightarrow> runWeather \<Rightarrow> bankJobRow \<Rightarrow> importState \<Rightarrow>
    runResult \<times> importState" where
  "runExport pc fuel collate tools skills wt job st =
     (case xt_options tools (j_options job) of
        None \<Rightarrow> failRun (rw_at wt) (j_id job) INVALID_EXPORT_OPTIONS st
      | Some ef \<Rightarrow>
          runTx (rw_parse wt) Some st (\<lambda>st.
            case exportBank pc fuel collate skills ef (is_bank st) of
              None \<Rightarrow> (Stops, st)
            | Some items \<Rightarrow>
                let bytes = exportBytes tools collate (j_format job) items (rw_at wt) in
                if length bytes > MAX_BANK_JOB_BYTES then
                  failRun (rw_at wt) (j_id job) (tooLarge (length bytes)) st
                else
                  runTx (rw_finish wt) (Some \<circ> withJobs (finishBankJob (j_id job) (rw_at wt)
                      (Some (bytes, contentType (j_format job), rw_at wt + EXPORT_RETENTION_MS)))) st
                    (\<lambda>st'. (Returns (Job_done Job_succeeded), st'))))"

definition BANK_JOB_NAME :: string where
  "BANK_JOB_NAME = ''bank.job''"

definition RELAY_STALE_SECONDS :: int where
  "RELAY_STALE_SECONDS = 300"

definition bankJobKey :: "nat \<Rightarrow> string" where
  "bankJobKey i = BANK_JOB_NAME @ CHR '':'' # decimal i"

text \<open>The keys handed to the queue, and the table after the claim.\<close>

definition relayBankJobs :: "(nat \<Rightarrow> nat) \<Rightarrow> int option \<Rightarrow> int \<Rightarrow> bankJobRow list \<Rightarrow> string list \<times> bankJobRow list" where
  "relayBankJobs rank limit now jobs =
     (let (claimed, jobs') = claimBankJobs rank (chosen limit 20) now RELAY_STALE_SECONDS jobs in
      (map bankJobKey claimed, jobs'))"

subsection \<open>What an export holds\<close>

text \<open>The versions of a question as they cross, and the whole export without pages.\<close>

definition versionsOf :: "bank \<Rightarrow> nat \<Rightarrow> bankVersion list" where
  "versionsOf b i = map (toBankVersion \<circ> toVersionRecord b) (filter (\<lambda>r. w_questionId r = i) (b_versions b))"

definition exported :: "pageCodec \<Rightarrow> exportFilter \<Rightarrow> bank \<Rightarrow> questionRow list" where
  "exported pc ef b = sort_key (questionKey pc) (filter (listed (exportQuery ef) b) (b_questions b))"

definition wholeExport ::
  "pageCodec \<Rightarrow> (string \<Rightarrow> nat) \<Rightarrow> skillRow list \<Rightarrow> exportFilter \<Rightarrow> bank \<Rightarrow> bankItem list" where
  "wholeExport pc collate skills ef b =
     concat (map (\<lambda>(index, q). if versionsOf b (u_id q) = [] then []
         else [itemOf collate skills index (toQuestionRecord b q) (versionsOf b (u_id q))])
       (enumerate 0 (exported pc ef b)))"

lemma toBankVersion_no: "bv_version_no (toBankVersion (toVersionRecord b r)) = w_versionNo r"
  by (simp add: toBankVersion_def toVersionRecord_def Let_def)

lemma toBankVersion_published: "bv_published (toBankVersion (toVersionRecord b r)) \<longleftrightarrow> w_publishedAt r \<noteq> None"
  by (simp add: toBankVersion_def toVersionRecord_def Let_def)

lemma versionsOf_numbers:
  assumes "bank_wf b"
  shows "map bv_version_no (versionsOf b i) = map int [1..<Suc (length (versionsOf b i))]"
  using assms unfolding bank_wf_def numbered_def versionsOf_def
  by (simp add: comp_def toBankVersion_no del: upt_Suc)

text \<open>Two descending readings of the same rows are the same reading.\<close>

lemma descending_unique:
  assumes "sorted_wrt (\<lambda>x y. key y < (key x :: 'k :: linorder)) xs" "sorted_wrt (\<lambda>x y. key y < key x) ys"
    "set xs = set ys"
  shows "xs = ys"
proof -
  have k: "sorted (map key (rev zs)) \<and> distinct (map key (rev zs))"
    if "sorted_wrt (\<lambda>x y. key y < key x) zs" for zs
  proof -
    have "sorted_wrt (<) (map key (rev zs))" using that by (simp add: sorted_wrt_map sorted_wrt_rev)
    then show ?thesis by (simp add: strict_sorted_iff)
  qed
  have "map key (rev xs) = map key (rev ys)"
    by (rule sorted_distinct_set_unique) (use k [OF assms(1)] k [OF assms(2)] assms(3) in simp_all)
  moreover have "inj_on key (set (rev xs) \<union> set (rev ys))"
    using k [OF assms(1)] assms(3) by (simp add: distinct_map)
  ultimately have "rev xs = rev ys" by (rule map_inj_on)
  then show ?thesis by simp
qed

lemma static_pages:
  fixes key :: "'a \<Rightarrow> 'k :: linorder"
  assumes d: "distinct (map key table)" and l: "1 \<le> limit" and f: "length table < fuel"
  shows "\<exists>tagged. allPages fuel (tagged_page key limit (\<lambda>_. table)) 0 None = Some tagged \<and>
    map snd tagged = newest_first key table"
proof -
  have "card (key ` set table) \<le> length table"
    by (metis card_length length_map list.set_map)
  then have c: "card {u \<in> key ` set table. below None u} < fuel" using f by (simp add: below_def)
  obtain tagged where t: "allPages fuel (tagged_page key limit (\<lambda>_. table)) 0 None = Some tagged"
      "descending key tagged" "\<forall>(m, r) \<in> set tagged. r \<in> set table"
      "\<forall>u \<in> key ` set table. u \<in> (key \<circ> snd) ` set tagged"
    using allPages_covers [of "key ` set table" key "\<lambda>_. table" limit None fuel 0, OF _ _ d l c]
    by (auto simp: below_def)
  have sorted: "sorted_wrt (\<lambda>x y. key y < key x) (map snd tagged)"
    using t(2) by (simp add: descending_def sorted_wrt_map)
  have inj: "inj_on key (set table)" using d by (simp add: distinct_map)
  have "set (map snd tagged) = set table"
  proof
    show sub: "set (map snd tagged) \<subseteq> set table" using t(3) by auto
    show "set table \<subseteq> set (map snd tagged)"
    proof
      fix r assume r: "r \<in> set table"
      then obtain x where x: "x \<in> set tagged" "key r = key (snd x)" using t(4) by force
      then have "r = snd x" using inj_onD [OF inj] r sub by auto
      then show "r \<in> set (map snd tagged)" using x(1) by simp
    qed
  qed
  then have "map snd tagged = newest_first key table"
    by (intro descending_unique [OF sorted newest_first_sorted [OF d]]) simp
  then show ?thesis using t(1) by blast
qed

lemma allVersions_whole:
  assumes pc: "lossless pc K" and K: "\<And>r. r \<in> set (b_versions b) \<Longrightarrow> (w_createdAt r, w_id r) \<in> K"
    and wf: "bank_wf b" and f: "length (b_versions b) < fuel"
  shows "allVersions pc fuel b i = Some (versionsOf b i)"
proof -
  define table where "table = filter (\<lambda>r. w_questionId r = i) (b_versions b)"
  have ids: "distinct (map w_id table)" using wf by (simp add: bank_wf_def table_def distinct_map_filter)
  have "inj (pc_rank pc)" using pc by (simp add: lossless_def)
  then have d: "distinct (map (versionKey pc) table)"
    using ids unfolding distinct_map inj_on_def by (auto simp: versionKey_def inj_eq)
  have "length table < fuel" unfolding table_def by (rule le_less_trans [OF length_filter_le f])
  then obtain tagged where t: "allPages fuel (tagged_page (versionKey pc) PAGE (\<lambda>_. table)) 0 None = Some tagged"
      "map snd tagged = newest_first (versionKey pc) table"
    using static_pages [OF d, of PAGE fuel] by (auto simp: PAGE_def)
  have "map (\<lambda>(n, r). toVersionRecord b r) tagged = map (toVersionRecord b) (map snd tagged)" by auto
  then have "allVersions pc fuel b i = Some (sort_key bv_version_no
      (map (toBankVersion \<circ> toVersionRecord b) (newest_first (versionKey pc) table)))"
    using t by (simp add: allVersions_def listVersions_pages [OF pc K] table_def)
  moreover have "sort_key bv_version_no (map (toBankVersion \<circ> toVersionRecord b) (newest_first (versionKey pc) table)) =
      versionsOf b i"
  proof (rule sort_key_inj_key_eq)
    show "mset (map (toBankVersion \<circ> toVersionRecord b) (newest_first (versionKey pc) table)) = mset (versionsOf b i)"
      by (simp add: newest_first_def versionsOf_def table_def)
    have n: "map bv_version_no (versionsOf b i) = map int [1..<Suc (length (versionsOf b i))]"
      by (rule versionsOf_numbers [OF wf])
    show "sorted (map bv_version_no (versionsOf b i))"
      unfolding n by (simp add: sorted_iff_nth_mono del: upt_Suc)
    have "distinct (map bv_version_no (versionsOf b i))" unfolding n by (simp add: distinct_map inj_on_def del: upt_Suc)
    then have "inj_on bv_version_no (set (versionsOf b i))" by (simp add: distinct_map)
    moreover have "set (map (toBankVersion \<circ> toVersionRecord b) (newest_first (versionKey pc) table)) = set (versionsOf b i)"
      by (simp add: versionsOf_def table_def)
    ultimately show "inj_on bv_version_no
        (set (map (toBankVersion \<circ> toVersionRecord b) (newest_first (versionKey pc) table)))" by simp
  qed
  ultimately show ?thesis by simp
qed

lemma those_map: "(\<And>x. x \<in> set xs \<Longrightarrow> f x = Some (g x)) \<Longrightarrow> those (map f xs) = Some (map g xs)"
  by (induction xs) simp_all

text \<open>An export is complete: page by page it holds every question the filter admits that has content,
  oldest first, with every version of it and no archived one.\<close>

definition pageKeys :: "bank \<Rightarrow> (int \<times> nat) set" where
  "pageKeys b = (\<lambda>q. (u_createdAt q, u_id q)) ` set (b_questions b) \<union>
     (\<lambda>r. (w_createdAt r, w_id r)) ` set (b_versions b)"

lemma exportBank_whole:
  assumes pc: "lossless pc (pageKeys b)"
    and wf: "bank_wf b" and f: "length (b_questions b) + length (b_versions b) < fuel"
  shows "exportBank pc fuel collate skills ef b = Some (wholeExport pc collate skills ef b)"
proof -
  define table where "table = filter (listed (exportQuery ef) b) (b_questions b)"
  have ids: "distinct (map u_id table)" using wf by (simp add: bank_wf_def table_def distinct_map_filter)
  have "inj (pc_rank pc)" using pc by (simp add: lossless_def)
  then have d: "distinct (map (questionKey pc) table)"
    using ids unfolding distinct_map inj_on_def by (auto simp: questionKey_def inj_eq)
  have "length (b_questions b) < fuel" using f by simp
  then have "length table < fuel" unfolding table_def by (rule le_less_trans [OF length_filter_le])
  then obtain tagged where t: "allPages fuel (tagged_page (questionKey pc) PAGE (\<lambda>_. table)) 0 None = Some tagged"
      "map snd tagged = newest_first (questionKey pc) table"
    using static_pages [OF d, of PAGE fuel] by (auto simp: PAGE_def)
  have "map (\<lambda>(n, q). toSummary b q) tagged = map (toSummary b) (map snd tagged)" by auto
  then have pages: "allPages fuel (\<lambda>_. listQuestions pc (exportQuery ef) PAGE b) 0 None =
      Some (map (toSummary b) (newest_first (questionKey pc) table))"
    using t by (simp add: listQuestions_pages [OF pc, of "\<lambda>_. b"] table_def pageKeys_def)
  have rev: "rev (map (toSummary b) (newest_first (questionKey pc) table)) = map (toSummary b) (exported pc ef b)"
    by (simp add: newest_first_def exported_def table_def rev_map)
  have item: "exportItem pc fuel collate skills b (index, toSummary b q) =
      Some (if versionsOf b (u_id q) = [] then []
        else [itemOf collate skills index (toQuestionRecord b q) (versionsOf b (u_id q))])"
    if "q \<in> set (exported pc ef b)" for index q
  proof -
    have q: "q \<in> set (b_questions b)" "u_archivedAt q = None"
      using that by (auto simp: exported_def listed_def exportQuery_def)
    obtain q' where q': "List.find (\<lambda>u. u_id u = u_id q \<and> u_archivedAt u = None) (b_questions b) = Some q'"
      using q by (cases "List.find (\<lambda>u. u_id u = u_id q \<and> u_archivedAt u = None) (b_questions b)")
        (auto simp: find_None_iff)
    then have "q' = q" using question_unique [OF wf _ q(1)] by (auto dest!: find_draft)
    then have "getQuestionWithCurrentVersion b (qs_id (toSummary b q)) False = Some (toQuestionRecord b q)"
      using q' by (simp add: getQuestionWithCurrentVersion_def toSummary_def Let_def)
    moreover have "allVersions pc fuel b (u_id q) = Some (versionsOf b (u_id q))"
      by (rule allVersions_whole [OF pc _ wf]) (use f in \<open>auto simp: pageKeys_def\<close>)
    ultimately show ?thesis by (simp add: exportItem_def toQuestionRecord_def)
  qed
  have "those (map (exportItem pc fuel collate skills b) (enumerate 0 (map (toSummary b) (exported pc ef b)))) =
      Some (map (\<lambda>(index, q). if versionsOf b (u_id q) = [] then []
         else [itemOf collate skills index (toQuestionRecord b q) (versionsOf b (u_id q))])
       (enumerate 0 (exported pc ef b)))"
  proof -
    have "enumerate 0 (map (toSummary b) (exported pc ef b)) =
        map (\<lambda>(index, q). (index, toSummary b q)) (enumerate 0 (exported pc ef b))"
      by (simp add: enumerate_eq_zip zip_map2)
    moreover have "exportItem pc fuel collate skills b (case x of (index, q) \<Rightarrow> (index, toSummary b q)) =
        Some (case x of (index, q) \<Rightarrow> if versionsOf b (u_id q) = [] then []
          else [itemOf collate skills index (toQuestionRecord b q) (versionsOf b (u_id q))])"
      if x: "x \<in> set (enumerate 0 (exported pc ef b))" for x
    proof -
      have "exported pc ef b ! fst x = snd x" "fst x < length (exported pc ef b)"
        using x by (simp_all add: in_set_enumerate_eq)
      then have "snd x \<in> set (exported pc ef b)" by (metis nth_mem)
      then show ?thesis by (simp add: item split_beta)
    qed
    ultimately show ?thesis by (simp only: map_map comp_def) (rule those_map)
  qed
  moreover have "exportBank pc fuel collate skills ef b = map_option concat (those (map
      (exportItem pc fuel collate skills b) (enumerate 0 (map (toSummary b) (exported pc ef b)))))"
    by (simp add: exportBank_def pages flip: rev)
  ultimately show ?thesis by (simp add: wholeExport_def)
qed

end
