(* ===== verification/Bank_Exact.thy ===== *)
theory Bank_Exact
  imports Bank_Crossing
begin

text \<open>
  What an import leaves in the bank, exactly: the versions, skills and columns of the question it
  creates, and of every question that was there before. From it follow what crosses between two
  organisations and what two deliveries of one job do to each other
  (\<open>apps/worker/src/jobs/bank-transfer.ts\<close>, \<open>bank-job.ts\<close>).
\<close>

subsection \<open>Versions written\<close>

lemma toVersionRecord_same: "same_children b b' (w_id r) \<Longrightarrow> toVersionRecord b' r = toVersionRecord b r"
  by (simp add: toVersionRecord_def loadVersionChildren_same)

lemma versionsOf_cong:
  assumes "b_versions b' = b_versions b" "\<And>v. same_children b b' v"
  shows "versionsOf b' = versionsOf b"
proof -
  have "toVersionRecord b' = toVersionRecord b" by (intro ext toVersionRecord_same assms(2))
  then show ?thesis using assms(1) by (intro ext) (simp add: versionsOf_def)
qed

lemma createVersion_versionsOf:
  assumes c: "createVersion q content by_user t b = Inr (written, b')" and wf: "bank_wf b"
  shows "versionsOf b' u = versionsOf b u @ (if u = q then [toBankVersion written] else [])"
proof -
  obtain row b1 where b1: "b1 = b\<lparr> b_versions := b_versions b @ [row], b_next := b_next b + 1 \<rparr>"
    and wr: "writeVersionChildren (w_id row) content b1 = Inr b'" and rec: "written = toVersionRecord b' row"
    and row: "w_id row = b_next b" "w_questionId row = q"
    by (rule createVersion_Inr [OF c])
  note e = writeVersionChildren_effect [OF wr]
  have "toVersionRecord b' r = toVersionRecord b r" if "r \<in> set (b_versions b)" for r
  proof (rule toVersionRecord_same)
    have "w_id r \<noteq> w_id row" using wf that row(1) by (auto simp: bank_wf_def)
    then have "same_children b1 b' (w_id r)" by (rule e(5))
    then show "same_children b b' (w_id r)" by (simp add: same_children_def b1)
  qed
  then show ?thesis using row(2) rec by (simp add: versionsOf_def e(2) b1)
qed

definition published_as :: "int \<Rightarrow> bankVersion \<Rightarrow> bankVersion" where
  "published_as no v = (if bv_version_no v = no then v\<lparr> bv_published := True \<rparr> else v)"

lemma publishVersion_versionsOf:
  assumes "publishVersion q no t b = Inr (record, b')" "record \<noteq> None"
  shows "versionsOf b' u = (if u = q then map (published_as no) (versionsOf b q) else versionsOf b u)"
  using assms(1)
proof (cases rule: publishVersion_Inr)
  case absent
  then show ?thesis using assms(2) by simp
next
  case (changed found)
  have same: "same_children b b' v" for v by (simp add: changed(2) same_children_def)
  have k: "w_questionId (stamped q no t r) = w_questionId r" for r by (simp add: stamped_def)
  have "toBankVersion (toVersionRecord b' (stamped q no t r)) =
      (if w_questionId r = q then published_as no (toBankVersion (toVersionRecord b r))
       else toBankVersion (toVersionRecord b r))" for r
    using loadVersionChildren_same [OF same, of "w_id r"]
    by (simp add: stamped_def draftRow_def published_as_def toBankVersion_def toVersionRecord_def Let_def)
  then show ?thesis
    by (simp add: versionsOf_def changed(2) filter_map comp_def k cong: map_cong)
qed

text \<open>A version as it is read back: the members of its code maps in the order of \<open>jsonb\<close>.\<close>

definition storedVersion :: "bankVersion \<Rightarrow> bankVersion" where
  "storedVersion v = v\<lparr> bv_coding_spec := map_option (\<lambda>s. s\<lparr> bc_starter_code := jsonbMap (bc_starter_code s),
     bc_solution_code := jsonbMap (bc_solution_code s) \<rparr>) (bv_coding_spec v) \<rparr>"

lemma storedVersion_content:
  "toVersionContent (storedVersion v) = asStored (toVersionContent v)"
  "bv_version_no (storedVersion v) = bv_version_no v" "bv_published (storedVersion v) = bv_published v"
  by (cases "bv_coding_spec v";
      simp add: storedVersion_def toVersionContent_def asStored_def storedSpec_def ofBankSpec_def)+

lemma storedVersion_read: "storedVersion (toBankVersion (toVersionRecord b r)) = toBankVersion (toVersionRecord b r)"
  by (rule bankVersion_determined [THEN iffD2, symmetric])
    (simp add: storedVersion_content content_of_exported, simp add: toBankVersion_def)

lemma importVersions_exact:
  assumes "core_ok b" "q \<in> u_id ` set (b_questions b)"
    "\<And>v. v \<in> set vs \<Longrightarrow> storable (toVersionContent v)"
    "map bv_version_no vs = map int [Suc (length (versionsOf b q)) ..< Suc (length (versionsOf b q) + length vs)]"
  shows "\<exists>b'. importVersions by_user t q vs b = Inr b' \<and> b_skills b' = b_skills b \<and> evolves b b' \<and>
    (\<forall>u. versionsOf b' u = versionsOf b u @ (if u = q then map storedVersion vs else []))"
  using assms
proof (induction vs arbitrary: t b)
  case (Cons v vs)
  define n where "n = length (versionsOf b q)"
  have wf: "bank_wf b" using Cons.prems(1) by (simp add: core_ok_def)
  have nos: "bv_version_no v = int (Suc n)" "map bv_version_no vs = map int [Suc (Suc n) ..< Suc (Suc n + length vs)]"
    using Cons.prems(4) by (simp_all add: n_def upt_rec [of "Suc _"] del: upt_Suc)
  have st: "storable (toVersionContent v)" by (rule Cons.prems(3)) simp
  obtain written b1 where c: "createVersion q (toVersionContent v) (Some by_user) t b = Inr (written, b1)"
      "baseline written = asStored (toVersionContent v)"
    by (rule createVersion_reads [OF wf st Cons.prems(2)])
  note e = createVersion_effect [OF c(1) wf] and core1 = createVersion_core [OF Cons.prems(1) c(1)]
  have w: "vr_version_no written = int (Suc n)" "vr_published_at written = None"
    using e(5) by (auto simp: toVersionRecord_def Let_def n_def versionsOf_def)
  note of1 = createVersion_versionsOf [OF c(1) wf]
  obtain b2 where b2: "(if bv_published v then mapResult (publishVersion q (vr_version_no written) t b1) snd
       else Inr b1) = Inr b2" and core2: "core_ok b2" "map u_id (b_questions b2) = map u_id (b_questions b)"
      "b_skills b2 = b_skills b" "evolves b b2"
    and of2: "versionsOf b2 u = versionsOf b u @ (if u = q then [storedVersion v] else [])" for u
  proof (cases "bv_published v")
    case False
    then have "toBankVersion written = storedVersion v"
      by (simp add: bankVersion_determined storedVersion_content c(2) w nos)
    then show ?thesis using that [of b1] False core1 e(3,4) of1 by simp
  next
    case True
    have "\<exists>rec b2. publishVersion q (vr_version_no written) t b1 = Inr (rec, b2)"
      by (auto simp: publishVersion_def updateVersionRows_draft bindResult_def Let_def split: option.split)
    then obtain rec b2 where pub: "publishVersion q (vr_version_no written) t b1 = Inr (rec, b2)" by blast
    have "core_ok b1" using core1 by simp
    note f = publishVersion_core [OF this pub]
    have rec: "rec \<noteq> None" by (rule new_version_published [OF Cons.prems(1) c(1) pub])
    have "published_as (int (Suc n)) (toBankVersion written) = toBankVersion (written\<lparr> vr_published_at := Some 0 \<rparr>)"
      by (simp add: published_as_def toBankVersion_def w)
    also have "\<dots> = storedVersion v"
      unfolding bankVersion_determined storedVersion_content using c(2) w nos True by (simp add: baseline_def)
    finally have new: "published_as (int (Suc n)) (toBankVersion written) = storedVersion v" .
    have "bv_version_no x \<noteq> int (Suc n)" if "x \<in> set (versionsOf b q)" for x
    proof -
      have "bv_version_no x \<in> set (map bv_version_no (versionsOf b q))" using that by simp
      then show ?thesis unfolding versionsOf_numbers [OF wf] n_def by auto
    qed
    then have "map (published_as (int (Suc n))) (versionsOf b q) = versionsOf b q"
      by (intro map_idI) (simp add: published_as_def)
    then have "versionsOf b2 u = versionsOf b u @ (if u = q then [storedVersion v] else [])" for u
      using publishVersion_versionsOf [OF pub rec] of1 new by (simp add: w(1))
    moreover have "map u_id (b_questions b2) = map u_id (b_questions b)"
      using f rec e(3) by (auto simp: comp_def)
    moreover have "b_skills b2 = b_skills b"
      using pub rec e(4) by (cases rule: publishVersion_Inr) auto
    moreover have "evolves b b2" using core1 f evolves_trans by blast
    ultimately show ?thesis using that [of b2] True pub f by (simp add: mapResult_def)
  qed
  have "q \<in> u_id ` set (b_questions b2)"
    using Cons.prems(2) arg_cong [OF core2(2), of set] by simp
  then obtain b' where b': "importVersions by_user (t + 1) q vs b2 = Inr b'" "b_skills b' = b_skills b2" "evolves b2 b'"
      "\<forall>u. versionsOf b' u = versionsOf b2 u @ (if u = q then map storedVersion vs else [])"
    using Cons.IH [OF core2(1), of "t + 1"] Cons.prems(3) nos(2) of2 by (auto simp: n_def simp del: upt_Suc)
  moreover have "evolves b b'" by (rule evolves_trans [OF core2(4) b'(3)])
  ultimately show ?case using c(1) b2 core2(3) of2 by (simp add: bindResult_def)
qed simp

subsection \<open>Skills written\<close>

lemma map_set_new: "map_get m k = None \<Longrightarrow> map_set m k v = m @ [(k, v)]"
  unfolding map_get_None_iff by (induction m k v rule: map_set.induct) auto

lemma fold_map_set_other:
  "x \<notin> f ` set xs \<Longrightarrow> map_get (fold (\<lambda>s m. map_set m (f s) (g s)) xs m) x = map_get m x"
  by (induction xs arbitrary: m) auto

lemma fold_map_set_distinct:
  "distinct (map f xs) \<Longrightarrow> s \<in> set xs \<Longrightarrow>
    map_get (fold (\<lambda>s m. map_set m (f s) (g s)) xs m) (f s) = Some (g s)"
proof (induction xs arbitrary: m)
  case (Cons x xs)
  show ?case
  proof (cases "s \<in> set xs")
    case True
    then show ?thesis using Cons by simp
  next
    case False
    then have "s = x" using Cons.prems(2) by simp
    then show ?thesis using Cons.prems(1) fold_map_set_other [of "f x" f xs g] by simp
  qed
qed simp

lemma fold_map_set_Some:
  "map_get (fold (\<lambda>s m. map_set m (f s) (g s)) xs m) x = Some y \<Longrightarrow>
    (\<exists>s \<in> set xs. f s = x \<and> g s = y) \<or> map_get m x = Some y"
  by (induction xs arbitrary: m) (fastforce split: if_split_asm)+

text \<open>A key names one skill, and that skill names the key.\<close>

lemma skillIdsByKey_Some:
  assumes "map_get (skillIdsByKey skills) k = Some i"
  shows "\<exists>s \<in> set skills. sk_key s = k \<and> sk_id s = i"
  using fold_map_set_Some [OF assms [unfolded skillIdsByKey_def]] by auto

definition skillKeys :: "skillRow list \<Rightarrow> (string, string) jsmap" where
  "skillKeys skills = fold (\<lambda>s m. map_set m (sk_id s) (sk_key s)) skills []"

lemma skillKeys_inverse:
  assumes "distinct (map sk_id skills)" "map_get (skillIdsByKey skills) k = Some i"
  shows "map_get (skillKeys skills) i = Some k"
proof -
  obtain s where "s \<in> set skills" "sk_key s = k" "sk_id s = i" using skillIdsByKey_Some [OF assms(2)] by blast
  then show ?thesis
    using fold_map_set_distinct [of sk_id skills s sk_key "[]", OF assms(1)] by (simp add: skillKeys_def)
qed

definition skillIdOf :: "skillRow list \<Rightarrow> string \<Rightarrow> string" where
  "skillIdOf skills k = the (map_get (skillIdsByKey skills) k)"

definition knows :: "skillRow list \<Rightarrow> bankItem \<Rightarrow> bool" where
  "knows skills item \<longleftrightarrow> distinct (map sk_id skills) \<and> distinct (map fst (bi_skills item)) \<and>
     unknownKeys (skillIdsByKey skills) item = []"

lemma knows_key:
  assumes "knows skills item" "(k, w) \<in> set (bi_skills item)"
  shows "map_get (skillIdsByKey skills) k = Some (skillIdOf skills k)"
    "map_get (skillKeys skills) (skillIdOf skills k) = Some k"
proof -
  have "k \<in> set (map fst (bi_skills item))" using assms(2) by force
  then show g: "map_get (skillIdsByKey skills) k = Some (skillIdOf skills k)"
    using assms(1) by (auto simp: knows_def unknownKeys_def filter_empty_conv skillIdOf_def)
  show "map_get (skillKeys skills) (skillIdOf skills k) = Some k"
    by (rule skillKeys_inverse [OF _ g]) (use assms(1) in \<open>simp add: knows_def\<close>)
qed

definition taggedWith :: "skillRow list \<Rightarrow> bankItem \<Rightarrow> (string \<times> jsnum) list" where
  "taggedWith skills item = map (\<lambda>(k, w). (skillIdOf skills k, w)) (bi_skills item)"

lemma taggedWith_distinct:
  assumes "knows skills item"
  shows "distinct (map fst (taggedWith skills item))"
proof -
  have "inj_on (skillIdOf skills) (fst ` set (bi_skills item))"
    by (rule inj_on_inverseI [where g = "\<lambda>i. the (map_get (skillKeys skills) i)"])
      (use knows_key(2) [OF assms] in auto)
  moreover have "map fst (taggedWith skills item) = map (skillIdOf skills) (map fst (bi_skills item))"
    by (auto simp: taggedWith_def)
  moreover have "distinct (map fst (bi_skills item))" using assms by (simp add: knows_def)
  ultimately show ?thesis by (simp only: distinct_map [of _ "map fst (bi_skills item)"]) simp
qed

lemma itemSkills_exact:
  assumes k: "knows skills item" and d: "rq_defaultSkillIds request = []"
  shows "itemSkills request (skillIdsByKey skills) item = taggedWith skills item"
proof -
  have "fold (\<lambda>(key, weight) m. case map_get (skillIdsByKey skills) key of Some i \<Rightarrow> map_set m i weight | None \<Rightarrow> m)
      xs m = m @ map (\<lambda>(k, w). (skillIdOf skills k, w)) xs"
    if "set xs \<subseteq> set (bi_skills item)" "distinct (map fst m @ map (\<lambda>(k, w). skillIdOf skills k) xs)" for xs m
    using that
  proof (induction xs arbitrary: m)
    case (Cons x xs)
    obtain key w where x: "x = (key, w)" by (cases x)
    have g: "map_get (skillIdsByKey skills) key = Some (skillIdOf skills key)"
      using knows_key(1) [OF k] Cons.prems(1) x by auto
    have "map_get m (skillIdOf skills key) = None"
      using Cons.prems(2) by (auto simp: map_get_None_iff x)
    then have "map_set m (skillIdOf skills key) w = m @ [(skillIdOf skills key, w)]" by (rule map_set_new)
    then show ?case using Cons.IH [of "m @ [(skillIdOf skills key, w)]"] Cons.prems by (simp add: x g)
  qed simp
  moreover have "distinct (map (\<lambda>(k, w). skillIdOf skills k) (bi_skills item))"
    using taggedWith_distinct [OF k] by (simp add: taggedWith_def comp_def case_prod_unfold)
  ultimately show ?thesis
    using d by (simp add: itemSkills_def taggedWith_def)
qed

lemma sort_key_map: "sort_key g (map f xs) = map f (sort_key (g \<circ> f) xs)"
proof (induction xs)
  case (Cons x xs)
  have "insort_key g (f x) (map f ys) = map f (insort_key (g \<circ> f) x ys)" for ys by (induction ys) simp_all
  then show ?case using Cons by (simp add: comp_def)
qed simp

lemma setQuestionSkills_exact:
  assumes d: "distinct (map fst tagged)" and w: "\<And>s x. (s, x) \<in> set tagged \<Longrightarrow> hundredth 2 x"
    and known: "set (map fst tagged) \<subseteq> set (b_skillIds b)"
  obtains b' where "setQuestionSkills q tagged b = Inr b'"
    "loadSkills b' = (loadSkills b)(q := sort_key fst tagged)" "versionsOf b' = versionsOf b"
proof -
  define cell where "cell x = the (numericColumn 2 x)" for x
  have c: "numericColumn 2 x = Some (cell x) \<and> num (cell x) (Fin 1) = x" if "(s, x) \<in> set tagged" for s x
    by (rule hundredth_column_le [OF w [OF that]]) (simp_all add: cell_def)
  define kept where "kept = filter (\<lambda>row. fst row \<noteq> q) (b_skills b)"
  define b' where "b' = b\<lparr> b_skills := kept @ map (\<lambda>(s, x). (q, s, cell x)) tagged \<rparr>"
  have "those (map (\<lambda>(s, x). map_option (\<lambda>y. (q, s, y)) (numericColumn 2 x)) tagged) =
      Some (map (\<lambda>(s, x). (q, s, cell x)) tagged)"
    by (rule those_map) (use c in auto)
  then have "setQuestionSkills q tagged b = Inr b'"
    using d known by (simp add: setQuestionSkills_def Let_def b'_def kept_def)
  moreover have "loadSkills b' u = ((loadSkills b)(q := sort_key fst tagged)) u" for u
  proof (cases "u = q")
    case True
    have "rows_of q (b_skills b') = map (\<lambda>(s, x). (s, cell x)) tagged"
      by (simp add: b'_def kept_def rows_of_def filter_empty_conv comp_def split_beta)
    then have "loadSkills b' q = map (\<lambda>(s, x). (s, num (cell x) (Fin 1))) (sort_key fst tagged)"
      by (simp add: loadSkills_def sort_key_map comp_def split_beta)
    also have "\<dots> = sort_key fst tagged" by (rule map_idI) (use c in auto)
    finally show ?thesis using True by simp
  next
    case False
    then have "rows_of u (b_skills b') = rows_of u (b_skills b)"
      by (auto simp: b'_def kept_def rows_of_Nil_iff)
    then show ?thesis using False by (simp add: loadSkills_def)
  qed
  moreover have "versionsOf b' = versionsOf b" by (rule versionsOf_cong) (simp_all add: b'_def same_children_def)
  ultimately show ?thesis using that [of b'] by blast
qed

text \<open>The skills the worker lists are those of the table.\<close>

definition skills_known :: "importEnv \<Rightarrow> bank \<Rightarrow> bool" where
  "skills_known env b \<longleftrightarrow> sk_id ` set (ie_skills env) \<subseteq> set (b_skillIds b)"

lemma skills_known_evolves: "evolves b b' \<Longrightarrow> skills_known env b' = skills_known env b"
  by (simp add: skills_known_def evolves_def)

lemma taggedWith_known:
  assumes "knows (ie_skills env) item" "skills_known env b"
  shows "set (map fst (taggedWith (ie_skills env) item)) \<subseteq> set (b_skillIds b)"
proof -
  have "skillIdOf (ie_skills env) k \<in> sk_id ` set (ie_skills env)" if "(k, w) \<in> set (bi_skills item)" for k w
    using skillIdsByKey_Some [OF knows_key(1) [OF assms(1) that]] by force
  then show ?thesis using assms(2) by (auto simp: taggedWith_def skills_known_def)
qed

text \<open>The skills of an imported item are exported as they came in.\<close>

lemma exportedSkills_of_import:
  assumes k: "knows skills item"
    and sorted: "sorted_wrt (<) (map (\<lambda>s. collate (fst s)) (bi_skills item))"
  shows "exportedSkills collate skills (sort_key fst (taggedWith skills item)) = bi_skills item"
proof -
  have g: "map_get (skillKeys skills) (skillIdOf skills key) = Some key" if "(key, w) \<in> set (bi_skills item)" for key w
    using knows_key(2) [OF k that] .
  define unkey where "unkey = (\<lambda>(i, w :: jsnum). (the (map_get (skillKeys skills) i), w))"
  have "concat (map (\<lambda>(i, weight). case map_get (skillKeys skills) i of None \<Rightarrow> [] | Some k \<Rightarrow> [(k, weight)]) xs) =
      map unkey xs" if "set xs \<subseteq> set (taggedWith skills item)" for xs
    using that by (induction xs) (auto simp: unkey_def taggedWith_def g)
  from this [of "sort_key fst (taggedWith skills item)"]
  have e: "exportedSkills collate skills (sort_key fst (taggedWith skills item)) =
      sort_key (\<lambda>s. collate (fst s)) (map unkey (sort_key fst (taggedWith skills item)))"
    by (simp add: exportedSkills_def Let_def skillKeys_def [symmetric])
  have "map unkey (taggedWith skills item) = bi_skills item"
    unfolding taggedWith_def map_map by (rule map_idI) (use g in \<open>auto simp: unkey_def\<close>)
  from arg_cong [OF this, of mset]
  have m: "mset (map unkey (sort_key fst (taggedWith skills item))) = mset (bi_skills item)"
    by (simp only: mset_map mset_sort)
  then have s: "set (map unkey (sort_key fst (taggedWith skills item))) = set (bi_skills item)"
    by (metis set_mset_mset)
  have "inj_on (\<lambda>s. collate (fst s)) (set (bi_skills item))" "sorted (map (\<lambda>s. collate (fst s)) (bi_skills item))"
    using sorted by (simp_all add: strict_sorted_iff distinct_map)
  then show ?thesis unfolding e using m s by (intro sort_key_inj_key_eq) simp_all
qed

subsection \<open>One item, exactly\<close>

text \<open>An item the importing side can take as it is: it knows the skills, adds none, the numbers are what
  the columns hold, and the audit log accepts the entry.\<close>

definition crossable :: "importEnv \<Rightarrow> bankItem \<Rightarrow> bool" where
  "crossable env item \<longleftrightarrow>
     knows (ie_skills env) item \<and> rq_defaultSkillIds (ie_request env) = [] \<and>
     (\<forall>(k, w) \<in> set (bi_skills item). hundredth 2 w) \<and>
     (\<forall>v \<in> set (bi_versions item). storable (toVersionContent v)) \<and>
     map bv_version_no (bi_versions item) = map int [1..<Suc (length (bi_versions item))] \<and>
     (\<forall>q t. \<exists>row. writeAudit (ie_platform env) (importEntry (ie_request env) item q t) = Some row)"

text \<open>What stands in the bank for the item.\<close>

definition stored_as :: "importEnv \<Rightarrow> bank \<Rightarrow> bankItem \<Rightarrow> questionRow \<Rightarrow> bool" where
  "stored_as env b item u \<longleftrightarrow> question_of (ie_request env) item u \<and> versionsOf b (u_id u) = map storedVersion (bi_versions item) \<and>
     loadSkills b (u_id u) = sort_key fst (taggedWith (ie_skills env) item)"

lemma crossable_texts:
  assumes "crossable env item"
  shows "list_all storable_text (optionTexts (Some (itemLicense (ie_request env) item)) @ optionTexts (bi_external_ref item))"
proof -
  let ?e = "importEntry (ie_request env) item 0 0"
  obtain row where "writeAudit (ie_platform env) ?e = Some row"
    using assms unfolding crossable_def by blast
  then have p: "prepareAuditEntry (ie_platform env) ?e = Inr row" and s: "storable_payload (pa_after row)"
    by (auto simp: writeAudit_def split: sum.split_asm if_split_asm)
  obtain userId where "finishEntry (ie_platform env) ?e (trim (ae_action ?e)) (trim (ae_entityType ?e))
      (map_option trim (ae_reason ?e)) userId = Inr row"
    using prepared_Inr(1) [OF p] by blast
  then have "pa_after row = ae_after ?e"
    using finishEntry_Inr(4) by (fastforce simp: importEntry_def serialise_def ownedAfter_def)
  then show ?thesis
    using s by (cases "bi_external_ref item")
      (simp_all add: storable_payload_def importEntry_def optionTexts_def storable_text_def null_in_string)
qed

lemma writeItem_exact:
  assumes core: "core_ok b" and x: "crossable env item" and known: "skills_known env b"
  obtains b' u where
    "writeItem (ie_request env) (skillIdsByKey (ie_skills env)) item t b = Inr (b_next b, b')"
    "b_questions b' = b_questions b @ [u]" "u_id u = b_next b" "u_createdAt u = t" "stored_as env b' item u"
    "core_ok b'" "evolves b b'"
    "\<And>i. i \<noteq> b_next b \<Longrightarrow> versionsOf b' i = versionsOf b i \<and> loadSkills b' i = loadSkills b i"
proof -
  let ?rq = "ie_request env" and ?q = "b_next b"
  note x' = x [unfolded crossable_def]
  obtain question b1 where c: "createQuestion (bi_kind item) (Some (rq_requestedBy ?rq))
        (Some (itemLicense ?rq item)) (bi_external_ref item) t b = Inr (question, b1)"
    using crossable_texts [OF x] by (auto simp: createQuestion_def Let_def)
  note e1 = createQuestion_core [OF core c]
  have core1: "core_ok b1" and id: "qr_id question = ?q" "?q \<in> u_id ` set (b_questions b1)"
    using e1 by (auto simp: toQuestionRecord_def)
  have v1: "versionsOf b1 = versionsOf b" "loadSkills b1 = loadSkills b"
    using c by (auto simp: createQuestion_def Let_def same_children_def loadSkills_def fun_eq_iff
        intro!: versionsOf_cong [THEN fun_cong] split: if_split_asm)
  have "\<forall>r \<in> set (b_versions b). w_questionId r \<noteq> ?q"
    using core by (force simp: core_ok_def bank_wf_def)
  then have none: "versionsOf b ?q = []" by (simp add: versionsOf_def filter_empty_conv)
  obtain b2 where b2: "importVersions (rq_requestedBy ?rq) t ?q (bi_versions item) b1 = Inr b2" "b_skills b2 = b_skills b1"
      "evolves b1 b2"
      "\<forall>u. versionsOf b2 u = versionsOf b1 u @ (if u = ?q then map storedVersion (bi_versions item) else [])"
    using importVersions_exact [OF core1 id(2), of "bi_versions item" "rq_requestedBy ?rq" t] x' none v1
    by (auto simp del: upt_Suc)
  define b3 where "b3 = (if bi_status item \<noteq> Draft then snd (setQuestionStatus ?q (bi_status item) b2) else b2)"
  have k3: "b_skillIds b3 = b_skillIds b"
    using b2(3) e1 by (simp add: b3_def setQuestionStatus_def updateQuestion_def Let_def evolves_def)
  have v3: "versionsOf b3 = versionsOf b2" "b_skills b3 = b_skills b2"
    by (auto simp: b3_def setQuestionStatus_def updateQuestion_def Let_def same_children_def
        intro: versionsOf_cong)
  have k: "knows (ie_skills env) item" "rq_defaultSkillIds ?rq = []" using x' by simp_all
  have w: "hundredth 2 y" if "(s, y) \<in> set (taggedWith (ie_skills env) item)" for s y
    using that x' by (auto simp: taggedWith_def)
  have tags: "set (map fst (taggedWith (ie_skills env) item)) \<subseteq> set (b_skillIds b3)"
    unfolding k3 by (rule taggedWith_known [OF k(1) known])
  obtain b4 where b4: "setQuestionSkills ?q (taggedWith (ie_skills env) item) b3 = Inr b4"
      "loadSkills b4 = (loadSkills b3)(?q := sort_key fst (taggedWith (ie_skills env) item))"
      "versionsOf b4 = versionsOf b3"
    by (rule setQuestionSkills_exact [OF taggedWith_distinct [OF k(1)] w tags])
  have wi: "writeItem ?rq (skillIdsByKey (ie_skills env)) item t b = Inr (?q, b4)"
    using b2(1) b4(1)
    by (cases "bi_status item = Draft")
      (simp_all add: writeItem_def c id(1) bindResult_def Let_def itemSkills_exact [OF k] b3_def)
  then obtain u where u: "core_ok b4" "evolves b b4" "b_questions b4 = b_questions b @ [u]" "u_id u = ?q"
      "question_of ?rq item u" "u_createdAt u = t"
    using writeItem_effect [OF core wi] by blast
  have l: "loadSkills b3 = loadSkills b" using v3(2) b2(2) v1(2) by (simp add: loadSkills_def fun_eq_iff)
  have "versionsOf b4 i = (if i = ?q then map storedVersion (bi_versions item) else versionsOf b i)" for i
    using b2(4) none by (simp add: b4(3) v3(1) v1(1))
  then show ?thesis
    using that [OF wi u(3,4,6)] u b4(2) l by (simp add: stored_as_def)
qed

lemma importOne_exact:
  assumes core: "core_ok (is_bank st)" and x: "crossable env (snd entry)" and known: "skills_known env (is_bank st)"
    and taken: "\<And>st'. onCommit st' \<noteq> None"
  obtains b' u row where
    "importOne env entry t onCommit st =
       Inr (u_id u, the (onCommit (st\<lparr> is_bank := b', is_log := is_log st @ [row] \<rparr>)))"
    "b_questions b' = b_questions (is_bank st) @ [u]" "u_id u = b_next (is_bank st)" "u_createdAt u = t"
    "stored_as env b' (snd entry) u" "core_ok b'" "evolves (is_bank st) b'"
    "\<And>i. i \<noteq> b_next (is_bank st) \<Longrightarrow>
       versionsOf b' i = versionsOf (is_bank st) i \<and> loadSkills b' i = loadSkills (is_bank st) i"
proof -
  obtain b' u where w: "writeItem (ie_request env) (skillIdsByKey (ie_skills env)) (snd entry) t (is_bank st) =
        Inr (b_next (is_bank st), b')"
      "b_questions b' = b_questions (is_bank st) @ [u]" "u_id u = b_next (is_bank st)" "u_createdAt u = t"
      "stored_as env b' (snd entry) u" "core_ok b'" "evolves (is_bank st) b'"
      "\<And>i. i \<noteq> b_next (is_bank st) \<Longrightarrow>
         versionsOf b' i = versionsOf (is_bank st) i \<and> loadSkills b' i = loadSkills (is_bank st) i"
    by (rule writeItem_exact [OF core x known]) blast
  obtain row where "writeAudit (ie_platform env)
      (importEntry (ie_request env) (snd entry) (b_next (is_bank st)) t) = Some row"
    using x unfolding crossable_def by blast
  moreover obtain st' where "onCommit (st\<lparr> is_bank := b', is_log := is_log st @ [row] \<rparr>) = Some st'"
    using taken by blast
  ultimately have "importOne env entry t onCommit st =
      Inr (u_id u, the (onCommit (st\<lparr> is_bank := b', is_log := is_log st @ [row] \<rparr>)))"
    using w(1,3) x by (simp add: importOne_def Let_def crossable_def knows_def)
  then show ?thesis using that w by blast
qed

subsection \<open>A whole file, exactly\<close>

lemma importFrom_exact:
  assumes "core_ok (is_bank st)" "\<And>entry. entry \<in> set items \<Longrightarrow> crossable env (snd entry)" "\<And>p. wt p = Calm"
    "skills_known env (is_bank st)"
  shows "\<exists>outcome st' us. importFrom env (jobCheckpoint i) wt now position items st = ((Ran, outcome), st') \<and>
    io_problems outcome = [] \<and> core_ok (is_bank st') \<and> evolves (is_bank st) (is_bank st') \<and>
    b_questions (is_bank st') = b_questions (is_bank st) @ us \<and>
    map u_createdAt us = map now [position ..< position + length items] \<and>
    list_all2 (stored_as env (is_bank st')) (map snd items) us \<and>
    (\<forall>q < b_next (is_bank st). versionsOf (is_bank st') q = versionsOf (is_bank st) q \<and>
       loadSkills (is_bank st') q = loadSkills (is_bank st) q)"
  using assms
proof (induction items arbitrary: position st)
  case (Cons entry rest)
  have x: "crossable env (snd entry)" by (rule Cons.prems(2)) simp
  obtain b1 :: bank and u :: questionRow and row where one:
      "importOne env entry (now position) (jobCheckpoint i position True None) st =
        Inr (u_id u, the (jobCheckpoint i position True None (st\<lparr> is_bank := b1, is_log := is_log st @ [row] \<rparr>)))"
      "b_questions b1 = b_questions (is_bank st) @ [u]" "u_id u = b_next (is_bank st)" "u_createdAt u = now position"
      "stored_as env b1 (snd entry) u" "core_ok b1" "evolves (is_bank st) b1"
      "\<And>q. q \<noteq> b_next (is_bank st) \<Longrightarrow>
         versionsOf b1 q = versionsOf (is_bank st) q \<and> loadSkills b1 q = loadSkills (is_bank st) q"
    by (rule importOne_exact [OF Cons.prems(1) x Cons.prems(4), where t = "now position"
          and onCommit = "jobCheckpoint i position True None"])
      (simp add: jobCheckpoint_def tryJobs_def advanceImport_def, rule that, assumption+)
  obtain st1 where cp: "jobCheckpoint i position True None (st\<lparr> is_bank := b1, is_log := is_log st @ [row] \<rparr>) = Some st1"
    using checkpoint_exists [of None i position True "st\<lparr> is_bank := b1, is_log := is_log st @ [row] \<rparr>"] by auto
  have st1: "is_bank st1 = b1" by (simp add: checkpoint_Some(3) [OF cp])
  have known1: "skills_known env (is_bank st1)" using Cons.prems(4) one(7) st1 by (simp add: skills_known_evolves)
  have next1: "b_next (is_bank st) \<le> b_next b1" using one(7) by (simp add: evolves_def)
  have core1: "core_ok (is_bank st1)" using one(6) st1 by simp
  have rest: "crossable env (snd e)" if "e \<in> set rest" for e by (rule Cons.prems(2)) (use that in simp)
  obtain outcome st' us where r: "importFrom env (jobCheckpoint i) wt now (position + 1) rest st1 = ((Ran, outcome), st')"
      "io_problems outcome = []" "core_ok (is_bank st')" "evolves b1 (is_bank st')"
      "b_questions (is_bank st') = b_questions b1 @ us"
      "map u_createdAt us = map now [position + 1 ..< position + 1 + length rest]"
      "list_all2 (stored_as env (is_bank st')) (map snd rest) us"
      "\<forall>q < b_next b1. versionsOf (is_bank st') q = versionsOf b1 q \<and> loadSkills (is_bank st') q = loadSkills b1 q"
    using Cons.IH [OF core1 rest Cons.prems(3) known1, of "position + 1"] unfolding st1 by blast
  have new: "u_id u < b_next b1" using one(2,6) by (simp add: core_ok_def bank_wf_def)
  have "stored_as env (is_bank st') (snd entry) u" using one(5) r(8) new by (simp add: stored_as_def)
  moreover have "importFrom env (jobCheckpoint i) wt now position (entry # rest) st =
      ((Ran, outcome\<lparr> io_created := (fst entry, bi_ref (snd entry), u_id u) # io_created outcome \<rparr>), st')"
    using one(1) r(1) Cons.prems(3) [of position] by (simp add: cp Let_def)
  moreover have "map u_createdAt (u # us) = map now [position ..< position + length (entry # rest)]"
    using r(6) one(4) by (simp add: upt_rec [of position] del: upt_Suc)
  moreover have "b_questions (is_bank st') = b_questions (is_bank st) @ (u # us)" using r(5) one(2) by simp
  moreover have "versionsOf (is_bank st') q = versionsOf (is_bank st) q \<and> loadSkills (is_bank st') q = loadSkills (is_bank st) q"
    if "q < b_next (is_bank st)" for q
    using that r(8) one(8) next1 by auto
  moreover have "evolves (is_bank st) (is_bank st')" by (rule evolves_trans [OF one(7) r(4)])
  ultimately show ?case
    using r(2,3,7)
    by (intro exI [of _ "outcome\<lparr> io_created := (fst entry, bi_ref (snd entry), u_id u) # io_created outcome \<rparr>"]
        exI [of _ st'] exI [of _ "u # us"]) simp
qed auto

subsection \<open>Back to a file\<close>

definition everything :: exportFilter where
  "everything = \<lparr> ef_skillId = None, ef_status = None \<rparr>"

text \<open>How an item of one organisation reads in another: numbered by its new place, and licensed.\<close>

definition crossed :: "importRequest \<Rightarrow> nat \<times> bankItem \<Rightarrow> bankItem" where
  "crossed request = (\<lambda>(index, item). item\<lparr> bi_ref := ''q-'' @ padStart 5 (CHR ''0'') (decimal (index + 1)),
     bi_source_license := Some (itemLicense request item) \<rparr>)"

definition in_order :: "(string \<Rightarrow> nat) \<Rightarrow> bankItem \<Rightarrow> bool" where
  "in_order collate item \<longleftrightarrow> bi_versions item \<noteq> [] \<and> map storedVersion (bi_versions item) = bi_versions item \<and> sorted_wrt (<) (map (\<lambda>s. collate (fst s)) (bi_skills item))"

lemma itemOf_stored:
  assumes s: "stored_as env b item u" and x: "crossable env item" and o: "in_order collate item"
  shows "itemOf collate (ie_skills env) index (toQuestionRecord b u) (versionsOf b (u_id u)) =
    crossed (ie_request env) (index, item)"
proof -
  have "exportedSkills collate (ie_skills env) (loadSkills b (u_id u)) = bi_skills item"
    using s exportedSkills_of_import x o by (simp add: stored_as_def crossable_def in_order_def)
  then show ?thesis
    using s o by (simp add: itemOf_def crossed_def toQuestionRecord_def stored_as_def question_of_def in_order_def)
qed

lemma wholeExport_stored:
  assumes q: "b_questions b = us" and created: "sorted_wrt (<) (map u_createdAt us)"
    and s: "list_all2 (stored_as env b) items us"
    and x: "\<And>item. item \<in> set items \<Longrightarrow> crossable env item \<and> in_order collate item"
  shows "wholeExport pc collate (ie_skills env) everything b = map (crossed (ie_request env)) (enumerate 0 items)"
proof -
  have "u_archivedAt u = None" if "u \<in> set us" for u
    using s that by (auto simp: list_all2_conv_all_nth in_set_conv_nth stored_as_def question_of_def)
  then have "filter (listed (exportQuery everything) b) us = us"
    by (auto simp: filter_id_conv listed_def exportQuery_def everything_def)
  moreover have "sorted (map (questionKey pc) us)"
    using created unfolding sorted_wrt_map by (rule sorted_wrt_mono_rel [rotated]) (auto simp: questionKey_def less_eq_prod_def)
  ultimately have e: "exported pc everything b = us" by (simp add: exported_def q sort_key_id_if_sorted)
  have "concat (map (\<lambda>(index, u). if versionsOf b (u_id u) = [] then []
         else [itemOf collate (ie_skills env) index (toQuestionRecord b u) (versionsOf b (u_id u))]) (enumerate n us)) =
      map (crossed (ie_request env)) (enumerate n items)" for n
    using s x
  proof (induction arbitrary: n rule: list_all2_induct)
    case (Cons item its u us)
    have i: "crossable env item" "in_order collate item" using Cons.prems by simp_all
    have "versionsOf b (u_id u) \<noteq> []" using Cons.hyps(1) i(2) by (simp add: stored_as_def in_order_def)
    then show ?case using Cons.IH [of "Suc n"] Cons.prems itemOf_stored [OF Cons.hyps(1) i] by simp
  qed simp
  then show ?thesis by (simp add: wholeExport_def e)
qed

subsection \<open>The bank that crosses\<close>

text \<open>A bank whose columns hold what was written to them.\<close>

definition keeps_numbers :: "bank \<Rightarrow> bool" where
  "keeps_numbers b \<longleftrightarrow>
     (\<forall>r \<in> set (b_versions b). storable (baseline (toVersionRecord b r))) \<and>
     (\<forall>(q, s, w) \<in> set (b_skills b). hundredth 2 (num w (Fin 1)))"

text \<open>What the receiving organisation needs: the skills of the items, spelled apart, and an audit log
  that takes the entries.\<close>

definition receives :: "importEnv \<Rightarrow> (string \<Rightarrow> nat) \<Rightarrow> bankItem \<Rightarrow> bool" where
  "receives env collate item \<longleftrightarrow>
     knows (ie_skills env) item \<and> distinct (map (\<lambda>s. collate (fst s)) (bi_skills item)) \<and>
     rq_defaultSkillIds (ie_request env) = [] \<and>
     (\<forall>q t. \<exists>row. writeAudit (ie_platform env) (importEntry (ie_request env) item q t) = Some row)"

lemma wholeExport_items:
  assumes "item \<in> set (wholeExport pc collate skills ef b)"
  obtains index q where "q \<in> set (b_questions b)" "versionsOf b (u_id q) \<noteq> []"
    "item = itemOf collate skills index (toQuestionRecord b q) (versionsOf b (u_id q))"
proof -
  obtain index q where iq: "(index, q) \<in> set (enumerate 0 (exported pc ef b))" "versionsOf b (u_id q) \<noteq> []"
      "item = itemOf collate skills index (toQuestionRecord b q) (versionsOf b (u_id q))"
    using assms by (auto simp: wholeExport_def split: if_split_asm)
  then have "q \<in> set (exported pc ef b)" by (metis enumerate_eq_zip set_zip_rightD)
  then have "q \<in> set (b_questions b)" by (simp add: exported_def)
  then show ?thesis using iq(2,3) by (rule that)
qed

lemma exported_crossable:
  assumes i: "item \<in> set (wholeExport pc collate skills ef b)" and wf: "bank_wf b" and n: "keeps_numbers b"
    and rc: "receives env collate item"
  shows "crossable env item \<and> in_order collate item"
proof -
  obtain index q where q: "q \<in> set (b_questions b)" "versionsOf b (u_id q) \<noteq> []"
      "item = itemOf collate skills index (toQuestionRecord b q) (versionsOf b (u_id q))"
    by (rule wholeExport_items [OF i])
  have bi: "bi_versions item = versionsOf b (u_id q)"
    "bi_skills item = exportedSkills collate skills (loadSkills b (u_id q))"
    by (simp_all add: q(3) itemOf_def toQuestionRecord_def)
  have "storable (toVersionContent v)" if "v \<in> set (bi_versions item)" for v
    using that n by (auto simp: bi versionsOf_def keeps_numbers_def content_of_exported)
  moreover have "hundredth 2 w" if kw: "(k, w) \<in> set (bi_skills item)" for k w
  proof -
    obtain s where "(s, w) \<in> set (loadSkills b (u_id q))"
      using kw by (auto simp: bi exportedSkills_def Let_def split: option.split_asm)
    then show ?thesis using n by (auto simp: loadSkills_def rows_of_def keeps_numbers_def)
  qed
  moreover have "sorted (map (\<lambda>s. collate (fst s)) (bi_skills item))"
    by (simp add: bi exportedSkills_def Let_def)
  then have "sorted_wrt (<) (map (\<lambda>s. collate (fst s)) (bi_skills item))"
    using rc by (simp add: strict_sorted_iff receives_def)
  moreover have "bi_versions item \<noteq> []" by (simp add: bi q(2))
  moreover have "map bv_version_no (bi_versions item) = map int [1..<Suc (length (bi_versions item))]"
    unfolding bi(1) by (rule versionsOf_numbers [OF wf])
  moreover have "map storedVersion (bi_versions item) = bi_versions item"
    by (simp add: bi versionsOf_def storedVersion_read)
  ultimately show ?thesis
    using rc unfolding crossable_def in_order_def receives_def by (intro conjI ballI) auto
qed

text \<open>C4: a bank that crosses is the same bank. What one organisation exports, imported by another that
  has no questions yet and knows the skills, goes through without a problem, and the bank it leaves
  is exported again as the same items: every question with its kind, status, reference and skills,
  every version with its number, its text, its scores, its options, code and keys, and whether it
  is published. Only the running number of an item and its default licence are new.\<close>

theorem bank_crosses:
  assumes "bank_wf b" "keeps_numbers b" "lossless pc (pageKeys b)"
    "length (b_questions b) + length (b_versions b) < fuel"
    "exportBank pc fuel collate skills ef b = Some items"
    "list_all (receives env collate) items" "core_ok (is_bank st)" "b_questions (is_bank st) = []" "strict_mono now"
    "skills_known env (is_bank st)"
  shows "\<exists>outcome st'. importBankItems env (enumerate 0 items) now 0 (jobCheckpoint i) (\<lambda>_. Calm) st = ((Ran, outcome), st') \<and>
    io_problems outcome = [] \<and>
    (\<forall>pc' fuel'. lossless pc' (pageKeys (is_bank st')) \<and>
       length (b_questions (is_bank st')) + length (b_versions (is_bank st')) < fuel' \<longrightarrow>
       exportBank pc' fuel' collate (ie_skills env) everything (is_bank st') =
         Some (map (crossed (ie_request env)) (enumerate 0 items)))"
proof -
  have items: "items = wholeExport pc collate skills ef b"
    using exportBank_whole [OF assms(3,1,4)] assms(5) by simp
  have x: "crossable env item \<and> in_order collate item" if "item \<in> set items" for item
    by (rule exported_crossable [OF that [unfolded items] assms(1,2)])
      (use assms(6) that in \<open>simp add: list_all_iff\<close>)
  have snd: "map snd (enumerate 0 items) = items" by (simp add: enumerate_eq_zip)
  have "crossable env (snd entry)" if "entry \<in> set (enumerate 0 items)" for entry
    using x [of "snd entry"] that by (metis imageI list.set_map snd)
  then obtain outcome st' us where f: "importFrom env (jobCheckpoint i) (\<lambda>_. Calm) now 0 (enumerate 0 items) st =
        ((Ran, outcome), st')" "io_problems outcome = []" "core_ok (is_bank st')"
      "b_questions (is_bank st') = us" "map u_createdAt us = map now [0 ..< length items]"
      "list_all2 (stored_as env (is_bank st')) items us"
    using importFrom_exact [OF assms(7), of "enumerate 0 items" env "\<lambda>_. Calm" i now 0] assms(8,10)
    by (auto simp: snd)
  have "sorted_wrt (<) (map u_createdAt us)"
    unfolding f(5) sorted_wrt_map by (rule sorted_wrt_mono_rel [OF _ sorted_wrt_upt])
      (use assms(9) in \<open>simp add: strict_mono_less\<close>)
  then have w: "wholeExport pc' collate (ie_skills env) everything (is_bank st') =
      map (crossed (ie_request env)) (enumerate 0 items)" for pc'
    by (rule wholeExport_stored [OF f(4) _ f(6) x])
  have "bank_wf (is_bank st')" using f(3) by (simp add: core_ok_def)
  then have "exportBank pc' fuel' collate (ie_skills env) everything (is_bank st') =
      Some (map (crossed (ie_request env)) (enumerate 0 items))"
    if "lossless pc' (pageKeys (is_bank st'))"
      "length (b_questions (is_bank st')) + length (b_versions (is_bank st')) < fuel'" for pc' fuel'
    using exportBank_whole [OF that(1) _ that(2)] w by simp
  then show ?thesis using f(1,2) by (auto simp: importBankItems_def)
qed

lemma decimal_not_null: "CHR 0x00 \<notin> set (decimal n)"
proof (induction n rule: decimal.induct)
  case (1 n)
  have "CHR 0x00 \<noteq> char_of (48 + m)" if "m < 10" for m :: nat
  proof
    assume "CHR 0x00 = char_of (48 + m)"
    from arg_cong [OF this, of "of_char :: char \<Rightarrow> nat"] show False using that by simp
  qed
  then show ?case using 1 by (subst decimal.simps) simp
qed

text \<open>A question with a version and a skill, which the other organisation has under another identifier.\<close>

lemma import_names:
  "trim IMPORT_AUDIT_ACTION = IMPORT_AUDIT_ACTION" "trim ''question'' = ''question''"
  "ACTION_PATTERN IMPORT_AUDIT_ACTION" "ENTITY_TYPE_PATTERN ''question''"
  "actorColumn (Actor_staff w) IMPORT_AUDIT_ACTION = Inr (Some w)"
  "requiresReason IMPORT_AUDIT_ACTION = False" "length IMPORT_AUDIT_ACTION = 15"
proof -
  show "trim IMPORT_AUDIT_ACTION = IMPORT_AUDIT_ACTION" "trim ''question'' = ''question''"
    "ACTION_PATTERN IMPORT_AUDIT_ACTION" "ENTITY_TYPE_PATTERN ''question''"
    "requiresReason IMPORT_AUDIT_ACTION = False" "length IMPORT_AUDIT_ACTION = 15"
    by (code_simp+)
  have "startsWith IMPORT_AUDIT_ACTION JOB_ACTION_PREFIX = False"
    "startsWith IMPORT_AUDIT_ACTION CANDIDATE_ACTION_PREFIX = False" by (code_simp+)
  then show "actorColumn (Actor_staff w) IMPORT_AUDIT_ACTION = Inr (Some w)" by simp
qed

lemma import_fields:
  "list_all (\<lambda>k. \<not> SECRET_KEY_PATTERN k \<and> k \<notin> set RESERVED_PAYLOAD_KEYS)
     [''ref'', ''kind'', ''status'', ''source_license'', ''external_ref'', ''versions'', ''published_versions'']"
  by code_simp

lemma sample_import_prepared:
  "\<exists>row. prepareAuditEntry sample_audit_platform (importEntry request item q t) = Inr row"
proof -
  have leaf: "inspectPayload After (nullable J_string x) 1 = None" for x
    by (cases x) (simp_all add: MAX_PAYLOAD_DEPTH_def)
  have "inspectPayload After (J_object (the (ae_after (importEntry request item q t)))) 0 = None"
    using import_fields leaf
    by (simp add: importEntry_def first_problem_def MAX_PAYLOAD_DEPTH_def J_int_def)
  then have "inspectOption After (ae_after (importEntry request item q t)) = None"
    "inspectOption Before (ae_before (importEntry request item q t)) = None"
    by (simp_all add: importEntry_def inspectOption_def del: inspectPayload.simps)
  then have "finishEntry sample_audit_platform (importEntry request item q t) IMPORT_AUDIT_ACTION ''question'' None who \<noteq> Inl p" for who p
    by (simp add: finishEntry_def Let_def first_problem_def byteLength_def sample_audit_platform_def MAX_PAYLOAD_BYTES_def
        split: option.split)
      (simp add: importEntry_def)
  then obtain row where "finishEntry sample_audit_platform (importEntry request item q t) IMPORT_AUDIT_ACTION ''question''
      None (Some (rq_requestedBy request)) = Inr row"
    by (metis sum.exhaust)
  moreover have "ae_action (importEntry request item q t) = IMPORT_AUDIT_ACTION"
    "ae_entityType (importEntry request item q t) = ''question''" "ae_reason (importEntry request item q t) = None"
    "ae_actor (importEntry request item q t) = Actor_staff (rq_requestedBy request)"
    "ae_entityId (importEntry request item q t) = Some (decimal q)"
    by (simp_all add: importEntry_def)
  moreover have "auditPlatform.isUuid sample_audit_platform (decimal q)" by (simp add: sample_audit_platform_def)
  moreover have "IMPORT_AUDIT_ACTION \<noteq> []" using import_names(7) by auto
  ultimately show ?thesis
    by (simp add: prepareAuditEntry_def Let_def import_names MAX_ACTION_LENGTH_def MAX_ENTITY_TYPE_LENGTH_def
        MAX_REASON_LENGTH_def bindResult_def del: actorColumn.simps)
qed

lemma sample_import_accepted:
  assumes "storable_payload (ae_after (importEntry request item q t))"
  shows "\<exists>row. writeAudit sample_audit_platform (importEntry request item q t) = Some row"
proof -
  obtain row where row: "prepareAuditEntry sample_audit_platform (importEntry request item q t) = Inr row"
    using sample_import_prepared by blast
  obtain userId where "finishEntry sample_audit_platform (importEntry request item q t)
      (trim IMPORT_AUDIT_ACTION) (trim ''question'') None userId = Inr row"
    using prepared_Inr(1) [OF row] by (auto simp: importEntry_def)
  then have "pa_after row = ae_after (importEntry request item q t)" "pa_before row = None"
    using finishEntry_Inr(3,4) by (fastforce simp: importEntry_def serialise_def ownedAfter_def)+
  then show ?thesis using row assms by (simp add: writeAudit_def storable_payload_def)
qed

lemma hundredth_cell: "\<bar>k\<bar> < 100 * 10 ^ d \<Longrightarrow> d \<le> 4 \<Longrightarrow> hundredth d (num (Fin (of_int k / 100)) fb)"
proof -
  assume k: "\<bar>k\<bar> < 100 * 10 ^ d" and d: "d \<le> 4"
  have h: "hundredth d (dbl (of_int k / 100))" using k by (auto simp: hundredth_def)
  obtain c where c: "numericColumn d (dbl (of_int k / 100)) = Some c" "num c fb = dbl (of_int k / 100)"
    by (rule hundredth_column_le [OF h d]) (rule that, assumption+)
  have "\<exists>x. dbl (of_int k / 100) = Fin x" using c(1) by (cases "dbl (of_int k / 100)") (auto simp: numericColumn_def)
  then have "num (Fin (of_int k / 100)) fb = dbl (of_int k / 100)" by (auto simp: num_def)
  then show "hundredth d (num (Fin (of_int k / 100)) fb)" using h by simp
qed

definition crossing_codec :: pageCodec where
  "crossing_codec = \<lparr> pc_base64url = id, pc_unbase64url = id,
     pc_timestamp = (\<lambda>t. if t = 3 then ''2026-10-20 09:00:00.123456+00'' else ''2026-10-20 09:00:00.123457+00''),
     pc_instant = (\<lambda>s. if s = ''2026-10-20 09:00:00.123456+00'' then 3 else 4),
     pc_uuid = (\<lambda>i. if i = 0 then ''00000000-0000-4000-8000-00000000000a'' else ''00000000-0000-4000-8000-00000000000b''),
     pc_uuidOf = (\<lambda>s. if s = ''00000000-0000-4000-8000-00000000000a'' then 0 else 1),
     pc_rank = id \<rparr>"

definition crossing_bank :: bank where
  "crossing_bank = sample_bank\<lparr> b_skills := [(0, ''s1'', Fin (1/2))] \<rparr>"

definition crossing_skills :: "string \<Rightarrow> skillRow list" where
  "crossing_skills i = [\<lparr> sk_id = i, sk_orgId = None, sk_key = ''sql'' \<rparr>]"

definition crossing_env :: importEnv where
  "crossing_env = \<lparr> ie_platform = sample_audit_platform, ie_skills = crossing_skills ''t9'',
     ie_request = \<lparr> rq_orgId = ''o'', rq_requestedBy = ''u'', rq_sourceLicense = ''MIT'', rq_defaultSkillIds = [] \<rparr> \<rparr>"

definition crossing_target :: importState where
  "crossing_target = \<lparr> is_bank = \<lparr> b_questions = [], b_versions = [], b_options = [], b_specs = [], b_cases = [],
       b_keys = [], b_skills = [], b_skillIds = [''t9''], b_next = 0 \<rparr>, is_log = [], is_jobs = [] \<rparr>"

lemma crossing_formats:
  "TIMESTAMP_PATTERN ''2026-10-20 09:00:00.123457+00''" "UUID_PATTERN ''00000000-0000-4000-8000-00000000000b''"
  by (code_simp+)

lemma crossing_rows [simp]:
  "b_questions crossing_bank = [sample_question_row]" "b_versions crossing_bank = [sample_version_row]"
  "b_skills crossing_bank = [(0, ''s1'', Fin (1/2))]"
  by (simp_all add: crossing_bank_def)

lemma crossing_wf: "bank_wf crossing_bank"
  by (simp add: bank_wf_def owned_rows_def numbered_def sample_keys crossing_bank_def)

lemma crossing_numbers: "keeps_numbers crossing_bank"
proof -
  have "hundredth 4 (num (Fin 1) (Fin 1))" "hundredth 4 (num (Fin 0) (Fin 0))" "hundredth 2 (num (Fin (1/2)) (Fin 1))"
    using hundredth_cell [of 100 4 "Fin 1"] hundredth_cell [of 0 4 "Fin 0"] hundredth_cell [of 50 2 "Fin 1"] by simp_all
  then show ?thesis
    by (simp add: keeps_numbers_def storable_def baseline_def toVersionRecord_def Let_def loadVersionChildren_def
        rows_of_def crossing_bank_def sample_bank_def sample_version_row_def)
      (simp add: versionTexts_def childTexts_def optionTexts_def storable_text_def)
qed

lemma crossing_keys: "pageKeys crossing_bank = {(3, 0), (4, 1)}"
  by (auto simp: pageKeys_def sample_question_row_def sample_version_row_def)

lemma crossing_lossless: "lossless crossing_codec (pageKeys crossing_bank)"
  unfolding crossing_keys by (simp add: lossless_def crossing_codec_def sample_formats crossing_formats)

definition crossing_items :: "bankItem list" where
  "crossing_items = [itemOf length (crossing_skills ''s1'') 0 (toQuestionRecord crossing_bank sample_question_row)
     (versionsOf crossing_bank 0)]"

lemma crossing_export: "exportBank crossing_codec 3 length (crossing_skills ''s1'') everything crossing_bank = Some crossing_items"
proof -
  have "exported crossing_codec everything crossing_bank = [sample_question_row]"
    by (simp add: exported_def listed_def exportQuery_def everything_def) (simp add: sample_question_row_def)
  moreover have "versionsOf crossing_bank 0 \<noteq> []" by (simp add: versionsOf_def sample_keys)
  ultimately show ?thesis
    using exportBank_whole [of crossing_codec crossing_bank 3 length "crossing_skills ''s1''" everything]
    by (simp add: crossing_lossless crossing_wf wholeExport_def crossing_items_def sample_keys)
qed

lemma crossing_whole: "crossing_items = wholeExport crossing_codec length (crossing_skills ''s1'') everything crossing_bank"
  using crossing_export exportBank_whole [OF crossing_lossless crossing_wf, of 3 length "crossing_skills ''s1''" everything]
  by simp

lemma crossing_receives: "list_all (receives crossing_env length) crossing_items"
proof -
  have "loadSkills crossing_bank 0 = [(''s1'', num (Fin (1/2)) (Fin 1))]"
    by (simp add: loadSkills_def rows_of_def)
  then have "exportedSkills length (crossing_skills ''s1'') (loadSkills crossing_bank 0) = [(''sql'', num (Fin (1/2)) (Fin 1))]"
    by (simp add: exportedSkills_def crossing_skills_def map_get_def)
  then have s: "bi_skills item = [(''sql'', num (Fin (1/2)) (Fin 1))]" if "item \<in> set crossing_items" for item
    using that by (simp add: crossing_items_def itemOf_def toQuestionRecord_def sample_keys)
  have "knows (crossing_skills ''t9'') item" if "item \<in> set crossing_items" for item
    by (simp add: knows_def unknownKeys_def s [OF that] skillIdsByKey_def crossing_skills_def map_get_def)
  moreover have "storable_payload (ae_after (importEntry (ie_request crossing_env) item q t))"
    if "item \<in> set crossing_items" for item q t
  proof -
    have "CHR 0x00 \<notin> set (bi_ref item)" "bi_kind item = Subjective" "bi_status item = Published"
      "bi_source_license item = None" "bi_external_ref item = None"
      using that by (simp_all add: crossing_items_def itemOf_def toQuestionRecord_def sample_question_row_def
          padStart_def decimal_not_null)
    then show ?thesis
      by (simp add: storable_payload_def importEntry_def null_in_string itemLicense_def chosen_def crossing_env_def J_int_def)
  qed
  ultimately show ?thesis
    using s sample_import_accepted by (simp add: list_all_iff receives_def crossing_env_def)
qed

lemma crossing_known: "skills_known crossing_env (is_bank crossing_target)"
  by (simp add: skills_known_def crossing_env_def crossing_skills_def crossing_target_def)

theorem bank_crosses_witness:
  "\<exists>outcome st'. importBankItems crossing_env (enumerate 0 crossing_items) (\<lambda>p. int p + 3) 0 (jobCheckpoint 7)
      (\<lambda>_. Calm) crossing_target = ((Ran, outcome), st') \<and> io_problems outcome = []"
proof -
  have "core_ok (is_bank crossing_target)" "b_questions (is_bank crossing_target) = []"
    by (simp_all add: crossing_target_def core_ok_def bank_wf_def numbered_def owned_rows_def pointers_ok_def)
  moreover have "strict_mono (\<lambda>p. int p + 3)" by (simp add: strict_mono_def)
  moreover note crossing_known
  ultimately show ?thesis
    using bank_crosses [of crossing_bank crossing_codec 3 length "crossing_skills ''s1''" everything crossing_items
        crossing_env crossing_target "\<lambda>p. int p + 3" 7]
      crossing_wf crossing_numbers crossing_lossless crossing_export crossing_receives
    by auto
qed

subsection \<open>The job of an export\<close>

lemma find_this: "getBankJob i jobs = Some r \<Longrightarrow> jobs_wf jobs \<Longrightarrow> P r \<Longrightarrow>
    List.find (\<lambda>x. j_id x = i \<and> P x) jobs = Some r"
proof -
  assume g: "getBankJob i jobs = Some r" and w: "jobs_wf jobs" and p: "P r"
  have r: "r \<in> set jobs" "j_id r = i" using g by (auto simp: getBankJob_def find_Some_iff)
  then obtain x where x: "List.find (\<lambda>x. j_id x = i \<and> P x) jobs = Some x"
    using p by (cases "List.find (\<lambda>x. j_id x = i \<and> P x) jobs") (auto simp: find_None_iff)
  have "inj_on j_id (set jobs)" using w by (simp add: jobs_wf_def distinct_map)
  then have "x = r" by (rule inj_onD) (use x r in \<open>auto simp: find_Some_iff\<close>)
  then show ?thesis using x by simp
qed

lemma find_other: "getBankJob i jobs = Some r \<Longrightarrow> jobs_wf jobs \<Longrightarrow> \<not> P r \<Longrightarrow>
    List.find (\<lambda>x. j_id x = i \<and> P x) jobs = None"
proof -
  assume g: "getBankJob i jobs = Some r" and w: "jobs_wf jobs" and p: "\<not> P r"
  have r: "r \<in> set jobs" "j_id r = i" using g by (auto simp: getBankJob_def find_Some_iff)
  have "inj_on j_id (set jobs)" using w by (simp add: jobs_wf_def distinct_map)
  then have "x = r" if "x \<in> set jobs" "j_id x = i" for x
    by (rule inj_onD) (use that r in simp_all)
  then show ?thesis using p by (auto simp: find_None_iff)
qed

lemma runExport_whole:
  assumes "lossless pc (pageKeys (is_bank st))" "bank_wf (is_bank st)"
    "length (b_questions (is_bank st)) + length (b_versions (is_bank st)) < fuel" "calm wt"
    "xt_options tools (j_options job) = Some ef" "j_kind job = Export_job"
    "bytes = exportBytes tools collate (j_format job) (wholeExport pc collate skills ef (is_bank st)) (rw_at wt)"
  shows "runExport pc fuel collate tools skills wt job st =
    (if length bytes > MAX_BANK_JOB_BYTES then failRun (rw_at wt) (j_id job) (tooLarge (length bytes)) st
     else (Returns (Job_done Job_succeeded), withJobs (finishBankJob (j_id job) (rw_at wt)
       (Some (bytes, contentType (j_format job), rw_at wt + EXPORT_RETENTION_MS))) st))"
  using exportBank_whole [OF assms(1,2,3), of collate skills ef] assms(4-7)
  by (simp add: runExport_def runTx_def calm_def Let_def)

lemma tooLarge_storable: "\<not> unstorableUnits (units (take k (tooLarge n)))"
  unfolding unstorableUnits_chars using decimal_not_null by (auto simp: tooLarge_def dest!: in_set_takeD)

text \<open>The file of a job that has just succeeded can be read until its retention ends.\<close>

lemma finished_file:
  assumes "getBankJob i jobs = Some r" "jobs_wf jobs" "j_kind r = Export_job"
  shows "readBankJobResult i now (finishBankJob i t (Some (bytes, content, expires)) jobs) =
    (if now < expires then Some (bytes, content) else None)"
proof -
  define q where "q = finished t (Some (bytes, content, expires)) r"
  have g: "getBankJob i (finishBankJob i t (Some (bytes, content, expires)) jobs) = Some q"
    "jobs_wf (finishBankJob i t (Some (bytes, content, expires)) jobs)"
    using assms getBankJob_id [OF assms(1)]
    by (simp_all add: finishBankJob_def getBankJob_update updateJobs_wf q_def)
  have q: "j_kind q = Export_job" "j_status q = Job_succeeded" "j_result q = Some bytes"
    "j_resultContentType q = Some content" "j_expiresAt q = Some expires"
    using assms(3) by (simp_all add: q_def finished_def)
  let ?P = "\<lambda>r. j_kind r = Export_job \<and> j_status r = Job_succeeded \<and>
    (case j_expiresAt r of None \<Rightarrow> True | Some t \<Rightarrow> t > now)"
  show ?thesis
    unfolding readBankJobResult_def using find_this [OF g, where P = ?P] find_other [OF g, where P = ?P] q by simp
qed

text \<open>C23: an export job that is delivered without interruption leaves the file of the whole bank on
  its row, to be read until its retention ends and not after, or, when the file is over the limit,
  fails with its size; the bank itself is not touched.\<close>

theorem export_job_delivers:
  assumes "getBankJob i (is_jobs st) = Some job" "jobs_wf (is_jobs st)" "unfinished job" "j_kind job = Export_job"
    "xt_options tools (j_options job) = Some ef" "lossless pc (pageKeys (is_bank st))" "bank_wf (is_bank st)"
    "length (b_questions (is_bank st)) + length (b_versions (is_bank st)) < fuel" "calm wt"
    "bytes = exportBytes tools collate (j_format job) (wholeExport pc collate skills ef (is_bank st)) (rw_at wt)"
    "st' = deliver (runExport pc fuel collate tools skills wt) env i (finalAttempt, wt) st"
  shows "is_bank st' = is_bank st \<and>
    (if length bytes \<le> MAX_BANK_JOB_BYTES then
       \<forall>now. readBankJobResult i now (is_jobs st') =
         (if now < rw_at wt + EXPORT_RETENTION_MS then Some (bytes, contentType (j_format job)) else None)
     else \<exists>r. getBankJob i (is_jobs st') = Some r \<and> j_status r = Job_failed \<and>
       j_failure r = Some (take 2000 (tooLarge (length bytes))))"
proof -
  have id: "j_id job = i" by (rule getBankJob_id [OF assms(1)])
  define jobs1 where "jobs1 = updateJobs (\<lambda>r. j_id r = i) (started (rw_at wt)) (is_jobs st)"
  have start: "startBankJob i (rw_at wt) (is_jobs st) = (Some (started (rw_at wt) job), jobs1)"
    using startBankJob_get [OF assms(1,2), of "rw_at wt"] assms(3)
    by (simp add: startable_def unfinished_def id jobs1_def)
  have j1: "getBankJob i jobs1 = Some (started (rw_at wt) job)" "jobs_wf jobs1"
    using assms(1,2) by (simp_all add: jobs1_def getBankJob_update updateJobs_wf)
  have same: "j_id (started (rw_at wt) job) = i" "j_format (started (rw_at wt) job) = j_format job"
    "j_options (started (rw_at wt) job) = j_options job" "j_kind (started (rw_at wt) job) = Export_job"
    using assms(4) by (simp_all add: started_def id)
  note run = runExport_whole [of pc "st\<lparr> is_jobs := jobs1 \<rparr>" fuel wt tools "started (rw_at wt) job" ef bytes collate skills]
  show ?thesis
  proof (cases "length bytes > MAX_BANK_JOB_BYTES")
    case True
    then have "st' = st\<lparr> is_jobs := updateJobs (\<lambda>r. j_id r = i) (failed (rw_at wt) (tooLarge (length bytes))) jobs1 \<rparr>"
      using run assms(5-10) same tooLarge_storable
      by (simp add: assms(11) deliver_def runBankJob_def start failRun_def tryJobs_def failBankJob_def)
    then show ?thesis
      using True j1(1) by (auto simp: getBankJob_update) (simp_all add: failed_def)
  next
    case False
    then have "st' = st\<lparr> is_jobs := finishBankJob i (rw_at wt)
        (Some (bytes, contentType (j_format job), rw_at wt + EXPORT_RETENTION_MS)) jobs1 \<rparr>"
      using run assms(5-10) same by (simp add: assms(11) deliver_def runBankJob_def start withJobs_def)
    then show ?thesis using False finished_file [OF j1 same(4)] by simp
  qed
qed

definition crossing_job :: bankJobRow where
  "crossing_job = sample_job\<lparr> j_kind := Export_job, j_input := None, j_inputBytes := None \<rparr>"

definition crossing_tools :: exportTools where
  "crossing_tools = \<lparr> xt_options = (\<lambda>_. Some everything), xt_json = (\<lambda>d. replicate (length (bd_items d)) 7),
     xt_package = (\<lambda>_. []), xt_isoText = (\<lambda>_. ''2026'') \<rparr>"

definition crossing_delivery :: importState where
  "crossing_delivery = deliver (runExport crossing_codec 3 length crossing_tools (crossing_skills ''s1'') (sample_weather Calm))
     sample_worker 7 (True, sample_weather Calm) \<lparr> is_bank = crossing_bank, is_log = [], is_jobs = [crossing_job] \<rparr>"

theorem export_job_delivers_witness:
  "is_bank crossing_delivery = crossing_bank \<and>
   readBankJobResult 7 6 (is_jobs crossing_delivery) = Some ([7], ''application/json'') \<and>
   readBankJobResult 7 (5 + EXPORT_RETENTION_MS) (is_jobs crossing_delivery) = None"
proof -
  let ?st = "\<lparr> is_bank = crossing_bank, is_log = [], is_jobs = [crossing_job] \<rparr>"
  let ?items = "wholeExport crossing_codec length (crossing_skills ''s1'') everything crossing_bank"
  have job: "getBankJob 7 (is_jobs ?st) = Some crossing_job" "jobs_wf (is_jobs ?st)" "unfinished crossing_job"
    "j_kind crossing_job = Export_job" "xt_options crossing_tools (j_options crossing_job) = Some everything"
    "calm (sample_weather Calm)" "j_format crossing_job = Fmt_json"
    by (simp_all add: getBankJob_def jobs_wf_def unfinished_def crossing_job_def sample_job_def crossing_tools_def
        calm_def sample_weather_def)
  have bytes: "exportBytes crossing_tools length (j_format crossing_job) ?items (rw_at (sample_weather Calm)) = [7]"
    unfolding crossing_whole [symmetric] by (simp add: exportBytes_def job(7) crossing_tools_def buildBankDocument_def)
      (simp add: crossing_items_def)
  have "is_bank crossing_delivery = is_bank ?st \<and>
      (if length [7 :: 8 word] \<le> MAX_BANK_JOB_BYTES then \<forall>now. readBankJobResult 7 now (is_jobs crossing_delivery) =
         (if now < rw_at (sample_weather Calm) + EXPORT_RETENTION_MS then Some ([7], contentType (j_format crossing_job)) else None)
       else \<exists>r. getBankJob 7 (is_jobs crossing_delivery) = Some r \<and> j_status r = Job_failed \<and>
         j_failure r = Some (take 2000 (tooLarge (length [7 :: 8 word]))))"
    by (rule export_job_delivers [OF job(1-5), where pc = crossing_codec and fuel = 3 and wt = "sample_weather Calm"
          and collate = length and skills = "crossing_skills ''s1''"])
      (simp_all add: crossing_lossless crossing_wf job(6) bytes crossing_delivery_def)
  then show ?thesis
    by (simp add: MAX_BANK_JOB_BYTES_def sample_weather_def contentType_def job(7) EXPORT_RETENTION_MS_def)
qed

subsection \<open>Deliveries that overlap\<close>

lemma importFrom_all:
  assumes "core_ok (is_bank st)" "getBankJob i (is_jobs st) = Some r" "imported (ie_request env) xs st0 st"
    "importFrom env (jobCheckpoint i) wt now position items st = ((Ran, outcome), st')" "io_problems outcome = []"
  shows "core_ok (is_bank st') \<and> imported (ie_request env) (xs @ map snd items) st0 st' \<and>
    (\<exists>r'. getBankJob i (is_jobs st') = Some r' \<and> j_createdCount r' = j_createdCount r + length items)"
  using assms
proof (induction items arbitrary: position st r xs outcome)
  case (Cons entry rest)
  obtain q st1 o1 where one: "importOne env entry (now position) (jobCheckpoint i position True None) st = Inr (q, st1)"
    and rest: "importFrom env (jobCheckpoint i) wt now (position + 1) rest st1 = ((Ran, o1), st')" "io_problems o1 = []"
    using Cons.prems(4,5) by (auto simp: Let_def split: if_split_asm sum.split_asm prod.split_asm option.split_asm)
  obtain b' row u where st1: "jobCheckpoint i position True None (st\<lparr> is_bank := b', is_log := is_log st @ [row] \<rparr>) = Some st1"
    and b': "core_ok b'" "b_questions b' = b_questions (is_bank st) @ [u]" "u_id u = q"
      "question_of (ie_request env) (snd entry) u"
    and row: "prepareAuditEntry (ie_platform env) (importEntry (ie_request env) (snd entry) q (now position)) = Inr row"
    by (rule importOne_Inr [OF Cons.prems(1) one])
  have b1: "is_bank st1 = b'" "is_log st1 = is_log st @ [row]"
    by (simp_all add: checkpoint_Some [OF st1])
  have g: "getBankJob i (is_jobs st1) = Some (advanced (position + 1) True [] r)"
    using Cons.prems(2) by (simp add: checkpoint_Some [OF st1])
  have "imported (ie_request env) (xs @ [snd entry]) st0 st1"
    by (rule imported_snoc [OF Cons.prems(3) b'(4) import_row_for [OF row b'(3)]]) (simp_all add: b1 b'(2))
  then show ?case using Cons.IH [OF _ g _ rest, of "xs @ [snd entry]"] b'(1) b1 by simp
qed auto

text \<open>C22: the checkpoint does not protect against deliveries that overlap: a job that is running can be
  started again, and when both work through the file every entry is imported twice and counted
  twice.\<close>

theorem overlapping_deliveries_duplicate:
  assumes "core_ok (is_bank st)" "getBankJob i (is_jobs st) = Some job" "jobs_wf (is_jobs st)" "unfinished job"
    "firstRun job" "list_all (crossable env) (map snd items)" "skills_known env (is_bank st)"
    "startBankJob i t1 (is_jobs st) = (first, jobs1)" "startBankJob i t2 jobs1 = (second, jobs2)"
  shows "\<exists>out1 st1 out2 st2 r.
    importBankItems env items now (j_nextIndex (the first)) (jobCheckpoint i) (\<lambda>_. Calm) (st\<lparr> is_jobs := jobs2 \<rparr>) =
      ((Ran, out1), st1) \<and>
    importBankItems env items now (j_nextIndex (the second)) (jobCheckpoint i) (\<lambda>_. Calm) st1 = ((Ran, out2), st2) \<and>
    imported (ie_request env) (map snd items @ map snd items) st st2 \<and>
    getBankJob i (is_jobs st2) = Some r \<and> j_createdCount r = 2 * length items"
proof -
  have id: "j_id job = i" by (rule getBankJob_id [OF assms(2)])
  have s1: "first = Some (started t1 job)" "jobs1 = updateJobs (\<lambda>r. j_id r = i) (started t1) (is_jobs st)"
    using assms(4,8) startBankJob_get [OF assms(2,3), of t1] by (simp_all add: startable_def unfinished_def id)
  have g1: "getBankJob i jobs1 = Some (started t1 job)" "jobs_wf jobs1"
    using assms(2,3) by (simp_all add: s1(2) getBankJob_update updateJobs_wf)
  have s2: "second = Some (started t2 (started t1 job))" "jobs2 = updateJobs (\<lambda>r. j_id r = i) (started t2) jobs1"
    using assms(9) startBankJob_get [OF g1, of t2] by (simp_all add: startable_def started_def id)
  have g2: "getBankJob i jobs2 = Some (started t2 (started t1 job))"
    using g1 by (simp add: s2(2) getBankJob_update)
  have z: "j_nextIndex (the first) = 0" "j_nextIndex (the second) = 0" "j_createdCount (started t2 (started t1 job)) = 0"
    using assms(5) by (simp_all add: s1 s2 started_def firstRun_def)
  define st' where "st' = st\<lparr> is_jobs := jobs2 \<rparr>"
  have st': "core_ok (is_bank st')" "getBankJob i (is_jobs st') = Some (started t2 (started t1 job))"
    "imported (ie_request env) [] st st'" "skills_known env (is_bank st')"
    using assms(1,7) g2 by (simp_all add: st'_def imported_def)
  have x: "crossable env (snd entry)" if "entry \<in> set items" for entry
    using assms(6) that by (simp add: list_all_iff)
  obtain out1 st1 where i1: "importFrom env (jobCheckpoint i) (\<lambda>_. Calm) now 0 items st' = ((Ran, out1), st1)"
      "io_problems out1 = []" "skills_known env (is_bank st1)"
    using importFrom_exact [OF st'(1) x refl st'(4), where i = i and now = now and position = 0]
      skills_known_evolves st'(4) by blast
  obtain r1 where r1: "core_ok (is_bank st1)" "imported (ie_request env) (map snd items) st st1"
      "getBankJob i (is_jobs st1) = Some r1" "j_createdCount r1 = length items"
    using importFrom_all [OF st'(1-3) i1(1,2)] z(3) by auto
  obtain out2 st2 where i2: "importFrom env (jobCheckpoint i) (\<lambda>_. Calm) now 0 items st1 = ((Ran, out2), st2)"
      "io_problems out2 = []"
    using importFrom_exact [OF r1(1) x refl i1(3), where i = i and now = now and position = 0] by blast
  obtain r2 where "imported (ie_request env) (map snd items @ map snd items) st st2"
      "getBankJob i (is_jobs st2) = Some r2" "j_createdCount r2 = 2 * length items"
    using importFrom_all [OF r1(1,3,2) i2] r1(4) by auto
  then show ?thesis using i1(1) i2(1) by (simp add: importBankItems_def z st'_def)
qed

lemma crossing_items_crossable: "list_all (crossable crossing_env) crossing_items"
  using exported_crossable [OF _ crossing_wf crossing_numbers] crossing_receives
  unfolding list_all_iff crossing_whole by blast

theorem overlapping_deliveries_duplicate_witness:
  "\<exists>out1 st1 out2 st2 r.
    importBankItems crossing_env (enumerate 0 crossing_items) (\<lambda>_. 5) 0 (jobCheckpoint 7) (\<lambda>_. Calm)
      (crossing_target\<lparr> is_jobs := [started 6 (started 5 sample_job)] \<rparr>) = ((Ran, out1), st1) \<and>
    importBankItems crossing_env (enumerate 0 crossing_items) (\<lambda>_. 5) 0 (jobCheckpoint 7) (\<lambda>_. Calm) st1 =
      ((Ran, out2), st2) \<and>
    imported (ie_request crossing_env) (crossing_items @ crossing_items)
      (crossing_target\<lparr> is_jobs := [sample_job] \<rparr>) st2 \<and>
    getBankJob 7 (is_jobs st2) = Some r \<and> j_createdCount r = 2"
proof -
  have snd: "map snd (enumerate 0 crossing_items) = crossing_items" by (simp add: enumerate_eq_zip)
  have "core_ok (is_bank (crossing_target\<lparr> is_jobs := [sample_job] \<rparr>))"
    by (simp add: crossing_target_def core_ok_def bank_wf_def numbered_def owned_rows_def pointers_ok_def)
  moreover have "getBankJob 7 [sample_job] = Some sample_job" "jobs_wf [sample_job]" "unfinished sample_job"
    "firstRun sample_job"
    by (simp_all add: getBankJob_def jobs_wf_def unfinished_def firstRun_def sample_job_def)
  moreover have "startBankJob 7 5 [sample_job] = (Some (started 5 sample_job), [started 5 sample_job])"
    "startBankJob 7 6 [started 5 sample_job] = (Some (started 6 (started 5 sample_job)), [started 6 (started 5 sample_job)])"
    by (simp_all add: startBankJob_def startable_def updateJobs_def sample_job_def started_def)
  moreover have "j_nextIndex (started 5 sample_job) = 0" "j_nextIndex (started 6 (started 5 sample_job)) = 0"
    "length (enumerate 0 crossing_items) = 1"
    by (simp_all add: sample_job_def started_def crossing_items_def)
  ultimately show ?thesis
    using overlapping_deliveries_duplicate [of "crossing_target\<lparr> is_jobs := [sample_job] \<rparr>" 7 sample_job crossing_env
        "enumerate 0 crossing_items" 5 "Some (started 5 sample_job)" "[started 5 sample_job]" 6
        "Some (started 6 (started 5 sample_job))" "[started 6 (started 5 sample_job)]" "\<lambda>_. 5"] crossing_items_crossable
      crossing_known by (simp add: snd)
qed

end
