(* ===== verification/Job_Key.thy ===== *)
theory Job_Key
  imports Js_String
begin

text \<open>
  Idempotency by business key (\<open>apps/worker/src/idempotency.ts\<close>): the keys and the job ids made of
  them, the store of completed results, and \<open>idempotent\<close>, which runs an effect under a key.
  \<open>idempotent\<close> waits for the store twice and for the effect once, and other calls may run meanwhile;
  so it is a list of actions, each taking one call from one wait to the next. What JSON and the
  record schema make of a value is an argument, and so is the client of the shared store. The calls of
  one world share a decoder and a life of records, as those of one queue do.
\<close>

subsection \<open>Keys\<close>

datatype keyError = Key_empty | Key_long nat | Key_whitespace | Key_missing_id

definition MAX_IDEMPOTENCY_KEY_CHARS :: nat where
  "MAX_IDEMPOTENCY_KEY_CHARS = 512"

definition IDEMPOTENCY_KEY_PREFIX :: string where
  "IDEMPOTENCY_KEY_PREFIX = ''assaybank:idem:''"

definition DEFAULT_IDEMPOTENCY_TTL_SECONDS :: int where
  "DEFAULT_IDEMPOTENCY_TTL_SECONDS = 86400"

definition assertBusinessKey :: "string \<Rightarrow> keyError + string" where
  "assertBusinessKey key =
     (if key = [] then Inl Key_empty
      else if MAX_IDEMPOTENCY_KEY_CHARS < length key then Inl (Key_long (length key))
      else if list_ex is_ws key then Inl Key_whitespace
      else if list_ex (\<lambda>segment. segment = ''undefined'' \<or> segment = ''null'') (splitOn (CHR '':'') key)
      then Inl Key_missing_id
      else Inr key)"

definition toJobId :: "string \<Rightarrow> keyError + string" where
  "toJobId key =
     (case assertBusinessKey key of
        Inl e \<Rightarrow> Inl e
      | Inr k \<Rightarrow> Inr (replaceChar (CHR '':'') ''%3A'' (replaceChar (CHR ''%'') ''%25'' k)))"

subsection \<open>The stores of completed results\<close>

text \<open>\<open>MemoryIdempotencyStore\<close>: a value and the instant, in milliseconds, it expires at.\<close>

type_synonym 'r memoryStore = "string \<Rightarrow> ('r \<times> int) option"

definition memoryGet :: "'r memoryStore \<Rightarrow> int \<Rightarrow> string \<Rightarrow> 'r option \<times> 'r memoryStore" where
  "memoryGet entries now key =
     (case entries key of
        None \<Rightarrow> (None, entries)
      | Some (value, expiresAtMs) \<Rightarrow>
          if expiresAtMs \<le> now then (None, entries(key := None)) else (Some value, entries))"

definition memorySet :: "'r memoryStore \<Rightarrow> int \<Rightarrow> string \<Rightarrow> 'r \<Rightarrow> int \<Rightarrow> 'r memoryStore" where
  "memorySet entries now key value ttlSeconds = entries(key \<mapsto> (value, now + ttlSeconds * 1000))"

definition memoryDelete :: "'r memoryStore \<Rightarrow> string \<Rightarrow> 'r memoryStore" where
  "memoryDelete entries key = entries(key := None)"

text \<open>The shared store hands the client a whole number of seconds, at least one.\<close>

definition redisSet :: "('s \<Rightarrow> int \<Rightarrow> string \<Rightarrow> 'r \<Rightarrow> int \<Rightarrow> 's) \<Rightarrow> 's \<Rightarrow> int \<Rightarrow> string \<Rightarrow> 'r \<Rightarrow> int \<Rightarrow> 's" where
  "redisSet client_set s now key value ttlSeconds = client_set s now key value (max 1 ttlSeconds)"

subsection \<open>Running an effect under a key\<close>

text \<open>\<open>ie_decode\<close> is the option of that name, or leaves the value alone; \<open>None\<close> is an exception.\<close>

record ('s, 'r, 'v) idemEnv =
  ie_get :: "'s \<Rightarrow> int \<Rightarrow> string \<Rightarrow> 'r option \<times> 's"
  ie_set :: "'s \<Rightarrow> int \<Rightarrow> string \<Rightarrow> 'r \<Rightarrow> int \<Rightarrow> 's"
  ie_stringify :: "'v \<Rightarrow> 'r"
  ie_reviveRecord :: "'r \<Rightarrow> 'v option"
  ie_decode :: "'v \<Rightarrow> 'v option"
  ie_ttlSeconds :: int

text \<open>What the owner of a key in flight waits for.\<close>

datatype 'v phase = Reading | Performing | Recording 'v

datatype replayOutcome = Replayed_result | Executed_result

text \<open>
  A world of worker processes over one store. \<open>iw_inFlight\<close> has, per process and storage key, the
  phase of the owner and how many calls share its promise; \<open>iw_effects\<close> the completed effects;
  \<open>iw_answers\<close> what each call resolved to, \<open>None\<close> for a rejection; \<open>iw_replays\<close> the replay counter.
\<close>

record ('s, 'v) idemWorld =
  iw_store :: 's
  iw_now :: int
  iw_inFlight :: "nat \<Rightarrow> string \<Rightarrow> ('v phase \<times> nat) option"
  iw_effects :: "(string \<times> 'v) list"
  iw_answers :: "(string \<times> 'v option) list"
  iw_replays :: "(string \<times> replayOutcome) list"

datatype 'v idemAction =
    Call nat string
  | Store_answers nat string
  | Effect_ends nat string "'v option"
  | Recorded nat string
  | Read_fails nat string
  | Write_fails nat string bool
  | Dies nat
  | Passes nat

definition setFlight :: "nat \<Rightarrow> string \<Rightarrow> ('v phase \<times> nat) option \<Rightarrow> ('s, 'v) idemWorld \<Rightarrow> ('s, 'v) idemWorld" where
  "setFlight p k f w = w\<lparr> iw_inFlight := (iw_inFlight w)(p := (iw_inFlight w p)(k := f)) \<rparr>"

text \<open>The owner's promise settles: it leaves the map, and all who share it have their answer.\<close>

definition settle :: "nat \<Rightarrow> string \<Rightarrow> nat \<Rightarrow> 'v option \<Rightarrow> ('s, 'v) idemWorld \<Rightarrow> ('s, 'v) idemWorld" where
  "settle p k sharing v w =
     setFlight p k None (w\<lparr> iw_answers := iw_answers w @ replicate sharing (k, v) \<rparr>)"

definition countReplay :: "string \<Rightarrow> replayOutcome \<Rightarrow> ('s, 'v) idemWorld \<Rightarrow> ('s, 'v) idemWorld" where
  "countReplay k outcome w = w\<lparr> iw_replays := iw_replays w @ [(k, outcome)] \<rparr>"

text \<open>
  \<open>idempotent\<close>, one wait at a time; an action nobody waits for changes nothing. The store may reject a
  read, before the effect, or the write of a result, after it: then every call that shares the promise is
  rejected, although the effect has completed in the second case. The flag of \<open>Write_fails\<close> says whether
  the store carried the write out before it reported the error; a result JSON cannot write, which
  throws at the same point, is a failure with nothing written.
\<close>

fun idempotent :: "('s, 'r, 'v) idemEnv \<Rightarrow> 'v idemAction \<Rightarrow> ('s, 'v) idemWorld \<Rightarrow> ('s, 'v) idemWorld" where
  "idempotent env (Call p key) w =
     (case assertBusinessKey key of
        Inl e \<Rightarrow> w
      | Inr key' \<Rightarrow>
          let storageKey = IDEMPOTENCY_KEY_PREFIX @ key' in
          (case iw_inFlight w p storageKey of
             Some (phase, sharing) \<Rightarrow>
               setFlight p storageKey (Some (phase, Suc sharing)) (countReplay storageKey Replayed_result w)
           | None \<Rightarrow> setFlight p storageKey (Some (Reading, 1)) w))"
| "idempotent env (Store_answers p k) w =
     (case iw_inFlight w p k of
        Some (Reading, sharing) \<Rightarrow>
          let (recorded, s) = ie_get env (iw_store w) (iw_now w) k; w = w\<lparr> iw_store := s \<rparr> in
          (case Option.bind recorded (ie_reviveRecord env) of
             Some value \<Rightarrow> settle p k sharing (ie_decode env value) (countReplay k Replayed_result w)
           | None \<Rightarrow> setFlight p k (Some (Performing, sharing)) w)
      | _ \<Rightarrow> w)"
| "idempotent env (Effect_ends p k outcome) w =
     (case iw_inFlight w p k of
        Some (Performing, sharing) \<Rightarrow>
          (case outcome of
             None \<Rightarrow> settle p k sharing None w
           | Some result \<Rightarrow>
               setFlight p k (Some (Recording result, sharing)) (w\<lparr> iw_effects := iw_effects w @ [(k, result)] \<rparr>))
      | _ \<Rightarrow> w)"
| "idempotent env (Recorded p k) w =
     (case iw_inFlight w p k of
        Some (Recording result, sharing) \<Rightarrow>
          settle p k sharing (Some result) (countReplay k Executed_result
            (w\<lparr> iw_store := ie_set env (iw_store w) (iw_now w) k (ie_stringify env result) (ie_ttlSeconds env) \<rparr>))
      | _ \<Rightarrow> w)"
| "idempotent env (Read_fails p k) w =
     (case iw_inFlight w p k of
        Some (Reading, sharing) \<Rightarrow> settle p k sharing None w
      | _ \<Rightarrow> w)"
| "idempotent env (Write_fails p k written) w =
     (case iw_inFlight w p k of
        Some (Recording result, sharing) \<Rightarrow>
          settle p k sharing None
            (if written
             then w\<lparr> iw_store := ie_set env (iw_store w) (iw_now w) k (ie_stringify env result) (ie_ttlSeconds env) \<rparr>
             else w)
      | _ \<Rightarrow> w)"
| "idempotent env (Dies p) w = w\<lparr> iw_inFlight := (iw_inFlight w)(p := (\<lambda>_. None)) \<rparr>"
| "idempotent env (Passes ms) w = w\<lparr> iw_now := iw_now w + int ms \<rparr>"

definition idempotent_run ::
  "('s, 'r, 'v) idemEnv \<Rightarrow> 'v idemAction list \<Rightarrow> ('s, 'v) idemWorld \<Rightarrow> ('s, 'v) idemWorld" where
  "idempotent_run env = fold (idempotent env)"

definition idle :: "'s \<Rightarrow> int \<Rightarrow> ('s, 'v) idemWorld" where
  "idle s now = \<lparr> iw_store = s, iw_now = now, iw_inFlight = (\<lambda>_ _. None), iw_effects = [], iw_answers = [],
     iw_replays = [] \<rparr>"

text \<open>A process over its own store, as in development and in the tests.\<close>

definition memoryIdem ::
  "('v \<Rightarrow> 'r) \<Rightarrow> ('r \<Rightarrow> 'v option) \<Rightarrow> ('v \<Rightarrow> 'v option) \<Rightarrow> int \<Rightarrow> ('r memoryStore, 'r, 'v) idemEnv" where
  "memoryIdem stringify reviveRecord decode ttlSeconds = \<lparr> ie_get = memoryGet, ie_set = memorySet,
     ie_stringify = stringify, ie_reviveRecord = reviveRecord, ie_decode = decode, ie_ttlSeconds = ttlSeconds \<rparr>"

text \<open>A deployed worker, over the store its replicas share.\<close>

definition redisIdem ::
  "('s \<Rightarrow> int \<Rightarrow> string \<Rightarrow> 'r option \<times> 's) \<Rightarrow> ('s \<Rightarrow> int \<Rightarrow> string \<Rightarrow> 'r \<Rightarrow> int \<Rightarrow> 's) \<Rightarrow>
    ('v \<Rightarrow> 'r) \<Rightarrow> ('r \<Rightarrow> 'v option) \<Rightarrow> ('v \<Rightarrow> 'v option) \<Rightarrow> ('s, 'r, 'v) idemEnv" where
  "redisIdem client_get client_set stringify reviveRecord decode = \<lparr> ie_get = client_get,
     ie_set = redisSet client_set, ie_stringify = stringify, ie_reviveRecord = reviveRecord,
     ie_decode = decode, ie_ttlSeconds = DEFAULT_IDEMPOTENCY_TTL_SECONDS \<rparr>"

subsection \<open>Job ids\<close>

lemma assertBusinessKey_Inr: "assertBusinessKey key = Inr k \<Longrightarrow> k = key"
  by (auto simp: assertBusinessKey_def split: if_splits)

lemma replaceChar_simps [simp]:
  "replaceChar c r [] = []"
  "replaceChar c r (x # s) = (if x = c then r else [x]) @ replaceChar c r s"
  by (simp_all add: replaceChar_def)

definition job_id_char :: "char \<Rightarrow> string" where
  "job_id_char c = (if c = CHR ''%'' then ''%25'' else if c = CHR '':'' then ''%3A'' else [c])"

lemma job_id_chars:
  "replaceChar (CHR '':'') ''%3A'' (replaceChar (CHR ''%'') ''%25'' k) = concat (map job_id_char k)"
  by (induction k) (auto simp: job_id_char_def)

lemma job_id_no_colon: "CHR '':'' \<notin> set (concat (map job_id_char k))"
  by (induction k) (auto simp: job_id_char_def)

lemma job_id_inject: "concat (map job_id_char a) = concat (map job_id_char b) \<Longrightarrow> a = b"
proof (induction a arbitrary: b)
  case Nil
  then show ?case by (cases b) (auto simp: job_id_char_def split: if_splits)
next
  case (Cons x a)
  then obtain y b' where "b = y # b'" by (cases b) (auto simp: job_id_char_def split: if_splits)
  with Cons show ?case by (auto simp: job_id_char_def split: if_splits)
qed

text \<open>Two business keys with the same job id are the same key, and no job id has a colon, which the
  queue library does not accept in an id.\<close>

lemma job_ids_distinct:
  assumes "toJobId a = Inr i" "toJobId b = Inr i"
  shows "a = b \<and> CHR '':'' \<notin> set i"
  using assms job_id_inject [of a b] job_id_no_colon
  by (auto simp: toJobId_def job_id_chars split: sum.splits dest!: assertBusinessKey_Inr)

subsection \<open>One process runs an effect once\<close>

text \<open>
  The actions of one process that stays up and whose store records every result handed to it. Reads
  may fail.
\<close>

fun of_process :: "nat \<Rightarrow> 'v idemAction \<Rightarrow> bool" where
  "of_process p (Call q _) \<longleftrightarrow> q = p"
| "of_process p (Store_answers q _) \<longleftrightarrow> q = p"
| "of_process p (Effect_ends q _ _) \<longleftrightarrow> q = p"
| "of_process p (Recorded q _) \<longleftrightarrow> q = p"
| "of_process p (Read_fails q _) \<longleftrightarrow> q = p"
| "of_process p (Write_fails _ _ _) \<longleftrightarrow> False"
| "of_process p (Dies _) \<longleftrightarrow> False"
| "of_process p (Passes _) \<longleftrightarrow> True"

text \<open>What a store of results owes its client: \<open>live s t k\<close> is what it would answer at \<open>t\<close>.\<close>

locale result_store =
  fixes get :: "'s \<Rightarrow> int \<Rightarrow> string \<Rightarrow> 'r option \<times> 's"
    and put :: "'s \<Rightarrow> int \<Rightarrow> string \<Rightarrow> 'r \<Rightarrow> int \<Rightarrow> 's"
    and live :: "'s \<Rightarrow> int \<Rightarrow> string \<Rightarrow> 'r option"
  assumes get_live: "fst (get s now k) = live s now k"
    and live_get: "now \<le> t \<Longrightarrow> live (snd (get s now j)) t k = live s t k"
    and live_put_same: "t < now + ttl * 1000 \<Longrightarrow> live (put s now k v ttl) t k = Some v"
    and live_put_other: "k \<noteq> j \<Longrightarrow> live (put s now j v ttl) t k = live s t k"
begin

definition env_ok :: "('s, 'r, 'v) idemEnv \<Rightarrow> bool" where
  "env_ok env \<longleftrightarrow> ie_get env = get \<and> ie_set env = put \<and>
     (\<forall>v. ie_reviveRecord env (ie_stringify env v) = Some v) \<and> (\<forall>v u. ie_decode env v = Some u \<longrightarrow> u = v)"

text \<open>
  What holds of a key \<open>k\<close> until \<open>stop\<close> in a world with one process. Before its effect has completed
  nothing is recorded; after, the owner is about to record the result, or it is recorded.
\<close>

definition effects_of :: "string \<Rightarrow> ('s, 'v) idemWorld \<Rightarrow> 'v list" where
  "effects_of k w = map snd (filter (\<lambda>e. fst e = k) (iw_effects w))"

definition recording :: "nat \<Rightarrow> string \<Rightarrow> ('s, 'v) idemWorld \<Rightarrow> 'v option" where
  "recording p k w = (case iw_inFlight w p k of Some (Recording v, _) \<Rightarrow> Some v | _ \<Rightarrow> None)"

definition remembers :: "int \<Rightarrow> string \<Rightarrow> 'r option \<Rightarrow> ('s, 'v) idemWorld \<Rightarrow> bool" where
  "remembers stop k r w \<longleftrightarrow> (\<forall>t. iw_now w \<le> t \<longrightarrow> t < stop \<longrightarrow> live (iw_store w) t k = r)"

definition answered :: "string \<Rightarrow> ('s, 'v) idemWorld \<Rightarrow> 'v set" where
  "answered k w = {v. (k, Some v) \<in> set (iw_answers w)}"

definition once :: "('s, 'r, 'v) idemEnv \<Rightarrow> nat \<Rightarrow> string \<Rightarrow> int \<Rightarrow> ('s, 'v) idemWorld \<Rightarrow> bool" where
  "once env p k stop w \<longleftrightarrow>
     (effects_of k w = [] \<and> answered k w = {} \<and> recording p k w = None \<and> remembers stop k None w) \<or>
     (\<exists>v. effects_of k w = [v] \<and> answered k w \<subseteq> {v} \<and> recording p k w = Some v) \<or>
     (\<exists>v. effects_of k w = [v] \<and> answered k w \<subseteq> {v} \<and> recording p k w = None \<and>
        remembers stop k (Some (ie_stringify env v)) w \<and> (\<forall>n. iw_inFlight w p k \<noteq> Some (Performing, n)))"

lemmas once_parts = effects_of_def recording_def remembers_def answered_def

lemma now_mono: "iw_now w \<le> iw_now (idempotent env a w)"
  by (cases a) (auto simp: Let_def setFlight_def settle_def countReplay_def
    split: sum.splits option.splits prod.splits phase.splits)

lemma once_idle: "(\<And>t. now \<le> t \<Longrightarrow> t < stop \<Longrightarrow> live s t k = None) \<Longrightarrow> once env p k stop (idle s now)"
  by (simp add: once_def once_parts idle_def)

lemma once_Call: "once env p k stop w \<Longrightarrow> once env p k stop (idempotent env (Call p key) w)"
  by (auto simp: once_def once_parts Let_def setFlight_def countReplay_def
    split: sum.splits option.splits prod.splits phase.splits)

lemma once_Passes: "once env p k stop w \<Longrightarrow> once env p k stop (idempotent env (Passes ms) w)"
  by (auto simp: once_def once_parts)

lemma once_Effect: "once env p k stop w \<Longrightarrow> once env p k stop (idempotent env (Effect_ends p j v) w)"
  by (auto simp: once_def once_parts setFlight_def settle_def split: option.splits prod.splits phase.splits)

lemma once_Read_fails: "once env p k stop w \<Longrightarrow> once env p k stop (idempotent env (Read_fails p j) w)"
  by (auto simp: once_def once_parts setFlight_def settle_def split: option.splits prod.splits phase.splits)

lemma once_frame:
  assumes "once env p k stop w" "effects_of k w' = effects_of k w" "answered k w' = answered k w"
    and "iw_inFlight w' p k = iw_inFlight w p k" "iw_now w' = iw_now w"
    and "\<And>t. iw_now w \<le> t \<Longrightarrow> live (iw_store w') t k = live (iw_store w) t k"
  shows "once env p k stop w'"
  using assms by (simp add: once_def remembers_def recording_def)

lemma other_key:
  assumes "j \<noteq> k" and "a = Store_answers p j \<or> a = Recorded p j"
  shows "effects_of k (idempotent env a w) = effects_of k w" "answered k (idempotent env a w) = answered k w"
    "iw_inFlight (idempotent env a w) p k = iw_inFlight w p k" "iw_now (idempotent env a w) = iw_now w"
  using assms
  by (auto simp: Let_def effects_of_def answered_def setFlight_def settle_def countReplay_def
    split: option.splits prod.splits phase.splits)

lemma once_Store_other:
  assumes ok: "env_ok env" and inv: "once env p k stop w" and other: "j \<noteq> k"
  shows "once env p k stop (idempotent env (Store_answers p j) w)"
proof (rule once_frame [OF inv])
  have "iw_store (idempotent env (Store_answers p j) w) \<in> {iw_store w, snd (get (iw_store w) (iw_now w) j)}"
    using ok by (auto simp: Let_def env_ok_def setFlight_def settle_def countReplay_def
      split: option.splits prod.splits phase.splits)
  then show "live (iw_store (idempotent env (Store_answers p j) w)) t k = live (iw_store w) t k"
    if "iw_now w \<le> t" for t
    using live_get that by auto
qed (simp_all only: other_key [OF other disjI1 [OF refl]])

lemma once_Store_same:
  assumes ok: "env_ok env" and inv: "once env p k stop w" and now: "iw_now w < stop"
  shows "once env p k stop (idempotent env (Store_answers p k) w)"
proof (cases "\<exists>sharing. iw_inFlight w p k = Some (Reading, sharing)")
  case False
  then have "idempotent env (Store_answers p k) w = w" by (auto split: option.splits phase.splits)
  with inv show ?thesis by simp
next
  case True
  then obtain sharing where reading: "iw_inFlight w p k = Some (Reading, sharing)" by blast
  obtain r s where got: "get (iw_store w) (iw_now w) k = (r, s)" by fastforce
  have s: "live s t j = live (iw_store w) t j" if "iw_now w \<le> t" for t j
    using live_get [of "iw_now w" t "iw_store w" k j] got that by simp
  have r: "r = live (iw_store w) (iw_now w) k"
    using get_live [of "iw_store w" "iw_now w" k] got by simp
  have env: "ie_get env = get" "\<And>v. ie_reviveRecord env (ie_stringify env v) = Some v"
    "\<And>v u. ie_decode env v = Some u \<Longrightarrow> u = v" using ok by (auto simp: env_ok_def)
  from inv reading consider
    "effects_of k w = []" "answered k w = {}" "remembers stop k None w"
    | v where "effects_of k w = [v]" "answered k w \<subseteq> {v}" "remembers stop k (Some (ie_stringify env v)) w"
    by (auto simp: once_def recording_def)
  then show ?thesis
  proof cases
    case 1
    then have "r = None" using r now by (simp add: remembers_def)
    with 1 reading show ?thesis
      by (auto simp: once_def once_parts env got s setFlight_def)
  next
    case 2
    then have "r = Some (ie_stringify env v)" using r now by (simp add: remembers_def)
    with 2 reading show ?thesis
      by (auto simp: once_def once_parts env got s setFlight_def settle_def countReplay_def dest!: env(3))
  qed
qed

lemma once_Recorded:
  assumes ok: "env_ok env" and inv: "once env p k stop w" and ttl: "stop \<le> iw_now w + ie_ttlSeconds env * 1000"
  shows "once env p k stop (idempotent env (Recorded p j) w)"
proof (cases "j = k")
  case True
  have "live (put (iw_store w) (iw_now w) k v (ie_ttlSeconds env)) t k = Some v" if "t < stop" for t v
    by (rule live_put_same) (use that ttl in linarith)
  then show ?thesis using inv ok True
    by (auto simp: once_def once_parts env_ok_def setFlight_def settle_def countReplay_def
      split: option.splits prod.splits phase.splits)
next
  case False
  show ?thesis
  proof (rule once_frame [OF inv])
    have "iw_store (idempotent env (Recorded p j) w) = iw_store w \<or>
        (\<exists>v. iw_store (idempotent env (Recorded p j) w) = put (iw_store w) (iw_now w) j v (ie_ttlSeconds env))"
      using ok by (auto simp: env_ok_def setFlight_def settle_def countReplay_def
        split: option.splits prod.splits phase.splits)
    then show "live (iw_store (idempotent env (Recorded p j) w)) t k = live (iw_store w) t k" for t
      using live_put_other False by auto
  qed (simp_all only: other_key [OF False disjI2 [OF refl]])
qed

lemma once_step:
  assumes "env_ok env" "once env p k stop w" "of_process p a" "iw_now w < stop"
    and "stop \<le> iw_now w + ie_ttlSeconds env * 1000"
  shows "once env p k stop (idempotent env a w)"
proof (cases a)
  case (Store_answers q j)
  with assms show ?thesis by (cases "j = k") (simp_all only: of_process.simps once_Store_same once_Store_other not_False_eq_True)
qed (use assms in \<open>simp_all only: of_process.simps once_Call once_Effect once_Recorded once_Read_fails
  once_Passes\<close>)

theorem once_run:
  assumes "env_ok env" "\<And>t. now \<le> t \<Longrightarrow> t < stop \<Longrightarrow> live s t k = None" "list_all (of_process p) actions"
    and "stop = now + ie_ttlSeconds env * 1000" "iw_now (idempotent_run env actions (idle s now)) < stop"
  shows "once env p k stop (idempotent_run env actions (idle s now))
    \<and> now \<le> iw_now (idempotent_run env actions (idle s now))"
  using assms(3,5)
proof (induction actions rule: rev_induct)
  case Nil
  show ?case using once_idle [of now stop s k env p] assms(2) by (simp add: idempotent_run_def idle_def)
next
  case (snoc a actions)
  let ?w = "idempotent_run env actions (idle s now)"
  have w: "idempotent_run env (actions @ [a]) (idle s now) = idempotent env a ?w"
    by (simp add: idempotent_run_def)
  with snoc.prems have before: "iw_now ?w < stop" using now_mono [of ?w env a] by simp
  with snoc have inv: "once env p k stop ?w" "now \<le> iw_now ?w" by simp_all
  then show ?case
    using w snoc.prems(1) before assms(1,4) now_mono [of ?w env a]
    by (auto intro!: once_step)
qed

lemma once_effect:
  assumes "once env p k stop w"
  shows "length (effects_of k w) \<le> 1 \<and> answered k w \<subseteq> set (effects_of k w)"
  using assms by (auto simp: once_def)

end

text \<open>The store of a single process keeps the contract.\<close>

definition memoryLive :: "'r memoryStore \<Rightarrow> int \<Rightarrow> string \<Rightarrow> 'r option" where
  "memoryLive entries now key =
     (case entries key of Some (value, expiresAtMs) \<Rightarrow> if now < expiresAtMs then Some value else None | None \<Rightarrow> None)"

interpretation memory: result_store memoryGet memorySet memoryLive
  by unfold_locales (auto simp: memoryGet_def memorySet_def memoryLive_def split: option.splits)

text \<open>C26: In a process that stays up and whose store records every result handed to it, an effect completes
  at most once per key, however calls overlap and reads fail, and every call that is answered gets the
  result of that completion. The window is one life of a record from the start of the process: within
  it no record can have expired. Results must survive the round trip through JSON and the decoder.\<close>

theorem effect_once_per_process:
  assumes "\<And>v. reviveRecord (stringify v) = Some v" "\<And>v u. decode v = Some u \<Longrightarrow> u = v"
    and "list_all (of_process p) actions"
    and "w = idempotent_run (memoryIdem stringify reviveRecord decode ttlSeconds) actions (idle (\<lambda>_. None) now)"
    and "iw_now w < now + ttlSeconds * 1000"
  shows "length (filter (\<lambda>e. fst e = k) (iw_effects w)) \<le> 1 \<and>
    ((k, Some v) \<in> set (iw_answers w) \<longrightarrow> (k, v) \<in> set (iw_effects w))"
proof -
  let ?env = "memoryIdem stringify reviveRecord decode ttlSeconds"
  have ok: "memory.env_ok ?env" using assms(1,2) by (simp add: memory.env_ok_def memoryIdem_def)
  have "memory.once ?env p k (now + ttlSeconds * 1000) w"
    unfolding assms(4)
  proof (rule memory.once_run [THEN conjunct1, OF ok _ assms(3)])
    show "iw_now (idempotent_run ?env actions (idle (\<lambda>_. None) now)) < now + ttlSeconds * 1000"
      using assms(5) unfolding assms(4) .
  qed (simp_all add: memoryLive_def memoryIdem_def)
  from memory.once_effect [OF this] show ?thesis
    by (auto simp: memory.effects_of_def memory.answered_def)
qed

lemma effect_once_per_process_witness:
  "\<exists>w. w = idempotent_run (memoryIdem id Some Some 10) [Call 0 ''k'', Call 0 ''k'', Store_answers 0 ''assaybank:idem:k'',
      Effect_ends 0 ''assaybank:idem:k'' (Some ''done''), Recorded 0 ''assaybank:idem:k'', Passes 9999, Call 0 ''k'',
      Store_answers 0 ''assaybank:idem:k''] (idle (\<lambda>_. None) 5) \<and>
    iw_answers w = replicate 3 (''assaybank:idem:k'', Some ''done'') \<and>
    length (filter (\<lambda>e. fst e = ''assaybank:idem:k'') (iw_effects w)) \<le> 1"
proof -
  let ?k = "''assaybank:idem:k''"
  let ?actions = "[Call 0 ''k'', Call 0 ''k'', Store_answers 0 ?k, Effect_ends 0 ?k (Some ''done''), Recorded 0 ?k,
    Passes 9999, Call 0 ''k'', Store_answers 0 ?k]"
  let ?w = "idempotent_run (memoryIdem id Some Some 10) ?actions (idle (\<lambda>_. None) 5)"
  have key: "assertBusinessKey ''k'' = Inr ''k''"
    by (simp add: assertBusinessKey_def MAX_IDEMPOTENCY_KEY_CHARS_def string_simps)
  have w: "iw_answers ?w = replicate 3 (?k, Some ''done'')" "iw_now ?w = 10004"
    by (simp_all add: Let_def idempotent_run_def idle_def memoryIdem_def key IDEMPOTENCY_KEY_PREFIX_def memoryGet_def
      memorySet_def setFlight_def settle_def countReplay_def numeral_eq_Suc)
  have "length (filter (\<lambda>e. fst e = ?k) (iw_effects ?w)) \<le> 1"
    using effect_once_per_process [of Some id Some 0 ?actions ?w 10 5 ?k] w(2) by simp
  with w(1) show ?thesis by blast
qed

text \<open>C27: Two processes over the shared store can both complete the effect of a key, as when a stalled job
  is delivered a second time while the first delivery still runs, and their two callers are given the
  two results. So a key guarantees one execution within a process and not across the replicas.\<close>

theorem replicas_repeat_effect:
  fixes p q :: nat
  assumes "assertBusinessKey key = Inr key" "k = IDEMPOTENCY_KEY_PREFIX @ key" "p \<noteq> q"
    and "client_get s now k = (None, s)"
  shows "\<exists>actions. iw_effects (idempotent_run (redisIdem client_get client_set stringify revive decode) actions
      (idle s now)) = [(k, v), (k, u)] \<and>
    iw_answers (idempotent_run (redisIdem client_get client_set stringify revive decode) actions
      (idle s now)) = [(k, Some v), (k, Some u)]"
  by (rule exI [of _ "[Call p key, Call q key, Store_answers p k, Store_answers q k, Effect_ends p k (Some v),
      Effect_ends q k (Some u), Recorded p k, Recorded q k]"])
    (use assms in \<open>simp add: Let_def idempotent_run_def idle_def redisIdem_def setFlight_def settle_def countReplay_def\<close>)

lemma replicas_repeat_effect_witness:
  "\<exists>actions. iw_effects (idempotent_run (redisIdem memoryGet memorySet id Some Some) actions (idle (\<lambda>_. None) 0))
    = [(''assaybank:idem:k'', ''a''), (''assaybank:idem:k'', ''b'')]"
proof -
  have "assertBusinessKey ''k'' = Inr ''k''"
    by (simp add: assertBusinessKey_def MAX_IDEMPOTENCY_KEY_CHARS_def string_simps)
  from replicas_repeat_effect [OF this refl zero_neq_one, of memoryGet "\<lambda>_. None" 0 memorySet id Some Some "''a''" "''b''"]
  show ?thesis by (auto simp: memoryGet_def IDEMPOTENCY_KEY_PREFIX_def)
qed

end
