(* ===== verification/Worker_Queue.thy ===== *)
theory Worker_Queue
  imports Js_Number Job_Key
begin

text \<open>
  The queues of the worker (\<open>apps/worker/src/queue-names.ts\<close>, \<open>queues.ts\<close>, \<open>dlq.ts\<close>, \<open>metrics.ts\<close>): the
  registry with the policy of each queue, the delay before a retry, the class of a failure, and what
  becomes of a job that has used its last attempt. Consequences and notes of the registry, written
  for people, are left out, and so is the queue library: adding to a queue is an argument.
\<close>

subsection \<open>Names\<close>

datatype queueName = Q_run | Q_submit | Q_webhooks | Q_email | Q_bank | Q_cron

fun queueText :: "queueName \<Rightarrow> string" where
  "queueText Q_run = ''grading.run''"
| "queueText Q_submit = ''grading.submit''"
| "queueText Q_webhooks = ''webhooks.deliver''"
| "queueText Q_email = ''notifications.email''"
| "queueText Q_bank = ''bank.jobs''"
| "queueText Q_cron = ''maintenance.cron''"

definition QUEUE_NAMES :: "queueName list" where
  "QUEUE_NAMES = [Q_run, Q_submit, Q_webhooks, Q_email, Q_bank, Q_cron]"

datatype queuePriority = Interactive | Batch
datatype queueTier = High_tier | Normal_tier | Low_tier

fun QUEUE_PRIORITY :: "queueName \<Rightarrow> queuePriority" where
  "QUEUE_PRIORITY Q_run = Interactive"
| "QUEUE_PRIORITY _ = Batch"

definition DLQ_SUFFIX :: string where
  "DLQ_SUFFIX = ''.dlq''"

definition deadLetterQueueName :: "queueName \<Rightarrow> string" where
  "deadLetterQueueName name = queueText name @ DLQ_SUFFIX"

definition DEAD_LETTER_QUEUE_NAMES :: "string list" where
  "DEAD_LETTER_QUEUE_NAMES = map deadLetterQueueName QUEUE_NAMES"

definition isQueueName :: "string \<Rightarrow> bool" where
  "isQueueName value \<longleftrightarrow> value \<in> set (map queueText QUEUE_NAMES)"

subsection \<open>The registry\<close>

record queuesConfig =
  qc_runConcurrency :: jsnum
  qc_submitConcurrency :: jsnum
  qc_maxAttempts :: jsnum
  qc_backoffMs :: jsnum

datatype backoffSpec = Exponential "queuesConfig \<Rightarrow> jsnum" jsnum | Schedule "jsnum list" jsnum

definition WEBHOOK_DELIVERY_ATTEMPTS :: jsnum where
  "WEBHOOK_DELIVERY_ATTEMPTS = Fin 8"

definition WEBHOOK_BACKOFF_SCHEDULE_MS :: "jsnum list" where
  "WEBHOOK_BACKOFF_SCHEDULE_MS =
     [Fin 10000, Fin 60000, Fin 300000, Fin 1800000, Fin 7200000, Fin 21600000, Fin 43200000]"

definition WEBHOOK_RETRY_WINDOW_MS :: jsnum where
  "WEBHOOK_RETRY_WINDOW_MS = Fin 86400000"

definition JITTER_RATIO :: jsnum where
  "JITTER_RATIO = dbl (1/5)"

definition GRADING_RUN_MAX_ATTEMPTS :: jsnum where
  "GRADING_RUN_MAX_ATTEMPTS = Fin 2"

definition BANK_JOB_ATTEMPTS :: jsnum where
  "BANK_JOB_ATTEMPTS = Fin 2"

definition MAINTENANCE_ATTEMPTS :: jsnum where
  "MAINTENANCE_ATTEMPTS = Fin 1"

definition MAINTENANCE_CONCURRENCY :: jsnum where
  "MAINTENANCE_CONCURRENCY = Fin 1"

definition SCHEDULE_BACKOFF_TYPE :: string where
  "SCHEDULE_BACKOFF_TYPE = ''assaybank.schedule''"

record queueSpec =
  qs_name :: queueName
  qs_priority :: queuePriority
  qs_tier :: queueTier
  qs_concurrency :: "queuesConfig \<Rightarrow> jsnum"
  qs_attempts :: "queuesConfig \<Rightarrow> jsnum"
  qs_backoff :: backoffSpec
  qs_deadLetter :: string
  qs_jobIdKey :: string

definition doubling :: backoffSpec where
  "doubling = Exponential qc_backoffMs JITTER_RATIO"

fun QUEUES :: "queueName \<Rightarrow> queueSpec" where
  "QUEUES Q_run = \<lparr> qs_name = Q_run, qs_priority = Interactive, qs_tier = High_tier,
     qs_concurrency = qc_runConcurrency,
     qs_attempts = (\<lambda>queues. js_min GRADING_RUN_MAX_ATTEMPTS (qc_maxAttempts queues)),
     qs_backoff = doubling, qs_deadLetter = deadLetterQueueName Q_run, qs_jobIdKey = ''submission_id'' \<rparr>"
| "QUEUES Q_submit = \<lparr> qs_name = Q_submit, qs_priority = Batch, qs_tier = Normal_tier,
     qs_concurrency = qc_submitConcurrency, qs_attempts = qc_maxAttempts,
     qs_backoff = doubling, qs_deadLetter = deadLetterQueueName Q_submit, qs_jobIdKey = ''submission_id'' \<rparr>"
| "QUEUES Q_webhooks = \<lparr> qs_name = Q_webhooks, qs_priority = Batch, qs_tier = Normal_tier,
     qs_concurrency = qc_submitConcurrency, qs_attempts = (\<lambda>_. WEBHOOK_DELIVERY_ATTEMPTS),
     qs_backoff = Schedule WEBHOOK_BACKOFF_SCHEDULE_MS JITTER_RATIO,
     qs_deadLetter = deadLetterQueueName Q_webhooks, qs_jobIdKey = ''delivery_id'' \<rparr>"
| "QUEUES Q_email = \<lparr> qs_name = Q_email, qs_priority = Batch, qs_tier = Normal_tier,
     qs_concurrency = qc_submitConcurrency, qs_attempts = qc_maxAttempts,
     qs_backoff = doubling, qs_deadLetter = deadLetterQueueName Q_email, qs_jobIdKey = ''notification_id'' \<rparr>"
| "QUEUES Q_bank = \<lparr> qs_name = Q_bank, qs_priority = Batch, qs_tier = Low_tier,
     qs_concurrency = qc_submitConcurrency, qs_attempts = (\<lambda>_. BANK_JOB_ATTEMPTS),
     qs_backoff = doubling, qs_deadLetter = deadLetterQueueName Q_bank, qs_jobIdKey = ''job_id'' \<rparr>"
| "QUEUES Q_cron = \<lparr> qs_name = Q_cron, qs_priority = Batch, qs_tier = Low_tier,
     qs_concurrency = (\<lambda>_. MAINTENANCE_CONCURRENCY), qs_attempts = (\<lambda>_. MAINTENANCE_ATTEMPTS),
     qs_backoff = doubling, qs_deadLetter = deadLetterQueueName Q_cron,
     qs_jobIdKey = ''job_key:scheduled_for'' \<rparr>"

definition resolveConcurrency :: "queueName \<Rightarrow> queuesConfig \<Rightarrow> jsnum" where
  "resolveConcurrency name queues = qs_concurrency (QUEUES name) queues"

definition resolveAttempts :: "queueName \<Rightarrow> queuesConfig \<Rightarrow> jsnum" where
  "resolveAttempts name queues = qs_attempts (QUEUES name) queues"

subsection \<open>The delay before a retry\<close>

text \<open>\<open>Math.round\<close>, and \<open>Math.pow(2, x)\<close> for a whole \<open>x\<close>.\<close>

fun js_round :: "jsnum \<Rightarrow> jsnum" where
  "js_round (Fin r) = js_int \<lfloor>r + 1/2\<rfloor>"
| "js_round x = x"

fun js_pow2 :: "jsnum \<Rightarrow> jsnum" where
  "js_pow2 (Fin r) = dbl (2 powi \<lfloor>r\<rfloor>)"
| "js_pow2 NInf = Fin 0"
| "js_pow2 x = x"

text \<open>An index that names no element reads as the last one.\<close>

definition scheduledDelay :: "jsnum list \<Rightarrow> jsnum \<Rightarrow> jsnum" where
  "scheduledDelay delaysMs attempt =
     (if delaysMs = [] then Fin 0
      else
        case js_min (js_sub attempt (Fin 1)) (js_int (int (length delaysMs) - 1)) of
          Fin index \<Rightarrow>
            if 0 \<le> index \<and> index \<in> \<int> \<and> nat \<lfloor>index\<rfloor> < length delaysMs then delaysMs ! nat \<lfloor>index\<rfloor>
            else last delaysMs
        | _ \<Rightarrow> last delaysMs)"

definition applyJitter :: "jsnum \<Rightarrow> jsnum \<Rightarrow> jsnum \<Rightarrow> jsnum" where
  "applyJitter nominal ratio random =
     (if js_le ratio (Fin 0) then js_max (Fin 0) (js_round nominal)
      else
        let factor = js_add (Fin 1) (js_mul ratio (js_sub (js_mul (Fin 2) random) (Fin 1))) in
        js_max (Fin 0) (js_round (js_mul nominal factor)))"

definition backoffDelayMs :: "backoffSpec \<Rightarrow> jsnum \<Rightarrow> queuesConfig \<Rightarrow> jsnum \<Rightarrow> jsnum" where
  "backoffDelayMs spec attemptsMade queues random =
     (let attempt = (if isFinite attemptsMade \<and> js_lt (Fin 0) attemptsMade then js_floor attemptsMade else Fin 1) in
      case spec of
        Exponential baseDelayMs ratio \<Rightarrow>
          applyJitter (js_mul (baseDelayMs queues) (js_pow2 (js_sub attempt (Fin 1)))) ratio random
      | Schedule delaysMs ratio \<Rightarrow> applyJitter (scheduledDelay delaysMs attempt) ratio random)"

datatype backoffOptions = Native_exponential jsnum jsnum | Custom_strategy string jsnum

definition backoffOptions :: "queueName \<Rightarrow> queuesConfig \<Rightarrow> backoffOptions" where
  "backoffOptions name queues =
     (case qs_backoff (QUEUES name) of
        Exponential baseDelayMs ratio \<Rightarrow> Native_exponential (baseDelayMs queues) ratio
      | Schedule delaysMs ratio \<Rightarrow>
          Custom_strategy SCHEDULE_BACKOFF_TYPE (case delaysMs of [] \<Rightarrow> Fin 0 | d # _ \<Rightarrow> d))"

record jobsOptions =
  jo_attempts :: jsnum
  jo_backoff :: backoffOptions
  jo_removeOnComplete :: "jsnum \<times> jsnum"
  jo_removeOnFail :: bool

definition defaultJobOptions :: "queueName \<Rightarrow> queuesConfig \<Rightarrow> jobsOptions" where
  "defaultJobOptions name queues = \<lparr> jo_attempts = resolveAttempts name queues,
     jo_backoff = backoffOptions name queues, jo_removeOnComplete = (Fin 3600, Fin 1000),
     jo_removeOnFail = False \<rparr>"

subsection \<open>Failures\<close>

datatype failureReason = Exec_unavailable | Timeout | Db_error | Validation | Unknown_failure

text \<open>What a handler throws: an \<open>Error\<close> with name, message and perhaps a code, a string, or something else.\<close>

datatype jobError = Js_error string string "string option" | Js_string string | Js_other

definition readErrorCode :: "string option \<Rightarrow> string" where
  "readErrorCode code = (case code of None \<Rightarrow> [] | Some c \<Rightarrow> toLowerCase c)"

fun classifyFailure :: "jobError \<Rightarrow> failureReason" where
  "classifyFailure (Js_error n m c) =
     (let name = toLowerCase n; haystack = name @ '' '' @ toLowerCase m @ '' '' @ readErrorCode c;
          includes = list_ex (\<lambda>w. sublist w haystack) in
      if name = ''zoderror'' \<or> includes [''validation'', ''invalid''] then Validation
      else if name = ''aborterror'' \<or> name = ''timeouterror'' \<or> includes [''timeout'', ''etimedout''] then Timeout
      else if includes [''econnrefused'', ''enotfound'', ''eai_again'', ''piston'', ''exec''] then Exec_unavailable
      else if includes [''postgres'', ''database'', ''deadlock'', ''constraint'', ''econnreset''] then Db_error
      else Unknown_failure)"
| "classifyFailure _ = Unknown_failure"

definition MAX_FAILED_REASON_CHARS :: nat where
  "MAX_FAILED_REASON_CHARS = 512"

text \<open>The bounded text, and whether the mark of a cut follows it.\<close>

definition truncateReason :: "jobError \<Rightarrow> string \<times> bool" where
  "truncateReason err =
     (let raw = (case err of Js_error n m _ \<Rightarrow> n @ '': '' @ m | Js_string s \<Rightarrow> s | Js_other \<Rightarrow> ''non-error thrown'') in
      if length raw \<le> MAX_FAILED_REASON_CHARS then (raw, False) else (take MAX_FAILED_REASON_CHARS raw, True))"

subsection \<open>Dead letters\<close>

datatype deadLetterReason = Attempts_exhausted | Unrecoverable

datatype deadLetterDecision = Retry jsnum jsnum | Dead_letter deadLetterReason string

definition deadLetterDecision :: "queueName \<Rightarrow> jsnum \<Rightarrow> jsnum \<Rightarrow> bool \<Rightarrow> deadLetterDecision" where
  "deadLetterDecision queue made maxAttempts unrecoverable =
     (if unrecoverable then Dead_letter Unrecoverable (deadLetterQueueName queue)
      else
        let attemptsMade = (if isFinite made then made else Fin 0);
            budget = (if isFinite maxAttempts \<and> js_lt (Fin 0) maxAttempts then maxAttempts else Fin 1) in
        if js_lt attemptsMade (Fin 1) \<or> js_le budget attemptsMade
        then Dead_letter Attempts_exhausted (deadLetterQueueName queue)
        else Retry (js_add attemptsMade (Fin 1)) (js_sub budget attemptsMade))"

record 'd failedJob =
  fj_id :: "string option"
  fj_name :: string
  fj_data :: 'd
  fj_attemptsMade :: jsnum

record 'd deadLetterEnvelope =
  de_queue :: queueName
  de_jobId :: string
  de_jobName :: string
  de_data :: "'d option"
  de_attemptsMade :: jsnum
  de_reason :: deadLetterReason
  de_failureClass :: failureReason
  de_failedReason :: "string \<times> bool"
  de_failedAt :: string
  de_traceId :: "string option"

definition deadLetterEnvelope ::
  "queueName \<Rightarrow> string option \<Rightarrow> string \<Rightarrow> 'd option \<Rightarrow> jsnum \<Rightarrow> deadLetterReason \<Rightarrow> failureReason \<Rightarrow> jobError \<Rightarrow>
    string option \<Rightarrow> string \<Rightarrow> 'd deadLetterEnvelope" where
  "deadLetterEnvelope queue jobId jobName data made reason failureClass err traceId now =
     \<lparr> de_queue = queue, de_jobId = (case jobId of None \<Rightarrow> ''unknown:'' @ now | Some i \<Rightarrow> i), de_jobName = jobName,
       de_data = data, de_attemptsMade = made, de_reason = reason, de_failureClass = failureClass,
       de_failedReason = truncateReason err, de_failedAt = now, de_traceId = traceId \<rparr>"

text \<open>What an operator can see: the retries and alarms counted, the letters in the dead-letter queue,
  and those of which only a log line remains.\<close>

record 'd failureBoard =
  fb_retried :: "(queueName \<times> string \<times> jsnum) list"
  fb_alarms :: "(queueName \<times> string \<times> failureReason) list"
  fb_letters :: "'d deadLetterEnvelope list"
  fb_logged :: "'d deadLetterEnvelope list"

text \<open>\<open>send\<close> adds to the dead-letter queue; \<open>None\<close> is an error. The job may be missing.\<close>

definition handleJobFailure ::
  "('d deadLetterEnvelope \<Rightarrow> 'd deadLetterEnvelope list \<Rightarrow> 'd deadLetterEnvelope list option) \<Rightarrow> queueName \<Rightarrow> jsnum \<Rightarrow>
    'd failedJob option \<Rightarrow> jobError \<Rightarrow> bool \<Rightarrow> string option \<Rightarrow> string \<Rightarrow> 'd failureBoard \<Rightarrow>
    deadLetterDecision \<times> 'd failureBoard" where
  "handleJobFailure send queue maxAttempts job err unrecoverable traceId now board =
     (let jobName = (case job of None \<Rightarrow> ''unknown'' | Some j \<Rightarrow> fj_name j);
          failureClass = classifyFailure err;
          decision = deadLetterDecision queue (case job of None \<Rightarrow> NaN | Some j \<Rightarrow> fj_attemptsMade j) maxAttempts
            unrecoverable in
      case decision of
        Retry nextAttempt _ \<Rightarrow>
          (decision, board\<lparr> fb_retried := fb_retried board @ [(queue, jobName, nextAttempt)] \<rparr>)
      | Dead_letter reason _ \<Rightarrow>
          let envelope = deadLetterEnvelope queue (Option.bind job fj_id) jobName (map_option fj_data job)
                (case job of None \<Rightarrow> Fin 0 | Some j \<Rightarrow> fj_attemptsMade j) reason failureClass err traceId now;
              alarmed = board\<lparr> fb_alarms := fb_alarms board @ [(queue, jobName, failureClass)] \<rparr> in
          (case send envelope (fb_letters board) of
             Some letters \<Rightarrow> (decision, alarmed\<lparr> fb_letters := letters \<rparr>)
           | None \<Rightarrow> (decision, alarmed\<lparr> fb_logged := fb_logged board @ [envelope] \<rparr>)))"

text \<open>
  The attempts of one job that keeps failing: each fires the \<open>failed\<close> handler of \<open>createWorker\<close>, whose
  budget comes from the configuration \<open>worker\<close> of the process that runs it. \<open>again\<close> is the library's own
  rule for running the job another time, given the attempts made, the budget the job was added with,
  which comes from the configuration \<open>producer\<close> of the process that added it, and whether the error was
  unrecoverable. Every failure here is one of the handler's own: a job the library fails because it
  stalled fires \<open>failed\<close> without another attempt having been made, and is outside this function.
\<close>

fun failedAttempts ::
  "(jsnum \<Rightarrow> jsnum \<Rightarrow> bool \<Rightarrow> bool) \<Rightarrow>
    ('d deadLetterEnvelope \<Rightarrow> 'd deadLetterEnvelope list \<Rightarrow> 'd deadLetterEnvelope list option) \<Rightarrow> queueName \<Rightarrow>
    queuesConfig \<Rightarrow> queuesConfig \<Rightarrow> 'd failedJob \<Rightarrow> nat \<Rightarrow> (jobError \<times> bool \<times> string option \<times> string) list \<Rightarrow>
    'd failureBoard \<Rightarrow> 'd failureBoard" where
  "failedAttempts again send queue producer worker job made [] board = board"
| "failedAttempts again send queue producer worker job made ((err, unrecoverable, traceId, now) # rest) board =
     (let board = snd (handleJobFailure send queue (resolveAttempts queue worker)
            (Some (job\<lparr> fj_attemptsMade := js_int (int made) \<rparr>)) err unrecoverable traceId now board) in
      if again (js_int (int made)) (jo_attempts (defaultJobOptions queue producer)) unrecoverable
      then failedAttempts again send queue producer worker job (Suc made) rest board
      else board)"

subsection \<open>The letter of a failed job\<close>

lemma js_int_compare [simp]:
  "js_lt (js_int a) (js_int b) \<longleftrightarrow> a < b" "js_le (js_int a) (js_int b) \<longleftrightarrow> a \<le> b"
  "js_lt (Fin 0) (js_int b) \<longleftrightarrow> 0 < b" "js_lt (js_int a) (Fin 1) \<longleftrightarrow> a < 1" "isFinite (js_int a)"
  by (simp_all add: js_int_def)

lemma js_int_next: "0 \<le> a \<Longrightarrow> a < 2 ^ 53 \<Longrightarrow> js_add (js_int a) (Fin 1) = js_int (a + 1)"
  using is_double_js_int [of "a + 1"] by (simp add: js_int_def is_double_def)

lemma deadLetterDecision_retries:
  assumes "1 \<le> made" "made < budget" "int budget \<le> 2 ^ 53"
  shows "deadLetterDecision queue (js_int (int made)) (js_int (int budget)) False =
    Retry (js_int (int (Suc made))) (js_sub (js_int (int budget)) (js_int (int made)))"
  using assms js_int_next [of "int made"] by (simp add: deadLetterDecision_def Let_def add.commute)

lemma deadLetterDecision_gives_up:
  assumes "1 \<le> made" "1 \<le> budget" "unrecoverable \<or> budget \<le> made"
  shows "\<exists>reason. deadLetterDecision queue (js_int (int made)) (js_int (int budget)) unrecoverable =
    Dead_letter reason (deadLetterQueueName queue)"
  using assms by (auto simp: deadLetterDecision_def Let_def)

text \<open>The attempt after which a job that keeps failing is given up, \<open>made\<close> being the first to come.\<close>

definition last_attempt :: "nat \<Rightarrow> nat \<Rightarrow> (jobError \<times> bool \<times> string option \<times> string) list \<Rightarrow> nat" where
  "last_attempt made budget outcomes = min budget (made + length (takeWhile (\<lambda>(_, u, _). \<not> u) outcomes))"

text \<open>
  What is left of a job retried from attempt \<open>made\<close> up to attempt \<open>m\<close> and then given up: the retries
  counted, one alarm and the letter \<open>e\<close>, which has the job's id, name and data.
\<close>

definition given_up ::
  "queueName \<Rightarrow> 'd failedJob \<Rightarrow> nat \<Rightarrow> nat \<Rightarrow> 'd deadLetterEnvelope \<Rightarrow> 'd failureBoard \<Rightarrow> 'd failureBoard \<Rightarrow> bool" where
  "given_up queue job made m e board after \<longleftrightarrow>
     fb_retried after = fb_retried board @ map (\<lambda>k. (queue, fj_name job, js_int (int k))) [Suc made ..< Suc m] \<and>
     fb_alarms after = fb_alarms board @ [(queue, fj_name job, de_failureClass e)] \<and>
     fb_letters after = fb_letters board @ [e] \<and> fb_logged after = fb_logged board \<and>
     Some (de_jobId e) = fj_id job \<and> de_jobName e = fj_name job \<and> de_data e = Some (fj_data job) \<and>
     de_attemptsMade e = js_int (int m)"

lemma handleJobFailure_retries:
  assumes "1 \<le> made" "made < budget" "int budget \<le> 2 ^ 53"
  shows "snd (handleJobFailure send queue (js_int (int budget)) (Some (job\<lparr> fj_attemptsMade := js_int (int made) \<rparr>))
      err False traceId now board) =
    board\<lparr> fb_retried := fb_retried board @ [(queue, fj_name job, js_int (int (Suc made)))] \<rparr>"
  using deadLetterDecision_retries [OF assms] by (simp add: handleJobFailure_def Let_def)

lemma handleJobFailure_gives_up:
  assumes "1 \<le> made" "1 \<le> budget" "unrecoverable \<or> budget \<le> made" "fj_id job = Some i"
    and "\<And>e :: 'd deadLetterEnvelope. de_jobId e = i \<Longrightarrow> send e (fb_letters board) = Some (fb_letters board @ [e])"
  shows "\<exists>e. given_up queue job made made e board (snd (handleJobFailure send queue (js_int (int budget))
    (Some (job\<lparr> fj_attemptsMade := js_int (int made) \<rparr>)) err unrecoverable traceId now board))"
  using deadLetterDecision_gives_up [OF assms(1-3), of queue] assms(4,5)
  by (auto simp: handleJobFailure_def Let_def given_up_def deadLetterEnvelope_def)

lemma given_up_later:
  assumes "given_up queue job (Suc made) m e
      (board\<lparr> fb_retried := fb_retried board @ [(queue, fj_name job, js_int (int (Suc made)))] \<rparr>) after"
    and "Suc made \<le> m"
  shows "given_up queue job made m e board after"
  using assms upt_conv_Cons [of "Suc made" "Suc m"] by (simp add: given_up_def del: upt_Suc)

lemma failedAttempts_given_up:
  assumes again: "\<And>k n u. again k n u \<longleftrightarrow> js_lt k n \<and> \<not> u"
    and budgets: "resolveAttempts queue producer = resolveAttempts queue worker"
    and budget: "resolveAttempts queue worker = js_int (int n)" "1 \<le> n" "int n \<le> 2 ^ 53"
    and id: "fj_id (job :: 'd failedJob) = Some i"
    and sink: "\<And>e :: 'd deadLetterEnvelope. de_jobId e = i \<Longrightarrow> send e letters = Some (letters @ [e])"
  shows "1 \<le> made \<Longrightarrow> made \<le> n \<Longrightarrow> n < made + length outcomes \<Longrightarrow> fb_letters board = letters \<Longrightarrow>
    \<exists>e. given_up queue job made (last_attempt made n outcomes) e board
      (failedAttempts again send queue producer worker job made outcomes board)"
proof (induction outcomes arbitrary: made board)
  case Nil
  then show ?case by simp
next
  case (Cons outcome rest)
  obtain err u traceId now where outcome: "outcome = (err, u, traceId, now)" by (cases outcome)
  show ?case
  proof (cases "u \<or> n \<le> made")
    case True
    then have "last_attempt made n (outcome # rest) = made"
      using Cons.prems by (auto simp: last_attempt_def outcome)
    moreover have "\<not> again (js_int (int made)) (js_int (int n)) u" using True by (auto simp: again)
    ultimately show ?thesis
      using handleJobFailure_gives_up [OF Cons.prems(1) budget(2) True id, of send board queue err traceId now]
        sink Cons.prems(4)
      by (simp add: outcome budgets budget(1) defaultJobOptions_def Let_def)
  next
    case False
    let ?board = "board\<lparr> fb_retried := fb_retried board @ [(queue, fj_name job, js_int (int (Suc made)))] \<rparr>"
    from False have "last_attempt made n (outcome # rest) = last_attempt (Suc made) n rest"
      by (simp add: last_attempt_def outcome)
    moreover have "failedAttempts again send queue producer worker job made (outcome # rest) board =
        failedAttempts again send queue producer worker job (Suc made) rest ?board"
      using False handleJobFailure_retries [OF Cons.prems(1) _ budget(3), of send queue job err traceId now board]
      by (simp add: outcome again budgets budget(1) defaultJobOptions_def Let_def)
    moreover have "Suc made \<le> last_attempt (Suc made) n rest" using False by (simp add: last_attempt_def)
    ultimately show ?thesis
      using Cons.IH [of "Suc made" ?board] Cons.prems False given_up_later by fastforce
  qed
qed

text \<open>The configuration allows between one and twenty attempts.\<close>

lemma resolveAttempts_range:
  assumes "qc_maxAttempts queues = js_int (int k)" "1 \<le> k" "k \<le> 20"
  shows "\<exists>n. resolveAttempts queue queues = js_int (int n) \<and> 1 \<le> n \<and> n \<le> 20"
proof (cases queue)
  case Q_run
  have "js_min (Fin 2) (js_int (int k)) = js_int (int (min 2 k))"
    by (simp add: js_min_def js_int_def min_def)
  then show ?thesis
    using assms Q_run by (intro exI [of _ "min 2 k"]) (simp add: resolveAttempts_def GRADING_RUN_MAX_ATTEMPTS_def)
qed (use assms in \<open>force simp: resolveAttempts_def WEBHOOK_DELIVERY_ATTEMPTS_def BANK_JOB_ATTEMPTS_def
  MAINTENANCE_ATTEMPTS_def js_int_def intro: exI [of _ "1 :: nat"] exI [of _ "2 :: nat"] exI [of _ "8 :: nat"]\<close>)+

text \<open>C25: A job whose id has no colon, which every id a producer makes with \<open>toJobId\<close> is, and whose every
  attempt fails in its handler is retried up to its queue's budget or the first unrecoverable error,
  counting each retry, and then leaves one dead letter with its id, name and data unchanged, and one
  alarm. This holds when the process that added the job and the one that runs it resolve the same
  budget, when the library retries a job while attempts of that budget are left, and when the
  dead-letter queue accepts an id without a colon that it does not hold. The ids the library itself
  gives to the jobs of a scheduler are not made by \<open>toJobId\<close>, and they and jobs failed for stalling are
  outside.\<close>

theorem failed_job_leaves_letter:
  fixes job :: "'d failedJob"
  assumes "\<And>k n u. again k n u \<longleftrightarrow> js_lt k n \<and> \<not> u"
    and "\<And>(e :: 'd deadLetterEnvelope) ls. CHR '':'' \<notin> set (de_jobId e) \<Longrightarrow> de_jobId e \<notin> de_jobId ` set ls \<Longrightarrow>
      send e ls = Some (ls @ [e])"
    and "resolveAttempts queue producer = resolveAttempts queue worker"
    and "qc_maxAttempts worker = js_int (int k)" "1 \<le> k" "k \<le> 20"
    and "fj_id job = Some i" "CHR '':'' \<notin> set i" "i \<notin> de_jobId ` set (fb_letters board)"
    and "20 \<le> length outcomes"
  shows "\<exists>n e. resolveAttempts queue worker = js_int (int n) \<and> n \<le> 20 \<and>
    given_up queue job 1 (last_attempt 1 n outcomes) e board
      (failedAttempts again send queue producer worker job 1 outcomes board)"
proof -
  obtain n where n: "resolveAttempts queue worker = js_int (int n)" "1 \<le> n" "n \<le> 20"
    using resolveAttempts_range [OF assms(4-6)] by blast
  have "send e (fb_letters board) = Some (fb_letters board @ [e])" if "de_jobId e = i" for e
    using assms(2,8,9) that by blast
  moreover have "int n \<le> 2 ^ 53" "n < 1 + length outcomes" using n(3) assms(10) by simp_all
  ultimately show ?thesis
    using failedAttempts_given_up [OF assms(1,3) n(1,2) _ assms(7), of send "fb_letters board" 1 outcomes board] n
    by blast
qed

text \<open>The ids producers make have no colon.\<close>

lemma toJobId_no_colon: "toJobId key = Inr i \<Longrightarrow> CHR '':'' \<notin> set i"
  using job_id_no_colon by (auto simp: toJobId_def job_id_chars split: sum.splits)

definition clear_board :: "string failureBoard" where
  "clear_board = \<lparr> fb_retried = [], fb_alarms = [], fb_letters = [], fb_logged = [] \<rparr>"

definition mail_job :: "string failedJob" where
  "mail_job = \<lparr> fj_id = Some ''mail%3A7'', fj_name = ''invite'', fj_data = ''7'', fj_attemptsMade = Fin 0 \<rparr>"

definition three_attempts :: queuesConfig where
  "three_attempts = \<lparr> qc_runConcurrency = Fin 4, qc_submitConcurrency = Fin 4, qc_maxAttempts = js_int (int 3),
     qc_backoffMs = Fin 1000 \<rparr>"

definition queue_add :: "string deadLetterEnvelope \<Rightarrow> string deadLetterEnvelope list \<Rightarrow> string deadLetterEnvelope list option" where
  "queue_add e letters =
     (if CHR '':'' \<in> set (de_jobId e) then None
      else if de_jobId e \<in> de_jobId ` set letters then Some letters else Some (letters @ [e]))"

text \<open>The process that adds the job may be configured apart from the one that runs it.\<close>

definition three_attempts_slower :: queuesConfig where
  "three_attempts_slower = three_attempts\<lparr> qc_submitConcurrency := Fin 1, qc_backoffMs := Fin 5000 \<rparr>"

lemma failed_job_leaves_letter_witness:
  "\<exists>e. given_up Q_email mail_job 1 3 e clear_board (failedAttempts (\<lambda>k n u. js_lt k n \<and> \<not> u) queue_add Q_email
     three_attempts_slower three_attempts mail_job 1 (replicate 20 (Js_other, False, None, ''t'')) clear_board)"
proof -
  let ?outcomes = "replicate 20 (Js_other, False, None :: string option, ''t'')"
  have "toJobId ''mail:7'' = Inr ''mail%3A7''"
    by (simp add: toJobId_def assertBusinessKey_def MAX_IDEMPOTENCY_KEY_CHARS_def string_simps)
  then have key: "CHR '':'' \<notin> set ''mail%3A7''" by (rule toJobId_no_colon)
  obtain n e where n: "resolveAttempts Q_email three_attempts = js_int (int n)"
      and e: "given_up Q_email mail_job 1 (last_attempt 1 n ?outcomes) e clear_board
        (failedAttempts (\<lambda>k n u. js_lt k n \<and> \<not> u) queue_add Q_email three_attempts_slower three_attempts
          mail_job 1 ?outcomes clear_board)"
    using failed_job_leaves_letter [of "\<lambda>k n u. js_lt k n \<and> \<not> u" queue_add Q_email three_attempts_slower
        three_attempts 3 mail_job "''mail%3A7''" clear_board ?outcomes] key
    by (auto simp: three_attempts_def three_attempts_slower_def resolveAttempts_def mail_job_def clear_board_def
        queue_add_def)
  from n have "n = 3" by (simp add: resolveAttempts_def three_attempts_def js_int_def)
  then have "last_attempt 1 n ?outcomes = 3" by (simp add: last_attempt_def numeral_eq_Suc)
  with e show ?thesis by auto
qed

text \<open>C28: The failure of a job that can no longer be loaded is given the id \<open>unknown:\<close> followed by a time, which the
  queue library refuses: no dead letter is written, and only an alarm and a log line remain.\<close>

theorem orphan_letter_lost:
  assumes "\<And>(e :: 'd deadLetterEnvelope) ls. CHR '':'' \<in> set (de_jobId e) \<Longrightarrow> send e ls = None"
  shows "\<exists>e. snd (handleJobFailure send queue maxAttempts None err unrecoverable traceId now board) =
    board\<lparr> fb_alarms := fb_alarms board @ [(queue, ''unknown'', classifyFailure err)],
      fb_logged := fb_logged board @ [e] \<rparr>"
  using assms by (auto simp: handleJobFailure_def Let_def deadLetterDecision_def deadLetterEnvelope_def)

lemma orphan_letter_lost_witness:
  "\<exists>e. snd (handleJobFailure queue_add Q_submit (Fin 3) None (Js_string ''stalled'') False None
      ''2026-01-01T00:00:00.000Z'' clear_board) =
    clear_board\<lparr> fb_alarms := [(Q_submit, ''unknown'', Unknown_failure)], fb_logged := [e] \<rparr>"
  using orphan_letter_lost [of queue_add Q_submit "Fin 3" "Js_string ''stalled''" False None
    "''2026-01-01T00:00:00.000Z''" clear_board]
  by (simp add: queue_add_def) (simp add: clear_board_def)

end
