(* ===== verification/Scheduled_Job.thy ===== *)
theory Scheduled_Job
  imports Bank_Crossing Worker_Queue
begin

text \<open>
  The scheduled sweeps (\<open>apps/worker/src/jobs/scheduled.ts\<close>), the example job's key
  (\<open>jobs/example.ts\<close>) and the routing of the maintenance and bank queues in \<open>index.ts\<close>. A tick of a
  sweep is a call of \<open>idempotent\<close> with the key of the tick; its effect is \<open>scheduledEffect\<close>. An instant
  is its ISO text.
\<close>

datatype scheduledJobName =
  Deadline_sweep | Question_stats | Retention_erasure | Webhook_reaper | Proctor_media_deletion | Partition_roll

definition SCHEDULED_JOB_NAMES :: "scheduledJobName list" where
  "SCHEDULED_JOB_NAMES =
     [Deadline_sweep, Question_stats, Retention_erasure, Webhook_reaper, Proctor_media_deletion, Partition_roll]"

fun scheduledText :: "scheduledJobName \<Rightarrow> string" where
  "scheduledText Deadline_sweep = ''deadline-sweep''"
| "scheduledText Question_stats = ''question-stats''"
| "scheduledText Retention_erasure = ''retention-erasure''"
| "scheduledText Webhook_reaper = ''webhook-reaper''"
| "scheduledText Proctor_media_deletion = ''proctor-media-deletion''"
| "scheduledText Partition_roll = ''partition-roll''"

datatype cadence = Every jsnum | Cron string string

datatype milestone = M0 | M1 | M3 | M4

record scheduledJobSpec =
  sj_name :: scheduledJobName
  sj_cadence :: cadence
  sj_milestone :: milestone

fun SCHEDULED_JOBS :: "scheduledJobName \<Rightarrow> scheduledJobSpec" where
  "SCHEDULED_JOBS Deadline_sweep =
     \<lparr> sj_name = Deadline_sweep, sj_cadence = Every (Fin 60000), sj_milestone = M1 \<rparr>"
| "SCHEDULED_JOBS Question_stats =
     \<lparr> sj_name = Question_stats, sj_cadence = Cron ''30 2 * * *'' ''UTC'', sj_milestone = M0 \<rparr>"
| "SCHEDULED_JOBS Retention_erasure =
     \<lparr> sj_name = Retention_erasure, sj_cadence = Cron ''30 3 * * *'' ''UTC'', sj_milestone = M1 \<rparr>"
| "SCHEDULED_JOBS Webhook_reaper =
     \<lparr> sj_name = Webhook_reaper, sj_cadence = Every (Fin 300000), sj_milestone = M1 \<rparr>"
| "SCHEDULED_JOBS Proctor_media_deletion =
     \<lparr> sj_name = Proctor_media_deletion, sj_cadence = Cron ''0 * * * *'' ''UTC'', sj_milestone = M4 \<rparr>"
| "SCHEDULED_JOBS Partition_roll =
     \<lparr> sj_name = Partition_roll, sj_cadence = Cron ''0 1 * * *'' ''UTC'', sj_milestone = M3 \<rparr>"

text \<open>Narrowing a text to one of the names.\<close>

definition scheduledNamed :: "string \<Rightarrow> scheduledJobName option" where
  "scheduledNamed value = List.find (\<lambda>n. scheduledText n = value) SCHEDULED_JOB_NAMES"

definition isScheduledJobName :: "string \<Rightarrow> bool" where
  "isScheduledJobName value \<longleftrightarrow> scheduledNamed value \<noteq> None"

datatype repeatOptions = Repeat_every jsnum | Repeat_pattern string string

fun repeatOptionsFor :: "cadence \<Rightarrow> repeatOptions" where
  "repeatOptionsFor (Every ms) = Repeat_every ms"
| "repeatOptionsFor (Cron pattern tz) = Repeat_pattern pattern tz"

definition scheduledJobKey :: "scheduledJobName \<Rightarrow> string \<Rightarrow> string" where
  "scheduledJobKey name scheduledFor = scheduledText name @ '':'' @ scheduledFor"

record scheduledJobOutcome =
  so_job :: scheduledJobName
  so_ran :: bool
  so_scheduledFor :: string
  so_milestone :: milestone

text \<open>
  The effect of a tick. \<open>db\<close> is the database, if any, and \<open>runQuestionStats\<close> the one implemented sweep:
  the database it leaves and whether it returned.
\<close>

definition scheduledEffect ::
  "('db \<Rightarrow> 'db \<times> bool) \<Rightarrow> scheduledJobName \<Rightarrow> string \<Rightarrow> 'db option \<Rightarrow> 'db option \<times> scheduledJobOutcome option" where
  "scheduledEffect runQuestionStats name scheduledFor db =
     (let outcome = \<lparr> so_job = name, so_ran = False, so_scheduledFor = scheduledFor,
            so_milestone = sj_milestone (SCHEDULED_JOBS name) \<rparr> in
      case db of
        Some d \<Rightarrow>
          if name = Question_stats
          then let (d', returned) = runQuestionStats d in
            (Some d', if returned then Some (outcome\<lparr> so_ran := True \<rparr>) else None)
          else (db, Some outcome)
      | None \<Rightarrow> (None, Some outcome))"

definition EXAMPLE_JOB_NAME :: string where
  "EXAMPLE_JOB_NAME = ''example.noop''"

definition exampleJobKey :: "string \<Rightarrow> string" where
  "exampleJobKey tick = EXAMPLE_JOB_NAME @ '':'' @ tick"

text \<open>What the handler of a queue does with a job of a name; a name nobody handles is unrecoverable.\<close>

datatype jobRoute = Run_example | Run_scheduled scheduledJobName | Run_bank bool | Unrecoverable_name

definition maintenanceHandler :: "string \<Rightarrow> jobRoute" where
  "maintenanceHandler jobName =
     (if jobName = EXAMPLE_JOB_NAME then Run_example
      else case scheduledNamed jobName of Some name \<Rightarrow> Run_scheduled name | None \<Rightarrow> Unrecoverable_name)"

text \<open>The bank handler is told whether this is the last attempt.\<close>

definition bankHandler :: "queuesConfig \<Rightarrow> string \<Rightarrow> jsnum \<Rightarrow> jobRoute" where
  "bankHandler queues jobName attemptsMade =
     (if jobName \<noteq> BANK_JOB_NAME then Unrecoverable_name
      else Run_bank (js_le (resolveAttempts Q_bank queues) (js_add attemptsMade (Fin 1))))"

subsection \<open>Names and keys\<close>

lemma scheduledNamed_text [simp]: "scheduledNamed (scheduledText name) = Some name"
  by (cases name) (simp_all add: scheduledNamed_def SCHEDULED_JOB_NAMES_def)

lemma scheduledNamed_Some: "scheduledNamed value = Some name \<longleftrightarrow> value = scheduledText name"
proof
  assume "scheduledNamed value = Some name"
  then show "value = scheduledText name" by (auto simp: scheduledNamed_def find_Some_iff)
qed simp

lemma maintenance_routes_sweeps: "maintenanceHandler (scheduledText name) = Run_scheduled name"
  by (cases name) (simp_all add: maintenanceHandler_def EXAMPLE_JOB_NAME_def scheduledNamed_def SCHEDULED_JOB_NAMES_def)

lemma scheduledText_plain: "CHR '':'' \<notin> set (scheduledText name)" "\<not> list_ex is_ws (scheduledText name)"
  "length (scheduledText name) \<le> 22" "scheduledText name \<notin> {[], ''undefined'', ''null''}"
  by (cases name; simp add: string_simps)+

text \<open>Two ticks share a key only when they are the same sweep at the same instant.\<close>

lemma tick_keys_distinct:
  assumes "scheduledJobKey a t = scheduledJobKey b u"
  shows "a = b \<and> t = u"
proof -
  have "splitOn (CHR '':'') (scheduledJobKey n d) = scheduledText n # splitOn (CHR '':'') d" for n d
    using splitOn_append [of "CHR '':''" "scheduledText n" d] scheduledText_plain(1)
    by (simp add: scheduledJobKey_def)
  from this [of a t] this [of b u] have same: "scheduledText a = scheduledText b" using assms by simp
  then have "a = b" using scheduledNamed_text by (metis option.inject)
  with assms show ?thesis by (simp add: scheduledJobKey_def)
qed

text \<open>The ISO text of an instant makes a business key that is accepted.\<close>

lemma tick_key_accepted:
  assumes "length instant \<le> 400" "\<not> list_ex is_ws instant"
    and "\<not> list_ex (\<lambda>s. s = ''undefined'' \<or> s = ''null'') (splitOn (CHR '':'') instant)"
  shows "assertBusinessKey (scheduledJobKey name instant) = Inr (scheduledJobKey name instant)"
proof -
  have "splitOn (CHR '':'') (scheduledJobKey name instant) = scheduledText name # splitOn (CHR '':'') instant"
    using splitOn_append [of "CHR '':''" "scheduledText name" instant] scheduledText_plain(1) [of name]
    by (simp add: scheduledJobKey_def)
  moreover have "length (scheduledJobKey name instant) \<le> 512"
    using scheduledText_plain(3) [of name] assms(1) by (simp add: scheduledJobKey_def)
  moreover have "\<not> list_ex is_ws (scheduledJobKey name instant)"
    using scheduledText_plain(2) [of name] assms(2) by (simp add: scheduledJobKey_def string_simps)
  moreover have "scheduledJobKey name instant \<noteq> []" by (simp add: scheduledJobKey_def)
  ultimately show ?thesis
    using scheduledText_plain(4) [of name] assms(3)
    by (simp add: assertBusinessKey_def MAX_IDEMPOTENCY_KEY_CHARS_def)
qed

text \<open>Of the two attempts of a bank job the second is run as the last.\<close>

lemma bank_last_attempt:
  "bankHandler queues BANK_JOB_NAME (Fin 0) = Run_bank False"
  "bankHandler queues BANK_JOB_NAME (Fin 1) = Run_bank True"
  using js_int_next [of 0] js_int_next [of 1]
  by (simp_all add: bankHandler_def resolveAttempts_def BANK_JOB_ATTEMPTS_def js_int_def)

end
