(* ===== verification/Spec2Isabelle.thy ===== *)
theory Spec2Isabelle
  imports Attempt_State Question_Lifecycle Compose Mcq Answer_Compare Api_Gate Collab_Server
    Markdown_Block Bank_Exact Scheduled_Job
begin

text \<open>
  Assaybank, an assessment and interview platform: a verification library.

  The program is a monorepo. \<open>packages/core-domain\<close> holds the pure rules of an assessment,
  \<open>packages/grading\<close> the marking, \<open>packages/auth\<close> the signed credentials and the permission check.
  \<open>apps/api\<close> turns an invitation into an attempt token and issues tickets for interview sessions;
  \<open>apps/collab\<close> is the WebSocket server that admits ticket holders to one shared document per
  session. \<open>packages/db\<close> holds the tables, among them the question bank that the staff routes of the
  API write and every such change audits. The theories follow that structure, each over the ones it calls.

  \<^item> \<open>Prelude\<close>, \<open>Js_Number\<close>, \<open>Js_String\<close>: results as sums (\<open>result.ts\<close>), JavaScript maps and sets as
    lists in insertion order, IEEE doubles as rationals with an explicit rounding, the arithmetic and
    comparison of the language on them, stable sorting, and the string operations the sources use on
    Latin-1 code units. \<open>safe_machine\<close> is the interface of a lifecycle machine.
  \<^item> \<open>Domain_Error\<close>, \<open>Attempt_State\<close>, \<open>Question_Lifecycle\<close>: \<open>core-domain/src/errors.ts\<close>,
    \<open>attempt-state.ts\<close>, \<open>question-lifecycle.ts\<close> and \<open>kind-content.ts\<close>. Both machines interpret
    \<open>safe_machine\<close>; the lemmas show that the edge tables and the step functions agree, that runs
    are bounded, and which states can only be reached through review or grading.
  \<^item> \<open>Deadline\<close>, \<open>Draw\<close>, \<open>Compose\<close>: \<open>deadline.ts\<close>, \<open>shuffle.ts\<close>, \<open>draw.ts\<close>, \<open>compose.ts\<close>. Dates are
    optional milliseconds, durations doubles; the generator of a shuffle is an argument. The lemmas
    bound the rounding of a deadline, characterise a feasible draw, and show that the
    largest-remainder allocation hands out exactly the requested total.
  \<^item> \<open>Scoring\<close>, \<open>Mcq\<close>, \<open>Answer_Compare\<close>: \<open>grading/src/round.ts\<close>, \<open>aggregate.ts\<close>, \<open>mcq.ts\<close>,
    \<open>compare.ts\<close>, \<open>short-answer.ts\<close> and \<open>core-domain/src/skill-scores.ts\<close>, every sum and quotient
    in doubles. The lemmas bound scores, and show monotonicity and independence of formatting. The
    regular-expression engine is an argument.
  \<^item> \<open>Credentials\<close>, \<open>Single_Use\<close>, \<open>Redemption\<close>: \<open>packages/auth/src\<close> and
    \<open>apps/api/src/credentials\<close>. The keyed digest, base64url, JSON and the UUID format are the
    fields of the record \<open>platform\<close>, an argument of every operation; round trips assume of it only
    that it is lossless on the claims at hand (\<open>codec_ok\<close>). The contract of a single-use store is
    the locale \<open>single_use\<close>, interpreted on the store of the API and on that of the collaboration
    server. Redemptions of an invitation run concurrently as processes whose steps are the
    statements of the transaction; the row lock is the guard of the step \<open>lock\<close>.
  \<^item> \<open>Collab_Protocol\<close>, \<open>Collab_Rooms\<close>, \<open>Collab_Server\<close>: \<open>apps/collab/src/protocol.ts\<close>, \<open>rooms.ts\<close>,
    \<open>ticket-store.ts\<close>, \<open>server.ts\<close>. Bytes are 8-bit words; rooms are objects in a store, timers and
    connections hold their addresses, and the event loop is the transition system \<open>reachable\<close> whose
    events are the handlers of the server. The document library is the record \<open>yjs\<close>, the URL parser
    a function of the configuration.

  \<^item> \<open>Api_Errors\<close>, \<open>Api_Gate\<close>: \<open>apps/api/src/errors.ts\<close>, \<open>authorisation.ts\<close> and the route
    declarations. Every thrown value becomes an envelope with a declared code; a request reaches its
    handler only through the decision \<open>enforce\<close> takes on the authority the route declared, and the
    route report prints the declarations that are enforced.
  \<^item> \<open>Markdown_Url\<close>, \<open>Markdown_Inline\<close>, \<open>Markdown_Block\<close>: \<open>packages/markdown/src\<close>, the parser of
    question prompts. Strings are lists of 16-bit code units and each regular expression is a
    function that returns what the expression would match. The lemmas show that every destination
    resolves to a permitted scheme, that escaped text is literal, and that on two kinds of prompt the
    block loop does not end.
  \<^item> \<open>Question_Content\<close>, \<open>Question_View\<close>: \<open>packages/contracts/src/questions.ts\<close> and
    \<open>packages/db/src/version-content.ts\<close>: the record, input and stored shapes of a version,
    the merge of an edit over the version before, and the serialisers for authors and candidates.
  \<^item> \<open>Audit_Entry\<close>: \<open>packages/db/src/audit.ts\<close>: which entries are accepted and the row they become.
  \<^item> \<open>Question_Bank\<close>, \<open>Bank_Invariants\<close>, \<open>Question_Routes\<close>: \<open>packages/db/src/questions.ts\<close> over
    tables as lists of rows (unique keys, generated identifiers, numeric columns and cascades
    included), the invariants its operations keep, and \<open>apps/api/src/questions/routes.ts\<close> over it:
    each handler runs in one transaction with its audit row, and nothing is kept when it fails. What
    a writer may do to the bank is the locale \<open>bank_writer\<close>, interpreted on the handlers and, in
    \<open>Bank_Import\<close>, on the handlers together with the items an import writes.
  \<^item> \<open>Bank_Pages\<close>: \<open>packages/db/src/cursor.ts\<close> and the two lists of \<open>questions.ts\<close>. A page is a query of
    its own and may see another table; the lemmas show what following the cursors yields all the
    same, and that a search term is literal.
  \<^item> \<open>Bank_Item\<close>, \<open>Bank_Jobs\<close>, \<open>Bank_Import\<close>, \<open>Bank_Crossing\<close>, \<open>Bank_Exact\<close>: the exchange of banks between
    organisations, \<open>apps/worker/src/interchange\<close> (\<open>bank-item.ts\<close>, \<open>records.ts\<close>, \<open>bank-document.ts\<close>),
    \<open>apps/worker/src/jobs\<close> (\<open>bank-transfer.ts\<close>, \<open>bank-job.ts\<close>) and \<open>packages/db/src/bank-jobs.ts\<close>. Each item is
    one transaction over the bank, the audit log and the job table, and a delivery may be cut short
    before any transaction: which one, and how, is its weather. The lemmas show that the checkpoint
    moves with the bank, so that deliveries one after the other import exactly once, that two at a
    time do not, and that a bank exported and imported is exported again as it was.
  \<^item> \<open>Job_Key\<close>, \<open>Worker_Queue\<close>, \<open>Scheduled_Job\<close>: \<open>apps/worker/src/idempotency.ts\<close>, \<open>queue-names.ts\<close>,
    \<open>queues.ts\<close>, \<open>dlq.ts\<close>, \<open>metrics.ts\<close>, \<open>jobs/scheduled.ts\<close> and the handlers of \<open>index.ts\<close>. An effect under a
    business key runs as actions of one or more processes over a store, whose contract is the locale
    \<open>result_store\<close>, interpreted on the in-memory store; what the queue library does when a job is added
    or has failed is an argument. The lemmas show that one process runs an effect once, that replicas may
    repeat it, and that a job which fails at every attempt leaves one dead letter, unless it could no
    longer be loaded.

  Bounds. Every loop is structural or has a measure (the bytes left, the value divided, the list
  walked), except the block loop of the prompt parser: it can fail to advance, so it runs on fuel and
  running out is its own result. The length of the prompt and two suffice for every prompt whose lines are
  \<open>tame\<close>, and \<open>parser_hangs\<close> shows that no fuel suffices for some others. Reading every page of a list
  (\<open>allPages\<close>) has fuel for the number of pages; one more than the rows that ever exist suffices, however the
  table changes between pages, and the export needs no more than one for each row of the bank and
  one. Counts read from the
  database are at most \<open>2 ^ 31\<close> where a theorem needs it, the range of the column type; instants lie
  in the range of the language's dates.

  Not modelled: the web front ends (\<open>apps/web\<close>, \<open>apps/candidate\<close>, \<open>packages/ui\<close>), which are user
  interface code; the taxonomy, assessment and identity tables and routes; the worker's
  readers of QTI packages and public datasets, its statistics sweep and trace contexts; the validation of request
  bodies and the generated interface description (\<open>packages/contracts\<close>), whose result types are the records
  here; the plugins of the HTTP server (cross-origin headers, rate limits); configuration,
  observability and the composition roots, which read the environment and bind sockets. Log lines,
  metrics and human-readable messages are left out throughout.
\<close>

end
